(* ===== verification/Wires_Prelude.thy ===== *)
theory Wires_Prelude
  imports Main "HOL-Library.Word" "HOL-Library.List_Lexorder" "HOL-Library.Char_ord"
    "HOL-Library.Sublist" "HOL-Library.Product_Lexorder"
begin

text \<open>
  The prelude of the library: what every component shares and no component of
  the program declares.

  \<^item> Rust's \<open>Result<T, E>\<close> is the sum \<open>'e + 'a\<close> (\<open>Inl\<close> the error); the \<open>?\<close> operator
    is \<open>and_then\<close>, and a \<open>for\<close> loop that returns the first error is \<open>all_ok\<close>.
  \<^item> A \<open>Vec<u8>\<close> or \<open>&[u8]\<close> is an \<open>8 word list\<close> (\<open>bytes\<close>); a \<open>String\<close> is the list of
    its UTF-8 bytes as Isabelle characters, so \<open>length\<close> is Rust's \<open>len()\<close>. The
    ASCII operations (lower case, \<open>split_once\<close>, \<open>trim\<close>) act on those bytes; \<open>trim\<close>
    knows the UTF-8 encodings of Unicode's white space.
  \<^item> An \<open>i64\<close> is an \<open>int\<close>, with the saturating operations the code uses written
    out; \<open>u32\<close> and \<open>u64\<close> are words.
  \<^item> Two collections of facts: \<open>result_simps\<close> (eliminating results) and \<open>ascii_simps\<close>.
\<close>

named_theorems result_simps
named_theorems ascii_simps

type_synonym bytes = "8 word list"
type_synonym u32 = "32 word"
type_synonym u64 = "64 word"
type_synonym i64 = int

section \<open>Results\<close>

definition and_then :: "'e + 'a \<Rightarrow> ('a \<Rightarrow> 'e + 'b) \<Rightarrow> 'e + 'b" where
  "and_then r f = (case r of Inl e \<Rightarrow> Inl e | Inr x \<Rightarrow> f x)"

definition map_err :: "('e \<Rightarrow> 'f) \<Rightarrow> 'e + 'a \<Rightarrow> 'f + 'a" where
  "map_err g r = (case r of Inl e \<Rightarrow> Inl (g e) | Inr x \<Rightarrow> Inr x)"

definition ok_or :: "'e \<Rightarrow> 'a option \<Rightarrow> 'e + 'a" where
  "ok_or e x = (case x of None \<Rightarrow> Inl e | Some y \<Rightarrow> Inr y)"

definition is_ok :: "'e + 'a \<Rightarrow> bool" where
  "is_ok r = (case r of Inl _ \<Rightarrow> False | Inr _ \<Rightarrow> True)"

definition res_ok :: "'e + 'a \<Rightarrow> 'a option" where
  "res_ok r = (case r of Inl _ \<Rightarrow> None | Inr x \<Rightarrow> Some x)"

text \<open>A loop \<open>for x in xs { f(x)?; }\<close>: the first error, in order.\<close>

fun all_ok :: "('a \<Rightarrow> 'e + unit) \<Rightarrow> 'a list \<Rightarrow> 'e + unit" where
  "all_ok f [] = Inr ()"
| "all_ok f (x # xs) = (case f x of Inl e \<Rightarrow> Inl e | Inr _ \<Rightarrow> all_ok f xs)"

lemma and_then_simps [simp]:
  "and_then (Inl e) f = Inl e"
  "and_then (Inr x) f = f x"
  by (simp_all add: and_then_def)

lemma and_then_Inr_iff [result_simps]:
  "and_then r f = Inr y \<longleftrightarrow> (\<exists>x. r = Inr x \<and> f x = Inr y)"
  by (cases r) auto

lemma and_then_Inl_iff [result_simps]:
  "and_then r f = Inl e \<longleftrightarrow> r = Inl e \<or> (\<exists>x. r = Inr x \<and> f x = Inl e)"
  by (cases r) auto

lemma map_err_simps [simp]:
  "map_err g (Inl e) = Inl (g e)"
  "map_err g (Inr x) = Inr x"
  by (simp_all add: map_err_def)

lemma map_err_Inr_iff [result_simps]: "map_err g r = Inr x \<longleftrightarrow> r = Inr x"
  by (cases r) auto

lemma ok_or_simps [simp]:
  "ok_or e None = Inl e"
  "ok_or e (Some x) = Inr x"
  by (simp_all add: ok_or_def)

lemma ok_or_Inr_iff [result_simps]: "ok_or e x = Inr y \<longleftrightarrow> x = Some y"
  by (cases x) auto

lemma is_ok_simps [simp]:
  "is_ok (Inl e) = False"
  "is_ok (Inr x) = True"
  by (simp_all add: is_ok_def)

lemma is_ok_iff [result_simps]: "is_ok r \<longleftrightarrow> (\<exists>x. r = Inr x)"
  by (cases r) auto

lemma res_ok_simps [simp]:
  "res_ok (Inl e) = None"
  "res_ok (Inr x) = Some x"
  by (simp_all add: res_ok_def)

lemma res_ok_Some_iff [result_simps]: "res_ok r = Some x \<longleftrightarrow> r = Inr x"
  by (cases r) auto

lemma all_ok_Inr_iff [result_simps]: "all_ok f xs = Inr u \<longleftrightarrow> (\<forall>x \<in> set xs. f x = Inr ())"
  by (induction xs) (auto split: sum.splits)

lemma all_ok_Inl:
  "all_ok f xs = Inl e \<Longrightarrow>
    \<exists>ys x zs. xs = ys @ x # zs \<and> f x = Inl e \<and> (\<forall>y \<in> set ys. f y = Inr ())"
proof (induction xs)
  case (Cons a xs)
  show ?case
  proof (cases "f a")
    case (Inl e')
    with Cons.prems show ?thesis by (intro exI[of _ "[]"]) simp
  next
    case (Inr u)
    with Cons obtain ys x zs where "xs = ys @ x # zs" "f x = Inl e" "\<forall>y \<in> set ys. f y = Inr ()"
      by auto
    with Inr show ?thesis by (intro exI[of _ "a # ys"]) auto
  qed
qed simp

section \<open>Lists\<close>

text \<open>\<open>iter().find(|d| !seen.insert(d))\<close>: the first element met before.\<close>

fun find_dup_from :: "'a list \<Rightarrow> 'a list \<Rightarrow> 'a option" where
  "find_dup_from seen [] = None"
| "find_dup_from seen (x # xs) =
     (if x \<in> set seen then Some x else find_dup_from (x # seen) xs)"

abbreviation find_dup :: "'a list \<Rightarrow> 'a option" where
  "find_dup xs \<equiv> find_dup_from [] xs"

text \<open>\<open>windows(2).find(|w| bad(w[0], w[1]))\<close>: the first adjacent pair in violation.\<close>

fun find_pair :: "('a \<Rightarrow> 'a \<Rightarrow> bool) \<Rightarrow> 'a list \<Rightarrow> ('a \<times> 'a) option" where
  "find_pair bad (x # y # zs) = (if bad x y then Some (x, y) else find_pair bad (y # zs))"
| "find_pair bad _ = None"

text \<open>\<open>iter().position(p)\<close>.\<close>

fun position :: "('a \<Rightarrow> bool) \<Rightarrow> 'a list \<Rightarrow> nat option" where
  "position p [] = None"
| "position p (x # xs) = (if p x then Some 0 else map_option Suc (position p xs))"

lemma find_dup_from_None:
  "find_dup_from seen xs = None \<longleftrightarrow> distinct xs \<and> set xs \<inter> set seen = {}"
  by (induction xs arbitrary: seen) auto

lemma find_dup_None [simp]: "find_dup xs = None \<longleftrightarrow> distinct xs"
  by (simp add: find_dup_from_None)

lemma find_pair_None_sorted:
  assumes "transp R" and "\<And>x y. bad x y \<longleftrightarrow> \<not> R x y"
  shows "find_pair bad xs = None \<longleftrightarrow> sorted_wrt R xs"
proof (induction xs rule: induct_list012)
  case (3 x y zs)
  have "sorted_wrt R (x # y # zs) \<longleftrightarrow> R x y \<and> sorted_wrt R (y # zs)"
    by (rule sorted_wrt2[OF assms(1)])
  with 3 assms(2) show ?case by auto
qed auto

lemma position_Some_iff:
  "position p xs = Some i \<longleftrightarrow> i < length xs \<and> p (xs ! i) \<and> (\<forall>j<i. \<not> p (xs ! j))"
proof (induction xs arbitrary: i)
  case (Cons x xs)
  show ?case
  proof (cases i)
    case 0
    then show ?thesis by (auto)
  next
    case (Suc k)
    then show ?thesis using Cons[of k] by (auto simp: less_Suc_eq_0_disj)
  qed
qed simp

lemma find_Some_split:
  "List.find p xs = Some x \<longleftrightarrow> (\<exists>ys zs. xs = ys @ x # zs \<and> p x \<and> (\<forall>y \<in> set ys. \<not> p y))"
proof
  assume "List.find p xs = Some x"
  then show "\<exists>ys zs. xs = ys @ x # zs \<and> p x \<and> (\<forall>y \<in> set ys. \<not> p y)"
  proof (induction xs)
    case (Cons a xs)
    show ?case
    proof (cases "p a")
      case True
      with Cons.prems show ?thesis by (intro exI[of _ "[]"] exI[of _ xs]) auto
    next
      case False
      with Cons obtain ys zs where "xs = ys @ x # zs" "p x" "\<forall>y \<in> set ys. \<not> p y" by auto
      with False show ?thesis by (intro exI[of _ "a # ys"] exI[of _ zs]) auto
    qed
  qed simp
next
  assume "\<exists>ys zs. xs = ys @ x # zs \<and> p x \<and> (\<forall>y \<in> set ys. \<not> p y)"
  then obtain ys zs where xs: "xs = ys @ x # zs" and "p x" "\<forall>y \<in> set ys. \<not> p y" by blast
  then have "List.find p ys = None" by (simp add: find_None_iff)
  then show "List.find p xs = Some x"
    using xs \<open>p x\<close> by (induction ys arbitrary: xs) (auto split: if_splits)
qed

lemma find_SomeD: "List.find p xs = Some x \<Longrightarrow> x \<in> set xs \<and> p x"
  by (auto simp: find_Some_split)

lemma find_cong_on: "(\<And>x. x \<in> set xs \<Longrightarrow> p x = q x) \<Longrightarrow> List.find p xs = List.find q xs"
  by (induction xs) auto

section \<open>Integers\<close>

definition i64_max :: int where
  "i64_max = 9223372036854775807"

definition i64_min :: int where
  "i64_min = - 9223372036854775808"

definition clamp_i64 :: "int \<Rightarrow> i64" where
  "clamp_i64 x = max i64_min (min i64_max x)"

text \<open>\<open>i64::saturating_add\<close> and \<open>saturating_sub\<close>.\<close>

definition sat_add :: "i64 \<Rightarrow> i64 \<Rightarrow> i64" where
  "sat_add a b = clamp_i64 (a + b)"

definition sat_sub :: "i64 \<Rightarrow> i64 \<Rightarrow> i64" where
  "sat_sub a b = clamp_i64 (a - b)"

definition in_i64 :: "int \<Rightarrow> bool" where
  "in_i64 x \<longleftrightarrow> i64_min \<le> x \<and> x \<le> i64_max"

lemma clamp_i64_id [simp]: "in_i64 x \<Longrightarrow> clamp_i64 x = x"
  by (simp add: clamp_i64_def in_i64_def)

lemma in_i64_clamp [simp]: "in_i64 (clamp_i64 x)"
  by (simp add: clamp_i64_def in_i64_def i64_min_def i64_max_def)

lemma sat_add_le: "in_i64 a \<Longrightarrow> 0 \<le> b \<Longrightarrow> sat_add a b \<le> a + b"
  by (simp add: sat_add_def clamp_i64_def in_i64_def)

lemma sat_add_ge: "in_i64 a \<Longrightarrow> 0 \<le> b \<Longrightarrow> a \<le> sat_add a b"
  by (simp add: sat_add_def clamp_i64_def in_i64_def)

lemma sat_sub_nonneg_le: "0 \<le> b \<Longrightarrow> b \<le> i64_max \<Longrightarrow> sat_sub x a \<le> b \<longleftrightarrow> x - a \<le> b \<or> b = i64_max"
  by (auto simp: sat_sub_def clamp_i64_def i64_min_def i64_max_def)

section \<open>Strings\<close>

text \<open>\<open>char::is_ascii_lowercase\<close> and its kin, on a byte.\<close>

definition char_between :: "nat \<Rightarrow> nat \<Rightarrow> char \<Rightarrow> bool" where
  "char_between lo hi c \<longleftrightarrow> lo \<le> (of_char c :: nat) \<and> (of_char c :: nat) \<le> hi"

definition is_ascii_lower :: "char \<Rightarrow> bool" where
  "is_ascii_lower c \<longleftrightarrow> char_between 97 122 c"

definition is_ascii_upper :: "char \<Rightarrow> bool" where
  "is_ascii_upper c \<longleftrightarrow> char_between 65 90 c"

definition is_ascii_digit :: "char \<Rightarrow> bool" where
  "is_ascii_digit c \<longleftrightarrow> char_between 48 57 c"

definition is_ascii_alnum :: "char \<Rightarrow> bool" where
  "is_ascii_alnum c \<longleftrightarrow> is_ascii_lower c \<or> is_ascii_upper c \<or> is_ascii_digit c"

definition lower_char :: "char \<Rightarrow> char" where
  "lower_char c = (if is_ascii_upper c then char_of (of_char c + 32 :: nat) else c)"

text \<open>\<open>str::to_ascii_lowercase\<close> and \<open>eq_ignore_ascii_case\<close>.\<close>

definition ascii_lower :: "string \<Rightarrow> string" where
  "ascii_lower s = map lower_char s"

definition eq_ignore_case :: "string \<Rightarrow> string \<Rightarrow> bool" where
  "eq_ignore_case s t \<longleftrightarrow> ascii_lower s = ascii_lower t"

text \<open>\<open>str::split_once(c)\<close> and \<open>rsplit_once(c)\<close>: around the first (last) \<open>c\<close>.\<close>

definition split_once :: "char \<Rightarrow> string \<Rightarrow> (string \<times> string) option" where
  "split_once c s = map_option (\<lambda>i. (take i s, drop (Suc i) s)) (position (\<lambda>x. x = c) s)"

definition rsplit_once :: "char \<Rightarrow> string \<Rightarrow> (string \<times> string) option" where
  "rsplit_once c s = map_option (\<lambda>(a, b). (rev b, rev a)) (split_once c (rev s))"

text \<open>\<open>str::split(c)\<close>: every part, empty ones included.\<close>

fun split_char :: "char \<Rightarrow> string \<Rightarrow> string list" where
  "split_char c [] = [[]]"
| "split_char c (x # xs) =
     (if x = c then [] # split_char c xs
      else (case split_char c xs of [] \<Rightarrow> [[x]] | p # ps \<Rightarrow> (x # p) # ps))"

definition strip_prefix :: "string \<Rightarrow> string \<Rightarrow> string option" where
  "strip_prefix p s = (if prefix p s then Some (drop (length p) s) else None)"

text \<open>The UTF-8 encodings of the characters with Unicode's \<open>White_Space\<close> property.\<close>

definition white_space :: "string list" where
  "white_space =
     map (\<lambda>n. [char_of (n :: nat)]) [9, 10, 11, 12, 13, 32]
     @ map (map (char_of :: nat \<Rightarrow> char))
         ([[194, 133], [194, 160], [225, 154, 128]]
          @ map (\<lambda>n. [226, 128, n]) [128, 129, 130, 131, 132, 133, 134, 135, 136, 137, 138, 168, 169, 175]
          @ [[226, 129, 159], [227, 128, 128]])"

function trim_front :: "string list \<Rightarrow> string \<Rightarrow> string" where
  "trim_front ws s =
     (case List.find (\<lambda>w. w \<noteq> [] \<and> prefix w s) ws of
        None \<Rightarrow> s
      | Some w \<Rightarrow> trim_front ws (drop (length w) s))"
  by pat_completeness auto
termination
  by (relation "measure (\<lambda>(ws, s). length s)") (auto simp: prefix_def dest: find_SomeD)

declare trim_front.simps [simp del]

text \<open>\<open>str::trim\<close>.\<close>

definition trim :: "string \<Rightarrow> string" where
  "trim s = rev (trim_front (map rev white_space) (rev (trim_front white_space s)))"

text \<open>\<open>char::is_control\<close> (Unicode's \<open>Cc\<close>) somewhere in the text: a byte below 32, 127, or
  the two-byte encoding of U+0080 to U+009F.\<close>

fun has_control :: "string \<Rightarrow> bool" where
  "has_control [] = False"
| "has_control (c # s) =
     (char_between 0 31 c \<or> of_char c = (127 :: nat)
      \<or> (of_char c = (194 :: nat) \<and> (case s of [] \<Rightarrow> False | d # _ \<Rightarrow> char_between 128 159 d))
      \<or> has_control s)"

lemma lower_char_lower [simp]: "lower_char (lower_char c) = lower_char c"
proof (cases "is_ascii_upper c")
  case True
  then have b: "65 \<le> (of_char c :: nat)" "(of_char c :: nat) \<le> 90"
    by (auto simp: is_ascii_upper_def char_between_def)
  then have "of_char (char_of (of_char c + 32 :: nat)) = (of_char c + 32 :: nat)"
    by (simp add: of_char_of)
  with b True show ?thesis
    by (simp add: lower_char_def is_ascii_upper_def char_between_def)
qed (simp add: lower_char_def)

lemma lower_char_upper: "is_ascii_upper c \<Longrightarrow> is_ascii_lower (lower_char c)"
proof -
  assume up: "is_ascii_upper c"
  then have b: "65 \<le> (of_char c :: nat)" "(of_char c :: nat) \<le> 90"
    by (auto simp: is_ascii_upper_def char_between_def)
  then have "of_char (char_of (of_char c + 32 :: nat)) = (of_char c + 32 :: nat)"
    by (simp add: of_char_of)
  with b up show ?thesis
    by (simp add: lower_char_def is_ascii_lower_def char_between_def)
qed

lemma lower_char_other:
  "\<not> is_ascii_upper d \<Longrightarrow> \<not> is_ascii_lower d \<Longrightarrow> lower_char c = d \<longleftrightarrow> c = d"
  using lower_char_upper[of c] by (cases "is_ascii_upper c") (auto simp: lower_char_def)

lemma ascii_lower_Nil [simp]: "ascii_lower [] = []" "ascii_lower s = [] \<longleftrightarrow> s = []"
  by (simp_all add: ascii_lower_def)

lemma set_ascii_lower_other:
  "\<not> is_ascii_upper d \<Longrightarrow> \<not> is_ascii_lower d \<Longrightarrow> d \<in> set (ascii_lower s) \<longleftrightarrow> d \<in> set s"
proof (induction s)
  case (Cons a s)
  then show ?case
    using lower_char_other[of d a] by (simp add: ascii_lower_def eq_commute[of d])
qed simp

lemma ascii_lower_lower [simp, ascii_simps]: "ascii_lower (ascii_lower s) = ascii_lower s"
  by (simp add: ascii_lower_def)

lemma length_ascii_lower [simp]: "length (ascii_lower s) = length s"
  by (simp add: ascii_lower_def)

lemma eq_ignore_case_refl [simp]: "eq_ignore_case s s"
  by (simp add: eq_ignore_case_def)

lemma eq_ignore_case_lower [simp, ascii_simps]:
  "eq_ignore_case (ascii_lower s) t = eq_ignore_case s t"
  "eq_ignore_case s (ascii_lower t) = eq_ignore_case s t"
  by (simp_all add: eq_ignore_case_def)

lemma eq_ignore_case_sym: "eq_ignore_case s t \<Longrightarrow> eq_ignore_case t s"
  by (simp add: eq_ignore_case_def)

lemma eq_ignore_case_trans: "eq_ignore_case s t \<Longrightarrow> eq_ignore_case t u \<Longrightarrow> eq_ignore_case s u"
  by (simp add: eq_ignore_case_def)

lemma split_once_Cons [simp]:
  "split_once c (x # s) =
     (if x = c then Some ([], s) else map_option (\<lambda>(a, b). (x # a, b)) (split_once c s))"
  by (simp add: split_once_def option.map_comp comp_def)

lemma split_once_Nil [simp]: "split_once c [] = None"
  by (simp add: split_once_def)

lemma split_once_Some_iff:
  "split_once c s = Some (a, b) \<longleftrightarrow> s = a @ c # b \<and> c \<notin> set a"
proof (induction s arbitrary: a)
  case (Cons x s)
  show ?case by (cases a) (auto simp: Cons.IH)
qed simp

lemma split_once_None_iff: "split_once c s = None \<longleftrightarrow> c \<notin> set s"
  by (induction s) auto

lemma rsplit_once_Some_iff:
  "rsplit_once c s = Some (a, b) \<longleftrightarrow> s = a @ c # b \<and> c \<notin> set b"
proof -
  have "rsplit_once c s = Some (a, b) \<longleftrightarrow> split_once c (rev s) = Some (rev b, rev a)"
    by (auto simp: rsplit_once_def)
  moreover have "split_once c (rev s) = Some (rev b, rev a) \<longleftrightarrow> rev s = rev b @ c # rev a \<and> c \<notin> set b"
    by (simp add: split_once_Some_iff)
  moreover have "rev s = rev (a @ c # b) \<longleftrightarrow> s = a @ c # b"
    by (rule rev_is_rev_conv)
  ultimately show ?thesis by simp
qed

lemma strip_prefix_Some_iff: "strip_prefix p s = Some t \<longleftrightarrow> s = p @ t"
  by (auto simp: strip_prefix_def prefix_def)

lemma trim_front_id: "(\<And>w. w \<in> set ws \<Longrightarrow> \<not> prefix w s) \<Longrightarrow> trim_front ws s = s"
proof -
  assume "\<And>w. w \<in> set ws \<Longrightarrow> \<not> prefix w s"
  then have "List.find (\<lambda>w. w \<noteq> [] \<and> prefix w s) ws = None" by (auto simp: find_None_iff)
  then show ?thesis by (simp add: trim_front.simps)
qed

lemma trim_id: "(\<And>w. w \<in> set white_space \<Longrightarrow> \<not> prefix w s \<and> \<not> suffix w s) \<Longrightarrow> trim s = s"
proof -
  assume w: "\<And>w. w \<in> set white_space \<Longrightarrow> \<not> prefix w s \<and> \<not> suffix w s"
  have "trim_front (map rev white_space) (rev s) = rev s"
    using w by (intro trim_front_id) (auto simp: suffix_to_prefix)
  then show ?thesis using w by (simp add: trim_def trim_front_id)
qed

lemma trim_plain:
  assumes "list_all (char_between 33 126) s"
  shows "trim s = s"
proof (rule trim_id)
  fix w assume w: "w \<in> set white_space"
  have "list_all (\<lambda>w. w \<noteq> [] \<and> \<not> char_between 33 126 (hd w) \<and> \<not> char_between 33 126 (last w)) white_space"
    by (simp add: white_space_def char_between_def)
  with w have ends: "w \<noteq> []" "\<not> char_between 33 126 (hd w)" "\<not> char_between 33 126 (last w)"
    by (auto simp: list_all_iff)
  have "hd w \<in> set s \<and> last w \<in> set s" if "prefix w s \<or> suffix w s"
    using that ends(1) by (auto simp: prefix_def suffix_def)
  then show "\<not> prefix w s \<and> \<not> suffix w s"
    using assms ends(2,3) by (auto simp: list_all_iff)
qed

lemma split_char_nonempty [simp]: "split_char c s \<noteq> []"
  by (induction s) (auto split: list.splits)

lemma split_char_no_sep: "p \<in> set (split_char c s) \<Longrightarrow> c \<notin> set p"
  by (induction s arbitrary: p) (auto split: list.splits if_splits)

section \<open>Bytes\<close>

text \<open>\<open>str::as_bytes\<close>, and the text of bytes known to be UTF-8.\<close>

definition as_bytes :: "string \<Rightarrow> bytes" where
  "as_bytes s = map (\<lambda>c. word_of_nat (of_char c)) s"

definition text_of :: "bytes \<Rightarrow> string" where
  "text_of b = map (\<lambda>w. char_of (unat w)) b"

definition utf8_tail :: "8 word \<Rightarrow> bool" where
  "utf8_tail w \<longleftrightarrow> 128 \<le> unat w \<and> unat w \<le> 191"

text \<open>\<open>String::from_utf8\<close> accepts exactly the well-formed sequences (no overlong form, no
  surrogate, nothing above U+10FFFF).\<close>

fun utf8_valid :: "bytes \<Rightarrow> bool" where
  "utf8_valid [] = True"
| "utf8_valid (a # r) =
     (let n = unat a in
      if n < 128 then utf8_valid r
      else if 194 \<le> n \<and> n \<le> 223 then
        (case r of b # r' \<Rightarrow> utf8_tail b \<and> utf8_valid r' | _ \<Rightarrow> False)
      else if 224 \<le> n \<and> n \<le> 239 then
        (case r of b # c # r' \<Rightarrow>
           utf8_tail b \<and> utf8_tail c
           \<and> (n = 224 \<longrightarrow> 160 \<le> unat b) \<and> (n = 237 \<longrightarrow> unat b \<le> 159) \<and> utf8_valid r'
         | _ \<Rightarrow> False)
      else if 240 \<le> n \<and> n \<le> 244 then
        (case r of b # c # d # r' \<Rightarrow>
           utf8_tail b \<and> utf8_tail c \<and> utf8_tail d
           \<and> (n = 240 \<longrightarrow> 144 \<le> unat b) \<and> (n = 244 \<longrightarrow> unat b \<le> 143) \<and> utf8_valid r'
         | _ \<Rightarrow> False)
      else False)"

definition from_utf8 :: "bytes \<Rightarrow> string option" where
  "from_utf8 b = (if utf8_valid b then Some (text_of b) else None)"

text \<open>\<open>u32::to_be_bytes\<close> and \<open>from_be_bytes\<close>, on the number itself.\<close>

definition be32 :: "nat \<Rightarrow> bytes" where
  "be32 n = [word_of_nat (n div 16777216), word_of_nat (n div 65536),
             word_of_nat (n div 256), word_of_nat n]"

definition of_be32 :: "8 word \<Rightarrow> 8 word \<Rightarrow> 8 word \<Rightarrow> 8 word \<Rightarrow> nat" where
  "of_be32 a b c d = ((unat a * 256 + unat b) * 256 + unat c) * 256 + unat d"

lemma length_be32 [simp]: "length (be32 n) = 4"
  by (simp add: be32_def)

lemma of_be32_be32:
  assumes "n < 2 ^ 32"
  shows "of_be32 (word_of_nat (n div 16777216)) (word_of_nat (n div 65536))
           (word_of_nat (n div 256)) (word_of_nat n) = n"
proof -
  have u: "unat (word_of_nat m :: 8 word) = m mod 256" for m
    by (simp add: unat_of_nat)
  define q1 where "q1 = n div 256"
  define q2 where "q2 = q1 div 256"
  define q3 where "q3 = q2 div 256"
  have d: "n div 16777216 = q3" "n div 65536 = q2"
    by (simp_all add: q1_def q2_def q3_def flip: div_mult2_eq)
  have "q3 < 256" using assms d(1) by (simp add: div_less_iff_less_mult flip: d(1))
  then have "q3 mod 256 * 256 + q2 mod 256 = q2" by (simp add: q3_def)
  moreover have "q2 * 256 + q1 mod 256 = q1" by (simp add: q2_def)
  moreover have "q1 * 256 + n mod 256 = n" by (simp add: q1_def)
  ultimately show ?thesis
    by (simp only: of_be32_def u d q1_def[symmetric])
qed

lemma of_be32_bound: "of_be32 a b c d < 2 ^ 32"
proof -
  have "unat a < 256" "unat b < 256" "unat c < 256" "unat d < 256"
    using unsigned_less[of a] unsigned_less[of b] unsigned_less[of c] unsigned_less[of d] by simp_all
  then show ?thesis by (simp add: of_be32_def)
qed

lemma text_of_as_bytes [simp]: "text_of (as_bytes s) = s"
proof -
  have "unat (word_of_nat (of_char c) :: 8 word) = (of_char c :: nat)" for c :: char
    by (simp add: unat_of_nat)
  then show ?thesis by (simp add: text_of_def as_bytes_def map_idI)
qed

lemma as_bytes_inject [simp]: "as_bytes s = as_bytes t \<longleftrightarrow> s = t"
  using text_of_as_bytes by metis

lemma length_as_bytes [simp]: "length (as_bytes s) = length s"
  by (simp add: as_bytes_def)

end
