(* ===== verification/Ordered_Maps.thy ===== *)
theory Ordered_Maps
  imports Wires_Prelude
begin

text \<open>
  \<open>BTreeMap\<close> and \<open>BTreeSet\<close> of Rust's standard library: a map is the association list of
  its entries in ascending key order (what \<open>iter()\<close> yields), a set the ascending list of its
  elements. The operations are those of \<open>get\<close>, \<open>insert\<close>, \<open>remove\<close>, \<open>retain\<close> and
  \<open>FromIterator\<close>; \<open>bm_ok\<close> is the representation invariant. The locale \<open>keyed_map\<close>
  is the interface the components use; the interpretation \<open>bm\<close> discharges it here.
\<close>

type_synonym ('k, 'v) btree_map = "('k \<times> 'v) list"
type_synonym 'a btree_set = "'a list"

named_theorems map_simps

section \<open>The interface of a keyed map\<close>

locale keyed_map =
  fixes get :: "'m \<Rightarrow> 'k \<Rightarrow> 'v option"
    and put :: "'k \<Rightarrow> 'v \<Rightarrow> 'm \<Rightarrow> 'm"
    and del :: "'k \<Rightarrow> 'm \<Rightarrow> 'm"
    and emp :: "'m"
    and good :: "'m \<Rightarrow> bool"
  assumes get_emp: "get emp k = None"
    and get_put: "good m \<Longrightarrow> get (put k v m) k' = (if k' = k then Some v else get m k')"
    and get_del: "good m \<Longrightarrow> get (del k m) k' = (if k' = k then None else get m k')"
    and good_emp: "good emp"
    and good_put: "good m \<Longrightarrow> good (put k v m)"
    and good_del: "good m \<Longrightarrow> good (del k m)"
begin

text \<open>Inserting a list of entries one by one: the last binding of a key wins.\<close>

lemma good_fold_put: "good m \<Longrightarrow> good (fold (\<lambda>(k, v). put k v) kvs m)"
  by (induction kvs arbitrary: m) (auto simp: good_put)

lemma get_fold_put:
  "good m \<Longrightarrow> get (fold (\<lambda>(k, v). put k v) kvs m) k' =
     (case map_of (rev kvs) k' of Some v \<Rightarrow> Some v | None \<Rightarrow> get m k')"
proof (induction kvs arbitrary: m)
  case (Cons kv kvs)
  obtain k v where kv: "kv = (k, v)" by (cases kv)
  have "good (put k v m)" using Cons.prems by (rule good_put)
  then show ?case
    using Cons.IH[of "put k v m"] Cons.prems
    by (auto simp: kv get_put map_add_def split: option.splits)
qed simp

lemma get_del_put: "good m \<Longrightarrow> get (del k (put k v m)) k' = (if k' = k then None else get m k')"
  by (simp add: get_del get_put good_put)

lemma good_fold_del: "good m \<Longrightarrow> good (fold del ks m)"
  by (induction ks arbitrary: m) (auto simp: good_del)

lemma get_fold_del: "good m \<Longrightarrow> get (fold del ks m) k' = (if k' \<in> set ks then None else get m k')"
  by (induction ks arbitrary: m) (auto simp: good_del get_del)

end

section \<open>The map\<close>

definition bm_ok :: "('k :: linorder, 'v) btree_map \<Rightarrow> bool" where
  "bm_ok m \<longleftrightarrow> sorted_wrt (<) (map fst m)"

abbreviation bm_get :: "('k, 'v) btree_map \<Rightarrow> 'k \<Rightarrow> 'v option" where
  "bm_get \<equiv> map_of"

definition bm_has :: "('k, 'v) btree_map \<Rightarrow> 'k \<Rightarrow> bool" where
  "bm_has m k \<longleftrightarrow> k \<in> fst ` set m"

fun bm_put :: "('k :: linorder) \<Rightarrow> 'v \<Rightarrow> ('k, 'v) btree_map \<Rightarrow> ('k, 'v) btree_map" where
  "bm_put k v [] = [(k, v)]"
| "bm_put k v ((k', v') # m) =
     (if k < k' then (k, v) # (k', v') # m
      else if k = k' then (k, v) # m
      else (k', v') # bm_put k v m)"

definition bm_del :: "'k \<Rightarrow> ('k, 'v) btree_map \<Rightarrow> ('k, 'v) btree_map" where
  "bm_del k m = filter (\<lambda>kv. fst kv \<noteq> k) m"

definition bm_retain :: "('k \<Rightarrow> 'v \<Rightarrow> bool) \<Rightarrow> ('k, 'v) btree_map \<Rightarrow> ('k, 'v) btree_map" where
  "bm_retain p m = filter (\<lambda>(k, v). p k v) m"

definition bm_from :: "('k :: linorder \<times> 'v) list \<Rightarrow> ('k, 'v) btree_map" where
  "bm_from kvs = fold (\<lambda>(k, v). bm_put k v) kvs []"

definition bm_map :: "('k \<Rightarrow> 'v \<Rightarrow> 'w) \<Rightarrow> ('k, 'v) btree_map \<Rightarrow> ('k, 'w) btree_map" where
  "bm_map f m = map (\<lambda>(k, v). (k, f k v)) m"

lemma bm_ok_Nil [simp, intro]: "bm_ok []"
  by (simp add: bm_ok_def)

lemma bm_ok_Cons [simp]: "bm_ok (kv # m) \<longleftrightarrow> (\<forall>k' \<in> fst ` set m. fst kv < k') \<and> bm_ok m"
  by (auto simp: bm_ok_def)

lemma bm_ok_distinct: "bm_ok m \<Longrightarrow> distinct (map fst m)"
  by (simp add: bm_ok_def strict_sorted_iff)

lemma bm_has_iff [map_simps]: "bm_has m k \<longleftrightarrow> bm_get m k \<noteq> None"
  by (auto simp: bm_has_def map_of_eq_None_iff)

lemma bm_get_iff: "bm_ok m \<Longrightarrow> bm_get m k = Some v \<longleftrightarrow> (k, v) \<in> set m"
  by (simp add: bm_ok_distinct)

lemma keys_bm_put [simp]: "fst ` set (bm_put k v m) = insert k (fst ` set m)"
  by (induction k v m rule: bm_put.induct) auto

lemma bm_ok_put [simp, intro]: "bm_ok m \<Longrightarrow> bm_ok (bm_put k v m)"
  by (induction k v m rule: bm_put.induct) auto

lemma bm_get_put [simp]:
  "bm_ok m \<Longrightarrow> bm_get (bm_put k v m) k' = (if k' = k then Some v else bm_get m k')"
proof (induction k v m rule: bm_put.induct)
  case (2 k v k1 v1 m)
  have "bm_get m k = None" if "k \<le> k1"
    using 2(2) that by (auto simp: map_of_eq_None_iff)
  with 2 show ?case by auto
qed simp

lemma bm_ok_filter [simp, intro]: "bm_ok m \<Longrightarrow> bm_ok (filter p m)"
  by (induction m) auto

lemma bm_ok_del [simp, intro]: "bm_ok m \<Longrightarrow> bm_ok (bm_del k m)"
  by (simp add: bm_del_def)

lemma bm_ok_retain [simp, intro]: "bm_ok m \<Longrightarrow> bm_ok (bm_retain p m)"
  by (simp add: bm_retain_def)

lemma bm_get_del [simp]: "bm_get (bm_del k m) k' = (if k' = k then None else bm_get m k')"
  unfolding bm_del_def by (induction m) auto

lemma bm_get_retain [simp]:
  "bm_ok m \<Longrightarrow> bm_get (bm_retain p m) k =
     (case bm_get m k of Some v \<Rightarrow> if p k v then Some v else None | None \<Rightarrow> None)"
  unfolding bm_retain_def
proof (induction m)
  case (Cons kv m)
  have "bm_get m (fst kv) = None" using Cons.prems by (auto simp: map_of_eq_None_iff)
  then have "bm_get (filter (\<lambda>(k, v). p k v) m) (fst kv) = None"
    by (auto simp: map_of_eq_None_iff)
  with Cons show ?case by (auto split: option.splits)
qed simp

lemma set_bm_retain [simp]: "set (bm_retain p m) = {(k, v) \<in> set m. p k v}"
  by (auto simp: bm_retain_def)

lemma set_bm_del [simp]: "set (bm_del k m) = {kv \<in> set m. fst kv \<noteq> k}"
  by (simp add: bm_del_def)

lemma bm_map_keys [simp]: "map fst (bm_map f m) = map fst m"
  by (auto simp: bm_map_def)

lemma bm_ok_map [simp, intro]: "bm_ok (bm_map f m) \<longleftrightarrow> bm_ok m"
  by (simp add: bm_ok_def)

lemma bm_get_map [simp]: "bm_get (bm_map f m) k = map_option (f k) (bm_get m k)"
  unfolding bm_map_def by (induction m) auto

text \<open>Two maps with the same bindings are the same list: the representation is canonical.\<close>

lemma bm_ext:
  assumes "bm_ok m" "bm_ok m'" "\<And>k. bm_get m k = bm_get m' k"
  shows "m = m'"
proof -
  have s: "set m = set m'"
  proof -
    have "(k, v) \<in> set m \<longleftrightarrow> (k, v) \<in> set m'" for k v
      using assms(3)[of k] bm_get_iff[OF assms(1), of k v] bm_get_iff[OF assms(2), of k v] by simp
    then show ?thesis by auto
  qed
  moreover have "inj_on fst (set m)"
    using bm_ok_distinct[OF assms(1)] by (simp add: distinct_map)
  ultimately show ?thesis
    using assms(1,2) by (intro map_sorted_distinct_set_unique[of fst])
      (auto simp: bm_ok_def strict_sorted_iff)
qed

lemma bm_ok_from [simp, intro]: "bm_ok (bm_from kvs)"
proof -
  have "bm_ok m \<Longrightarrow> bm_ok (fold (\<lambda>(k, v). bm_put k v) kvs m)" for m
    by (induction kvs arbitrary: m) auto
  then show ?thesis by (simp add: bm_from_def)
qed

interpretation bm: keyed_map bm_get bm_put bm_del "[]" bm_ok
  by unfold_locales auto

lemma bm_get_from: "bm_get (bm_from kvs) k = bm_get (rev kvs) k"
  using bm.get_fold_put[of "[]" kvs k] by (auto simp: bm_from_def split: option.splits)

lemma bm_get_from_distinct [simp]: "distinct (map fst kvs) \<Longrightarrow> bm_get (bm_from kvs) k = bm_get kvs k"
  by (simp add: bm_get_from) (metis (full_types) distinct_rev map_of_inject_set rev_map set_rev)

lemma bm_put_last:
  "\<forall>k' \<in> fst ` set m. k' < k \<Longrightarrow> bm_put k v m = m @ [(k, v)]"
  by (induction k v m rule: bm_put.induct) auto

lemma bm_from_id: "bm_ok m \<Longrightarrow> bm_from m = m"
  by (rule bm_ext) (auto dest: bm_ok_distinct)

section \<open>The set\<close>

definition bs_ok :: "('a :: linorder) btree_set \<Rightarrow> bool" where
  "bs_ok s \<longleftrightarrow> sorted_wrt (<) s"

fun bs_put :: "('a :: linorder) \<Rightarrow> 'a btree_set \<Rightarrow> 'a btree_set" where
  "bs_put x [] = [x]"
| "bs_put x (y # s) = (if x < y then x # y # s else if x = y then y # s else y # bs_put x s)"

definition bs_del :: "'a \<Rightarrow> 'a btree_set \<Rightarrow> 'a btree_set" where
  "bs_del x s = filter (\<lambda>y. y \<noteq> x) s"

definition bs_from :: "('a :: linorder) list \<Rightarrow> 'a btree_set" where
  "bs_from xs = fold bs_put xs []"

lemma bs_ok_Nil [simp, intro]: "bs_ok []"
  by (simp add: bs_ok_def)

lemma bs_ok_Cons [simp]: "bs_ok (x # s) \<longleftrightarrow> (\<forall>y \<in> set s. x < y) \<and> bs_ok s"
  by (simp add: bs_ok_def)

lemma bs_ok_distinct: "bs_ok s \<Longrightarrow> distinct s"
  by (simp add: bs_ok_def strict_sorted_iff)

lemma set_bs_put [simp]: "set (bs_put x s) = insert x (set s)"
  by (induction x s rule: bs_put.induct) auto

lemma bs_ok_put [simp, intro]: "bs_ok s \<Longrightarrow> bs_ok (bs_put x s)"
  by (induction x s rule: bs_put.induct) auto

lemma set_bs_del [simp]: "set (bs_del x s) = set s - {x}"
  by (auto simp: bs_del_def)

lemma bs_ok_filter [simp, intro]: "bs_ok s \<Longrightarrow> bs_ok (filter p s)"
  by (induction s) auto

lemma bs_ok_del [simp, intro]: "bs_ok s \<Longrightarrow> bs_ok (bs_del x s)"
  by (simp add: bs_del_def)

lemma bs_from_props [simp]: "bs_ok (bs_from xs) \<and> set (bs_from xs) = set xs"
proof -
  have "bs_ok s \<Longrightarrow> bs_ok (fold bs_put xs s) \<and> set (fold bs_put xs s) = set xs \<union> set s" for s
    by (induction xs arbitrary: s) auto
  then show ?thesis by (simp add: bs_from_def)
qed

lemma bs_ext: "bs_ok s \<Longrightarrow> bs_ok t \<Longrightarrow> set s = set t \<Longrightarrow> s = t"
  by (simp add: bs_ok_def strict_sorted_equal)

lemma bs_from_id: "bs_ok s \<Longrightarrow> bs_from s = s"
  using bs_from_props[of s] by (intro bs_ext) auto

lemma bm_keys_ok: "bm_ok m \<longleftrightarrow> bs_ok (map fst m)"
  by (simp add: bm_ok_def bs_ok_def)

end
