(* ===== verification/Json_Value.thy ===== *)
theory Json_Value
  imports Ordered_Maps "HOL-Library.Monad_Syntax" "HOL-Library.Countable"
begin

text \<open>
  \<open>serde_json::Value\<close> and what \<open>serde\<close>'s derives do with it. A JSON object is the list of
  its members, in the order they stand in the text, repetitions included; \<open>obj\<close> builds the
  one \<open>serde_json::to_value\<close> builds (a \<open>BTreeMap\<close>: members sorted by key, a field that
  \<open>skip_serializing_if\<close> drops left out). Of a number that is no
  integer \<open>JFloat\<close> keeps what the code reads of one, its saturating cast to \<open>i64\<close>.
  \<open>struct_fields\<close> is the part of a derived
  \<open>Deserialize\<close> that a struct's fields share: known and unknown members, repetitions, and the
  positional form \<open>serde\<close> accepts from an array.

  The locale \<open>json_type\<close> is what a serialized type promises: its encoding is canonical
  and decodes to the value it came from. Every serialized type of the program interprets it.
\<close>

named_theorems json_simps

datatype json =
    JNull
  | JBool bool
  | JInt int
  | JFloat i64
  | JStr string
  | JArr "json list"
  | JObj "(string \<times> json) list"

instance json :: countable
  by countable_datatype

text \<open>What \<open>to_value\<close> makes: sorted members, integers within \<open>i64\<close> or \<open>u64\<close>, no float
  (no type of the program has one).\<close>

fun json_ok :: "json \<Rightarrow> bool" where
  "json_ok (JInt n) = (in_i64 n \<or> (0 \<le> n \<and> n < 2 ^ 64))"
| "json_ok (JFloat _) = False"
| "json_ok (JArr xs) = (\<forall>x \<in> set xs. json_ok x)"
| "json_ok (JObj kvs) = (bm_ok kvs \<and> (\<forall>kv \<in> set kvs. json_ok (snd kv)))"
| "json_ok _ = True"

section \<open>Serialize\<close>

definition kept_fields :: "(string \<times> json option) list \<Rightarrow> (string \<times> json) list" where
  "kept_fields kvs = List.map_filter (\<lambda>(k, v). map_option (Pair k) v) kvs"

definition obj :: "(string \<times> json option) list \<Rightarrow> json" where
  "obj kvs = JObj (bm_from (kept_fields kvs))"

definition j_u64 :: "u64 \<Rightarrow> json" where
  "j_u64 w = JInt (uint w)"

definition j_u32 :: "u32 \<Rightarrow> json" where
  "j_u32 w = JInt (uint w)"

definition j_u8 :: "8 word \<Rightarrow> json" where
  "j_u8 w = JInt (uint w)"

definition j_list :: "('a \<Rightarrow> json) \<Rightarrow> 'a list \<Rightarrow> json" where
  "j_list f xs = JArr (map f xs)"

definition j_opt :: "('a \<Rightarrow> json) \<Rightarrow> 'a option \<Rightarrow> json" where
  "j_opt f x = (case x of None \<Rightarrow> JNull | Some y \<Rightarrow> f y)"

definition j_map :: "('k \<Rightarrow> string) \<Rightarrow> ('v \<Rightarrow> json) \<Rightarrow> ('k, 'v) btree_map \<Rightarrow> json" where
  "j_map key f m = JObj (bm_from (map (\<lambda>(k, v). (key k, f v)) m))"

section \<open>Deserialize\<close>

definition struct_fields :: "string list \<Rightarrow> nat \<Rightarrow> bool \<Rightarrow> json \<Rightarrow> (string \<Rightarrow> json option) option" where
  "struct_fields names least deny j = (case j of
     JObj kvs \<Rightarrow>
       let known = filter (\<lambda>kv. fst kv \<in> set names) kvs in
       if distinct (map fst known) \<and> (deny \<longrightarrow> length known = length kvs)
       then Some (map_of known) else None
   | JArr xs \<Rightarrow>
       if least \<le> length xs \<and> length xs \<le> length names then Some (map_of (zip names xs)) else None
   | _ \<Rightarrow> None)"

text \<open>A required field, an \<open>Option\<close> field, and one with \<open>#[serde(default)]\<close>.\<close>

definition req :: "(string \<Rightarrow> json option) \<Rightarrow> string \<Rightarrow> (json \<Rightarrow> 'a option) \<Rightarrow> 'a option" where
  "req fs k d = (case fs k of None \<Rightarrow> None | Some j \<Rightarrow> d j)"

definition opt_field :: "(string \<Rightarrow> json option) \<Rightarrow> string \<Rightarrow> (json \<Rightarrow> 'a option) \<Rightarrow> 'a option option" where
  "opt_field fs k d = (case fs k of
     None \<Rightarrow> Some None | Some JNull \<Rightarrow> Some None | Some j \<Rightarrow> map_option Some (d j))"

definition default_field :: "(string \<Rightarrow> json option) \<Rightarrow> string \<Rightarrow> 'a \<Rightarrow> (json \<Rightarrow> 'a option) \<Rightarrow> 'a option" where
  "default_field fs k x d = (case fs k of None \<Rightarrow> Some x | Some j \<Rightarrow> d j)"

definition d_str :: "json \<Rightarrow> string option" where
  "d_str j = (case j of JStr s \<Rightarrow> Some s | _ \<Rightarrow> None)"

definition d_int :: "int \<Rightarrow> int \<Rightarrow> json \<Rightarrow> int option" where
  "d_int lo hi j = (case j of JInt n \<Rightarrow> if lo \<le> n \<and> n \<le> hi then Some n else None | _ \<Rightarrow> None)"

definition d_i64 :: "json \<Rightarrow> i64 option" where
  "d_i64 j = d_int i64_min i64_max j"

definition d_u64 :: "json \<Rightarrow> u64 option" where
  "d_u64 j = map_option word_of_int (d_int 0 (2 ^ 64 - 1) j)"

definition d_u32 :: "json \<Rightarrow> u32 option" where
  "d_u32 j = map_option word_of_int (d_int 0 (2 ^ 32 - 1) j)"

definition d_u8 :: "json \<Rightarrow> 8 word option" where
  "d_u8 j = map_option word_of_int (d_int 0 255 j)"

definition d_bool :: "json \<Rightarrow> bool option" where
  "d_bool j = (case j of JBool b \<Rightarrow> Some b | _ \<Rightarrow> None)"

fun all_some :: "('a \<Rightarrow> 'b option) \<Rightarrow> 'a list \<Rightarrow> 'b list option" where
  "all_some f [] = Some []"
| "all_some f (x # xs) = (case f x of None \<Rightarrow> None | Some y \<Rightarrow> map_option (Cons y) (all_some f xs))"

definition d_list :: "(json \<Rightarrow> 'a option) \<Rightarrow> json \<Rightarrow> 'a list option" where
  "d_list d j = (case j of JArr xs \<Rightarrow> all_some d xs | _ \<Rightarrow> None)"

text \<open>A \<open>BTreeMap\<close>: the members are inserted in order, so the last of a repeated key stays.\<close>

definition d_map :: "(string \<Rightarrow> ('k :: linorder) option) \<Rightarrow> (json \<Rightarrow> 'v option) \<Rightarrow> json \<Rightarrow> ('k, 'v) btree_map option" where
  "d_map key d j = (case j of
     JObj kvs \<Rightarrow> map_option bm_from
       (all_some (\<lambda>(k, v). case (key k, d v) of (Some k', Some v') \<Rightarrow> Some (k', v') | _ \<Rightarrow> None) kvs)
   | _ \<Rightarrow> None)"

section \<open>Laws\<close>

lemma kept_fields_simps [simp]:
  "kept_fields [] = []"
  "kept_fields ((k, Some v) # kvs) = (k, v) # kept_fields kvs"
  "kept_fields ((k, None) # kvs) = kept_fields kvs"
  by (simp_all add: kept_fields_def List.map_filter_simps)

lemma keys_kept_fields: "fst ` set (kept_fields kvs) \<subseteq> fst ` set kvs"
  by (force simp: kept_fields_def List.map_filter_def)

lemma distinct_kept_fields: "distinct (map fst kvs) \<Longrightarrow> distinct (map fst (kept_fields kvs))"
proof (induction kvs)
  case (Cons kv kvs)
  obtain k v where kv: "kv = (k, v)" by (cases kv)
  have "k \<notin> fst ` set (kept_fields kvs)" using Cons.prems keys_kept_fields[of kvs] by (auto simp: kv)
  with Cons show ?case by (cases v) (auto simp: kv)
qed simp

lemma map_of_kept_fields:
  "distinct (map fst kvs) \<Longrightarrow>
     map_of (kept_fields kvs) k = (case map_of kvs k of Some (Some v) \<Rightarrow> Some v | _ \<Rightarrow> None)"
proof (induction kvs)
  case (Cons kv kvs)
  obtain k' v where kv: "kv = (k', v)" by (cases kv)
  have "map_of kvs k' = None" using Cons.prems by (auto simp: kv map_of_eq_None_iff)
  with Cons show ?case by (cases v) (auto simp: kv)
qed simp

lemma struct_fields_obj [json_simps]:
  assumes "distinct (map fst kvs)" "fst ` set kvs \<subseteq> set names"
  shows "struct_fields names least deny (obj kvs) =
    Some (\<lambda>k. case map_of kvs k of Some (Some v) \<Rightarrow> Some v | _ \<Rightarrow> None)"
proof -
  let ?m = "bm_from (kept_fields kvs)"
  have d: "distinct (map fst (kept_fields kvs))" using assms(1) by (rule distinct_kept_fields)
  have g: "map_of ?m = map_of (kept_fields kvs)" by (rule ext) (simp add: d)
  then have "fst ` set ?m \<subseteq> set names"
    using keys_kept_fields[of kvs] assms(2) by (metis dom_map_of_conv_image_fst subset_trans)
  then have "filter (\<lambda>kv. fst kv \<in> set names) ?m = ?m"
    by (auto intro!: filter_True)
  then show ?thesis
    using map_of_kept_fields[OF assms(1)] bm_ok_distinct[OF bm_ok_from, of "kept_fields kvs"]
    by (simp add: struct_fields_def obj_def g) (rule ext, simp)
qed

lemma set_bm_from_distinct: "distinct (map fst kvs) \<Longrightarrow> set (bm_from kvs) = set kvs"
  for kvs :: "('k :: linorder \<times> 'v) list"
  by (metis bm_get_from_distinct bm_ok_distinct bm_ok_from map_of_inject_set ext)

lemma length_bm_from: "distinct (map fst kvs) \<Longrightarrow> length (bm_from kvs) = length kvs"
  for kvs :: "('k :: linorder \<times> 'v) list"
  using set_bm_from_distinct[of kvs] distinct_card[of kvs] distinct_card[of "bm_from kvs"]
    bm_ok_distinct[OF bm_ok_from, of kvs]
  by (simp add: distinct_map)

lemma set_kept_fields: "(k, v) \<in> set (kept_fields kvs) \<longleftrightarrow> (k, Some v) \<in> set kvs"
  by (induction kvs) (auto simp: kept_fields_def List.map_filter_simps split: option.splits)

lemma json_ok_obj [json_simps]:
  assumes "distinct (map fst kvs)"
  shows "json_ok (obj kvs) \<longleftrightarrow> list_all (\<lambda>kv. case snd kv of None \<Rightarrow> True | Some v \<Rightarrow> json_ok v) kvs"
proof -
  have "json_ok (obj kvs) \<longleftrightarrow> (\<forall>k v. (k, v) \<in> set (kept_fields kvs) \<longrightarrow> json_ok v)"
    using set_bm_from_distinct[OF distinct_kept_fields[OF assms]] by (auto simp: obj_def)
  also have "\<dots> \<longleftrightarrow> (\<forall>k v. (k, Some v) \<in> set kvs \<longrightarrow> json_ok v)"
    by (simp only: set_kept_fields)
  also have "\<dots> \<longleftrightarrow> list_all (\<lambda>kv. case snd kv of None \<Rightarrow> True | Some v \<Rightarrow> json_ok v) kvs"
    by (auto simp: list_all_iff split: option.splits)
  finally show ?thesis .
qed

lemma req_simps [json_simps]:
  "fs k = Some j \<Longrightarrow> req fs k d = d j"
  "fs k = None \<Longrightarrow> req fs k d = None"
  by (simp_all add: req_def)

lemma all_some_map: "(\<And>x. x \<in> set xs \<Longrightarrow> f (g x) = Some x) \<Longrightarrow> all_some f (map g xs) = Some xs"
  by (induction xs) auto

lemma all_some_Some_iff: "all_some f xs = Some ys \<longleftrightarrow> list_all2 (\<lambda>x y. f x = Some y) xs ys"
proof (induction xs arbitrary: ys)
  case (Cons x xs)
  show ?case by (cases ys) (auto simp: Cons.IH split: option.splits)
qed auto

lemma map_snd_by_keys:
  "distinct (map fst kvs) \<Longrightarrow> map snd kvs = map (\<lambda>k. the (map_of kvs k)) (map fst kvs)"
proof (induction kvs)
  case (Cons kv kvs)
  have "map (\<lambda>k. the (map_of (kv # kvs) k)) (map fst kvs) = map (\<lambda>k. the (map_of kvs k)) (map fst kvs)"
  proof (intro map_cong refl)
    fix k assume "k \<in> set (map fst kvs)"
    moreover have "fst kv \<notin> set (map fst kvs)"
      using Cons.prems unfolding list.map distinct.simps by blast
    ultimately have "k \<noteq> fst kv" by blast
    then show "the (map_of (kv # kvs) k) = the (map_of kvs k)" by (cases kv) simp
  qed
  with Cons show ?case by simp
qed simp

lemma obj_inj [json_simps]:
  assumes "map fst kvs = map fst kvs'" "distinct (map fst kvs)"
  shows "obj kvs = obj kvs' \<longleftrightarrow> map snd kvs = map snd kvs'"
proof
  assume "obj kvs = obj kvs'"
  then have b: "bm_from (kept_fields kvs) = bm_from (kept_fields kvs')" by (simp add: obj_def)
  have d': "distinct (map fst kvs')" using assms by simp
  have "map_of kvs k = map_of kvs' k" if k: "k \<in> set (map fst kvs)" for k
  proof -
    have "map_of (kept_fields kvs) k = map_of (kept_fields kvs') k"
      using arg_cong[OF b, of "\<lambda>m. map_of m k"] assms(2) d' by (simp add: distinct_kept_fields)
    moreover obtain x where "map_of kvs k = Some x" using k
      by (cases "map_of kvs k") (auto simp: map_of_eq_None_iff)
    moreover obtain x' where "map_of kvs' k = Some x'" using k unfolding assms(1)
      by (cases "map_of kvs' k") (auto simp: map_of_eq_None_iff)
    ultimately show ?thesis
      by (simp add: map_of_kept_fields assms(2) d' split: option.splits)
  qed
  then have "map (\<lambda>k. the (map_of kvs k)) (map fst kvs) = map (\<lambda>k. the (map_of kvs' k)) (map fst kvs)"
    by (intro map_cong) simp_all
  then show "map snd kvs = map snd kvs'"
    using map_snd_by_keys[OF assms(2)] map_snd_by_keys[OF d'] by (simp only: assms(1))
next
  assume "map snd kvs = map snd kvs'"
  with assms(1) have "kvs = kvs'" by (metis zip_map_fst_snd)
  then show "obj kvs = obj kvs'" by simp
qed

lemma j_list_inj: "(\<And>x y. f x = f y \<longleftrightarrow> x = y) \<Longrightarrow> j_list f xs = j_list f ys \<longleftrightarrow> xs = ys"
  by (simp add: j_list_def inj_map_eq_map inj_def)

lemma j_int_inj [simp]:
  "j_u64 a = j_u64 b \<longleftrightarrow> a = b" "j_u32 c = j_u32 d \<longleftrightarrow> c = d" "j_u8 e = j_u8 f \<longleftrightarrow> e = f"
  by (simp_all add: j_u64_def j_u32_def j_u8_def flip: word_uint_eq_iff)

text \<open>An internally tagged enum (\<open>#[serde(tag = "kind")]\<close>): the variant's name beside its
  fields, or first in the positional form.\<close>

definition tag_split :: "string \<Rightarrow> json \<Rightarrow> (string \<times> json) option" where
  "tag_split tag j = (case j of
     JObj kvs \<Rightarrow> (case filter (\<lambda>kv. fst kv = tag) kvs of
         [(_, JStr t)] \<Rightarrow> Some (t, JObj (filter (\<lambda>kv. fst kv \<noteq> tag) kvs))
       | _ \<Rightarrow> None)
   | JArr (JStr t # xs) \<Rightarrow> Some (t, JArr xs)
   | _ \<Rightarrow> None)"

lemma bm_filter_key:
  "bm_ok m \<Longrightarrow> filter (\<lambda>kv. fst kv = k) m = (case bm_get m k of None \<Rightarrow> [] | Some v \<Rightarrow> [(k, v)])"
proof (induction m)
  case (Cons kv m)
  have "bm_get m (fst kv) = None" using Cons.prems by (auto simp: map_of_eq_None_iff)
  with Cons show ?case by (cases kv) (auto split: option.splits)
qed simp

lemma tag_split_obj [json_simps]:
  assumes "distinct (map fst kvs)" "tag \<notin> fst ` set kvs"
  shows "tag_split tag (obj ((tag, Some (JStr t)) # kvs)) = Some (t, obj kvs)"
proof -
  let ?l = "(tag, JStr t) # kept_fields kvs"
  have tag: "tag \<notin> fst ` set (kept_fields kvs)" using assms(2) keys_kept_fields by blast
  have d: "distinct (map fst ?l)" using distinct_kept_fields[OF assms(1)] tag by simp
  have "bm_del tag (bm_from ?l) = bm_from (kept_fields kvs)"
  proof (rule bm_ext)
    fix k
    have "bm_get (kept_fields kvs) tag = None" using tag by (simp add: map_of_eq_None_iff)
    then show "bm_get (bm_del tag (bm_from ?l)) k = bm_get (bm_from (kept_fields kvs)) k"
      unfolding bm_get_del using d by (simp only: bm_get_from_distinct[OF d])
        (simp add: distinct_kept_fields[OF assms(1)])
  qed auto
  moreover have "bm_get (bm_from ?l) tag = Some (JStr t)"
    by (simp only: bm_get_from_distinct[OF d]) simp
  ultimately show ?thesis
    by (simp add: tag_split_def obj_def bm_del_def bm_filter_key)
qed

section \<open>The contract of a serialized type\<close>

locale json_type =
  fixes to_json :: "'a \<Rightarrow> json"
    and of_json :: "json \<Rightarrow> 'a option"
    and ok :: "'a \<Rightarrow> bool"
  assumes decode_encode: "ok x \<Longrightarrow> of_json (to_json x) = Some x"
    and encode_canonical: "ok x \<Longrightarrow> json_ok (to_json x)"
begin

lemma encode_inj: "ok x \<Longrightarrow> ok y \<Longrightarrow> to_json x = to_json y \<longleftrightarrow> x = y"
  using decode_encode by (metis option.inject)

lemma list_decode: "\<forall>x \<in> set xs. ok x \<Longrightarrow> d_list of_json (j_list to_json xs) = Some xs"
  by (simp add: d_list_def j_list_def all_some_map decode_encode)

lemma list_canonical: "\<forall>x \<in> set xs. ok x \<Longrightarrow> json_ok (j_list to_json xs)"
  by (simp add: j_list_def encode_canonical)

lemma opt_canonical: "\<forall>y. x = Some y \<longrightarrow> ok y \<Longrightarrow> json_ok (j_opt to_json x)"
  by (auto simp: j_opt_def encode_canonical split: option.splits)

lemma map_decode:
  assumes key: "\<And>k. k \<in> fst ` set m \<Longrightarrow> of_key (key k) = Some k"
    and m: "bm_ok m" and vals: "\<forall>v \<in> snd ` set m. ok v"
  shows "d_map of_key of_json (j_map key to_json m) = Some m"
proof -
  let ?kvs = "map (\<lambda>(k, v). (key k, to_json v)) m"
  let ?undo = "\<lambda>(k, v). case (of_key k, of_json v) of (Some k', Some v') \<Rightarrow> Some (k', v') | _ \<Rightarrow> None"
  have inj: "inj_on key (fst ` set m)"
    by (rule inj_onI) (metis key option.inject)
  have d: "distinct (map fst ?kvs)"
  proof -
    have "distinct (map key (map fst m))"
      using bm_ok_distinct[OF m] inj by (subst distinct_map) auto
    then show ?thesis by (simp add: comp_def case_prod_unfold)
  qed
  have inv: "?undo (key k, to_json v) = Some (k, v)" if "(k, v) \<in> set m" for k v
  proof -
    have "of_key (key k) = Some k" using that by (intro key) force
    moreover have "of_json (to_json v) = Some v" using that vals decode_encode by force
    ultimately show ?thesis by simp
  qed
  let ?l = "bm_from ?kvs"
  have sl: "set ?l = set ?kvs" by (rule set_bm_from_distinct[OF d])
  let ?ys = "map (the \<circ> ?undo) ?l"
  have some: "?undo kv \<noteq> None" if "kv \<in> set ?l" for kv
    using that inv by (force simp: sl)
  have all: "all_some ?undo ?l = Some ?ys"
    unfolding all_some_Some_iff using some by (auto simp: list_all2_conv_all_nth)
  have undo_set: "set ?ys = set m"
    using inv by (force simp: sl image_image)
  have len: "length ?ys = length m"
    by (simp add: length_bm_from[OF d])
  have "set (map fst ?ys) = set (map fst m)"
    using arg_cong[OF undo_set, of "image fst"] by (simp only: list.set_map)
  then have "card (set (map fst ?ys)) = length (map fst ?ys)"
    using distinct_card[OF bm_ok_distinct[OF m]] len by (simp only: length_map)
  then have dist: "distinct (map fst ?ys)"
    by (rule card_distinct)
  have "map_of ?ys = map_of m"
    using map_of_inject_set[OF dist bm_ok_distinct[OF m]] undo_set by blast
  then have "bm_from ?ys = m"
    using m bm_get_from_distinct[OF dist] by (intro bm_ext bm_ok_from) simp_all
  with all show ?thesis by (simp add: d_map_def j_map_def)
qed

lemma map_canonical:
  assumes "\<And>k. k \<in> fst ` set m \<Longrightarrow> of_key (key k) = Some k" "bm_ok m" "\<forall>v \<in> snd ` set m. ok v"
  shows "json_ok (j_map key to_json m)"
proof -
  have "inj_on key (fst ` set m)" by (rule inj_onI) (metis assms(1) option.inject)
  then have "distinct (map key (map fst m))"
    using bm_ok_distinct[OF assms(2)] by (subst distinct_map) auto
  then have "set (bm_from (map (\<lambda>(k, v). (key k, to_json v)) m)) = (\<lambda>(k, v). (key k, to_json v)) ` set m"
    using set_bm_from_distinct[of "map (\<lambda>(k, v). (key k, to_json v)) m"] by (simp add: comp_def case_prod_unfold)
  then show ?thesis using assms(3) encode_canonical by (auto simp: j_map_def)
qed

end

end
