(* ===== verification/Policy_Keys.thy ===== *)
theory Policy_Keys
  imports Json_Value
begin

text \<open>
  The names the program passes around and the keys of policy items
  (\<open>library/services/item.rs\<close>): node ids, signatures and hashes are words of their width
  (a \<open>[u8; 32]\<close> is a \<open>256 word\<close>, whose order is the derived byte order), \<open>Person\<close> and
  \<open>ItemKey\<close> are datatypes with the derived order as their \<open>linorder\<close> instance.
\<close>

type_synonym node_id = "256 word"
type_synonym signature = "512 word"
type_synonym seed = "256 word"
type_synonym hash256 = "256 word"
type_synonym state_version = u64
type_synonym role_name = string
type_synonym service_name = string
type_synonym issuer = string
type_synonym audience = string

section \<open>Person\<close>

datatype person = Person (person_issuer: issuer) (person_email: string)

definition person_new :: "issuer \<Rightarrow> string \<Rightarrow> person" where
  "person_new iss email = Person iss (ascii_lower (trim email))"

instantiation person :: linorder
begin

definition less_eq_person :: "person \<Rightarrow> person \<Rightarrow> bool" where
  "p \<le> q \<longleftrightarrow> (person_issuer p, person_email p) \<le> (person_issuer q, person_email q)"

definition less_person :: "person \<Rightarrow> person \<Rightarrow> bool" where
  "p < q \<longleftrightarrow> (person_issuer p, person_email p) < (person_issuer q, person_email q)"

instance
proof
  fix x y z :: person
  show "x < y \<longleftrightarrow> x \<le> y \<and> \<not> y \<le> x"
    unfolding less_eq_person_def less_person_def by (rule less_le_not_le)
  show "x \<le> x" by (simp add: less_eq_person_def)
  show "x \<le> y \<Longrightarrow> y \<le> z \<Longrightarrow> x \<le> z"
    unfolding less_eq_person_def by (rule order_trans)
  show "x \<le> y \<Longrightarrow> y \<le> x \<Longrightarrow> x = y"
    unfolding less_eq_person_def using order_antisym person.expand prod.inject by blast
  show "x \<le> y \<or> y \<le> x"
    unfolding less_eq_person_def by (rule linear)
qed

end

section \<open>ItemKey\<close>

datatype item_key =
    Key_Role role_name
  | Key_Service service_name
  | Key_Ban node_id
  | Key_PersonBan person
  | Key_Issuer issuer
  | Key_Settings

text \<open>The derived order: the constructors in declaration order, then the key's own.\<close>

fun key_rank :: "item_key \<Rightarrow> nat" where
  "key_rank (Key_Role _) = 0"
| "key_rank (Key_Service _) = 1"
| "key_rank (Key_Ban _) = 2"
| "key_rank (Key_PersonBan _) = 3"
| "key_rank (Key_Issuer _) = 4"
| "key_rank Key_Settings = 5"

fun key_code :: "item_key \<Rightarrow> nat \<times> string \<times> node_id \<times> person" where
  "key_code (Key_Role r) = (0, r, 0, Person [] [])"
| "key_code (Key_Service s) = (1, s, 0, Person [] [])"
| "key_code (Key_Ban n) = (2, [], n, Person [] [])"
| "key_code (Key_PersonBan p) = (3, [], 0, p)"
| "key_code (Key_Issuer i) = (4, i, 0, Person [] [])"
| "key_code Key_Settings = (5, [], 0, Person [] [])"

lemma key_code_inj [simp]: "key_code x = key_code y \<longleftrightarrow> x = y"
  by (cases x; cases y) auto

instantiation item_key :: linorder
begin

definition less_eq_item_key :: "item_key \<Rightarrow> item_key \<Rightarrow> bool" where
  "x \<le> y \<longleftrightarrow> key_code x \<le> key_code y"

definition less_item_key :: "item_key \<Rightarrow> item_key \<Rightarrow> bool" where
  "x < y \<longleftrightarrow> key_code x < key_code y"

instance
proof
  fix x y z :: item_key
  show "x < y \<longleftrightarrow> x \<le> y \<and> \<not> y \<le> x"
    unfolding less_eq_item_key_def less_item_key_def by (rule less_le_not_le)
  show "x \<le> x" by (simp add: less_eq_item_key_def)
  show "x \<le> y \<Longrightarrow> y \<le> z \<Longrightarrow> x \<le> z"
    unfolding less_eq_item_key_def by (rule order_trans)
  show "x \<le> y \<Longrightarrow> y \<le> x \<Longrightarrow> x = y"
    unfolding less_eq_item_key_def using key_code_inj order_antisym by blast
  show "x \<le> y \<or> y \<le> x"
    unfolding less_eq_item_key_def by (rule linear)
qed

end

lemma item_key_less [simp]:
  "Key_Role r < Key_Role r' \<longleftrightarrow> r < r'"
  "Key_Service s < Key_Service s' \<longleftrightarrow> s < s'"
  "Key_Ban n < Key_Ban n' \<longleftrightarrow> n < n'"
  "Key_PersonBan p < Key_PersonBan p' \<longleftrightarrow> p < p'"
  "Key_Issuer i < Key_Issuer i' \<longleftrightarrow> i < i'"
  "\<not> Key_Settings < Key_Settings"
  by (simp_all add: less_item_key_def less_prod_def')

lemma item_key_rank_less: "key_rank x < key_rank y \<Longrightarrow> x < y"
  by (cases x; cases y) (simp_all add: less_item_key_def less_prod_def')

lemma item_key_less_rank: "x < y \<Longrightarrow> key_rank x \<le> key_rank y"
  by (cases x; cases y) (simp_all add: less_item_key_def less_prod_def')

end
