(* ===== verification/Wires_Codec.thy ===== *)
theory Wires_Codec
  imports Policy_Keys
begin

text \<open>
  \<open>library/error.rs\<close> and \<open>library/codec.rs\<close>: the error values, the third-party primitives
  the code stands on, canonical JSON, length-prefixed framing, and fixed-size hex ids.

  The primitives (ed25519-dalek, blake3, the bytes \<open>serde_json\<close> writes and reads, the \<open>hex\<close>
  and \<open>base64\<close> crates, \<open>ring\<close>'s signature check) are the fields of a record \<open>prims\<close> that every
  definition using them takes as its argument. What the code relies on is stated as named
  laws (\<open>json_law\<close>, \<open>ed25519_law\<close>, \<open>hex_law\<close>, \<open>b64_law\<close>); \<open>demo_prims\<close> is a concrete
  instance that satisfies all of them, for the witnesses.

  The locale \<open>framed\<close> is the contract of a stream protocol's frame type; its lemmas say that
  a reader that decodes whatever has arrived so far gets the frames that were sent, in order.
\<close>

section \<open>Errors (error.rs)\<close>

datatype id_token_error =
    Malformed string
  | Unsupported_signing string
  | Unknown_key "string option"
  | Bad_signature
  | Wrong_issuer string string
  | Wrong_audience "string list"
  | Token_expired i64
  | Not_yet_valid i64
  | Wrong_nonce node_id
  | Missing_claim string

text \<open>What the text of an \<open>InvalidPolicy(String)\<close> says.\<close>

datatype policy_fault =
    Directory_twice node_id
  | Directory_banned node_id
  | Person_ban_blank
  | Person_ban_case person
  | Issuer_blank
  | Issuer_no_audience issuer
  | Role_no_matchers role_name
  | Matcher_no_issuer role_name
  | Issuer_untrusted role_name string
  | Undefined_role service_name role_name
  | Host_twice service_name node_id
  | Host_banned service_name node_id
  | Beat_zero
  | Fresh_shorter
  | No_settings
  | Out_of_order item_key
  | Fresh_secs_differ
  | Entry_after_head service_name state_version state_version
  | View_out_of_order service_name
  | Fresh_backwards
  | Ack_without_head state_version
  | Ack_head_version state_version state_version
  | Ack_other_entry service_name service_name
  | Too_many_directories

datatype push_fault =
    Subject_empty
  | Subject_long
  | Subject_control
  | Body_large
  | Inbox_frame_large
  | Deliver_many
  | Ack_many

datatype error =
    Encode
  | Decode
  | Token_decode
  | Invalid_signature
  | Unsupported_algorithm
  | Unsupported_version
  | Expired i64
  | Banned
  | No_verified_email
  | No_role
  | Bad_length
  | Bad_hex
  | Bad_frame
  | Fabric_mismatch
  | Invalid_service_name
  | Invalid_role_name
  | Invalid_email_pattern
  | Invalid_argv
  | Invalid_push push_fault
  | Id_token id_token_error
  | Invalid_policy policy_fault
  | Items_mismatch
  | Not_a_directory
  | Fresh_mismatch
  | Fresh_lapsed
  | Fresh_too_long
  | Self_vouched
  | Older_head state_version state_version
  | Unvouched

type_synonym 'a res = "error + 'a"

section \<open>Third-party primitives\<close>

record prims =
  ed_pub :: "seed \<Rightarrow> node_id"
  ed_sign :: "seed \<Rightarrow> bytes \<Rightarrow> signature"
  ed_verify :: "node_id \<Rightarrow> bytes \<Rightarrow> signature \<Rightarrow> bool"
  blake3 :: "bytes \<Rightarrow> hash256"
  blake3_derive :: "string \<Rightarrow> bytes \<Rightarrow> hash256"
  print_json :: "json \<Rightarrow> bytes"
  parse_json :: "bytes \<Rightarrow> json option"
  hex_enc :: "bytes \<Rightarrow> string"
  hex_dec :: "string \<Rightarrow> bytes option"
  b64_enc :: "bytes \<Rightarrow> string"
  b64_dec :: "string \<Rightarrow> bytes option"

text \<open>Lowercase hex, as the \<open>hex\<close> crate documents it.\<close>

definition hex_alphabet :: string where
  "hex_alphabet = ''0123456789abcdef''"

definition digit_pair :: "8 word \<Rightarrow> string" where
  "digit_pair w = [hex_alphabet ! (unat w div 16), hex_alphabet ! (unat w mod 16)]"

definition lower_hex :: "bytes \<Rightarrow> string" where
  "lower_hex b = concat (map digit_pair b)"

definition json_law :: "prims \<Rightarrow> bool" where
  "json_law P \<longleftrightarrow> (\<forall>v. json_ok v \<longrightarrow> parse_json P (print_json P v) = Some v)"

definition ed25519_law :: "prims \<Rightarrow> bool" where
  "ed25519_law P \<longleftrightarrow> (\<forall>k m. ed_verify P (ed_pub P k) m (ed_sign P k m))"

definition hex_law :: "prims \<Rightarrow> bool" where
  "hex_law P \<longleftrightarrow> (\<forall>b. hex_enc P b = lower_hex b \<and> hex_dec P (lower_hex b) = Some b)"

definition b64_law :: "prims \<Rightarrow> bool" where
  "b64_law P \<longleftrightarrow> (\<forall>b. b64_dec P (trim (b64_enc P b)) = Some b)"

lemma json_lawD: "json_law P \<Longrightarrow> json_ok v \<Longrightarrow> parse_json P (print_json P v) = Some v"
  by (simp add: json_law_def)

lemma json_law_inj:
  "json_law P \<Longrightarrow> json_ok v \<Longrightarrow> json_ok w \<Longrightarrow> print_json P v = print_json P w \<longleftrightarrow> v = w"
  by (metis json_lawD option.inject)

lemma ed25519_lawD [simp]: "ed25519_law P \<Longrightarrow> ed_verify P (ed_pub P k) m (ed_sign P k m)"
  by (simp add: ed25519_law_def)

lemma hex_lawD [simp]: "hex_law P \<Longrightarrow> hex_dec P (hex_enc P b) = Some b"
  by (simp add: hex_law_def)

section \<open>Canonical JSON\<close>

text \<open>Never an error: the keys of every map are strings and a \<open>Vec\<close> takes every write.\<close>

definition canonical_bytes :: "prims \<Rightarrow> json \<Rightarrow> bytes" where
  "canonical_bytes P v = print_json P v"

definition from_slice :: "prims \<Rightarrow> (json \<Rightarrow> 'a option) \<Rightarrow> bytes \<Rightarrow> 'a res" where
  "from_slice P d b = ok_or Decode (Option.bind (parse_json P b) d)"

text \<open>\<open>#[serde(try_from = "String")]\<close> and its kin: decode, then the type's own check.\<close>

definition d_try :: "(json \<Rightarrow> 'a option) \<Rightarrow> ('a \<Rightarrow> 'b res) \<Rightarrow> json \<Rightarrow> 'b option" where
  "d_try d f j = Option.bind (d j) (\<lambda>x. res_ok (f x))"

context json_type
begin

lemma from_slice_canonical:
  "json_law P \<Longrightarrow> ok x \<Longrightarrow> from_slice P of_json (canonical_bytes P (to_json x)) = Inr x"
  by (simp add: from_slice_def canonical_bytes_def json_lawD encode_canonical decode_encode)

lemma canonical_inj:
  "json_law P \<Longrightarrow> ok x \<Longrightarrow> ok y \<Longrightarrow>
     canonical_bytes P (to_json x) = canonical_bytes P (to_json y) \<longleftrightarrow> x = y"
  by (simp add: canonical_bytes_def json_law_inj encode_canonical encode_inj)

end

section \<open>Framing\<close>

definition length_prefixed :: "bytes \<Rightarrow> bytes res" where
  "length_prefixed body =
     (if length body < 2 ^ 32 then Inr (be32 (length body) @ body) else Inl Bad_frame)"

fun prefix_len :: "bytes \<Rightarrow> nat option" where
  "prefix_len (a # b # c # d # _) = Some (of_be32 a b c d)"
| "prefix_len _ = None"

definition split_frame :: "bytes \<Rightarrow> (bytes \<times> nat) option" where
  "split_frame buf = (case prefix_len buf of
     None \<Rightarrow> None
   | Some n \<Rightarrow> let e = 4 + n in
       if e \<le> length buf then Some (take n (drop 4 buf), e) else None)"

lemma prefix_len_be32 [simp]: "n < 2 ^ 32 \<Longrightarrow> prefix_len (be32 n @ r) = Some n"
  using of_be32_be32[of n] by (simp add: be32_def)

lemma prefix_len_short: "length b < 4 \<Longrightarrow> prefix_len b = None"
  by (induction b rule: prefix_len.induct) auto

lemma prefix_len_append: "prefix_len b = Some n \<Longrightarrow> prefix_len (b @ r) = Some n"
  by (induction b rule: prefix_len.induct) auto

lemma split_frame_whole:
  assumes "length body < 2 ^ 32"
  shows "split_frame (be32 (length body) @ body @ rest) = Some (body, 4 + length body)"
  using assms by (simp add: split_frame_def)

lemma length_prefixed_Inr:
  "length_prefixed body = Inr b \<longleftrightarrow> length body < 2 ^ 32 \<and> b = be32 (length body) @ body"
  by (auto simp: length_prefixed_def)

lemma split_frame_prefix:
  assumes "length body < 2 ^ 32" and "strict_prefix p (be32 (length body) @ body)"
  shows "split_frame p = None"
proof (cases "length p < 4")
  case True
  then show ?thesis by (simp add: split_frame_def prefix_len_short)
next
  case False
  obtain q where q: "be32 (length body) @ body = p @ q" "q \<noteq> []"
    using assms(2) by (auto simp: strict_prefix_def prefix_def)
  obtain r where r: "p = be32 (length body) @ r"
  proof -
    have "take 4 p = take 4 (p @ q)" using False by simp
    also have "\<dots> = be32 (length body)" by (simp flip: q(1))
    finally show ?thesis using that[of "drop 4 p"] by (metis append_take_drop_id)
  qed
  have "length r < length body"
    using arg_cong[OF q(1), of length] q(2) by (simp add: r)
  then show ?thesis using assms(1) by (simp add: split_frame_def r)
qed

lemma split_frame_more:
  "split_frame b = Some (body, n) \<Longrightarrow> split_frame (b @ r) = Some (body, n)"
  by (auto simp: split_frame_def Let_def prefix_len_append split: option.splits if_splits)

lemma split_frame_bound:
  "split_frame b = Some (body, n) \<Longrightarrow> n = 4 + length body \<and> n \<le> length b"
  by (auto simp: split_frame_def Let_def split: option.splits if_splits)

section \<open>The contract of a framed protocol\<close>

text \<open>What a reader does: decode frames from the front of its buffer until none is whole.
  \<open>drain\<close> returns the frames, what is left in the buffer, and whether a frame was malformed.\<close>

fun drain :: "(bytes \<Rightarrow> ('f \<times> nat) option res) \<Rightarrow> nat \<Rightarrow> bytes \<Rightarrow> 'f list \<times> bytes \<times> bool" where
  "drain dec 0 buf = ([], buf, False)"
| "drain dec (Suc k) buf = (case dec buf of
     Inl _ \<Rightarrow> ([], buf, True)
   | Inr None \<Rightarrow> ([], buf, False)
   | Inr (Some (f, n)) \<Rightarrow> (case drain dec k (drop n buf) of (fs, r, e) \<Rightarrow> (f # fs, r, e)))"

locale framed =
  fixes enc :: "'f \<Rightarrow> bytes res"
    and dec :: "bytes \<Rightarrow> ('f \<times> nat) option res"
    and ok :: "'f \<Rightarrow> bool"
  assumes dec_enc: "ok f \<Longrightarrow> enc f = Inr b \<Longrightarrow> dec (b @ rest) = Inr (Some (f, length b))"
    and dec_part: "ok f \<Longrightarrow> enc f = Inr b \<Longrightarrow> strict_prefix p b \<Longrightarrow> dec p = Inr None"
    and enc_size: "ok f \<Longrightarrow> enc f = Inr b \<Longrightarrow> 4 \<le> length b"
begin

lemma roundtrip: "ok f \<Longrightarrow> enc f = Inr b \<Longrightarrow> dec b = Inr (Some (f, length b))"
  using dec_enc[of f b "[]"] by simp

lemma enc_inj: "ok f \<Longrightarrow> ok g \<Longrightarrow> enc f = Inr b \<Longrightarrow> enc g = Inr b \<Longrightarrow> f = g"
  using roundtrip[of f b] roundtrip[of g b] by simp

text \<open>No encoding is a proper prefix of another: a stream has one reading.\<close>

lemma prefix_free:
  "ok f \<Longrightarrow> ok g \<Longrightarrow> enc f = Inr a \<Longrightarrow> enc g = Inr b \<Longrightarrow> prefix a b \<Longrightarrow> a = b"
  using roundtrip[of f a] dec_part[of g b a] by (auto simp: strict_prefix_def)

text \<open>Frames sent one after another, then part of one more: the reader gets exactly the whole
  ones, in order, and keeps the rest.\<close>

lemma drain_frames:
  assumes "list_all2 (\<lambda>f b. ok f \<and> enc f = Inr b) fs bs"
    and "p = [] \<and> dec [] = Inr None \<or> (\<exists>g b. ok g \<and> enc g = Inr b \<and> strict_prefix p b)"
    and "length fs < k"
  shows "drain dec k (concat bs @ p) = (fs, p, False)"
  using assms(1,3)
proof (induction fs bs arbitrary: k)
  case Nil
  then obtain j where k: "k = Suc j" by (cases k) auto
  have "dec p = Inr None" using assms(2) dec_part by auto
  then show ?case by (simp add: k)
next
  case (Cons f fs b bs)
  then obtain j where k: "k = Suc j" and j: "length fs < j" by (cases k) auto
  have "dec (b @ concat bs @ p) = Inr (Some (f, length b))"
    using Cons.hyps(1) dec_enc by blast
  then show ?case using Cons.IH[OF j] by (simp add: k)
qed

text \<open>Arrival in pieces makes no difference: whatever prefix of the stream has arrived, the
  reader has got a prefix of the frames.\<close>

lemma drain_split:
  assumes "list_all2 (\<lambda>f b. ok f \<and> enc f = Inr b) fs bs" and "dec [] = Inr None"
    and "concat bs = a @ c" and "length fs < k"
  shows "\<exists>m r. drain dec k a = (take m fs, r, False) \<and> m \<le> length fs \<and> r @ c = concat (drop m bs)"
  using assms(1,3,4)
proof (induction fs bs arbitrary: a k)
  case Nil
  then obtain j where "k = Suc j" by (cases k) auto
  with Nil assms(2) show ?case by simp
next
  case (Cons f fs b bs)
  then obtain j where k: "k = Suc j" and j: "length fs < j" by (cases k) auto
  note fb = Cons.hyps(1)
  show ?case
  proof (cases "length b \<le> length a")
    case True
    have "b @ concat bs = a @ c" using Cons.prems(1) by simp
    with True obtain a' where a: "a = b @ a'" and c: "concat bs = a' @ c"
      by (auto simp: append_eq_append_conv2)
    obtain m r where m: "drain dec j a' = (take m fs, r, False)" "m \<le> length fs"
      "r @ c = concat (drop m bs)"
      using Cons.IH[OF c j] by blast
    have "dec a = Inr (Some (f, length b))" using fb dec_enc by (simp add: a)
    then have "drain dec k a = (take (Suc m) (f # fs), r, False)"
      by (simp add: k a m(1))
    with m show ?thesis by (intro exI[of _ "Suc m"] exI[of _ r]) simp
  next
    case False
    have "a @ c = b @ concat bs" using Cons.prems(1) by simp
    then have "prefix a b" using False by (auto simp: append_eq_append_conv2 prefix_def)
    then have "strict_prefix a b" using False by (auto simp: strict_prefix_def)
    then have "dec a = Inr None" using fb dec_part by blast
    with Cons.prems(1) show ?thesis by (intro exI[of _ 0]) (simp add: k)
  qed
qed

end

section \<open>Fixed-size hex ids\<close>

text \<open>The big-endian bytes of a fixed-size id, and back.\<close>

primrec be_nat :: "nat \<Rightarrow> nat \<Rightarrow> bytes" where
  "be_nat 0 n = []"
| "be_nat (Suc k) n = be_nat k (n div 256) @ [word_of_nat n]"

definition nat_be :: "bytes \<Rightarrow> nat" where
  "nat_be b = foldl (\<lambda>a w. a * 256 + unat w) 0 b"

definition be_bytes32 :: "hash256 \<Rightarrow> bytes" where
  "be_bytes32 w = be_nat 32 (unat w)"

definition be_bytes64 :: "signature \<Rightarrow> bytes" where
  "be_bytes64 w = be_nat 64 (unat w)"

lemma length_be_nat [simp]: "length (be_nat k n) = k"
  by (induction k arbitrary: n) auto

lemma nat_be_be_nat: "nat_be (be_nat k n) = n mod 256 ^ k"
proof (induction k arbitrary: n)
  case (Suc k)
  have "unat (word_of_nat n :: 8 word) = n mod 256" by (simp add: unat_of_nat)
  then show ?case
    using Suc[of "n div 256"] mod_mult2_eq[of n 256 "256 ^ k"] by (simp add: nat_be_def mult.commute)
qed (simp add: nat_be_def)

definition hex_of :: "prims \<Rightarrow> hash256 \<Rightarrow> string" where
  "hex_of P w = hex_enc P (be_bytes32 w)"

definition id_from_hex :: "prims \<Rightarrow> string \<Rightarrow> hash256 res" where
  "id_from_hex P s = (case hex_dec P s of
     None \<Rightarrow> Inl Bad_hex
   | Some b \<Rightarrow> if length b = 32 then Inr (word_of_nat (nat_be b)) else Inl Bad_length)"

lemma length_be_bytes32 [simp]: "length (be_bytes32 w) = 32"
  by (simp add: be_bytes32_def)

lemma length_be_bytes64 [simp]: "length (be_bytes64 w) = 64"
  by (simp add: be_bytes64_def)

lemma of_be_bytes32 [simp]: "word_of_nat (nat_be (be_bytes32 w)) = w"
proof -
  have "unat w < 2 ^ LENGTH(256)" by (rule unsigned_less)
  then show ?thesis by (simp add: be_bytes32_def nat_be_be_nat)
qed

lemma of_be_bytes64 [simp]: "word_of_nat (nat_be (be_bytes64 w)) = w"
proof -
  have "unat w < 2 ^ LENGTH(512)" by (rule unsigned_less)
  then show ?thesis by (simp add: be_bytes64_def nat_be_be_nat)
qed

lemma id_from_hex_of [simp]: "hex_law P \<Longrightarrow> id_from_hex P (hex_of P w) = Inr w"
  by (simp add: id_from_hex_def hex_of_def)

lemma hex_of_inj: "hex_law P \<Longrightarrow> hex_of P v = hex_of P w \<longleftrightarrow> v = w"
  by (metis id_from_hex_of Inr_inject)

section \<open>Concrete primitives for witnesses\<close>

definition digit_value :: "char \<Rightarrow> nat option" where
  "digit_value c = position (\<lambda>d. d = c) hex_alphabet"

fun undigits :: "string \<Rightarrow> bytes option" where
  "undigits [] = Some []"
| "undigits [_] = None"
| "undigits (a # b # s) = (case (digit_value a, digit_value b) of
     (Some x, Some y) \<Rightarrow> map_option (Cons (word_of_nat (16 * x + y))) (undigits s)
   | _ \<Rightarrow> None)"

definition demo_prims :: prims where
  "demo_prims = \<lparr> ed_pub = (\<lambda>k. k), ed_sign = (\<lambda>k m. ucast k), ed_verify = (\<lambda>p m s. s = ucast p),
     blake3 = (\<lambda>b. word_of_nat (length b)), blake3_derive = (\<lambda>c b. word_of_nat (nat_be b)),
     print_json = (\<lambda>v. replicate (to_nat v) 0), parse_json = (\<lambda>b. Some (from_nat (length b))),
     hex_enc = lower_hex, hex_dec = undigits,
     b64_enc = lower_hex, b64_dec = (\<lambda>s. undigits s) \<rparr>"

lemma digit_value_digit: "n < 16 \<Longrightarrow> digit_value (hex_alphabet ! n) = Some n"
proof -
  have "list_all (\<lambda>n. digit_value (hex_alphabet ! n) = Some n) [0..<16]"
    by code_simp
  then show "n < 16 \<Longrightarrow> ?thesis" by (simp add: list_all_iff)
qed

lemma undigits_digits: "undigits (lower_hex b) = Some b"
proof (induction b)
  case (Cons w b)
  have "unat w < 2 ^ LENGTH(8)" by (rule unsigned_less)
  then have "unat w div 16 < 16" "unat w mod 16 < 16" by simp_all
  with Cons show ?case by (simp add: digit_value_digit mult_div_mod_eq lower_hex_def digit_pair_def)
qed (simp add: lower_hex_def)

lemma set_lower_hex: "set (lower_hex b) \<subseteq> set hex_alphabet"
proof -
  have "set (digit_pair v) \<subseteq> set hex_alphabet" for v
  proof -
    have "unat v < 2 ^ LENGTH(8)" by (rule unsigned_less)
    then have "unat v div 16 < length hex_alphabet" "unat v mod 16 < length hex_alphabet"
      by (simp_all add: hex_alphabet_def)
    then show ?thesis by (simp add: digit_pair_def)
  qed
  then show ?thesis by (force simp: lower_hex_def)
qed

lemma digits_trim: "trim (lower_hex b) = lower_hex b"
proof (rule trim_plain)
  have "list_all (char_between 33 126) hex_alphabet" by code_simp
  then show "list_all (char_between 33 126) (lower_hex b)"
    using set_lower_hex[of b] by (auto simp: list_all_iff)
qed

lemma demo_prims_laws [simp]:
  "json_law demo_prims" "ed25519_law demo_prims" "hex_law demo_prims" "b64_law demo_prims"
  by (simp_all add: demo_prims_def json_law_def ed25519_law_def hex_law_def b64_law_def
      undigits_digits digits_trim)

end
