(* ===== verification/Node_Identity.thy ===== *)
theory Node_Identity
  imports Wires_Codec
begin

text \<open>
  \<open>library/network/identity.rs\<close>: node ids and signatures with their text form, and the
  signing identity. A \<open>NodeIdentity\<close> is its 32-byte seed (the secret key the Rust type
  keeps private and scrubs; memory hygiene is not modelled), so \<open>from_seed\<close>,
  \<open>expose_seed\<close> and \<open>duplicate\<close> are the identity and \<open>generate\<close> is any seed.
\<close>

datatype algorithm_id = Ed25519

type_synonym node_identity = seed

section \<open>NodeId\<close>

definition id_hex :: "prims \<Rightarrow> node_id \<Rightarrow> string" where
  "id_hex P n = hex_of P n"

definition id_short :: "prims \<Rightarrow> node_id \<Rightarrow> string" where
  "id_short P n = hex_enc P (take 4 (be_bytes32 n))"

definition node_from_hex :: "prims \<Rightarrow> string \<Rightarrow> node_id res" where
  "node_from_hex P s = (case hex_dec P s of
     None \<Rightarrow> Inl Bad_hex
   | Some b \<Rightarrow> if length b = 32 then Inr (word_of_nat (nat_be b)) else Inl Bad_length)"

definition verify_sig :: "prims \<Rightarrow> node_id \<Rightarrow> bytes \<Rightarrow> signature \<Rightarrow> unit res" where
  "verify_sig P n m s = (if ed_verify P n m s then Inr () else Inl Invalid_signature)"

definition sig_hex :: "prims \<Rightarrow> signature \<Rightarrow> string" where
  "sig_hex P s = hex_enc P (be_bytes64 s)"

section \<open>NodeIdentity\<close>

definition node_id :: "prims \<Rightarrow> node_identity \<Rightarrow> node_id" where
  "node_id P k = ed_pub P k"

definition sign_bytes :: "prims \<Rightarrow> node_identity \<Rightarrow> bytes \<Rightarrow> signature" where
  "sign_bytes P k m = ed_sign P k m"

definition from_seed_hex :: "prims \<Rightarrow> string \<Rightarrow> node_identity res" where
  "from_seed_hex P s =
     (if length s \<noteq> 64
      then (case hex_dec P s of None \<Rightarrow> Inl Bad_hex | Some _ \<Rightarrow> Inl Bad_length)
      else (case hex_dec P s of None \<Rightarrow> Inl Bad_hex | Some b \<Rightarrow> Inr (word_of_nat (nat_be b))))"

definition hex_digits :: "8 word \<Rightarrow> string" where
  "hex_digits w = [''0123456789abcdef'' ! unat (drop_bit 4 w), ''0123456789abcdef'' ! unat (and w 0xf)]"

definition expose_seed_hex :: "node_identity \<Rightarrow> string" where
  "expose_seed_hex k = concat (map hex_digits (be_bytes32 k))"

section \<open>serde\<close>

definition j_id :: "prims \<Rightarrow> hash256 \<Rightarrow> json" where
  "j_id P n = JStr (hex_of P n)"

definition d_id :: "prims \<Rightarrow> json \<Rightarrow> hash256 option" where
  "d_id P j = Option.bind (d_str j) (\<lambda>s. res_ok (node_from_hex P s))"

definition j_sig :: "prims \<Rightarrow> signature \<Rightarrow> json" where
  "j_sig P s = JStr (sig_hex P s)"

definition d_sig :: "prims \<Rightarrow> json \<Rightarrow> signature option" where
  "d_sig P j = Option.bind (d_str j) (\<lambda>s.
     case hex_dec P s of
       None \<Rightarrow> None
     | Some b \<Rightarrow> if length b = 64 then Some (word_of_nat (nat_be b)) else None)"

definition j_alg :: "algorithm_id \<Rightarrow> json" where
  "j_alg a = JStr ''ed25519''"

definition d_alg :: "json \<Rightarrow> algorithm_id option" where
  "d_alg j = (case j of
     JStr s \<Rightarrow> if s = ''ed25519'' then Some Ed25519 else None
   | JObj [(s, JNull)] \<Rightarrow> if s = ''ed25519'' then Some Ed25519 else None
   | _ \<Rightarrow> None)"

section \<open>Laws\<close>

lemma and_eq_mask_mod: "and n 15 = n mod 16" for n :: nat
  using take_bit_eq_mask[of 4 n] by (simp add: mask_eq_exp_minus_1 take_bit_eq_mod)

lemma hex_digits_pair: "hex_digits w = digit_pair w"
proof -
  have "unat (drop_bit 4 w) = unat w div 16"
    by (simp only: unat_drop_bit_eq) (simp add: drop_bit_eq_div)
  moreover have "unat (and w 15) = unat w mod 16"
    by (simp only: unsigned_and_eq) (simp add: and_eq_mask_mod)
  ultimately show ?thesis by (simp add: hex_digits_def digit_pair_def hex_alphabet_def)
qed

lemma expose_seed_hex_lower: "expose_seed_hex k = lower_hex (be_bytes32 k)"
  by (simp add: expose_seed_hex_def lower_hex_def ext[OF hex_digits_pair])

lemma length_lower_hex [simp]: "length (lower_hex b) = 2 * length b"
  by (induction b) (simp_all add: lower_hex_def digit_pair_def)

lemma node_from_hex_hex [simp]: "hex_law P \<Longrightarrow> node_from_hex P (hex_of P n) = Inr n"
  by (simp add: node_from_hex_def hex_of_def)

lemma verify_sig_Inr [result_simps]: "verify_sig P n m s = Inr u \<longleftrightarrow> ed_verify P n m s"
  by (simp add: verify_sig_def)

lemma verify_signed [simp]:
  "ed25519_law P \<Longrightarrow> verify_sig P (node_id P k) m (sign_bytes P k m) = Inr ()"
  by (simp add: verify_sig_def node_id_def sign_bytes_def)

interpretation id_json: json_type "j_id P" "d_id P" "\<lambda>_. hex_law P"
  for P
  by unfold_locales (simp_all add: j_id_def d_id_def d_str_def)

interpretation sig_json: json_type "j_sig P" "d_sig P" "\<lambda>_. hex_law P"
  for P
  by unfold_locales (simp_all add: j_sig_def d_sig_def d_str_def sig_hex_def)

interpretation alg_json: json_type j_alg d_alg "\<lambda>_. True"
  by unfold_locales (simp_all add: j_alg_def d_alg_def, metis algorithm_id.exhaust)

interpretation str_json: json_type JStr d_str "\<lambda>_. True"
  by unfold_locales (simp_all add: d_str_def)

lemma uint_bounds: "0 \<le> uint (w :: 'a :: len word)" "uint w < 2 ^ LENGTH('a)"
  by simp_all

interpretation u64_json: json_type j_u64 d_u64 "\<lambda>_. True"
proof
  fix w :: u64
  have "uint w < 2 ^ LENGTH(64)" by (rule uint_bounds)
  then show "d_u64 (j_u64 w) = Some w" "json_ok (j_u64 w)"
    by (simp_all add: d_u64_def j_u64_def d_int_def)
qed

interpretation u32_json: json_type j_u32 d_u32 "\<lambda>_. True"
proof
  fix w :: u32
  have "uint w < 2 ^ LENGTH(32)" by (rule uint_bounds)
  then show "d_u32 (j_u32 w) = Some w" "json_ok (j_u32 w)"
    by (simp_all add: d_u32_def j_u32_def d_int_def)
qed

interpretation u8_json: json_type j_u8 d_u8 "\<lambda>_. True"
proof
  fix w :: "8 word"
  have "uint w < 2 ^ LENGTH(8)" by (rule uint_bounds)
  then show "d_u8 (j_u8 w) = Some w" "json_ok (j_u8 w)"
    by (simp_all add: d_u8_def j_u8_def d_int_def)
qed

interpretation i64_json: json_type JInt d_i64 in_i64
  by unfold_locales (simp_all add: d_i64_def d_int_def in_i64_def)

text \<open>
  a secret key written to \<open>node.seed\<close> or \<open>root.seed\<close> (\<open>expose_seed_hex\<close>, which
  spells the digits itself) is read back by \<open>from_seed_hex\<close> as the same key, whatever its
  bytes, and its text has 64 characters.
\<close>

theorem seed_hex_roundtrip:
  "hex_law P \<Longrightarrow> from_seed_hex P (expose_seed_hex k) = Inr k \<and> length (expose_seed_hex k) = 64"
  by (simp add: from_seed_hex_def expose_seed_hex_lower hex_law_def)

theorem seed_hex_roundtrip_witness:
  "from_seed_hex demo_prims (expose_seed_hex 7) = Inr 7"
  using seed_hex_roundtrip[of demo_prims 7] by simp

end
