(* ===== verification/Role_Match.thy ===== *)
theory Role_Match
  imports Node_Identity
begin

text \<open>
  \<open>library/services/role.rs\<close>: role names, email patterns, and matchers over a caller's
  verified \<open>Principal\<close> (declared in \<open>library/calls/idp.rs\<close>). A role is an OR of matchers, a
  matcher an AND of its keys.
\<close>

section \<open>Principal\<close>

record principal =
  pr_issuer :: string
  pr_subject :: string
  pr_email :: "string option"
  pr_org :: "string option"
  pr_groups :: "string list"
  pr_not_after :: i64

definition principal_name :: "principal \<Rightarrow> string" where
  "principal_name p = (case pr_email p of
     Some e \<Rightarrow> e
   | None \<Rightarrow> pr_subject p @ '' at '' @ pr_issuer p)"

section \<open>RoleName\<close>

definition max_role_name :: nat where
  "max_role_name = 64"

definition role_name_new :: "string \<Rightarrow> role_name res" where
  "role_name_new name =
     (if name = [] \<or> length name > max_role_name
         \<or> \<not> list_all (\<lambda>c. is_ascii_alnum c \<or> c \<in> set ''_.-'') name
      then Inl Invalid_role_name else Inr name)"

section \<open>EmailPattern\<close>

datatype email_pattern = Exact string | Domain string

fun email_matches :: "email_pattern \<Rightarrow> string \<Rightarrow> bool" where
  "email_matches (Exact want) email = eq_ignore_case email want"
| "email_matches (Domain domain) email = (case rsplit_once (CHR ''@'') email of
     Some (local, d) \<Rightarrow> local \<noteq> [] \<and> eq_ignore_case d domain
   | None \<Rightarrow> False)"

definition email_parse :: "string \<Rightarrow> email_pattern res" where
  "email_parse s = (case strip_prefix ''*@'' s of
     Some domain \<Rightarrow>
       if domain = [] \<or> CHR ''*'' \<in> set domain \<or> CHR ''@'' \<in> set domain
       then Inl Invalid_email_pattern
       else Inr (Domain (ascii_lower domain))
   | None \<Rightarrow>
       if CHR ''*'' \<in> set s then Inl Invalid_email_pattern
       else (case split_once (CHR ''@'') s of
         Some (local, domain) \<Rightarrow>
           if local \<noteq> [] \<and> domain \<noteq> [] \<and> CHR ''@'' \<notin> set domain
           then Inr (Exact (ascii_lower s)) else Inl Invalid_email_pattern
       | None \<Rightarrow> Inl Invalid_email_pattern))"

fun email_show :: "email_pattern \<Rightarrow> string" where
  "email_show (Exact e) = e"
| "email_show (Domain d) = ''*@'' @ d"

definition email_ok :: "email_pattern \<Rightarrow> bool" where
  "email_ok p \<longleftrightarrow> email_parse (email_show p) = Inr p"

section \<open>Matcher\<close>

record matcher =
  mt_issuer :: string
  mt_email :: "email_pattern option"
  mt_org :: "string option"
  mt_group :: "string option"

definition matcher_new :: "string \<Rightarrow> matcher" where
  "matcher_new iss = \<lparr> mt_issuer = iss, mt_email = None, mt_org = None, mt_group = None \<rparr>"

definition matches :: "matcher \<Rightarrow> principal \<Rightarrow> bool" where
  "matches m p \<longleftrightarrow>
     pr_issuer p = mt_issuer m
     \<and> (case mt_email m of None \<Rightarrow> True | Some pat \<Rightarrow>
          (case pr_email p of None \<Rightarrow> False | Some e \<Rightarrow> email_matches pat e))
     \<and> (case mt_org m of None \<Rightarrow> True | Some org \<Rightarrow>
          (case pr_org p of None \<Rightarrow> False | Some have \<Rightarrow> eq_ignore_case have org))
     \<and> (case mt_group m of None \<Rightarrow> True | Some g \<Rightarrow> g \<in> set (pr_groups p))"

definition matcher_show :: "matcher \<Rightarrow> string" where
  "matcher_show m = ''issuer='' @ mt_issuer m
     @ (case mt_email m of None \<Rightarrow> [] | Some v \<Rightarrow> '',email='' @ email_show v)
     @ (case mt_org m of None \<Rightarrow> [] | Some v \<Rightarrow> '',org='' @ v)
     @ (case mt_group m of None \<Rightarrow> [] | Some v \<Rightarrow> '',group='' @ v)"

definition j_email :: "email_pattern \<Rightarrow> json" where
  "j_email p = JStr (email_show p)"

definition d_email :: "json \<Rightarrow> email_pattern option" where
  "d_email = d_try d_str email_parse"

definition d_role_name :: "json \<Rightarrow> role_name option" where
  "d_role_name = d_try d_str role_name_new"

definition j_matcher :: "matcher \<Rightarrow> json" where
  "j_matcher m = obj [
     (''issuer'', Some (JStr (mt_issuer m))),
     (''email'', map_option j_email (mt_email m)),
     (''org'', map_option JStr (mt_org m)),
     (''group'', map_option JStr (mt_group m))]"

definition d_matcher :: "json \<Rightarrow> matcher option" where
  "d_matcher j = do {
     fs \<leftarrow> struct_fields [''issuer'', ''email'', ''org'', ''group''] 1 True j;
     iss \<leftarrow> req fs ''issuer'' d_str;
     email \<leftarrow> opt_field fs ''email'' d_email;
     org \<leftarrow> opt_field fs ''org'' d_str;
     grp \<leftarrow> opt_field fs ''group'' d_str;
     Some \<lparr> mt_issuer = iss, mt_email = email, mt_org = org, mt_group = grp \<rparr>
   }"

definition matcher_ok :: "matcher \<Rightarrow> bool" where
  "matcher_ok m \<longleftrightarrow> (case mt_email m of None \<Rightarrow> True | Some p \<Rightarrow> email_ok p)"

section \<open>Laws\<close>

lemma role_name_new_Inr: "role_name_new s = Inr r \<longleftrightarrow>
    r = s \<and> s \<noteq> [] \<and> length s \<le> 64 \<and> (\<forall>c \<in> set s. is_ascii_alnum c \<or> c \<in> set ''_.-'')"
  by (auto simp: role_name_new_def max_role_name_def list_all_iff)

lemma sep_chars [simp]:
  "\<not> is_ascii_upper (CHR ''@'')" "\<not> is_ascii_lower (CHR ''@'')"
  "\<not> is_ascii_upper (CHR ''*'')" "\<not> is_ascii_lower (CHR ''*'')"
  by (simp_all add: is_ascii_upper_def is_ascii_lower_def char_between_def)

lemma split_once_lower:
  "split_once (CHR ''@'') (ascii_lower s) =
     map_option (\<lambda>(a, b). (ascii_lower a, ascii_lower b)) (split_once (CHR ''@'') s)"
  using lower_char_other[of "CHR ''@''"]
  by (induction s) (auto simp: ascii_lower_def option.map_comp comp_def case_prod_unfold)

lemma ascii_lower_append [simp]: "ascii_lower (s @ t) = ascii_lower s @ ascii_lower t"
  by (simp add: ascii_lower_def)

lemma no_star_prefix: "CHR ''*'' \<notin> set s \<Longrightarrow> strip_prefix ''*@'' s = None"
  by (auto simp: strip_prefix_def prefix_def)

text \<open>What \<open>parse\<close> returns is its own normal form: shown and parsed again it is the same.\<close>

lemma email_parse_ok: "email_parse s = Inr p \<Longrightarrow> email_ok p"
proof (cases "strip_prefix ''*@'' s")
  case None
  assume "email_parse s = Inr p"
  with None obtain l d where s: "CHR ''*'' \<notin> set s" "split_once (CHR ''@'') s = Some (l, d)"
    "l \<noteq> []" "d \<noteq> []" "CHR ''@'' \<notin> set d" "p = Exact (ascii_lower s)"
    by (auto simp: email_parse_def split: if_splits option.splits)
  then show ?thesis
    by (simp add: email_ok_def email_parse_def no_star_prefix split_once_lower set_ascii_lower_other)
next
  case (Some d)
  assume "email_parse s = Inr p"
  with Some have "p = Domain (ascii_lower d)" "d \<noteq> []" "CHR ''*'' \<notin> set d" "CHR ''@'' \<notin> set d"
    by (auto simp: email_parse_def split: if_splits)
  moreover have "strip_prefix ''*@'' (''*@'' @ ascii_lower d) = Some (ascii_lower d)"
    by (simp only: strip_prefix_Some_iff)
  ultimately show ?thesis
    by (simp add: email_ok_def email_parse_def set_ascii_lower_other)
qed

lemma d_try_simps [simp]:
  "d_try d f j = (case d j of None \<Rightarrow> None | Some x \<Rightarrow> res_ok (f x))"
  by (simp add: d_try_def split: option.splits)

interpretation email_json: json_type j_email d_email email_ok
  by unfold_locales (simp_all add: j_email_def d_email_def d_str_def email_ok_def)

interpretation role_name_json: json_type JStr d_role_name "\<lambda>r. is_ok (role_name_new r)"
proof
  fix x :: role_name
  assume "is_ok (role_name_new x)"
  then obtain r where "role_name_new x = Inr r" by (auto simp: is_ok_iff)
  moreover from this have "r = x" by (simp add: role_name_new_Inr)
  ultimately show "d_role_name (JStr x) = Some x" by (simp add: d_role_name_def d_str_def)
qed simp

interpretation matcher_json: json_type j_matcher d_matcher matcher_ok
proof
  fix m :: matcher
  assume ok: "matcher_ok m"
  show "d_matcher (j_matcher m) = Some m"
    using ok email_json.decode_encode
    by (cases m) (simp add: d_matcher_def j_matcher_def json_simps req_def opt_field_def d_str_def
        matcher_ok_def j_email_def split: option.splits)
  show "json_ok (j_matcher m)"
    by (simp add: j_matcher_def json_simps j_email_def split: option.splits)
qed

lemma email_matches_case:
  "eq_ignore_case e e' \<Longrightarrow> email_matches pat e = email_matches pat e'"
proof (cases pat)
  case (Exact w)
  then show "eq_ignore_case e e' \<Longrightarrow> ?thesis" by (simp add: eq_ignore_case_def)
next
  case (Domain d)
  have r: "map_option (\<lambda>(a, b). (ascii_lower a, ascii_lower b)) (rsplit_once (CHR ''@'') x) =
      rsplit_once (CHR ''@'') (ascii_lower x)" for x
  proof -
    have "rev (ascii_lower x) = ascii_lower (rev x)" for x by (simp add: ascii_lower_def rev_map)
    then show ?thesis
      by (simp add: rsplit_once_def split_once_lower option.map_comp comp_def case_prod_unfold)
  qed
  assume "eq_ignore_case e e'"
  then have "map_option (\<lambda>(a, b). (ascii_lower a, ascii_lower b)) (rsplit_once (CHR ''@'') e) =
      map_option (\<lambda>(a, b). (ascii_lower a, ascii_lower b)) (rsplit_once (CHR ''@'') e')"
    by (simp add: r eq_ignore_case_def)
  then show ?thesis
    by (auto simp: Domain eq_ignore_case_def map_option_case ascii_lower_Nil split: option.splits)
      (metis ascii_lower_Nil)+
qed

lemma matches_issuer: "matches m p \<Longrightarrow> pr_issuer p = mt_issuer m"
  by (simp add: matches_def)

text \<open>
  an email pattern \<open>*@domain\<close> matches exactly the addresses \<open>local@domain\<close> with a
  non-empty local part whose last \<open>@\<close> is before the domain, compared without ASCII case: never
  a subdomain, never a longer domain, and never by the text before an earlier \<open>@\<close>.
\<close>

theorem domain_pattern_exact:
  "email_parse (''*@'' @ d) = Inr p \<Longrightarrow>
     email_matches p e \<longleftrightarrow>
       (\<exists>local d'. e = local @ ''@'' @ d' \<and> local \<noteq> [] \<and> ascii_lower d' = ascii_lower d)"
proof -
  assume p: "email_parse (''*@'' @ d) = Inr p"
  have strip: "strip_prefix ''*@'' (''*@'' @ d) = Some d"
    by (simp only: strip_prefix_Some_iff)
  from p have pd: "p = Domain (ascii_lower d)" "CHR ''@'' \<notin> set d"
    unfolding email_parse_def strip by (auto split: if_splits)
  show ?thesis
  proof
    assume "email_matches p e"
    then obtain l d' where s: "rsplit_once (CHR ''@'') e = Some (l, d')" "l \<noteq> []"
        "ascii_lower d' = ascii_lower d"
      by (auto simp: pd(1) eq_ignore_case_def split: option.splits)
    then show "\<exists>local d'. e = local @ ''@'' @ d' \<and> local \<noteq> [] \<and> ascii_lower d' = ascii_lower d"
      by (auto simp: rsplit_once_Some_iff)
  next
    assume "\<exists>local d'. e = local @ ''@'' @ d' \<and> local \<noteq> [] \<and> ascii_lower d' = ascii_lower d"
    then obtain l d' where e: "e = l @ CHR ''@'' # d'" "l \<noteq> []" "ascii_lower d' = ascii_lower d"
      by auto
    then have "CHR ''@'' \<notin> set d'"
      using pd(2) set_ascii_lower_other[of "CHR ''@''" d'] set_ascii_lower_other[of "CHR ''@''" d]
      by simp
    then have "rsplit_once (CHR ''@'') e = Some (l, d')"
      using e(1) by (simp add: rsplit_once_Some_iff)
    then show "email_matches p e" using e by (simp add: pd(1) eq_ignore_case_def)
  qed
qed

theorem domain_pattern_exact_witness:
  "email_matches (Domain ''ex.com'') ''Al@Ex.com''"
proof (rule domain_pattern_exact[of "''ex.com''", THEN iffD2])
  show "email_parse (''*@'' @ ''ex.com'') = Inr (Domain ''ex.com'')" by code_simp
  show "\<exists>local d'. ''Al@Ex.com'' = local @ ''@'' @ d' \<and> local \<noteq> [] \<and> ascii_lower d' = ascii_lower ''ex.com''"
    by (intro exI[of _ "''Al''"] exI[of _ "''Ex.com''"]) code_simp
qed

end
