(* ===== verification/Service_Registry.thy ===== *)
theory Service_Registry
  imports Role_Match
begin

text \<open>
  \<open>library/services/registry.rs\<close> (service names and registry entries) and
  \<open>library/calls/invoke.rs\<close> (what a caller asks a host to run).
\<close>

section \<open>ServiceName and Service\<close>

definition max_service_name :: nat where
  "max_service_name = 64"

definition service_name_new :: "string \<Rightarrow> service_name res" where
  "service_name_new name =
     (let first_ok = (case name of [] \<Rightarrow> False | c # _ \<Rightarrow> is_ascii_lower c);
          rest_ok = list_all (\<lambda>c. is_ascii_lower c \<or> is_ascii_digit c \<or> c = CHR ''_'' \<or> c = CHR ''-'') (tl name)
      in if first_ok \<and> rest_ok \<and> length name \<le> max_service_name
         then Inr name else Inl Invalid_service_name)"

record service =
  sv_description :: string
  sv_allow :: "role_name list"
  sv_hosts :: "node_id list"

definition d_service_name :: "json \<Rightarrow> service_name option" where
  "d_service_name = d_try d_str service_name_new"

definition j_service :: "prims \<Rightarrow> service \<Rightarrow> json" where
  "j_service P s = obj [
     (''description'', Some (JStr (sv_description s))),
     (''allow'', Some (j_list JStr (sv_allow s))),
     (''hosts'', Some (j_list (j_id P) (sv_hosts s)))]"

definition d_service :: "prims \<Rightarrow> json \<Rightarrow> service option" where
  "d_service P j = do {
     fs \<leftarrow> struct_fields [''description'', ''allow'', ''hosts''] 3 True j;
     desc \<leftarrow> req fs ''description'' d_str;
     allow \<leftarrow> req fs ''allow'' (d_list d_role_name);
     hosts \<leftarrow> req fs ''hosts'' (d_list (d_id P));
     Some \<lparr> sv_description = desc, sv_allow = allow, sv_hosts = hosts \<rparr>
   }"

definition service_ok :: "service \<Rightarrow> bool" where
  "service_ok s \<longleftrightarrow> (\<forall>r \<in> set (sv_allow s). is_ok (role_name_new r))"

section \<open>Argv and Invocation\<close>

definition max_args :: nat where
  "max_args = 256"

definition max_argv_bytes :: nat where
  "max_argv_bytes = 64 * 1024"

type_synonym argv = "string list"

definition argv_new :: "string list \<Rightarrow> argv res" where
  "argv_new args =
     (let total = sum_list (map length args) in
      if length args > max_args \<or> total > max_argv_bytes
         \<or> (\<exists>a \<in> set args. CHR 0x00 \<in> set a)
      then Inl Invalid_argv else Inr args)"

record invocation =
  iv_service :: service_name
  iv_argv :: argv

definition d_argv :: "json \<Rightarrow> argv option" where
  "d_argv = d_try (d_list d_str) argv_new"

definition j_invocation :: "invocation \<Rightarrow> json" where
  "j_invocation i = obj [
     (''service'', Some (JStr (iv_service i))),
     (''argv'', Some (j_list JStr (iv_argv i)))]"

definition d_invocation :: "json \<Rightarrow> invocation option" where
  "d_invocation j = do {
     fs \<leftarrow> struct_fields [''service'', ''argv''] 2 False j;
     s \<leftarrow> req fs ''service'' d_service_name;
     a \<leftarrow> req fs ''argv'' d_argv;
     Some \<lparr> iv_service = s, iv_argv = a \<rparr>
   }"

definition invocation_ok :: "invocation \<Rightarrow> bool" where
  "invocation_ok i \<longleftrightarrow> is_ok (service_name_new (iv_service i)) \<and> is_ok (argv_new (iv_argv i))"

section \<open>Laws\<close>

lemma service_name_new_same: "service_name_new s = Inr r \<Longrightarrow> r = s"
  by (auto simp: service_name_new_def Let_def split: if_splits)

lemma argv_new_same: "argv_new s = Inr r \<Longrightarrow> r = s"
  by (auto simp: argv_new_def Let_def split: if_splits)

interpretation service_name_json: json_type JStr d_service_name "\<lambda>r. is_ok (service_name_new r)"
proof
  fix x :: service_name
  assume "is_ok (service_name_new x)"
  then have "service_name_new x = Inr x" by (auto simp: is_ok_iff dest: service_name_new_same)
  then show "d_service_name (JStr x) = Some x" by (simp add: d_service_name_def d_str_def)
qed simp

interpretation argv_json: json_type "j_list JStr" d_argv "\<lambda>a. is_ok (argv_new a)"
proof
  fix x :: argv
  assume "is_ok (argv_new x)"
  then have "argv_new x = Inr x" by (auto simp: is_ok_iff dest: argv_new_same)
  then show "d_argv (j_list JStr x) = Some x"
    using str_json.list_decode[of x] by (simp add: d_argv_def)
  show "json_ok (j_list JStr x)" by (rule str_json.list_canonical) simp
qed

interpretation service_json: json_type "j_service P" "d_service P" "\<lambda>s. hex_law P \<and> service_ok s"
  for P
proof
  fix s :: service
  assume ok: "hex_law P \<and> service_ok s"
  note lists = str_json.list_canonical id_json.list_decode[of "sv_hosts s" P]
    id_json.list_canonical[of "sv_hosts s" P] role_name_json.list_decode[of "sv_allow s"]
  show "d_service P (j_service P s) = Some s"
    using ok lists by (cases s)
      (simp add: d_service_def j_service_def json_simps req_def d_str_def service_ok_def)
  show "json_ok (j_service P s)"
    using ok lists by (simp add: j_service_def json_simps service_ok_def)
qed

interpretation invocation_json: json_type j_invocation d_invocation invocation_ok
proof
  fix i :: invocation
  assume ok: "invocation_ok i"
  then show "d_invocation (j_invocation i) = Some i"
    using service_name_json.decode_encode[of "iv_service i"] argv_json.decode_encode[of "iv_argv i"]
    by (cases i) (simp add: d_invocation_def j_invocation_def json_simps req_def invocation_ok_def)
  show "json_ok (j_invocation i)"
    using ok argv_json.encode_canonical[of "iv_argv i"]
    by (simp add: j_invocation_def json_simps invocation_ok_def)
qed

text \<open>
  C40: the names and arguments the program takes from outside are safe where they are used.
  A \<open>ServiceName\<close> is 1 to 64 characters of \<open>[a-z0-9_-]\<close> that starts with a letter, so it is
  never an option, a path or a shell word; an \<open>Argv\<close> has at most 256 arguments, 64 KiB in all,
  and no NUL byte. Decoding one from JSON enforces the same, whatever the bytes.
\<close>

theorem decoded_names_safe:
  "(d_service_name j = Some s \<longrightarrow>
      1 \<le> length s \<and> length s \<le> 64 \<and> is_ascii_lower (hd s) \<and>
      (\<forall>c \<in> set s. is_ascii_lower c \<or> is_ascii_digit c \<or> c = CHR ''_'' \<or> c = CHR ''-''))
   \<and> (d_role_name j = Some r \<longrightarrow>
      1 \<le> length r \<and> length r \<le> 64 \<and> (\<forall>c \<in> set r. is_ascii_alnum c \<or> c \<in> set ''_.-''))
   \<and> (d_argv j = Some a \<longrightarrow>
      length a \<le> 256 \<and> sum_list (map length a) \<le> 65536 \<and> (\<forall>x \<in> set a. CHR 0x00 \<notin> set x))"
proof (intro conjI impI)
  assume "d_service_name j = Some s"
  then have s: "service_name_new s = Inr s"
    by (auto simp: d_service_name_def res_ok_Some_iff dest: service_name_new_same split: option.splits)
  then obtain c t where "s = c # t"
    by (cases s) (auto simp: service_name_new_def)
  with s show "1 \<le> length s" "length s \<le> 64" "is_ascii_lower (hd s)"
    "\<forall>c \<in> set s. is_ascii_lower c \<or> is_ascii_digit c \<or> c = CHR ''_'' \<or> c = CHR ''-''"
    by (auto simp: service_name_new_def max_service_name_def Let_def list_all_iff split: if_splits)
next
  assume "d_role_name j = Some r"
  then have "role_name_new r = Inr r"
    by (auto simp: d_role_name_def res_ok_Some_iff role_name_new_Inr split: option.splits)
  then have r: "r \<noteq> []" "length r \<le> 64" "\<forall>c \<in> set r. is_ascii_alnum c \<or> c \<in> set ''_.-''"
    unfolding role_name_new_Inr by blast+
  then show "length r \<le> 64" "\<forall>c \<in> set r. is_ascii_alnum c \<or> c \<in> set ''_.-''" by blast+
  show "1 \<le> length r" using r(1) by (cases r) auto
next
  assume "d_argv j = Some a"
  then have "argv_new a = Inr a"
    by (auto simp: d_argv_def res_ok_Some_iff dest: argv_new_same split: option.splits)
  then show "length a \<le> 256" "sum_list (map length a) \<le> 65536" "\<forall>x \<in> set a. CHR 0x00 \<notin> set x"
    by (auto simp: argv_new_def max_args_def max_argv_bytes_def Let_def split: if_splits)
qed

theorem decoded_names_safe_witness:
  "d_service_name (JStr ''orders-db'') = Some ''orders-db'' \<and>
   length ''orders-db'' \<le> 64 \<and> is_ascii_lower (hd ''orders-db'')"
proof -
  have d: "d_service_name (JStr ''orders-db'') = Some ''orders-db''" by code_simp
  show ?thesis using d decoded_names_safe[of "JStr ''orders-db''" "''orders-db''" "[]" "[]"] by blast
qed

end
