(* ===== verification/Policy_Item.thy ===== *)
theory Policy_Item
  imports Service_Registry
begin

text \<open>
  \<open>library/services/entry.rs\<close> (a service entry the root signs on its own) and
  \<open>library/services/item.rs\<close> (the policy's items: roles, services, bans, issuers, settings,
  and the key each one has). \<open>entry_body\<close> is the signed part of an entry and
  \<open>signed_entry\<close> extends it with the signature.
\<close>

section \<open>SignedEntry (entry.rs)\<close>

definition entry_v2 :: "8 word" where
  "entry_v2 = 2"

definition entry_context :: bytes where
  "entry_context = as_bytes (''wires/service-entry/v1'' @ [CHR 0x00])"

record entry_body =
  se_format :: "8 word"
  se_fabric :: node_id
  se_version :: state_version
  se_name :: service_name
  se_service :: service
  se_alg :: algorithm_id

record signed_entry = entry_body +
  se_sig :: signature

definition entry_body_fields :: "prims \<Rightarrow> 'a entry_body_scheme \<Rightarrow> (string \<times> json option) list" where
  "entry_body_fields P e = [
     (''format'', Some (j_u8 (se_format e))),
     (''fabric'', Some (j_id P (se_fabric e))),
     (''version'', Some (j_u64 (se_version e))),
     (''name'', Some (JStr (se_name e))),
     (''service'', Some (j_service P (se_service e))),
     (''alg'', Some (j_alg (se_alg e)))]"

definition entry_signed_bytes :: "prims \<Rightarrow> 'a entry_body_scheme \<Rightarrow> bytes" where
  "entry_signed_bytes P e = entry_context @ canonical_bytes P (obj (entry_body_fields P e))"

definition entry_sign :: "prims \<Rightarrow> node_identity \<Rightarrow> state_version \<Rightarrow> service_name \<Rightarrow> service \<Rightarrow> signed_entry" where
  "entry_sign P root version name svc =
     (let body = \<lparr> se_format = entry_v2, se_fabric = node_id P root, se_version = version,
                   se_name = name, se_service = svc, se_alg = Ed25519 \<rparr>
      in entry_body.extend body \<lparr> se_sig = sign_bytes P root (entry_signed_bytes P body) \<rparr>)"

definition entry_verify :: "prims \<Rightarrow> node_id \<Rightarrow> signed_entry \<Rightarrow> unit res" where
  "entry_verify P root e =
     (if se_format e \<noteq> entry_v2 then Inl Unsupported_version
      else if se_alg e \<noteq> Ed25519 then Inl Unsupported_algorithm
      else if se_fabric e \<noteq> root then Inl Invalid_signature
      else verify_sig P root (entry_signed_bytes P e) (se_sig e))"

definition entry_is_for :: "signed_entry \<Rightarrow> node_id \<Rightarrow> service_name \<Rightarrow> service \<Rightarrow> bool" where
  "entry_is_for e fabric name svc \<longleftrightarrow> se_fabric e = fabric \<and> se_name e = name \<and> se_service e = svc"

definition entry_fields :: "prims \<Rightarrow> signed_entry \<Rightarrow> (string \<times> json option) list" where
  "entry_fields P e = entry_body_fields P e @ [(''sig'', Some (j_sig P (se_sig e)))]"

definition j_entry :: "prims \<Rightarrow> signed_entry \<Rightarrow> json" where
  "j_entry P e = obj (entry_fields P e)"

definition d_entry :: "prims \<Rightarrow> json \<Rightarrow> signed_entry option" where
  "d_entry P j = do {
     fs \<leftarrow> struct_fields [''format'', ''fabric'', ''version'', ''name'', ''service'', ''alg'', ''sig''] 7 True j;
     format \<leftarrow> req fs ''format'' d_u8;
     fabric \<leftarrow> req fs ''fabric'' (d_id P);
     version \<leftarrow> req fs ''version'' d_u64;
     name \<leftarrow> req fs ''name'' d_service_name;
     svc \<leftarrow> req fs ''service'' (d_service P);
     alg \<leftarrow> req fs ''alg'' d_alg;
     sig \<leftarrow> req fs ''sig'' (d_sig P);
     Some \<lparr> se_format = format, se_fabric = fabric, se_version = version, se_name = name,
            se_service = svc, se_alg = alg, se_sig = sig \<rparr>
   }"

definition entry_ok :: "signed_entry \<Rightarrow> bool" where
  "entry_ok e \<longleftrightarrow> is_ok (service_name_new (se_name e)) \<and> service_ok (se_service e)"

section \<open>Item (item.rs)\<close>

definition default_beat_secs :: u32 where
  "default_beat_secs = 5 * 60"

definition default_fresh_secs :: u32 where
  "default_fresh_secs = 15 * 60"

definition person_matches :: "person \<Rightarrow> principal \<Rightarrow> bool" where
  "person_matches who p \<longleftrightarrow>
     pr_issuer p = person_issuer who
     \<and> (case pr_email p of None \<Rightarrow> False | Some e \<Rightarrow> eq_ignore_case e (person_email who))"

record issuer_config =
  ic_client_id :: audience
  ic_audiences :: "audience list"

record settings =
  st_beat_secs :: u32
  st_fresh_secs :: u32

definition settings_default :: settings where
  "settings_default = \<lparr> st_beat_secs = default_beat_secs, st_fresh_secs = default_fresh_secs \<rparr>"

datatype item =
    Item_Role role_name "matcher list"
  | Item_Service signed_entry
  | Item_Ban node_id
  | Item_PersonBan person
  | Item_Issuer issuer issuer_config
  | Item_Settings settings

fun item_key_of :: "item \<Rightarrow> item_key" where
  "item_key_of (Item_Role k _) = Key_Role k"
| "item_key_of (Item_Service e) = Key_Service (se_name e)"
| "item_key_of (Item_Ban k) = Key_Ban k"
| "item_key_of (Item_PersonBan k) = Key_PersonBan k"
| "item_key_of (Item_Issuer k _) = Key_Issuer k"
| "item_key_of (Item_Settings _) = Key_Settings"

definition j_person :: "person \<Rightarrow> json" where
  "j_person p = obj [(''issuer'', Some (JStr (person_issuer p))), (''email'', Some (JStr (person_email p)))]"

definition d_person :: "json \<Rightarrow> person option" where
  "d_person j = do {
     fs \<leftarrow> struct_fields [''issuer'', ''email''] 2 True j;
     iss \<leftarrow> req fs ''issuer'' d_str;
     email \<leftarrow> req fs ''email'' d_str;
     Some (Person iss email)
   }"

definition j_issuer_config :: "issuer_config \<Rightarrow> json" where
  "j_issuer_config c = obj [
     (''client_id'', Some (JStr (ic_client_id c))),
     (''audiences'', Some (j_list JStr (ic_audiences c)))]"

definition d_issuer_config :: "json \<Rightarrow> issuer_config option" where
  "d_issuer_config j = do {
     fs \<leftarrow> struct_fields [''client_id'', ''audiences''] 2 True j;
     cid \<leftarrow> req fs ''client_id'' d_str;
     auds \<leftarrow> req fs ''audiences'' (d_list d_str);
     Some \<lparr> ic_client_id = cid, ic_audiences = auds \<rparr>
   }"

definition j_settings :: "settings \<Rightarrow> json" where
  "j_settings s = obj [
     (''beat_secs'', Some (j_u32 (st_beat_secs s))),
     (''fresh_secs'', Some (j_u32 (st_fresh_secs s)))]"

definition d_settings :: "json \<Rightarrow> settings option" where
  "d_settings j = do {
     fs \<leftarrow> struct_fields [''beat_secs'', ''fresh_secs''] 2 True j;
     beat \<leftarrow> req fs ''beat_secs'' d_u32;
     fresh \<leftarrow> req fs ''fresh_secs'' d_u32;
     Some \<lparr> st_beat_secs = beat, st_fresh_secs = fresh \<rparr>
   }"

fun j_item :: "prims \<Rightarrow> item \<Rightarrow> json" where
  "j_item P (Item_Role k b) =
     obj [(''kind'', Some (JStr ''role'')), (''key'', Some (JStr k)), (''body'', Some (j_list j_matcher b))]"
| "j_item P (Item_Service e) = obj ((''kind'', Some (JStr ''service'')) # entry_fields P e)"
| "j_item P (Item_Ban k) = obj [(''kind'', Some (JStr ''ban'')), (''key'', Some (j_id P k))]"
| "j_item P (Item_PersonBan k) =
     obj [(''kind'', Some (JStr ''person_ban'')), (''key'', Some (j_person k))]"
| "j_item P (Item_Issuer k b) =
     obj [(''kind'', Some (JStr ''issuer'')), (''key'', Some (JStr k)), (''body'', Some (j_issuer_config b))]"
| "j_item P (Item_Settings b) =
     obj [(''kind'', Some (JStr ''settings'')), (''body'', Some (j_settings b))]"

definition d_item :: "prims \<Rightarrow> json \<Rightarrow> item option" where
  "d_item P j = do {
     (kind, rest) \<leftarrow> tag_split ''kind'' j;
     if kind = ''role'' then do {
       fs \<leftarrow> struct_fields [''key'', ''body''] 2 True rest;
       k \<leftarrow> req fs ''key'' d_role_name;
       b \<leftarrow> req fs ''body'' (d_list d_matcher);
       Some (Item_Role k b) }
     else if kind = ''service'' then map_option Item_Service (d_entry P rest)
     else if kind = ''ban'' then do {
       fs \<leftarrow> struct_fields [''key''] 1 True rest;
       k \<leftarrow> req fs ''key'' (d_id P);
       Some (Item_Ban k) }
     else if kind = ''person_ban'' then do {
       fs \<leftarrow> struct_fields [''key''] 1 True rest;
       k \<leftarrow> req fs ''key'' d_person;
       Some (Item_PersonBan k) }
     else if kind = ''issuer'' then do {
       fs \<leftarrow> struct_fields [''key'', ''body''] 2 True rest;
       k \<leftarrow> req fs ''key'' d_str;
       b \<leftarrow> req fs ''body'' d_issuer_config;
       Some (Item_Issuer k b) }
     else if kind = ''settings'' then do {
       fs \<leftarrow> struct_fields [''body''] 1 True rest;
       b \<leftarrow> req fs ''body'' d_settings;
       Some (Item_Settings b) }
     else None
   }"

fun item_ok :: "item \<Rightarrow> bool" where
  "item_ok (Item_Role k b) = (is_ok (role_name_new k) \<and> (\<forall>m \<in> set b. matcher_ok m))"
| "item_ok (Item_Service e) = entry_ok e"
| "item_ok _ = True"

section \<open>Laws\<close>

text \<open>Every item's JSON is canonical, and an object's encoding determines the value.\<close>

lemma j_matcher_canonical [simp]: "json_ok (j_matcher m)"
  by (simp add: j_matcher_def json_simps j_email_def split: option.splits)

lemma j_strings_canonical [simp]: "json_ok (j_list JStr xs)"
  by (rule str_json.list_canonical) simp

lemma j_service_canonical [simp]: "json_ok (j_service P s)"
  by (simp add: j_service_def json_simps j_list_def j_id_def)

lemma j_basic_canonical [simp]:
  "json_ok (j_u8 a)" "json_ok (j_u32 b)" "json_ok (j_u64 c)" "json_ok (j_id P d)"
  "json_ok (j_sig P e)" "json_ok (j_alg g)" "json_ok (j_person p)" "json_ok (j_issuer_config i)"
  using u8_json.encode_canonical u32_json.encode_canonical u64_json.encode_canonical
  by (simp_all add: j_id_def j_sig_def j_alg_def j_person_def j_issuer_config_def json_simps)

lemma j_settings_canonical [simp]: "json_ok (j_settings s)"
  by (simp add: j_settings_def json_simps)

lemma entry_body_distinct [simp]: "distinct (map fst (entry_body_fields P e))"
  by (simp add: entry_body_fields_def)

lemma entry_body_canonical [simp]: "json_ok (obj (entry_body_fields P e))"
  by (simp add: entry_body_fields_def json_simps)

lemma entry_fields_distinct [simp]: "distinct (map fst (entry_fields P e))"
  by (simp add: entry_fields_def entry_body_fields_def)

lemma j_item_canonical [simp]: "json_ok (j_item P i)"
  by (cases i) (simp_all add: json_simps j_list_def entry_fields_def entry_body_fields_def)

lemma j_id_inj: "hex_law P \<Longrightarrow> j_id P a = j_id P b \<longleftrightarrow> a = b"
  by (simp add: j_id_def hex_of_inj)

lemma j_service_inj: "hex_law P \<Longrightarrow> j_service P s = j_service P t \<longleftrightarrow> s = t"
  by (cases s; cases t) (auto simp: j_service_def json_simps j_list_inj j_id_inj)

lemma entry_body_inj:
  assumes "hex_law P"
  shows "obj (entry_body_fields P e) = obj (entry_body_fields P e') \<longleftrightarrow>
    entry_body.truncate e = entry_body.truncate e'"
proof -
  have alg: "se_alg e = se_alg e'" by (metis algorithm_id.exhaust)
  show ?thesis
    using assms alg
    by (auto simp: entry_body_fields_def json_simps j_id_inj j_service_inj entry_body.defs)
qed

lemma entry_signed_inj:
  "hex_law P \<Longrightarrow> json_law P \<Longrightarrow>
     entry_signed_bytes P e = entry_signed_bytes P e' \<longleftrightarrow> entry_body.truncate e = entry_body.truncate e'"
  by (simp add: entry_signed_bytes_def canonical_bytes_def json_law_inj entry_body_inj)

interpretation entry_json: json_type "j_entry P" "d_entry P" "\<lambda>e. hex_law P \<and> entry_ok e"
  for P
proof
  fix e :: signed_entry
  assume ok: "hex_law P \<and> entry_ok e"
  then have "d_service_name (JStr (se_name e)) = Some (se_name e)"
    "d_service P (j_service P (se_service e)) = Some (se_service e)"
    "d_id P (j_id P (se_fabric e)) = Some (se_fabric e)"
    "d_sig P (j_sig P (se_sig e)) = Some (se_sig e)"
    using service_name_json.decode_encode service_json.decode_encode id_json.decode_encode
      sig_json.decode_encode
    by (auto simp: entry_ok_def)
  then show "d_entry P (j_entry P e) = Some e"
    using u8_json.decode_encode u64_json.decode_encode alg_json.decode_encode
    by (cases e) (simp add: d_entry_def j_entry_def entry_fields_def entry_body_fields_def
        json_simps req_def)
  show "json_ok (j_entry P e)"
    by (simp add: j_entry_def entry_fields_def entry_body_fields_def json_simps)
qed

interpretation person_json: json_type j_person d_person "\<lambda>_. True"
proof
  fix p :: person
  show "d_person (j_person p) = Some p"
    by (cases p) (simp add: d_person_def j_person_def json_simps req_def d_str_def)
qed simp

interpretation issuer_config_json: json_type j_issuer_config d_issuer_config "\<lambda>_. True"
proof
  fix c :: issuer_config
  show "d_issuer_config (j_issuer_config c) = Some c"
    using str_json.list_decode[of "ic_audiences c"]
    by (cases c) (simp add: d_issuer_config_def j_issuer_config_def json_simps req_def d_str_def)
qed simp

interpretation settings_json: json_type j_settings d_settings "\<lambda>_. True"
proof
  fix s :: settings
  show "d_settings (j_settings s) = Some s"
    using u32_json.decode_encode
    by (cases s) (simp add: d_settings_def j_settings_def json_simps req_def)
qed simp

interpretation item_json: json_type "j_item P" "d_item P" "\<lambda>i. hex_law P \<and> item_ok i"
  for P
proof
  fix i :: item
  assume ok: "hex_law P \<and> item_ok i"
  show "d_item P (j_item P i) = Some i"
  proof (cases i)
    case (Item_Role k b)
    then show ?thesis
      using ok role_name_json.decode_encode[of k] matcher_json.list_decode[of b]
      by (simp add: d_item_def json_simps req_def)
  next
    case (Item_Service e)
    have "tag_split ''kind'' (j_item P i) = Some (''service'', j_entry P e)"
      by (simp add: Item_Service j_entry_def)
        (rule tag_split_obj, simp_all add: entry_fields_def entry_body_fields_def)
    then show ?thesis
      using ok entry_json.decode_encode[of P e] by (simp add: d_item_def Item_Service)
  next
    case (Item_Ban k)
    then show ?thesis
      using ok id_json.decode_encode[of P k] by (simp add: d_item_def json_simps req_def)
  next
    case (Item_PersonBan k)
    then show ?thesis
      using person_json.decode_encode[of k] by (simp add: d_item_def json_simps req_def)
  next
    case (Item_Issuer k b)
    then show ?thesis
      using issuer_config_json.decode_encode[of b]
      by (simp add: d_item_def json_simps req_def d_str_def)
  next
    case (Item_Settings b)
    then show ?thesis
      using settings_json.decode_encode[of b] by (simp add: d_item_def json_simps req_def)
  qed
qed simp

section \<open>Entries\<close>

lemma entry_sign_fields [simp]:
  "se_format (entry_sign P k v n s) = entry_v2"
  "se_fabric (entry_sign P k v n s) = node_id P k"
  "se_version (entry_sign P k v n s) = v"
  "se_name (entry_sign P k v n s) = n"
  "se_service (entry_sign P k v n s) = s"
  "se_alg (entry_sign P k v n s) = Ed25519"
  by (simp_all add: entry_sign_def entry_body.defs)

lemma entry_sign_sig:
  "se_sig (entry_sign P k v n s) = sign_bytes P k (entry_signed_bytes P (entry_sign P k v n s))"
  by (simp add: entry_sign_def entry_body.defs entry_signed_bytes_def entry_body_fields_def)

lemma entry_verify_sign:
  "ed25519_law P \<Longrightarrow> entry_verify P (node_id P k) (entry_sign P k v n s) = Inr ()"
  by (simp add: entry_verify_def entry_sign_sig)

lemma entry_verify_Inr [result_simps]:
  "entry_verify P root e = Inr u \<longleftrightarrow>
     se_format e = entry_v2 \<and> se_fabric e = root
     \<and> ed_verify P root (entry_signed_bytes P e) (se_sig e)"
  by (cases "se_alg e") (simp add: entry_verify_def verify_sig_def)

end
