(* ===== verification/Policy_Head.thy ===== *)
theory Policy_Head
  imports Policy_Item
begin

text \<open>
  \<open>library/services/head.rs\<close>: the root-signed head over the hash of all items. The versions
  are 64-bit words, \<open>issued\<close> and \<open>not_after\<close> are \<open>i64\<close>s.
\<close>

definition policy_v5 :: "8 word" where
  "policy_v5 = 5"

definition policy_head_context :: bytes where
  "policy_head_context = as_bytes (''wires/policy-head/v1'' @ [CHR 0x00])"

definition items_context :: bytes where
  "items_context = as_bytes (''wires/policy-items/v1'' @ [CHR 0x00])"

section \<open>ItemsHash, PolicyHead, SignedPolicyHead\<close>

definition items_hash_bytes :: "prims \<Rightarrow> item list \<Rightarrow> bytes" where
  "items_hash_bytes P items = items_context @ canonical_bytes P (j_list (j_item P) items)"

definition items_hash_of :: "prims \<Rightarrow> item list \<Rightarrow> hash256" where
  "items_hash_of P items = blake3 P (items_hash_bytes P items)"

record policy_head =
  h_format :: "8 word"
  h_fabric :: node_id
  h_version :: state_version
  h_issued :: i64
  h_not_after :: i64
  h_directories :: "node_id list"
  h_fresh_secs :: u32
  h_items_hash :: hash256

record signed_head =
  sh_head :: policy_head
  sh_alg :: algorithm_id
  sh_sig :: signature

definition j_head :: "prims \<Rightarrow> policy_head \<Rightarrow> json" where
  "j_head P h = obj [
     (''format'', Some (j_u8 (h_format h))),
     (''fabric'', Some (j_id P (h_fabric h))),
     (''version'', Some (j_u64 (h_version h))),
     (''issued'', Some (JInt (h_issued h))),
     (''not_after'', Some (JInt (h_not_after h))),
     (''directories'', Some (j_list (j_id P) (h_directories h))),
     (''fresh_secs'', Some (j_u32 (h_fresh_secs h))),
     (''items_hash'', Some (j_id P (h_items_hash h)))]"

definition d_head :: "prims \<Rightarrow> json \<Rightarrow> policy_head option" where
  "d_head P j = do {
     fs \<leftarrow> struct_fields [''format'', ''fabric'', ''version'', ''issued'', ''not_after'',
                          ''directories'', ''fresh_secs'', ''items_hash''] 8 True j;
     format \<leftarrow> req fs ''format'' d_u8;
     fabric \<leftarrow> req fs ''fabric'' (d_id P);
     version \<leftarrow> req fs ''version'' d_u64;
     issued \<leftarrow> req fs ''issued'' d_i64;
     not_after \<leftarrow> req fs ''not_after'' d_i64;
     dirs \<leftarrow> req fs ''directories'' (d_list (d_id P));
     fresh \<leftarrow> req fs ''fresh_secs'' d_u32;
     hash \<leftarrow> req fs ''items_hash'' (d_id P);
     Some \<lparr> h_format = format, h_fabric = fabric, h_version = version, h_issued = issued,
            h_not_after = not_after, h_directories = dirs, h_fresh_secs = fresh, h_items_hash = hash \<rparr>
   }"

definition j_signed_head :: "prims \<Rightarrow> signed_head \<Rightarrow> json" where
  "j_signed_head P s = obj [
     (''head'', Some (j_head P (sh_head s))),
     (''alg'', Some (j_alg (sh_alg s))),
     (''sig'', Some (j_sig P (sh_sig s)))]"

definition d_signed_head :: "prims \<Rightarrow> json \<Rightarrow> signed_head option" where
  "d_signed_head P j = do {
     fs \<leftarrow> struct_fields [''head'', ''alg'', ''sig''] 3 True j;
     h \<leftarrow> req fs ''head'' (d_head P);
     a \<leftarrow> req fs ''alg'' d_alg;
     s \<leftarrow> req fs ''sig'' (d_sig P);
     Some \<lparr> sh_head = h, sh_alg = a, sh_sig = s \<rparr>
   }"

section \<open>Signing and checking a head\<close>

definition head_signed_bytes :: "prims \<Rightarrow> policy_head \<Rightarrow> algorithm_id \<Rightarrow> bytes" where
  "head_signed_bytes P h alg =
     policy_head_context
     @ canonical_bytes P (obj [(''alg'', Some (j_alg alg)), (''head'', Some (j_head P h))])"

definition check_directories :: "policy_head \<Rightarrow> unit res" where
  "check_directories h = (case find_dup (h_directories h) of
     Some d \<Rightarrow> Inl (Invalid_policy (Directory_twice d))
   | None \<Rightarrow> Inr ())"

definition head_sign :: "prims \<Rightarrow> node_identity \<Rightarrow> policy_head \<Rightarrow> signed_head res" where
  "head_sign P root h =
     (if node_id P root \<noteq> h_fabric h then Inl Fabric_mismatch
      else and_then (check_directories h) (\<lambda>_.
        Inr \<lparr> sh_head = h, sh_alg = Ed25519,
              sh_sig = sign_bytes P root (head_signed_bytes P h Ed25519) \<rparr>))"

definition is_directory :: "policy_head \<Rightarrow> node_id \<Rightarrow> bool" where
  "is_directory h n \<longleftrightarrow> n \<in> set (h_directories h)"

definition head_verify :: "prims \<Rightarrow> node_id \<Rightarrow> signed_head \<Rightarrow> unit res" where
  "head_verify P root s =
     (if sh_alg s \<noteq> Ed25519 then Inl Unsupported_algorithm
      else if h_format (sh_head s) \<noteq> policy_v5 then Inl Unsupported_version
      else if h_fabric (sh_head s) \<noteq> root then Inl Invalid_signature
      else and_then (verify_sig P root (head_signed_bytes P (sh_head s) (sh_alg s)) (sh_sig s)) (\<lambda>_.
        check_directories (sh_head s)))"

definition head_check_fresh :: "signed_head \<Rightarrow> i64 \<Rightarrow> unit res" where
  "head_check_fresh s now =
     (if now > h_not_after (sh_head s) then Inl (Expired (h_not_after (sh_head s))) else Inr ())"

definition head_is_newer_than :: "signed_head \<Rightarrow> signed_head \<Rightarrow> bool" where
  "head_is_newer_than s other \<longleftrightarrow>
     h_fabric (sh_head s) = h_fabric (sh_head other)
     \<and> h_version (sh_head s) > h_version (sh_head other)"

definition head_hash_bytes :: "prims \<Rightarrow> signed_head \<Rightarrow> bytes" where
  "head_hash_bytes P s = canonical_bytes P (j_signed_head P s)"

definition head_hash :: "prims \<Rightarrow> signed_head \<Rightarrow> hash256" where
  "head_hash P s = blake3 P (head_hash_bytes P s)"

text \<open>The \<open>i64\<close> fields are within \<open>i64\<close>, as the Rust type has it.\<close>

definition head_ok :: "policy_head \<Rightarrow> bool" where
  "head_ok h \<longleftrightarrow> in_i64 (h_issued h) \<and> in_i64 (h_not_after h)"

section \<open>Laws\<close>

lemma j_ids_canonical [simp]: "json_ok (j_list (j_id P) xs)"
  by (simp add: j_list_def)

lemma j_items_canonical [simp]: "json_ok (j_list (j_item P) items)"
  by (simp add: j_list_def)

lemma j_head_canonical [simp]: "head_ok h \<Longrightarrow> json_ok (j_head P h)"
  by (simp add: j_head_def json_simps head_ok_def)

lemma j_signed_head_canonical [simp]: "head_ok (sh_head s) \<Longrightarrow> json_ok (j_signed_head P s)"
  by (simp add: j_signed_head_def json_simps)

interpretation head_json: json_type "j_head P" "d_head P" "\<lambda>h. hex_law P \<and> head_ok h"
  for P
proof
  fix h :: policy_head
  assume ok: "hex_law P \<and> head_ok h"
  then have "d_i64 (JInt (h_issued h)) = Some (h_issued h)"
    "d_i64 (JInt (h_not_after h)) = Some (h_not_after h)"
    using i64_json.decode_encode by (simp_all add: head_ok_def)
  then show "d_head P (j_head P h) = Some h"
    using ok id_json.decode_encode id_json.list_decode[of "h_directories h" P]
      u8_json.decode_encode u32_json.decode_encode u64_json.decode_encode
    by (cases h) (simp add: d_head_def j_head_def json_simps req_def)
qed simp

interpretation signed_head_json: json_type "j_signed_head P" "d_signed_head P"
    "\<lambda>s. hex_law P \<and> head_ok (sh_head s)"
  for P
proof
  fix s :: signed_head
  assume ok: "hex_law P \<and> head_ok (sh_head s)"
  then show "d_signed_head P (j_signed_head P s) = Some s"
    using head_json.decode_encode[of P "sh_head s"] sig_json.decode_encode[of P "sh_sig s"]
      alg_json.decode_encode
    by (cases s) (simp add: d_signed_head_def j_signed_head_def json_simps req_def)
qed simp

lemma alg_only: "a = Ed25519"
  by (cases a) simp

lemma find_dup_cases: "(case find_dup xs of None \<Rightarrow> a | Some d \<Rightarrow> b d) = (if distinct xs then a else b (the (find_dup xs)))"
  by (cases "find_dup xs") (auto simp flip: find_dup_None)

lemma check_directories_Inr [result_simps]:
  "check_directories h = Inr u \<longleftrightarrow> distinct (h_directories h)"
  by (simp add: check_directories_def find_dup_cases)

lemma head_verify_Inr [result_simps]:
  "head_verify P root s = Inr u \<longleftrightarrow>
     h_format (sh_head s) = policy_v5 \<and> h_fabric (sh_head s) = root
     \<and> ed_verify P root (head_signed_bytes P (sh_head s) Ed25519) (sh_sig s)
     \<and> distinct (h_directories (sh_head s))"
  using alg_only[of "sh_alg s"] by (auto simp: head_verify_def result_simps)

lemma head_sign_Inr [result_simps]:
  "head_sign P root h = Inr s \<longleftrightarrow>
     node_id P root = h_fabric h \<and> distinct (h_directories h)
     \<and> s = \<lparr> sh_head = h, sh_alg = Ed25519, sh_sig = sign_bytes P root (head_signed_bytes P h Ed25519) \<rparr>"
  by (auto simp: head_sign_def result_simps)

lemma head_verify_sign:
  assumes "ed25519_law P" "head_sign P root h = Inr s" "h_format h = policy_v5"
  shows "head_verify P (node_id P root) s = Inr ()"
  using assms verify_signed[OF assms(1), of root]
  by (auto simp: head_sign_Inr head_verify_Inr verify_sig_Inr)

lemma head_signed_inj:
  assumes "hex_law P" "json_law P" "head_ok h" "head_ok h'"
  shows "head_signed_bytes P h a = head_signed_bytes P h' a' \<longleftrightarrow> h = h'"
proof -
  have "json_ok (obj [(''alg'', Some (j_alg b)), (''head'', Some (j_head P g))])" if "head_ok g" for b g
    using that by (simp add: json_simps)
  then show ?thesis
    using assms head_json.encode_inj[of P h h']
    by (simp add: head_signed_bytes_def canonical_bytes_def json_law_inj json_simps j_alg_def)
qed

text \<open>The contexts separate what the root signs: no bytes are both a head's and an entry's.\<close>

lemma as_bytes_context:
  assumes "as_bytes s @ x = as_bytes t @ y" "k \<le> length s" "k \<le> length t"
  shows "take k s = take k t"
proof -
  have "take k (as_bytes s @ x) = take k (as_bytes t @ y)" using assms(1) by simp
  then have "take k (as_bytes s) = take k (as_bytes t)" using assms(2,3) by simp
  moreover have "take k (as_bytes r) = as_bytes (take k r)" for r
    by (simp add: as_bytes_def take_map)
  ultimately show ?thesis by simp
qed

lemma head_not_entry: "head_signed_bytes P h a \<noteq> entry_signed_bytes P e"
proof
  assume "head_signed_bytes P h a = entry_signed_bytes P e"
  then have "take 7 (''wires/policy-head/v1'' @ [CHR 0x00]) = take 7 (''wires/service-entry/v1'' @ [CHR 0x00])"
    unfolding head_signed_bytes_def entry_signed_bytes_def policy_head_context_def entry_context_def
    by (rule as_bytes_context) simp_all
  then show False by simp
qed


end
