(* ===== verification/Signed_Policy.thy ===== *)
theory Signed_Policy
  imports Policy_Head
begin

text \<open>
  \<open>library/services/signed_policy.rs\<close>: the policy as the admin edits it (\<open>policy\<close>), as it is
  signed and published (\<open>signed_policy\<close>), the structural rules of \<open>validate\<close>, flattening to
  items and back, signing, and the one check every holder of a whole policy makes.
\<close>

section \<open>Policy and SignedPolicy\<close>

record policy =
  po_fabric :: node_id
  po_version :: state_version
  po_issued :: i64
  po_not_after :: i64
  po_directories :: "node_id list"
  po_roles :: "(role_name, matcher list) btree_map"
  po_services :: "(service_name, service) btree_map"
  po_bans :: "node_id btree_set"
  po_person_bans :: "person btree_set"
  po_issuers :: "(issuer, issuer_config) btree_map"
  po_settings :: settings

record signed_policy =
  sp_head :: signed_head
  sp_items :: "item list"

definition policy_new :: "node_id \<Rightarrow> policy" where
  "policy_new fabric = \<lparr> po_fabric = fabric, po_version = 0, po_issued = 0, po_not_after = 0,
     po_directories = [], po_roles = [], po_services = [], po_bans = [], po_person_bans = [],
     po_issuers = [], po_settings = settings_default \<rparr>"

text \<open>The representation invariant of the maps and sets.\<close>

definition policy_ok :: "policy \<Rightarrow> bool" where
  "policy_ok p \<longleftrightarrow> bm_ok (po_roles p) \<and> bm_ok (po_services p) \<and> bs_ok (po_bans p)
     \<and> bs_ok (po_person_bans p) \<and> bm_ok (po_issuers p)"

section \<open>validate\<close>

abbreviation bad :: "policy_fault \<Rightarrow> 'a res" where
  "bad why \<equiv> Inl (Invalid_policy why)"

definition blank :: "string \<Rightarrow> bool" where
  "blank s \<longleftrightarrow> trim s = []"

definition validate_person :: "person \<Rightarrow> unit res" where
  "validate_person who =
     (if blank (person_issuer who) \<or> blank (person_email who) then bad Person_ban_blank
      else if person_email who \<noteq> ascii_lower (person_email who) then bad (Person_ban_case who)
      else Inr ())"

definition validate_issuer :: "issuer \<times> issuer_config \<Rightarrow> unit res" where
  "validate_issuer = (\<lambda>(iss, config).
     if blank iss then bad Issuer_blank
     else if list_all blank (ic_audiences config) then bad (Issuer_no_audience iss)
     else Inr ())"

definition validate_role :: "(issuer, issuer_config) btree_map \<Rightarrow> role_name \<times> matcher list \<Rightarrow> unit res" where
  "validate_role issuers = (\<lambda>(role, matchers).
     if matchers = [] then bad (Role_no_matchers role)
     else all_ok (\<lambda>m.
       if blank (mt_issuer m) then bad (Matcher_no_issuer role)
       else if \<not> bm_has issuers (mt_issuer m) then bad (Issuer_untrusted role (mt_issuer m))
       else Inr ()) matchers)"

definition validate_service :: "(role_name, matcher list) btree_map \<Rightarrow> node_id btree_set
    \<Rightarrow> service_name \<times> service \<Rightarrow> unit res" where
  "validate_service roles bans = (\<lambda>(name, svc).
     case List.find (\<lambda>r. \<not> bm_has roles r) (sv_allow svc) of
       Some role \<Rightarrow> bad (Undefined_role name role)
     | None \<Rightarrow> (case find_dup (sv_hosts svc) of
         Some h \<Rightarrow> bad (Host_twice name h)
       | None \<Rightarrow> (case List.find (\<lambda>h. h \<in> set bans) (sv_hosts svc) of
           Some h \<Rightarrow> bad (Host_banned name h)
         | None \<Rightarrow> Inr ())))"

definition validate :: "policy \<Rightarrow> unit res" where
  "validate p =
     (case find_dup (po_directories p) of Some d \<Rightarrow> bad (Directory_twice d) | None \<Rightarrow>
      case List.find (\<lambda>d. d \<in> set (po_bans p)) (po_directories p) of
        Some d \<Rightarrow> bad (Directory_banned d)
      | None \<Rightarrow>
        and_then (all_ok validate_person (po_person_bans p)) (\<lambda>_.
        and_then (all_ok validate_issuer (po_issuers p)) (\<lambda>_.
        and_then (all_ok (validate_role (po_issuers p)) (po_roles p)) (\<lambda>_.
        and_then (all_ok (validate_service (po_roles p) (po_bans p)) (po_services p)) (\<lambda>_.
          if st_beat_secs (po_settings p) = 0 then bad Beat_zero
          else if st_fresh_secs (po_settings p) < st_beat_secs (po_settings p) then bad Fresh_shorter
          else Inr ())))))"

section \<open>Items\<close>

fun entry_of_item :: "item \<Rightarrow> signed_entry option" where
  "entry_of_item (Item_Service e) = Some e"
| "entry_of_item _ = None"

definition sp_entries :: "signed_policy \<Rightarrow> signed_entry list" where
  "sp_entries s = List.map_filter entry_of_item (sp_items s)"

definition policy_entry :: "prims \<Rightarrow> policy \<Rightarrow> node_identity \<Rightarrow> (service_name, signed_entry) btree_map
    \<Rightarrow> service_name \<times> service \<Rightarrow> signed_entry" where
  "policy_entry P p root kept = (\<lambda>(name, svc). case bm_get kept name of
     Some e \<Rightarrow> if entry_is_for e (po_fabric p) name svc \<and> se_version e \<le> po_version p then e
               else entry_sign P root (po_version p) name svc
   | None \<Rightarrow> entry_sign P root (po_version p) name svc)"

definition kept_entries :: "signed_policy option \<Rightarrow> (service_name, signed_entry) btree_map" where
  "kept_entries previous = (case previous of
     None \<Rightarrow> []
   | Some s \<Rightarrow> bm_from (map (\<lambda>e. (se_name e, e)) (sp_entries s)))"

definition items :: "prims \<Rightarrow> policy \<Rightarrow> node_identity \<Rightarrow> signed_policy option \<Rightarrow> item list res" where
  "items P p root previous =
     (if node_id P root \<noteq> po_fabric p then Inl Fabric_mismatch
      else Inr (map (\<lambda>(k, v). Item_Role k v) (po_roles p)
        @ map (\<lambda>ns. Item_Service (policy_entry P p root (kept_entries previous) ns)) (po_services p)
        @ map Item_Ban (po_bans p)
        @ map Item_PersonBan (po_person_bans p)
        @ map (\<lambda>(k, v). Item_Issuer k v) (po_issuers p)
        @ [Item_Settings (po_settings p)]))"

definition check_order :: "item list \<Rightarrow> unit res" where
  "check_order its =
     (case find_pair (\<lambda>a b. item_key_of a \<ge> item_key_of b) its of
        Some (_, b) \<Rightarrow> bad (Out_of_order (item_key_of b))
      | None \<Rightarrow> Inr ())"

fun add_item :: "item \<Rightarrow> policy \<times> settings option \<Rightarrow> policy \<times> settings option" where
  "add_item (Item_Role k b) (p, s) = (p\<lparr>po_roles := bm_put k b (po_roles p)\<rparr>, s)"
| "add_item (Item_Service e) (p, s) =
     (p\<lparr>po_services := bm_put (se_name e) (se_service e) (po_services p)\<rparr>, s)"
| "add_item (Item_Ban k) (p, s) = (p\<lparr>po_bans := bs_put k (po_bans p)\<rparr>, s)"
| "add_item (Item_PersonBan k) (p, s) = (p\<lparr>po_person_bans := bs_put k (po_person_bans p)\<rparr>, s)"
| "add_item (Item_Issuer k b) (p, s) = (p\<lparr>po_issuers := bm_put k b (po_issuers p)\<rparr>, s)"
| "add_item (Item_Settings b) (p, s) = (p, Some b)"

definition from_items :: "policy_head \<Rightarrow> item list \<Rightarrow> policy res" where
  "from_items h its =
     and_then (check_order its) (\<lambda>_.
       let start = (policy_new (h_fabric h))\<lparr>po_version := h_version h, po_issued := h_issued h,
                     po_not_after := h_not_after h, po_directories := h_directories h\<rparr>
       in case fold add_item its (start, None) of
            (p, Some b) \<Rightarrow> Inr (p\<lparr>po_settings := b\<rparr>)
          | (_, None) \<Rightarrow> bad No_settings)"

section \<open>Signing\<close>

definition head_of :: "prims \<Rightarrow> policy \<Rightarrow> item list \<Rightarrow> policy_head" where
  "head_of P p its = \<lparr> h_format = policy_v5, h_fabric = po_fabric p, h_version = po_version p,
     h_issued = po_issued p, h_not_after = po_not_after p, h_directories = po_directories p,
     h_fresh_secs = st_fresh_secs (po_settings p), h_items_hash = items_hash_of P its \<rparr>"

definition sign_with :: "prims \<Rightarrow> policy \<Rightarrow> node_identity \<Rightarrow> signed_policy option \<Rightarrow> signed_policy res" where
  "sign_with P p root previous =
     (if node_id P root \<noteq> po_fabric p then Inl Fabric_mismatch
      else and_then (validate p) (\<lambda>_.
        and_then (items P p root previous) (\<lambda>its.
        and_then (head_sign P root (head_of P p its)) (\<lambda>h.
          Inr \<lparr> sp_head = h, sp_items = its \<rparr>))))"

definition policy_sign :: "prims \<Rightarrow> policy \<Rightarrow> node_identity \<Rightarrow> signed_policy res" where
  "policy_sign P p root = sign_with P p root None"

definition sign_after :: "prims \<Rightarrow> policy \<Rightarrow> node_identity \<Rightarrow> signed_policy \<Rightarrow> signed_policy res" where
  "sign_after P p root previous = sign_with P p root (Some previous)"

section \<open>Checking\<close>

definition sp_version :: "signed_policy \<Rightarrow> state_version" where
  "sp_version s = h_version (sh_head (sp_head s))"

definition sp_is_newer_than :: "signed_policy \<Rightarrow> signed_policy \<Rightarrow> bool" where
  "sp_is_newer_than s other \<longleftrightarrow> head_is_newer_than (sp_head s) (sp_head other)"

definition to_policy :: "signed_policy \<Rightarrow> policy res" where
  "to_policy s = from_items (sh_head (sp_head s)) (sp_items s)"

definition check_entry_version :: "signed_entry \<Rightarrow> signed_head \<Rightarrow> unit res" where
  "check_entry_version e s =
     (if se_fabric e \<noteq> h_fabric (sh_head s) then Inl Invalid_signature
      else if se_version e > h_version (sh_head s)
      then bad (Entry_after_head (se_name e) (se_version e) (h_version (sh_head s)))
      else Inr ())"

definition check_items :: "prims \<Rightarrow> signed_policy \<Rightarrow> node_id \<Rightarrow> signed_entry list \<Rightarrow> unit res" where
  "check_items P s root entries =
     and_then (head_verify P root (sp_head s)) (\<lambda>_.
     and_then (to_policy s) (\<lambda>p.
       if items_hash_of P (sp_items s) \<noteq> h_items_hash (sh_head (sp_head s)) then Inl Items_mismatch
       else if st_fresh_secs (po_settings p) \<noteq> h_fresh_secs (sh_head (sp_head s)) then bad Fresh_secs_differ
       else and_then (all_ok (\<lambda>e. check_entry_version e (sp_head s)) (sp_entries s)) (\<lambda>_.
            and_then (all_ok (entry_verify P root) entries) (\<lambda>_. validate p))))"

definition sp_verify :: "prims \<Rightarrow> signed_policy \<Rightarrow> node_id \<Rightarrow> unit res" where
  "sp_verify P s root = check_items P s root (sp_entries s)"

section \<open>Reading and editing a policy\<close>

definition bans_node :: "policy \<Rightarrow> node_id \<Rightarrow> bool" where
  "bans_node p n \<longleftrightarrow> n \<in> set (po_bans p)"

definition bans_person :: "policy \<Rightarrow> principal \<Rightarrow> bool" where
  "bans_person p who \<longleftrightarrow> list_ex (\<lambda>b. person_matches b who) (po_person_bans p)"

definition admits :: "matcher list option \<Rightarrow> principal option \<Rightarrow> bool" where
  "admits matchers who = (case (matchers, who) of
     (Some ms, Some p) \<Rightarrow> pr_email p \<noteq> None \<and> list_ex (\<lambda>m. matches m p) ms
   | _ \<Rightarrow> False)"

definition role_admits :: "policy \<Rightarrow> role_name \<Rightarrow> principal option \<Rightarrow> bool" where
  "role_admits p role who = admits (bm_get (po_roles p) role) who"

definition any_role_admits :: "policy \<Rightarrow> principal \<Rightarrow> bool" where
  "any_role_admits p who = list_ex (\<lambda>(_, ms). admits (Some ms) (Some who)) (po_roles p)"

definition is_host :: "policy \<Rightarrow> node_id \<Rightarrow> bool" where
  "is_host p n \<longleftrightarrow> \<not> bans_node p n \<and> list_ex (\<lambda>(_, s). n \<in> set (sv_hosts s)) (po_services p)"

definition policy_service :: "policy \<Rightarrow> service_name \<Rightarrow> service option" where
  "policy_service p name = bm_get (po_services p) name"

definition assigns :: "policy \<Rightarrow> service_name \<Rightarrow> node_id \<Rightarrow> bool" where
  "assigns p name host \<longleftrightarrow> \<not> bans_node p host \<and>
     (case policy_service p name of None \<Rightarrow> False | Some s \<Rightarrow> host \<in> set (sv_hosts s))"

definition ban :: "node_id \<Rightarrow> policy \<Rightarrow> bool \<times> policy" where
  "ban n p = (n \<notin> set (po_bans p), p\<lparr>po_bans := bs_put n (po_bans p)\<rparr>)"

definition unban :: "node_id \<Rightarrow> policy \<Rightarrow> bool \<times> policy" where
  "unban n p = (n \<in> set (po_bans p), p\<lparr>po_bans := bs_del n (po_bans p)\<rparr>)"

definition ban_person :: "person \<Rightarrow> policy \<Rightarrow> bool \<times> policy" where
  "ban_person b p = (b \<notin> set (po_person_bans p), p\<lparr>po_person_bans := bs_put b (po_person_bans p)\<rparr>)"

definition unban_person :: "person \<Rightarrow> policy \<Rightarrow> bool \<times> policy" where
  "unban_person b p = (b \<in> set (po_person_bans p), p\<lparr>po_person_bans := bs_del b (po_person_bans p)\<rparr>)"

section \<open>validate, declaratively\<close>

definition policy_wf :: "policy \<Rightarrow> bool" where
  "policy_wf p \<longleftrightarrow>
     distinct (po_directories p) \<and> set (po_directories p) \<inter> set (po_bans p) = {}
     \<and> (\<forall>b \<in> set (po_person_bans p). \<not> blank (person_issuer b) \<and> \<not> blank (person_email b)
          \<and> ascii_lower (person_email b) = person_email b)
     \<and> (\<forall>(i, c) \<in> set (po_issuers p). \<not> blank i \<and> (\<exists>a \<in> set (ic_audiences c). \<not> blank a))
     \<and> (\<forall>(r, ms) \<in> set (po_roles p). ms \<noteq> [] \<and>
          (\<forall>m \<in> set ms. \<not> blank (mt_issuer m) \<and> bm_has (po_issuers p) (mt_issuer m)))
     \<and> (\<forall>(n, s) \<in> set (po_services p). (\<forall>r \<in> set (sv_allow s). bm_has (po_roles p) r)
          \<and> distinct (sv_hosts s) \<and> set (sv_hosts s) \<inter> set (po_bans p) = {})
     \<and> 0 < st_beat_secs (po_settings p)
     \<and> st_beat_secs (po_settings p) \<le> st_fresh_secs (po_settings p)"

lemma find_case: "(case List.find q xs of None \<Rightarrow> a | Some x \<Rightarrow> b x) = Inr y \<longleftrightarrow>
    (\<forall>x \<in> set xs. \<not> q x) \<and> a = Inr y" if "\<And>x. \<exists>e. b x = Inl e"
proof (cases "List.find q xs")
  case None
  then have "\<forall>x \<in> set xs. \<not> q x" by (auto simp: find_None_iff)
  with None show ?thesis by simp
next
  case (Some x)
  then show ?thesis using that[of x] find_SomeD[OF Some] by auto
qed

lemma dup_case: "(case find_dup xs of None \<Rightarrow> a | Some x \<Rightarrow> b x) = Inr y \<longleftrightarrow> distinct xs \<and> a = Inr y"
  if "\<And>x. \<exists>e. b x = Inl e"
proof (cases "find_dup xs")
  case (Some x)
  then have "\<not> distinct xs" using find_dup_None[of xs] by auto
  then show ?thesis using Some that[of x] by auto
qed (simp flip: find_dup_None)

lemma validate_person_Inr [result_simps]:
  "validate_person b = Inr u \<longleftrightarrow> \<not> blank (person_issuer b) \<and> \<not> blank (person_email b)
     \<and> ascii_lower (person_email b) = person_email b"
  by (auto simp: validate_person_def)

lemma validate_issuer_Inr [result_simps]:
  "validate_issuer (i, c) = Inr u \<longleftrightarrow> \<not> blank i \<and> (\<exists>a \<in> set (ic_audiences c). \<not> blank a)"
  by (auto simp: validate_issuer_def list_all_iff)

lemma validate_role_Inr [result_simps]:
  "validate_role issuers (r, ms) = Inr u \<longleftrightarrow> ms \<noteq> [] \<and>
     (\<forall>m \<in> set ms. \<not> blank (mt_issuer m) \<and> bm_has issuers (mt_issuer m))"
  by (auto simp: validate_role_def all_ok_Inr_iff split: if_splits)

lemma validate_service_Inr [result_simps]:
  "validate_service roles bans (n, s) = Inr u \<longleftrightarrow> (\<forall>r \<in> set (sv_allow s). bm_has roles r)
     \<and> distinct (sv_hosts s) \<and> set (sv_hosts s) \<inter> set bans = {}"
  by (auto simp: validate_service_def find_case dup_case)

lemma ball_pairs: "(\<forall>x \<in> A. Q x) \<longleftrightarrow> (\<forall>(a, b) \<in> A. Q (a, b))"
  by auto

lemma validate_iff_wf: "validate p = Inr u \<longleftrightarrow> policy_wf p"
proof -
  have z: "0 < w \<longleftrightarrow> w \<noteq> 0" for w :: u32 by (simp add: word_gt_0)
  have persons: "all_ok validate_person (po_person_bans p) = Inr u \<longleftrightarrow>
      (\<forall>b \<in> set (po_person_bans p). \<not> blank (person_issuer b) \<and> \<not> blank (person_email b)
          \<and> ascii_lower (person_email b) = person_email b)" for u
    by (simp only: all_ok_Inr_iff validate_person_Inr)
  have issuers: "all_ok validate_issuer (po_issuers p) = Inr u \<longleftrightarrow>
      (\<forall>(i, c) \<in> set (po_issuers p). \<not> blank i \<and> (\<exists>a \<in> set (ic_audiences c). \<not> blank a))" for u
    by (simp only: all_ok_Inr_iff ball_pairs[of _ "\<lambda>x. validate_issuer x = Inr ()"] validate_issuer_Inr)
  have roles: "all_ok (validate_role (po_issuers p)) (po_roles p) = Inr u \<longleftrightarrow>
      (\<forall>(r, ms) \<in> set (po_roles p). ms \<noteq> [] \<and>
          (\<forall>m \<in> set ms. \<not> blank (mt_issuer m) \<and> bm_has (po_issuers p) (mt_issuer m)))" for u
    by (simp only: all_ok_Inr_iff ball_pairs[of _ "\<lambda>x. validate_role (po_issuers p) x = Inr ()"]
        validate_role_Inr)
  have services: "all_ok (validate_service (po_roles p) (po_bans p)) (po_services p) = Inr u \<longleftrightarrow>
      (\<forall>(n, s) \<in> set (po_services p). (\<forall>r \<in> set (sv_allow s). bm_has (po_roles p) r)
          \<and> distinct (sv_hosts s) \<and> set (sv_hosts s) \<inter> set (po_bans p) = {})" for u
    by (simp only: all_ok_Inr_iff
        ball_pairs[of _ "\<lambda>x. validate_service (po_roles p) (po_bans p) x = Inr ()"]
        validate_service_Inr)
  have dirs: "(\<forall>d \<in> set (po_directories p). d \<notin> set (po_bans p)) \<longleftrightarrow>
      set (po_directories p) \<inter> set (po_bans p) = {}" by auto
  show ?thesis
    unfolding validate_def policy_wf_def
    by (simp add: find_case dup_case and_then_Inr_iff persons issuers roles services dirs z)
      (auto simp: not_less)
qed

end
