(* ===== verification/Policy_Signing.thy ===== *)
theory Policy_Signing
  imports Signed_Policy
begin

text \<open>
  What signing a policy guarantees: flattening to items is sorted and inverted by
  \<open>from_items\<close>, signing succeeds exactly for a valid policy under its own root and the result
  verifies, an edit keeps the entries it did not change, and a policy that verifies is one the
  root signed.
\<close>

section \<open>Items are sorted and rebuild the policy\<close>

lemma policy_entry_for [simp]:
  "se_name (policy_entry P p root kept ns) = fst ns"
  "se_service (policy_entry P p root kept ns) = snd ns"
  by (auto simp: policy_entry_def entry_is_for_def case_prod_unfold split: option.splits)

lemma items_Inr [result_simps]:
  "items P p root prev = Inr its \<longleftrightarrow> node_id P root = po_fabric p \<and>
     its = map (\<lambda>(k, v). Item_Role k v) (po_roles p)
        @ map (\<lambda>ns. Item_Service (policy_entry P p root (kept_entries prev) ns)) (po_services p)
        @ map Item_Ban (po_bans p)
        @ map Item_PersonBan (po_person_bans p)
        @ map (\<lambda>(k, v). Item_Issuer k v) (po_issuers p)
        @ [Item_Settings (po_settings p)]"
  by (auto simp: items_def)

lemma items_sorted:
  assumes "policy_ok p" "items P p root prev = Inr its"
  shows "sorted_wrt (\<lambda>a b. item_key_of a < item_key_of b) its"
proof -
  have "sorted_wrt (<) (map fst (po_roles p))" "sorted_wrt (<) (map fst (po_services p))"
    "sorted_wrt (<) (po_bans p)" "sorted_wrt (<) (po_person_bans p)"
    "sorted_wrt (<) (map fst (po_issuers p))"
    using assms(1) by (simp_all add: policy_ok_def bm_ok_def bs_ok_def)
  then have "sorted_wrt (\<lambda>a b. item_key_of a < item_key_of b) (map (\<lambda>(k, v). Item_Role k v) (po_roles p))"
    "sorted_wrt (\<lambda>a b. item_key_of a < item_key_of b)
       (map (\<lambda>ns. Item_Service (policy_entry P p root (kept_entries prev) ns)) (po_services p))"
    "sorted_wrt (\<lambda>a b. item_key_of a < item_key_of b) (map Item_Ban (po_bans p))"
    "sorted_wrt (\<lambda>a b. item_key_of a < item_key_of b) (map Item_PersonBan (po_person_bans p))"
    "sorted_wrt (\<lambda>a b. item_key_of a < item_key_of b) (map (\<lambda>(k, v). Item_Issuer k v) (po_issuers p))"
    by (simp_all add: sorted_wrt_map case_prod_unfold)
  then show ?thesis
    using assms(2) by (auto simp: items_Inr sorted_wrt_append intro!: item_key_rank_less)
qed

lemma transp_item_less: "transp (\<lambda>a b. item_key_of a < item_key_of b)"
  by (auto intro!: transpI)

lemma check_order_Inr [result_simps]:
  "check_order its = Inr u \<longleftrightarrow> sorted_wrt (\<lambda>a b. item_key_of a < item_key_of b) its"
proof -
  have "find_pair (\<lambda>a b. item_key_of a \<ge> item_key_of b) its = None \<longleftrightarrow>
      sorted_wrt (\<lambda>a b. item_key_of a < item_key_of b) its"
    by (rule find_pair_None_sorted[OF transp_item_less]) auto
  then show ?thesis by (auto simp: check_order_def split: option.splits)
qed

lemma fold_add_roles:
  "fold add_item (map (\<lambda>(k, v). Item_Role k v) kvs) (p, s) =
     (p\<lparr>po_roles := fold (\<lambda>(k, v). bm_put k v) kvs (po_roles p)\<rparr>, s)"
  by (induction kvs arbitrary: p) auto

lemma fold_add_services:
  "fold add_item (map (\<lambda>ns. Item_Service (policy_entry P q root kept ns)) kvs) (p, s) =
     (p\<lparr>po_services := fold (\<lambda>(k, v). bm_put k v) kvs (po_services p)\<rparr>, s)"
  by (induction kvs arbitrary: p) auto

lemma fold_add_bans:
  "fold add_item (map Item_Ban ns) (p, s) = (p\<lparr>po_bans := fold bs_put ns (po_bans p)\<rparr>, s)"
  by (induction ns arbitrary: p) auto

lemma fold_add_person_bans:
  "fold add_item (map Item_PersonBan ns) (p, s) =
     (p\<lparr>po_person_bans := fold bs_put ns (po_person_bans p)\<rparr>, s)"
  by (induction ns arbitrary: p) auto

lemma fold_add_issuers:
  "fold add_item (map (\<lambda>(k, v). Item_Issuer k v) kvs) (p, s) =
     (p\<lparr>po_issuers := fold (\<lambda>(k, v). bm_put k v) kvs (po_issuers p)\<rparr>, s)"
  by (induction kvs arbitrary: p) auto

lemmas fold_add_simps =
  fold_add_roles fold_add_services fold_add_bans fold_add_person_bans fold_add_issuers

lemma from_items_items:
  assumes ok: "policy_ok p" and its: "items P p root prev = Inr its"
    and h: "h_fabric h = po_fabric p" "h_version h = po_version p" "h_issued h = po_issued p"
      "h_not_after h = po_not_after p" "h_directories h = po_directories p"
  shows "from_items h its = Inr p"
proof -
  have maps: "fold (\<lambda>(k, v). bm_put k v) m [] = m" if "bm_ok m" for m :: "('a :: linorder \<times> 'b) list"
    using bm_from_id[OF that] by (simp add: bm_from_def)
  have sets: "fold bs_put m [] = m" if "bs_ok m" for m :: "('a :: linorder) list"
    using bs_from_id[OF that] by (simp add: bs_from_def)
  show ?thesis
    using ok items_sorted[OF ok its] its h check_order_Inr[of its "()"]
    by (simp add: from_items_def policy_new_def items_Inr fold_add_simps policy_ok_def maps sets)
qed

text \<open>What \<open>from_items\<close> returns is a policy in the sense of the invariant, whatever the items.\<close>

lemma add_item_ok: "policy_ok p \<Longrightarrow> add_item i (p, s) = (p', s') \<Longrightarrow> policy_ok p'"
  by (cases i) (auto simp: policy_ok_def)

lemma fold_add_item_ok: "policy_ok p \<Longrightarrow> fold add_item its (p, s) = (p', s') \<Longrightarrow> policy_ok p'"
proof (induction its arbitrary: p s)
  case (Cons i its)
  obtain q t where "add_item i (p, s) = (q, t)" by (cases "add_item i (p, s)")
  with Cons show ?case by (auto dest: add_item_ok)
qed simp

lemma policy_new_ok [simp]: "policy_ok (policy_new f)"
  by (simp add: policy_ok_def policy_new_def)

lemma from_items_ok: "from_items h its = Inr p \<Longrightarrow> policy_ok p"
  unfolding from_items_def Let_def and_then_Inr_iff
  by (auto split: prod.splits option.splits dest!: fold_add_item_ok[rotated])
    (simp_all add: policy_ok_def policy_new_def)

section \<open>Signing\<close>

lemma sign_with_Inr [result_simps]:
  "sign_with P p root prev = Inr s \<longleftrightarrow>
     policy_wf p \<and> (\<exists>its. items P p root prev = Inr its \<and>
       head_sign P root (head_of P p its) = Inr (sp_head s) \<and> sp_items s = its)"
proof -
  have eq: "s = \<lparr>sp_head = h, sp_items = its\<rparr> \<longleftrightarrow> sp_head s = h \<and> sp_items s = its" for h its
    by (cases s) auto
  show ?thesis
    by (auto simp: sign_with_def and_then_Inr_iff validate_iff_wf items_Inr eq eq_commute[of _ s])
qed

lemma sp_entries_items:
  assumes "items P p root prev = Inr (sp_items s)"
  shows "sp_entries s = map (policy_entry P p root (kept_entries prev)) (po_services p)"
proof -
  have none: "List.map_filter entry_of_item (map f xs) = []" if "\<And>x. entry_of_item (f x) = None"
    for f :: "'b \<Rightarrow> item" and xs
    using that by (induction xs) (simp_all add: List.map_filter_simps)
  have some: "List.map_filter entry_of_item (map (\<lambda>ns. Item_Service (f ns)) xs) = map f xs"
    for f :: "'b \<Rightarrow> signed_entry" and xs
    by (induction xs) (simp_all add: List.map_filter_simps)
  have app: "List.map_filter entry_of_item (a @ b) =
      List.map_filter entry_of_item a @ List.map_filter entry_of_item b" for a b
    by (simp add: List.map_filter_def)
  show ?thesis
    using assms by (auto simp: items_Inr sp_entries_def app none some List.map_filter_simps case_prod_unfold)
qed

lemma sp_verify_Inr [result_simps]:
  "sp_verify P s root = Inr u \<longleftrightarrow>
     head_verify P root (sp_head s) = Inr ()
     \<and> items_hash_of P (sp_items s) = h_items_hash (sh_head (sp_head s))
     \<and> (\<forall>e \<in> set (sp_entries s). se_fabric e = h_fabric (sh_head (sp_head s))
          \<and> se_version e \<le> h_version (sh_head (sp_head s)) \<and> entry_verify P root e = Inr ())
     \<and> (\<exists>p. to_policy s = Inr p \<and> policy_wf p
          \<and> st_fresh_secs (po_settings p) = h_fresh_secs (sh_head (sp_head s)))"
proof -
  have cev: "check_entry_version e h = Inr () \<longleftrightarrow>
      se_fabric e = h_fabric (sh_head h) \<and> se_version e \<le> h_version (sh_head h)" for e h
    by (auto simp: check_entry_version_def)
  show ?thesis
    by (auto simp: sp_verify_def check_items_def and_then_Inr_iff all_ok_Inr_iff cev validate_iff_wf
        split: if_splits)
qed

lemma policy_entry_verifies:
  fixes ns :: "service_name \<times> service"
  assumes "ed25519_law P" "node_id P root = po_fabric p"
    and "\<forall>e \<in> snd ` set kept. entry_verify P (po_fabric p) e = Inr ()"
  defines "e \<equiv> policy_entry P p root kept ns"
  shows "entry_verify P (po_fabric p) e = Inr () \<and> se_fabric e = po_fabric p \<and> se_version e \<le> po_version p"
proof -
  obtain n svc where ns: "ns = (n, svc)" by (cases ns)
  have signed: "entry_verify P (po_fabric p) (entry_sign P root (po_version p) n svc) = Inr ()"
    using entry_verify_sign[OF assms(1), of root] assms(2) by simp
  show ?thesis
  proof (cases "bm_get kept n")
    case None
    then show ?thesis using signed assms(2) by (simp add: e_def policy_entry_def ns)
  next
    case (Some e')
    then have "e' \<in> snd ` set kept" by (force dest: map_of_SomeD)
    then show ?thesis
      using Some signed assms(2,3) by (auto simp: e_def policy_entry_def ns entry_is_for_def)
  qed
qed

lemma kept_entries_from: "e \<in> snd ` set (kept_entries (Some s)) \<Longrightarrow> e \<in> set (sp_entries s)"
proof -
  assume "e \<in> snd ` set (kept_entries (Some s))"
  then obtain n where "(n, e) \<in> set (kept_entries (Some s))" by auto
  then have "bm_get (bm_from (map (\<lambda>e. (se_name e, e)) (sp_entries s))) n = Some e"
    by (simp add: kept_entries_def bm_get_iff)
  then show ?thesis by (auto simp: bm_get_from dest: map_of_SomeD)
qed

lemma entries_sorted:
  "sorted_wrt (\<lambda>a b. item_key_of a < item_key_of b) its \<Longrightarrow>
     sorted_wrt (\<lambda>a b. se_name a < se_name b) (List.map_filter entry_of_item its)"
proof (induction its)
  case (Cons i its)
  have mem: "Item_Service e \<in> set its" if "e \<in> set (List.map_filter entry_of_item its)" for e
    using that by (auto simp: List.map_filter_def elim!: entry_of_item.elims)
  show ?case
  proof (cases i)
    case (Item_Service e)
    have "se_name e < se_name e'" if "e' \<in> set (List.map_filter entry_of_item its)" for e'
      using Cons.prems mem[OF that] by (auto simp: Item_Service)
    with Cons show ?thesis by (simp add: Item_Service List.map_filter_simps)
  qed (use Cons in \<open>simp_all add: List.map_filter_simps\<close>)
qed (simp add: List.map_filter_simps)

lemma verified_entries_sorted:
  "sp_verify P q r = Inr u \<Longrightarrow> sorted_wrt (\<lambda>a b. se_name a < se_name b) (sp_entries q)"
  using entries_sorted[of "sp_items q"]
  by (auto simp: sp_verify_Inr to_policy_def from_items_def and_then_Inr_iff check_order_Inr sp_entries_def)

lemma kept_entries_get:
  assumes "sp_verify P q r = Inr u"
  shows "bm_get (kept_entries (Some q)) n = Some e \<longleftrightarrow> e \<in> set (sp_entries q) \<and> se_name e = n"
proof -
  have "sorted_wrt (<) (map se_name (sp_entries q))"
    using verified_entries_sorted[OF assms] by (simp add: sorted_wrt_map)
  then have d: "distinct (map fst (map (\<lambda>e. (se_name e, e)) (sp_entries q)))"
    by (simp add: strict_sorted_iff comp_def)
  show ?thesis
    unfolding kept_entries_def option.case bm_get_from_distinct[OF d] map_of_eq_Some_iff[OF d] by auto
qed

lemma sign_with_verifies:
  assumes law: "ed25519_law P" and ok: "policy_ok p" and s: "sign_with P p root prev = Inr s"
    and prev: "\<And>q. prev = Some q \<Longrightarrow> sp_verify P q (node_id P root) = Inr ()"
  shows "sp_verify P s (node_id P root) = Inr () \<and> to_policy s = Inr p"
proof -
  from s have wf: "policy_wf p" and its: "items P p root prev = Inr (sp_items s)"
    and h: "head_sign P root (head_of P p (sp_items s)) = Inr (sp_head s)"
    by (auto simp: sign_with_Inr)
  from h have head: "sh_head (sp_head s) = head_of P p (sp_items s)"
    by (auto simp: head_sign_Inr)
  from its have root: "node_id P root = po_fabric p" by (simp add: items_Inr)
  have hv: "head_verify P (node_id P root) (sp_head s) = Inr ()"
    by (rule head_verify_sign[OF law h]) (simp add: head_of_def)
  have pol: "to_policy s = Inr p"
    unfolding to_policy_def by (rule from_items_items[OF ok its]) (simp_all add: head head_of_def)
  have "\<forall>e \<in> snd ` set (kept_entries prev). entry_verify P (po_fabric p) e = Inr ()"
  proof
    fix e assume e: "e \<in> snd ` set (kept_entries prev)"
    then obtain q where q: "prev = Some q" by (cases prev) (auto simp: kept_entries_def)
    with e have "e \<in> set (sp_entries q)" using kept_entries_from by blast
    with prev[OF q] show "entry_verify P (po_fabric p) e = Inr ()" by (simp add: sp_verify_Inr root)
  qed
  then have "\<forall>e \<in> set (sp_entries s). entry_verify P (node_id P root) e = Inr ()
      \<and> se_fabric e = po_fabric p \<and> se_version e \<le> po_version p"
    using policy_entry_verifies[OF law root] by (auto simp: sp_entries_items[OF its] root)
  then show ?thesis
    using hv pol wf by (auto simp: sp_verify_Inr head head_of_def)
qed

lemma sign_ok_iff:
  "is_ok (sign_with P p root prev) = (node_id P root = po_fabric p \<and> policy_wf p)"
proof -
  have "policy_wf p \<Longrightarrow> distinct (po_directories p)" by (simp add: policy_wf_def)
  then show ?thesis
    by (auto simp: is_ok_iff sign_with_def and_then_Inr_iff validate_iff_wf items_def head_sign_Inr
        head_of_def)
qed

section \<open>What the properties are evaluated on\<close>

definition demo_policy :: policy where
  "demo_policy = (policy_new 1)\<lparr> po_version := 1, po_not_after := 1000, po_directories := [9],
     po_roles := [(''staff'', [matcher_new ''https://idp''])],
     po_services := [(''status'', \<lparr> sv_description = ''uptime'', sv_allow = [''staff''], sv_hosts = [2] \<rparr>)],
     po_issuers := [(''https://idp'', \<lparr> ic_client_id = ''cli'', ic_audiences = [''cli''] \<rparr>)] \<rparr>"

lemma blank_Cons: "\<not> blank ''https://idp''" "\<not> blank ''cli''"
  by (simp_all add: blank_def trim_plain char_between_def)

lemma demo_policy_ok [simp]: "policy_ok demo_policy" "policy_wf demo_policy"
proof -
  show "policy_ok demo_policy"
    by (simp add: demo_policy_def policy_ok_def policy_new_def)
  show "policy_wf demo_policy"
    by (simp add: demo_policy_def policy_wf_def policy_new_def matcher_new_def blank_Cons bm_has_def
        settings_default_def default_beat_secs_def default_fresh_secs_def)
qed

lemma demo_root [simp]: "node_id demo_prims 1 = po_fabric demo_policy"
  by (simp add: node_id_def demo_prims_def demo_policy_def policy_new_def)

section \<open>What the root signed\<close>

text \<open>Unforgeability and second-preimage resistance, relative to what was signed or hashed.\<close>

definition unforgeable :: "prims \<Rightarrow> node_id \<Rightarrow> bytes set \<Rightarrow> bool" where
  "unforgeable P n M \<longleftrightarrow> (\<forall>m s. ed_verify P n m s \<longrightarrow> m \<in> M)"

definition second_preimage_hard :: "prims \<Rightarrow> bytes set \<Rightarrow> bool" where
  "second_preimage_hard P M \<longleftrightarrow> (\<forall>m \<in> M. \<forall>m'. blake3 P m' = blake3 P m \<longrightarrow> m' = m)"

definition root_messages :: "prims \<Rightarrow> signed_policy set \<Rightarrow> bytes set" where
  "root_messages P Q =
     (\<lambda>q. head_signed_bytes P (sh_head (sp_head q)) Ed25519) ` Q
     \<union> (\<Union>q \<in> Q. entry_signed_bytes P ` set (sp_entries q))"

definition items_messages :: "prims \<Rightarrow> signed_policy set \<Rightarrow> bytes set" where
  "items_messages P Q = (\<lambda>q. items_hash_bytes P (sp_items q)) ` Q"

text \<open>The Rust types' own invariants: \<open>i64\<close> fields in range, names and patterns valid.\<close>

definition sp_typed :: "signed_policy \<Rightarrow> bool" where
  "sp_typed s \<longleftrightarrow> head_ok (sh_head (sp_head s)) \<and> (\<forall>i \<in> set (sp_items s). item_ok i)"

text \<open>The policies the admin published: each signed by the root from a policy.\<close>

definition published_by :: "prims \<Rightarrow> node_identity \<Rightarrow> signed_policy set \<Rightarrow> bool" where
  "published_by P root Q \<longleftrightarrow>
     (\<forall>q \<in> Q. sp_typed q \<and> (\<exists>p prev. policy_ok p \<and> sign_with P p root prev = Inr q))"

lemma j_items_inj:
  assumes "hex_law P" "\<forall>i \<in> set xs. item_ok i" "\<forall>i \<in> set ys. item_ok i"
  shows "j_list (j_item P) xs = j_list (j_item P) ys \<longleftrightarrow> xs = ys"
  using item_json.list_decode[of xs P] item_json.list_decode[of ys P] assms by (metis option.inject)

lemma items_bytes_inj:
  assumes "hex_law P" "json_law P" "\<forall>i \<in> set xs. item_ok i" "\<forall>i \<in> set ys. item_ok i"
  shows "items_hash_bytes P xs = items_hash_bytes P ys \<longleftrightarrow> xs = ys"
  using assms j_items_inj[of P xs ys]
  by (simp add: items_hash_bytes_def canonical_bytes_def json_law_inj)

text \<open>A head that verifies is the head of a published policy: the contexts rule out an entry.\<close>

lemma verified_head_published:
  assumes laws: "json_law P" "hex_law P"
    and unf: "unforgeable P n (root_messages P Q)"
    and typed: "\<forall>q \<in> Q. head_ok (sh_head (sp_head q))" "head_ok (sh_head h)"
    and ver: "head_verify P n h = Inr u"
  shows "\<exists>q \<in> Q. sh_head (sp_head q) = sh_head h"
proof -
  have "head_signed_bytes P (sh_head h) Ed25519 \<in> root_messages P Q"
    using ver unf by (auto simp: head_verify_Inr unforgeable_def)
  then obtain q where q: "q \<in> Q"
      "head_signed_bytes P (sh_head h) Ed25519 = head_signed_bytes P (sh_head (sp_head q)) Ed25519"
    using head_not_entry[of P "sh_head h"] by (auto simp: root_messages_def)
  then show ?thesis
    using head_signed_inj[OF laws(2,1) typed(2), of "sh_head (sp_head q)" Ed25519 Ed25519] typed(1)
    by auto
qed

lemma verified_entry_published:
  assumes laws: "json_law P" "hex_law P"
    and unf: "unforgeable P n (root_messages P Q)"
    and ver: "entry_verify P n e = Inr u"
  shows "\<exists>q \<in> Q. \<exists>e' \<in> set (sp_entries q). entry_body.truncate e = entry_body.truncate e'"
proof -
  have "entry_signed_bytes P e \<in> root_messages P Q"
    using ver unf by (auto simp: entry_verify_Inr unforgeable_def)
  then obtain q e' where "q \<in> Q" "e' \<in> set (sp_entries q)"
      "entry_signed_bytes P e = entry_signed_bytes P e'"
    using head_not_entry[of P _ _ e] by (force simp: root_messages_def)
  then show ?thesis using entry_signed_inj[OF laws(2,1)] by blast
qed

lemma sign_fresh_verifies:
  assumes ok: "policy_ok p" and s: "sign_with P p root None = Inr s"
    and signs: "\<And>m. m \<in> root_messages P {s} \<Longrightarrow> ed_verify P (node_id P root) m (sign_bytes P root m)"
  shows "sp_verify P s (node_id P root) = Inr ()"
proof -
  from s have wf: "policy_wf p" and its: "items P p root None = Inr (sp_items s)"
    and h: "head_sign P root (head_of P p (sp_items s)) = Inr (sp_head s)"
    by (auto simp: sign_with_Inr)
  from its have root: "node_id P root = po_fabric p" by (simp add: items_Inr)
  have pol: "to_policy s = Inr p"
    unfolding to_policy_def using h
    by (intro from_items_items[OF ok its]) (auto simp: head_sign_Inr head_of_def)
  have "entry_verify P (node_id P root) e = Inr () \<and> se_fabric e = po_fabric p \<and> se_version e = po_version p"
    if e: "e \<in> set (sp_entries s)" for e
  proof -
    obtain n v where n: "e = entry_sign P root (po_version p) n v"
      using e by (auto simp: sp_entries_items[OF its] kept_entries_def policy_entry_def)
    have "entry_signed_bytes P e \<in> root_messages P {s}" using e by (auto simp: root_messages_def)
    then have "ed_verify P (node_id P root) (entry_signed_bytes P e) (se_sig e)"
      using signs entry_sign_sig[of P root "po_version p" n v] by (simp add: n)
    then show ?thesis by (simp add: entry_verify_Inr n root)
  qed
  moreover have "head_verify P (node_id P root) (sp_head s) = Inr ()"
    using h signs[of "head_signed_bytes P (sh_head (sp_head s)) Ed25519"]
    by (auto simp: head_sign_Inr head_verify_Inr root_messages_def head_of_def)
  ultimately show ?thesis
    using pol wf h by (auto simp: sp_verify_Inr head_sign_Inr head_of_def)
qed

lemmas same_json = j_id_def[abs_def] hex_of_def j_sig_def sig_hex_def j_service_def j_alg_def

lemma same_service: "j_service (P\<lparr>ed_verify := v\<rparr>) = j_service P" "j_service (P\<lparr>blake3 := b\<rparr>) = j_service P"
  by (auto simp: fun_eq_iff same_json)

lemma same_fields:
  "entry_fields (P\<lparr>ed_verify := v\<rparr>) e = entry_fields P e" "entry_fields (P\<lparr>blake3 := b\<rparr>) e = entry_fields P e"
  "entry_body_fields (P\<lparr>ed_verify := v\<rparr>) f = entry_body_fields P f"
  "entry_body_fields (P\<lparr>blake3 := b\<rparr>) f = entry_body_fields P f"
  by (simp_all add: entry_fields_def entry_body_fields_def same_service) (simp_all add: same_json)

lemma same_item: "j_item (P\<lparr>ed_verify := v\<rparr>) i = j_item P i" "j_item (P\<lparr>blake3 := b\<rparr>) i = j_item P i"
  by (cases i; simp add: same_fields; simp add: same_json)+

lemma same_bytes:
  "head_signed_bytes (P\<lparr>ed_verify := v\<rparr>) h a = head_signed_bytes P h a"
  "entry_signed_bytes (P\<lparr>ed_verify := v\<rparr>) e = entry_signed_bytes P e"
  "entry_signed_bytes (P\<lparr>blake3 := b\<rparr>) e = entry_signed_bytes P e"
  "items_hash_bytes (P\<lparr>ed_verify := v\<rparr>) xs = items_hash_bytes P xs"
  "items_hash_bytes (P\<lparr>blake3 := b\<rparr>) xs = items_hash_bytes P xs"
  "node_id (P\<lparr>ed_verify := v\<rparr>) k = node_id P k"
  "node_id (P\<lparr>blake3 := b\<rparr>) k = node_id P k"
  by (simp_all add: head_signed_bytes_def entry_signed_bytes_def items_hash_bytes_def canonical_bytes_def
      same_fields same_item[abs_def] node_id_def j_head_def) (simp_all add: same_json)

lemma same_sign:
  "entry_sign (P\<lparr>ed_verify := v\<rparr>) = entry_sign P" "entry_sign (P\<lparr>blake3 := b\<rparr>) = entry_sign P"
  by (simp_all add: fun_eq_iff entry_sign_def same_bytes sign_bytes_def)

lemma same_entry:
  "policy_entry (P\<lparr>ed_verify := v\<rparr>) p root kept = policy_entry P p root kept"
  "policy_entry (P\<lparr>blake3 := b\<rparr>) p root kept = policy_entry P p root kept"
  by (simp_all only: policy_entry_def same_sign)

lemma sign_with_ed_verify: "sign_with (P\<lparr>ed_verify := v\<rparr>) p root prev = sign_with P p root prev"
  by (simp add: sign_with_def items_def head_sign_def same_bytes same_entry head_of_def items_hash_of_def
      sign_bytes_def)

lemma demo_typed: "sign_with P demo_policy 1 None = Inr s \<Longrightarrow> sp_typed s"
proof -
  have "is_ok (role_name_new ''staff'')" "is_ok (service_name_new ''status'')" by code_simp+
  then show "sign_with P demo_policy 1 None = Inr s \<Longrightarrow> ?thesis"
    by (auto simp: sp_typed_def sign_with_Inr items_Inr head_sign_Inr head_of_def head_ok_def in_i64_def
        demo_policy_def policy_new_def matcher_ok_def matcher_new_def entry_ok_def service_ok_def
        i64_min_def i64_max_def)
qed

text \<open>An instance of the hypotheses: a root that signed one policy, and nothing else.\<close>

lemma authentic_instance:
  "\<exists>P q. json_law P \<and> hex_law P \<and> node_id P 1 = 1 \<and> unforgeable P 1 (root_messages P {q})
     \<and> second_preimage_hard P (items_messages P {q}) \<and> published_by P 1 {q} \<and> sp_typed q
     \<and> sp_verify P q 1 = Inr () \<and> to_policy q = Inr demo_policy"
proof -
  obtain its where its: "items demo_prims demo_policy 1 None = Inr its"
    by (simp add: items_def)
  define P0 where "P0 = demo_prims\<lparr> blake3 := (\<lambda>b. if b = items_hash_bytes demo_prims its then 1 else 0) \<rparr>"
  have one: "node_id P0 1 = 1" "po_fabric demo_policy = 1"
    by (simp_all add: P0_def node_id_def demo_prims_def demo_policy_def policy_new_def)
  obtain q where q0: "sign_with P0 demo_policy 1 None = Inr q"
    using sign_ok_iff[of P0 demo_policy 1 None] by (auto simp: is_ok_iff one)
  define P where "P = P0\<lparr> ed_verify := (\<lambda>n m s. n = 1 \<and> m \<in> root_messages P0 {q}) \<rparr>"
  have same: "head_signed_bytes P h a = head_signed_bytes P0 h a"
    "entry_signed_bytes P e = entry_signed_bytes P0 e" "node_id P k = node_id P0 k"
    "items_hash_bytes P xs = items_hash_bytes demo_prims xs"
    "items_hash_bytes P0 xs = items_hash_bytes demo_prims xs" for h a and e :: signed_entry and k xs
    by (simp_all add: P_def P0_def same_bytes)
  have q: "sign_with P demo_policy 1 None = Inr q"
    using q0 by (simp add: P_def sign_with_ed_verify)
  have "items P demo_policy 1 None = Inr (sp_items q)" using q by (auto simp: sign_with_Inr)
  then have qi: "sp_items q = its"
    using its by (simp add: items_def P_def P0_def same_entry same_bytes)
  have root: "node_id P 1 = 1" by (simp add: same one)
  have msgs: "root_messages P {q} = root_messages P0 {q}" by (simp add: root_messages_def same)
  have unf: "unforgeable P 1 (root_messages P {q})"
    by (simp add: unforgeable_def msgs) (simp add: P_def)
  have hash: "second_preimage_hard P (items_messages P {q})"
    by (simp add: second_preimage_hard_def items_messages_def same qi) (simp add: P_def P0_def)
  have typed: "sp_typed q" using q by (rule demo_typed)
  have ver: "sp_verify P q 1 = Inr ()"
    using sign_fresh_verifies[OF demo_policy_ok(1) q] by (simp add: msgs root) (simp add: P_def)
  have laws: "json_law P" "hex_law P"
    by (simp_all add: P_def P0_def json_law_def hex_law_def) (simp_all add: demo_prims_def undigits_digits)
  have pub: "published_by P 1 {q}"
    using q typed by (auto simp: published_by_def intro!: exI[of _ demo_policy])
  have "to_policy q = Inr demo_policy"
    using q unfolding to_policy_def
    by (intro from_items_items[of _ P 1 None]) (auto simp: sign_with_Inr head_sign_Inr head_of_def)
  then show ?thesis using laws root unf hash pub typed ver by blast
qed

section \<open>Properties\<close>

text \<open>
  \<open>Policy::validate\<close> accepts exactly the policies that satisfy the structural rules its
  documentation lists: directories once each and not banned, every service's roles defined and
  its hosts once each and not banned, every role with matchers that name trusted issuers, every
  issuer with an audience, person bans lowercase, and \<open>0 < beat_secs \<le> fresh_secs\<close>.
\<close>

theorem validate_spec: "is_ok (validate p) = policy_wf p"
  by (auto simp: is_ok_iff validate_iff_wf)

text \<open>
  Signing is total on valid policies and refuses everything else: with the network's own
  root \<open>sign\<close> and \<open>sign_after\<close> return a signed policy exactly when \<open>validate\<close> accepts it.
\<close>

theorem sign_total:
  "is_ok (sign_with P p root prev) = (node_id P root = po_fabric p \<and> policy_wf p)"
  by (rule sign_ok_iff)

text \<open>
  C35: what the admin signs, every holder accepts and reads back: a policy signed on its own, or
  as an edit of one that verifies, verifies under the root (head, items hash, order, every
  entry, \<open>validate\<close>), and \<open>to_policy\<close> returns the policy that was signed.
\<close>

theorem sign_then_verify:
  assumes "ed25519_law P" "policy_ok p" "sign_with P p root prev = Inr s"
    and "case prev of None \<Rightarrow> True | Some q \<Rightarrow> sp_verify P q (node_id P root) = Inr ()"
  shows "sp_verify P s (node_id P root) = Inr () \<and> to_policy s = Inr p"
  using assms by (intro sign_with_verifies[of P p root prev s]) (auto split: option.splits)

theorem sign_then_verify_witness:
  "\<exists>s. sign_with demo_prims demo_policy 1 None = Inr s \<and>
     sp_verify demo_prims s (node_id demo_prims 1) = Inr () \<and> to_policy s = Inr demo_policy"
proof -
  obtain s where s: "sign_with demo_prims demo_policy 1 None = Inr s"
    using sign_ok_iff[of demo_prims demo_policy 1 None] by (auto simp: is_ok_iff)
  with sign_then_verify[OF _ _ s] show ?thesis by auto
qed

text \<open>
  an edit re-signs only what it changed. After \<open>sign_after\<close> over a verified policy, every
  entry that the edited policy still has with the same body is the previous one, signature and
  version included; every other entry is signed now, at the edit's version; and the entries are
  exactly the edited policy's services.
\<close>

theorem sign_after_keeps:
  assumes s: "sign_after P p root q = Inr s" and q: "sp_verify P q r = Inr ()"
  shows "map (\<lambda>e. (se_name e, se_service e)) (sp_entries s) = po_services p
    \<and> (\<forall>e \<in> set (sp_entries q). bm_get (po_services p) (se_name e) = Some (se_service e) \<longrightarrow>
         se_fabric e = po_fabric p \<longrightarrow> se_version e \<le> po_version p \<longrightarrow> e \<in> set (sp_entries s))
    \<and> (\<forall>e \<in> set (sp_entries s). e \<in> set (sp_entries q)
         \<or> e = entry_sign P root (po_version p) (se_name e) (se_service e))"
proof -
  let ?kept = "kept_entries (Some q)"
  have entries: "sp_entries s = map (policy_entry P p root ?kept) (po_services p)"
    using s by (intro sp_entries_items) (auto simp: sign_after_def sign_with_Inr)
  have one: "map (\<lambda>e. (se_name e, se_service e)) (sp_entries s) = po_services p"
    by (simp add: entries comp_def)
  have two: "e \<in> set (sp_entries s)"
    if e: "e \<in> set (sp_entries q)" "bm_get (po_services p) (se_name e) = Some (se_service e)"
      "se_fabric e = po_fabric p" "se_version e \<le> po_version p" for e
  proof -
    have "bm_get ?kept (se_name e) = Some e" using kept_entries_get[OF q] e(1) by simp
    then have "policy_entry P p root ?kept (se_name e, se_service e) = e"
      using e by (simp add: policy_entry_def entry_is_for_def)
    then show ?thesis using e(2) by (force simp: entries dest: map_of_SomeD)
  qed
  have three: "e \<in> set (sp_entries q) \<or> e = entry_sign P root (po_version p) (se_name e) (se_service e)"
    if e: "e \<in> set (sp_entries s)" for e
  proof -
    obtain n svc where ns: "e = policy_entry P p root ?kept (n, svc)" using e by (auto simp: entries)
    then show ?thesis
      using kept_entries_get[OF q]
      by (auto simp: policy_entry_def entry_is_for_def split: option.splits if_splits)
  qed
  show ?thesis using one two three by blast
qed

theorem sign_after_keeps_witness:
  "\<exists>q s. sp_verify demo_prims q 1 = Inr () \<and> length (sp_entries q) = 1
     \<and> sign_after demo_prims (demo_policy\<lparr>po_version := 2\<rparr>) 1 q = Inr s
     \<and> set (sp_entries q) \<subseteq> set (sp_entries s)"
proof -
  let ?p = "demo_policy\<lparr>po_version := 2\<rparr>"
  obtain q where q: "sign_with demo_prims demo_policy 1 None = Inr q"
    using sign_ok_iff[of demo_prims demo_policy 1 None] by (auto simp: is_ok_iff)
  have one: "po_fabric demo_policy = 1" by (simp add: demo_policy_def policy_new_def)
  have ver: "sp_verify demo_prims q 1 = Inr ()"
    using sign_with_verifies[OF _ _ q] by (simp add: one)
  have "policy_wf ?p" using demo_policy_ok(2) by (simp add: policy_wf_def)
  then obtain s where s: "sign_after demo_prims ?p 1 q = Inr s"
    using sign_ok_iff[of demo_prims ?p 1 "Some q"] by (auto simp: is_ok_iff sign_after_def)
  have entries: "sp_entries q = map (policy_entry demo_prims demo_policy 1 (kept_entries None)) (po_services demo_policy)"
    using q by (intro sp_entries_items) (auto simp: sign_with_Inr)
  have "\<forall>e \<in> set (sp_entries q). bm_get (po_services ?p) (se_name e) = Some (se_service e)
      \<and> se_fabric e = po_fabric ?p \<and> se_version e \<le> po_version ?p"
    by (simp add: entries kept_entries_def policy_entry_def one)
      (simp add: demo_policy_def policy_new_def)
  then have "set (sp_entries q) \<subseteq> set (sp_entries s)"
    using sign_after_keeps[OF s ver] by blast
  moreover have "length (sp_entries q) = 1" by (simp add: entries demo_policy_def)
  ultimately show ?thesis using ver s by blast
qed

text \<open>
  C2: authenticity of a policy. If the root's key signed only the heads and entries of the
  policies the admin published, and no other bytes hash to what their heads commit to, then a
  signed policy that passes \<open>verify\<close> carries exactly the head and the items of one published
  policy: no directory can forge, drop, add, reorder or mix items, nor pass a signed entry off as
  a head.
\<close>

theorem policy_authentic:
  assumes laws: "json_law P" "hex_law P"
    and unf: "unforgeable P (node_id P root) (root_messages P Q)"
    and hash: "second_preimage_hard P (items_messages P Q)"
    and pub: "published_by P root Q"
    and typed: "sp_typed s" and ver: "sp_verify P s (node_id P root) = Inr ()"
  shows "\<exists>q \<in> Q. sh_head (sp_head s) = sh_head (sp_head q) \<and> sp_items s = sp_items q"
proof -
  have "\<forall>q \<in> Q. head_ok (sh_head (sp_head q))"
    using pub by (simp add: published_by_def sp_typed_def)
  then obtain q where q: "q \<in> Q" "sh_head (sp_head q) = sh_head (sp_head s)"
    using verified_head_published[OF laws unf, of "sp_head s"] typed ver
    by (auto simp: sp_typed_def sp_verify_Inr)
  have "h_items_hash (sh_head (sp_head q)) = items_hash_of P (sp_items q)"
    using pub q(1) by (force simp: published_by_def sign_with_Inr head_sign_Inr head_of_def)
  then have "items_hash_of P (sp_items s) = items_hash_of P (sp_items q)"
    using ver q(2) by (simp add: sp_verify_Inr)
  then have "items_hash_bytes P (sp_items s) = items_hash_bytes P (sp_items q)"
    using hash q(1) by (auto simp: second_preimage_hard_def items_messages_def items_hash_of_def)
  then have "sp_items s = sp_items q"
    using items_bytes_inj[OF laws(2,1)] typed pub q(1) by (auto simp: published_by_def sp_typed_def)
  with q show ?thesis by metis
qed

theorem policy_authentic_witness:
  "\<exists>P s q. unforgeable P 1 (root_messages P {q}) \<and> sp_verify P s 1 = Inr ()
     \<and> to_policy s = Inr demo_policy \<and> sp_items s = sp_items q"
proof -
  obtain P q where Pq: "json_law P" "hex_law P" "node_id P 1 = 1" "unforgeable P 1 (root_messages P {q})"
      "second_preimage_hard P (items_messages P {q})" "published_by P 1 {q}" "sp_typed q"
      "sp_verify P q 1 = Inr ()" "to_policy q = Inr demo_policy"
    using authentic_instance by blast
  have "sp_items q = sp_items q"
    using policy_authentic[of P 1 "{q}" q] Pq by auto
  with Pq show ?thesis by blast
qed

end
