(* ===== verification/Access_Rules.thy ===== *)
theory Access_Rules
  imports Policy_Signing
begin

text \<open>
  Who is in the network and who may call what: \<open>check_admitted\<close>
  (\<open>library/network/admission.rs\<close>), \<open>authorize\<close> (\<open>library/services/access.rs\<close>), and a caller's
  view of the policy (\<open>library/services/view.rs\<close>, cut by \<open>view_for\<close> of
  \<open>library/services/signed_policy.rs\<close>).
\<close>

section \<open>Admission\<close>

definition check_admitted :: "policy \<Rightarrow> node_id \<Rightarrow> principal \<Rightarrow> unit res" where
  "check_admitted p caller who =
     (if bans_node p caller then Inl Banned
      else if pr_email who = None then Inl No_verified_email
      else if bans_person p who then Inl Banned
      else if \<not> any_role_admits p who then Inl No_role
      else Inr ())"

section \<open>Authorization\<close>

datatype refusal =
    Refusal_Banned
  | Unknown_Service service_name
  | Nobody_Allowed service_name
  | Not_In_Role service_name "role_name list" "string option"

definition authorize :: "policy \<Rightarrow> node_id \<Rightarrow> principal option \<Rightarrow> service_name \<Rightarrow> refusal + role_name" where
  "authorize p caller who service =
     (if bans_node p caller \<or> (case who of None \<Rightarrow> False | Some w \<Rightarrow> bans_person p w)
      then Inl Refusal_Banned
      else case bm_get (po_services p) service of
        None \<Rightarrow> Inl (Unknown_Service service)
      | Some svc \<Rightarrow>
          if sv_allow svc = [] then Inl (Nobody_Allowed service)
          else case List.find (\<lambda>r. role_admits p r who) (sv_allow svc) of
            Some role \<Rightarrow> Inr role
          | None \<Rightarrow> Inl (Not_In_Role service (sv_allow svc)
              (map_option (\<lambda>w. case pr_email w of Some e \<Rightarrow> e | None \<Rightarrow> pr_subject w) who)))"

section \<open>The caller's view\<close>

fun contains :: "string \<Rightarrow> string \<Rightarrow> bool" where
  "contains q [] = (q = [])"
| "contains q (c # s) = (prefix q (c # s) \<or> contains q s)"

definition service_matches :: "service_name \<Rightarrow> service \<Rightarrow> string \<Rightarrow> bool" where
  "service_matches name svc query \<longleftrightarrow>
     contains query name \<or> contains query (ascii_lower (sv_description svc))"

record view =
  vw_head :: signed_head
  vw_entries :: "signed_entry list"

fun item_bans :: "node_id \<Rightarrow> principal option \<Rightarrow> item \<Rightarrow> bool" where
  "item_bans node who (Item_Ban k) = (k = node)"
| "item_bans node who (Item_PersonBan k) = (case who of None \<Rightarrow> False | Some w \<Rightarrow> person_matches k w)"
| "item_bans node who _ = False"

fun role_of_item :: "item \<Rightarrow> (role_name \<times> matcher list) option" where
  "role_of_item (Item_Role k b) = Some (k, b)"
| "role_of_item _ = None"

definition view_for :: "signed_policy \<Rightarrow> node_id \<Rightarrow> principal option \<Rightarrow> string option \<Rightarrow> view" where
  "view_for s node who query =
     (if list_ex (item_bans node who) (sp_items s)
      then \<lparr> vw_head = sp_head s, vw_entries = [] \<rparr>
      else
        let roles = bm_from (List.map_filter role_of_item (sp_items s));
            admitted = (\<lambda>allowed. list_ex (\<lambda>r. admits (bm_get roles r) who) allowed);
            q = map_option ascii_lower query
        in \<lparr> vw_head = sp_head s,
             vw_entries = filter (\<lambda>e. admitted (sv_allow (se_service e)))
               (filter (\<lambda>e. case q of None \<Rightarrow> True | Some t \<Rightarrow> service_matches (se_name e) (se_service e) t)
                 (sp_entries s)) \<rparr>)"

definition view_verify :: "prims \<Rightarrow> view \<Rightarrow> node_id \<Rightarrow> unit res" where
  "view_verify P v root =
     and_then (head_verify P root (vw_head v)) (\<lambda>_.
       case find_pair (\<lambda>a b. se_name a \<ge> se_name b) (vw_entries v) of
         Some (_, b) \<Rightarrow> bad (View_out_of_order (se_name b))
       | None \<Rightarrow> all_ok (\<lambda>e. and_then (check_entry_version e (vw_head v)) (\<lambda>_. entry_verify P root e))
                   (vw_entries v))"

definition view_entry :: "view \<Rightarrow> service_name \<Rightarrow> signed_entry option" where
  "view_entry v name = List.find (\<lambda>e. se_name e = name) (vw_entries v)"

definition view_matching :: "view \<Rightarrow> string \<Rightarrow> signed_entry list" where
  "view_matching v query =
     (let q = ascii_lower query in filter (\<lambda>e. service_matches (se_name e) (se_service e) q) (vw_entries v))"

definition j_view :: "prims \<Rightarrow> view \<Rightarrow> json" where
  "j_view P v = obj [(''head'', Some (j_signed_head P (vw_head v))),
                     (''entries'', Some (j_list (j_entry P) (vw_entries v)))]"

definition d_view :: "prims \<Rightarrow> json \<Rightarrow> view option" where
  "d_view P j = do {
     fs \<leftarrow> struct_fields [''head'', ''entries''] 2 True j;
     h \<leftarrow> req fs ''head'' (d_signed_head P);
     es \<leftarrow> req fs ''entries'' (d_list (d_entry P));
     Some \<lparr> vw_head = h, vw_entries = es \<rparr>
   }"

definition view_ok :: "view \<Rightarrow> bool" where
  "view_ok v \<longleftrightarrow> head_ok (sh_head (vw_head v)) \<and> (\<forall>e \<in> set (vw_entries v). entry_ok e)"

section \<open>Laws\<close>

lemma check_admitted_Inr [result_simps]:
  "check_admitted p c w = Inr u \<longleftrightarrow>
     \<not> bans_node p c \<and> pr_email w \<noteq> None \<and> \<not> bans_person p w \<and> any_role_admits p w"
  by (auto simp: check_admitted_def)

lemma authorize_Inr [result_simps]:
  "authorize p c who s = Inr r \<longleftrightarrow>
     \<not> bans_node p c \<and> (\<forall>w. who = Some w \<longrightarrow> \<not> bans_person p w)
     \<and> (\<exists>svc. bm_get (po_services p) s = Some svc \<and>
          List.find (\<lambda>r. role_admits p r who) (sv_allow svc) = Some r)"
  by (auto simp: authorize_def split: option.splits)

lemma role_admits_Some: "role_admits p r who \<longleftrightarrow>
    (\<exists>w ms. who = Some w \<and> bm_get (po_roles p) r = Some ms \<and> pr_email w \<noteq> None
       \<and> (\<exists>m \<in> set ms. matches m w))"
  by (auto simp: role_admits_def admits_def list_ex_iff split: option.splits)

lemma any_role_admits_iff:
  assumes "policy_ok p"
  shows "any_role_admits p w \<longleftrightarrow> (\<exists>r. role_admits p r (Some w))"
proof -
  have get: "bm_get (po_roles p) r = Some ms \<longleftrightarrow> (r, ms) \<in> set (po_roles p)" for r ms
    using assms by (simp add: policy_ok_def bm_get_iff)
  show ?thesis
    unfolding any_role_admits_def role_admits_Some list_ex_iff get
    by (auto simp: admits_def list_ex_iff)
qed

lemma role_admits_any: "role_admits p r (Some w) \<Longrightarrow> any_role_admits p w"
  by (auto simp: role_admits_Some any_role_admits_def list_ex_iff admits_def dest!: map_of_SomeD)

lemma view_verify_Inr [result_simps]:
  "view_verify P v root = Inr u \<longleftrightarrow>
     head_verify P root (vw_head v) = Inr ()
     \<and> sorted_wrt (\<lambda>a b. se_name a < se_name b) (vw_entries v)
     \<and> (\<forall>e \<in> set (vw_entries v). se_fabric e = h_fabric (sh_head (vw_head v))
          \<and> se_version e \<le> h_version (sh_head (vw_head v)) \<and> entry_verify P root e = Inr ())"
proof -
  have t: "transp (\<lambda>a b. se_name a < se_name b)" by (auto intro!: transpI)
  have sorted: "find_pair (\<lambda>a b. se_name a \<ge> se_name b) es = None \<longleftrightarrow>
      sorted_wrt (\<lambda>a b. se_name a < se_name b) es" for es
    by (rule find_pair_None_sorted[OF t]) auto
  then show ?thesis
    by (cases "find_pair (\<lambda>a b. se_name a \<ge> se_name b) (vw_entries v)")
      (auto simp: view_verify_def and_then_Inr_iff all_ok_Inr_iff check_entry_version_def
        split: if_splits simp flip: sorted)
qed

interpretation view_json: json_type "j_view P" "d_view P" "\<lambda>v. hex_law P \<and> view_ok v"
  for P
proof
  fix v :: view
  assume ok: "hex_law P \<and> view_ok v"
  show "d_view P (j_view P v) = Some v"
    using ok signed_head_json.decode_encode[of P "vw_head v"] entry_json.list_decode[of "vw_entries v" P]
    by (cases v) (simp add: d_view_def j_view_def json_simps req_def view_ok_def)
  show "json_ok (j_view P v)"
    using ok entry_json.list_canonical[of "vw_entries v" P]
    by (simp add: j_view_def json_simps view_ok_def)
qed

text \<open>Items and the policy rebuilt from them say the same.\<close>

lemma fold_add_item_sets:
  assumes "fold add_item its (p, s) = (p', s')"
  shows "set (po_bans p') = set (po_bans p) \<union> {n. Item_Ban n \<in> set its}"
    and "set (po_person_bans p') = set (po_person_bans p) \<union> {b. Item_PersonBan b \<in> set its}"
    and "po_roles p' = fold (\<lambda>(k, v). bm_put k v) (List.map_filter role_of_item its) (po_roles p)"
    and "po_services p' = fold (\<lambda>(k, v). bm_put k v)
           (map (\<lambda>e. (se_name e, se_service e)) (List.map_filter entry_of_item its)) (po_services p)"
  using assms
proof (induction its arbitrary: p s)
  case (Cons i its)
  { case 1 then show ?case using Cons.IH(1) by (cases i) auto }
  { case 2 then show ?case using Cons.IH(2) by (cases i) auto }
  { case 3 then show ?case using Cons.IH(3) by (cases i) (auto simp: List.map_filter_simps) }
  { case 4 then show ?case using Cons.IH(4) by (cases i) (auto simp: List.map_filter_simps) }
qed (simp_all add: List.map_filter_simps)

lemma to_policy_parts:
  assumes "to_policy s = Inr p"
  shows "set (po_bans p) = {n. Item_Ban n \<in> set (sp_items s)}"
    and "set (po_person_bans p) = {b. Item_PersonBan b \<in> set (sp_items s)}"
    and "po_roles p = bm_from (List.map_filter role_of_item (sp_items s))"
    and "po_services p = bm_from (map (\<lambda>e. (se_name e, se_service e)) (sp_entries s))"
    and "sorted_wrt (\<lambda>a b. se_name a < se_name b) (sp_entries s)"
proof -
  let ?h = "sh_head (sp_head s)"
  let ?start = "(policy_new (h_fabric ?h))\<lparr>po_version := h_version ?h, po_issued := h_issued ?h,
                  po_not_after := h_not_after ?h, po_directories := h_directories ?h\<rparr>"
  from assms have order: "sorted_wrt (\<lambda>a b. item_key_of a < item_key_of b) (sp_items s)"
    by (auto simp: to_policy_def from_items_def and_then_Inr_iff check_order_Inr)
  from assms obtain q b where q: "fold add_item (sp_items s) (?start, None) = (q, Some b)"
      and p: "p = q\<lparr>po_settings := b\<rparr>"
    by (auto simp: to_policy_def from_items_def and_then_Inr_iff Let_def split: prod.splits option.splits)
  note parts = fold_add_item_sets[OF q]
  show "set (po_bans p) = {n. Item_Ban n \<in> set (sp_items s)}"
    using parts(1) by (simp add: p policy_new_def)
  show "set (po_person_bans p) = {b. Item_PersonBan b \<in> set (sp_items s)}"
    using parts(2) by (simp add: p policy_new_def)
  show "po_roles p = bm_from (List.map_filter role_of_item (sp_items s))"
    using parts(3) by (simp add: p policy_new_def bm_from_def)
  show "po_services p = bm_from (map (\<lambda>e. (se_name e, se_service e)) (sp_entries s))"
    using parts(4) by (simp add: p policy_new_def bm_from_def sp_entries_def)
  show "sorted_wrt (\<lambda>a b. se_name a < se_name b) (sp_entries s)"
    using entries_sorted[OF order] by (simp add: sp_entries_def)
qed

lemma to_policy_service:
  assumes "to_policy s = Inr p" "e \<in> set (sp_entries s)"
  shows "bm_get (po_services p) (se_name e) = Some (se_service e)"
proof -
  have "sorted_wrt (<) (map se_name (sp_entries s))"
    using to_policy_parts(5)[OF assms(1)] by (simp add: sorted_wrt_map)
  then have d: "distinct (map fst (map (\<lambda>e. (se_name e, se_service e)) (sp_entries s)))"
    by (simp add: strict_sorted_iff comp_def)
  show ?thesis
    unfolding to_policy_parts(4)[OF assms(1)] bm_get_from_distinct[OF d] map_of_eq_Some_iff[OF d]
    using assms(2) by auto
qed

lemma items_ban_iff:
  assumes "to_policy s = Inr p"
  shows "list_ex (item_bans node who) (sp_items s) \<longleftrightarrow>
    bans_node p node \<or> (case who of None \<Rightarrow> False | Some w \<Rightarrow> bans_person p w)"
proof -
  have "list_ex (item_bans node who) (sp_items s) \<longleftrightarrow>
      Item_Ban node \<in> set (sp_items s)
      \<or> (\<exists>b. Item_PersonBan b \<in> set (sp_items s) \<and> (case who of None \<Rightarrow> False | Some w \<Rightarrow> person_matches b w))"
    unfolding list_ex_iff by (auto elim!: item_bans.elims intro: bexI[rotated])
  then show ?thesis
    using to_policy_parts(1,2)[OF assms]
    by (auto simp: bans_node_def bans_person_def list_ex_iff split: option.splits)
qed

text \<open>The entries of a view, as a set: those the rules of \<open>authorize\<close> let the caller use.\<close>

lemma authorize_ok_iff:
  "is_ok (authorize p c who s) \<longleftrightarrow>
     \<not> (bans_node p c \<or> (case who of None \<Rightarrow> False | Some w \<Rightarrow> bans_person p w))
     \<and> (\<exists>svc. bm_get (po_services p) s = Some svc \<and> list_ex (\<lambda>r. role_admits p r who) (sv_allow svc))"
proof -
  have f: "(\<exists>r. List.find q xs = Some r) \<longleftrightarrow> list_ex q xs" for q :: "'x \<Rightarrow> bool" and xs
    by (metis find_None_iff list_ex_iff not_Some_eq)
  show ?thesis
    by (auto simp: is_ok_iff authorize_Inr f[symmetric] split: option.splits)
qed

lemma view_for_entries:
  assumes "to_policy s = Inr p"
  shows "vw_entries (view_for s node who query) =
    filter (\<lambda>e. is_ok (authorize p node who (se_name e))
       \<and> (case query of None \<Rightarrow> True | Some q \<Rightarrow> service_matches (se_name e) (se_service e) (ascii_lower q)))
     (sp_entries s)"
proof (cases "list_ex (item_bans node who) (sp_items s)")
  case True
  then have "\<not> is_ok (authorize p node who n)" for n
    using items_ban_iff[OF assms, of node who] by (simp add: authorize_ok_iff)
  then show ?thesis using True by (simp add: view_for_def)
next
  case False
  then have "is_ok (authorize p node who (se_name e)) \<longleftrightarrow>
      list_ex (\<lambda>r. role_admits p r who) (sv_allow (se_service e))" if "e \<in> set (sp_entries s)" for e
    using items_ban_iff[OF assms, of node who] to_policy_service[OF assms that]
    by (simp add: authorize_ok_iff)
  then show ?thesis
    using False to_policy_parts(3)[OF assms]
    by (auto simp: view_for_def Let_def role_admits_def case_map_option comp_def
        split: option.splits intro!: filter_cong)
qed

lemma view_for_head [simp]: "vw_head (view_for s node who query) = sp_head s"
  by (simp add: view_for_def Let_def)

lemma contains_sublist: "contains q s \<longleftrightarrow> (\<exists>a b. s = a @ q @ b)"
proof (induction s)
  case (Cons c s)
  show ?case
  proof
    assume "contains q (c # s)"
    then consider "prefix q (c # s)" | "contains q s" by auto
    then show "\<exists>a b. c # s = a @ q @ b"
    proof cases
      case 1 then show ?thesis by (metis append_Nil prefix_def)
    next
      case 2 then show ?thesis using Cons by (metis append_Cons)
    qed
  next
    assume "\<exists>a b. c # s = a @ q @ b"
    then obtain a b where ab: "c # s = a @ q @ b" by blast
    show "contains q (c # s)"
    proof (cases a)
      case Nil
      then have "prefix q (c # s)" using ab by (simp add: prefix_def)
      then show ?thesis by simp
    next
      case (Cons d a')
      then have "contains q s" using ab Cons.IH by auto
      then show ?thesis by simp
    qed
  qed
qed auto

definition caller_banned :: "policy \<Rightarrow> node_id \<Rightarrow> principal option \<Rightarrow> bool" where
  "caller_banned p caller who \<longleftrightarrow> bans_node p caller \<or> (\<exists>w. who = Some w \<and> bans_person p w)"

section \<open>Properties\<close>

lemma authorized_caller:
  assumes "policy_wf p" "authorize p caller who svc = Inr role"
  shows "\<exists>w s before after. who = Some w \<and> check_admitted p caller w = Inr ()
    \<and> bm_get (po_services p) svc = Some s \<and> sv_allow s = before @ role # after
    \<and> (\<forall>r \<in> set before. \<not> role_admits p r who)
    \<and> (\<exists>ms m. bm_get (po_roles p) role = Some ms \<and> m \<in> set ms \<and> matches m w
         \<and> mt_issuer m = pr_issuer w \<and> bm_has (po_issuers p) (pr_issuer w))"
proof -
  from assms(2) obtain s where s: "bm_get (po_services p) svc = Some s"
      "List.find (\<lambda>r. role_admits p r who) (sv_allow s) = Some role"
      and nb: "\<not> bans_node p caller" "\<forall>w. who = Some w \<longrightarrow> \<not> bans_person p w"
    by (auto simp: authorize_Inr)
  from s(2) obtain before after where split: "sv_allow s = before @ role # after"
      "role_admits p role who" "\<forall>r \<in> set before. \<not> role_admits p r who"
    by (auto simp: find_Some_split)
  then obtain w ms m where w: "who = Some w" "bm_get (po_roles p) role = Some ms" "pr_email w \<noteq> None"
      "m \<in> set ms" "matches m w"
    by (auto simp: role_admits_Some)
  have "check_admitted p caller w = Inr ()"
    using nb w(1,3) split(2) role_admits_any by (auto simp: check_admitted_Inr)
  moreover have "mt_issuer m = pr_issuer w" using matches_issuer[OF w(5)] by simp
  moreover have "bm_has (po_issuers p) (mt_issuer m)"
    using assms(1) map_of_SomeD[OF w(2)] w(4) by (fastforce simp: policy_wf_def)
  ultimately show ?thesis using s(1) split w by (metis (no_types, lifting))
qed

text \<open>
  a call is authorized only for an admitted caller, in a role that really admits it. When
  \<open>authorize\<close> answers with a role, the caller presented a principal that \<open>check_admitted\<close>
  accepts, the role is the first of the service's \<open>allow\<close> that admits it, and one of the role's
  matchers names exactly the principal's issuer, which the (valid) policy trusts.
\<close>

theorem authorize_sound:
  assumes "policy_wf p" "authorize p caller who svc = Inr role"
  shows "\<exists>w s before after. who = Some w \<and> check_admitted p caller w = Inr ()
    \<and> bm_get (po_services p) svc = Some s \<and> sv_allow s = before @ role # after
    \<and> (\<forall>r \<in> set before. \<not> role_admits p r who)
    \<and> (\<exists>ms m. bm_get (po_roles p) role = Some ms \<and> m \<in> set ms \<and> matches m w
         \<and> mt_issuer m = pr_issuer w \<and> bm_has (po_issuers p) (pr_issuer w))"
  using assms by (rule authorized_caller)

definition demo_alice :: principal where
  "demo_alice = \<lparr> pr_issuer = ''https://idp'', pr_subject = ''1'', pr_email = Some ''alice@ex.com'',
     pr_org = None, pr_groups = [], pr_not_after = 0 \<rparr>"

lemma demo_authorized: "authorize demo_policy 7 (Some demo_alice) ''status'' = Inr ''staff''"
  by (simp add: authorize_def bans_node_def bans_person_def demo_policy_def policy_new_def role_admits_def
      admits_def matches_def matcher_new_def demo_alice_def)

theorem authorize_sound_witness:
  "authorize demo_policy 7 (Some demo_alice) ''status'' = Inr ''staff''
   \<and> check_admitted demo_policy 7 demo_alice = Inr ()"
  using demo_authorized authorize_sound[OF demo_policy_ok(2) demo_authorized] by auto

text \<open>
  \<open>authorize\<close> is complete, and each refusal means what it says: it answers \<open>Ok\<close> exactly when
  neither the node nor the person is banned and some role of the service's \<open>allow\<close> has a matcher
  that matches a principal with a verified email; \<open>UnknownService\<close> exactly when a caller that is
  not banned names a service the policy does not have; \<open>NobodyAllowed\<close> exactly for an empty
  \<open>allow\<close>; and \<open>Banned\<close> exactly for a banned node or person.
\<close>

theorem authorize_spec:
  "(is_ok (authorize p caller who svc) = (\<not> caller_banned p caller who \<and>
      (\<exists>s r ms m w. bm_get (po_services p) svc = Some s \<and> r \<in> set (sv_allow s)
        \<and> bm_get (po_roles p) r = Some ms \<and> m \<in> set ms \<and> who = Some w \<and> pr_email w \<noteq> None \<and> matches m w)))
   \<and> (authorize p caller who svc = Inl Refusal_Banned) = caller_banned p caller who
   \<and> (authorize p caller who svc = Inl (Unknown_Service svc)) =
      (\<not> caller_banned p caller who \<and> bm_get (po_services p) svc = None)
   \<and> (authorize p caller who svc = Inl (Nobody_Allowed svc)) =
      (\<not> caller_banned p caller who \<and> (\<exists>s. bm_get (po_services p) svc = Some s \<and> sv_allow s = []))"
proof -
  have b: "(bans_node p caller \<or> (case who of None \<Rightarrow> False | Some w \<Rightarrow> bans_person p w)) =
      caller_banned p caller who"
    by (auto simp: caller_banned_def split: option.splits)
  have "is_ok (authorize p caller who svc) = (\<not> caller_banned p caller who \<and>
      (\<exists>s r ms m w. bm_get (po_services p) svc = Some s \<and> r \<in> set (sv_allow s)
        \<and> bm_get (po_roles p) r = Some ms \<and> m \<in> set ms \<and> who = Some w \<and> pr_email w \<noteq> None \<and> matches m w))"
    unfolding authorize_ok_iff b by (auto simp: list_ex_iff role_admits_Some; blast)
  then show ?thesis
    by (auto simp: authorize_def b split: option.splits)
qed



lemma view_verifies:
  assumes "sp_verify P s root = Inr ()"
  shows "view_verify P (view_for s node who query) root = Inr ()"
proof -
  obtain p where p: "to_policy s = Inr p" using assms by (auto simp: sp_verify_Inr)
  show ?thesis
    using assms verified_entries_sorted[OF assms]
    by (auto simp: view_verify_Inr view_for_entries[OF p] sp_verify_Inr intro!: sorted_wrt_filter)
qed

text \<open>
  what a directory cuts, a caller accepts: any view of a policy that verifies under a root
  verifies under that root (head, order, every entry's signature and version), for every caller
  and every query.
\<close>

theorem view_for_verifies:
  assumes "sp_verify P s root = Inr ()"
  shows "view_verify P (view_for s node who query) root = Inr ()"
  using assms by (rule view_verifies)

theorem view_for_verifies_witness:
  "\<exists>s. sp_verify demo_prims s 1 = Inr () \<and>
     view_verify demo_prims (view_for s 7 (Some demo_alice) (Some ''UP'')) 1 = Inr ()"
proof -
  obtain s where s: "sign_with demo_prims demo_policy 1 None = Inr s"
    using sign_ok_iff[of demo_prims demo_policy 1 None] by (auto simp: is_ok_iff)
  have "po_fabric demo_policy = 1" by (simp add: demo_policy_def policy_new_def)
  then have ver: "sp_verify demo_prims s 1 = Inr ()" using sign_with_verifies[OF _ _ s] by simp
  show ?thesis using ver view_for_verifies[OF ver] by blast
qed

text \<open>
  a removed person stays out. Once \<open>ban_person\<close> has banned the person an issuer verifies as
  some email, no principal of that issuer is admitted or authorized from any node, whether it
  carries that email, in any case, or withholds it.
\<close>

theorem person_ban_holds:
  assumes "pr_issuer w = iss"
    and "pr_email w = None \<or> (\<exists>e. pr_email w = Some e \<and> eq_ignore_case e (trim email))"
  shows "\<not> is_ok (check_admitted (snd (ban_person (person_new iss email) p)) node w)
    \<and> \<not> is_ok (authorize (snd (ban_person (person_new iss email) p)) node (Some w) svc)"
proof -
  let ?p = "snd (ban_person (person_new iss email) p)"
  have banned: "bans_person ?p w" if "pr_email w \<noteq> None"
    using assms that
    by (auto simp: bans_person_def ban_person_def list_ex_iff person_matches_def person_new_def
        eq_ignore_case_def)
  have "\<not> is_ok (authorize ?p node (Some w) svc)" if "pr_email w = None"
    using that by (auto simp: authorize_ok_iff list_ex_iff role_admits_Some)
  then show ?thesis
    using banned by (cases "pr_email w") (auto simp: is_ok_iff check_admitted_Inr authorize_Inr)
qed

theorem person_ban_holds_witness:
  "\<not> is_ok (check_admitted (snd (ban_person (person_new ''https://idp'' ''ALICE@ex.com'') demo_policy)) 7 demo_alice)"
proof -
  have t: "trim ''ALICE@ex.com'' = ''ALICE@ex.com''" by (simp add: trim_plain char_between_def)
  have "eq_ignore_case ''alice@ex.com'' ''ALICE@ex.com''" by code_simp
  then show ?thesis
    using person_ban_holds[of demo_alice "''https://idp''" "''ALICE@ex.com''" demo_policy 7]
    by (simp add: demo_alice_def t)
qed

text \<open>
  A view cannot be forged. If the root signed only the heads and entries of the published
  policies, every entry of a view that verifies has the body (name, description, roles, hosts,
  version) of an entry of a published policy, no newer than the view's head, and the head is a
  published one.
\<close>

theorem view_authentic:
  assumes laws: "json_law P" "hex_law P"
    and unf: "unforgeable P root (root_messages P Q)"
    and typed: "\<forall>q \<in> Q. head_ok (sh_head (sp_head q))" "head_ok (sh_head (vw_head v))"
    and ver: "view_verify P v root = Inr ()"
  shows "(\<exists>q \<in> Q. sh_head (sp_head q) = sh_head (vw_head v))
    \<and> (\<forall>e \<in> set (vw_entries v). se_version e \<le> h_version (sh_head (vw_head v))
         \<and> (\<exists>q \<in> Q. \<exists>e' \<in> set (sp_entries q). entry_body.truncate e = entry_body.truncate e'))"
  using verified_head_published[OF laws unf typed] verified_entry_published[OF laws unf] ver
  by (auto simp: view_verify_Inr)

theorem view_authentic_witness:
  "\<exists>P q. unforgeable P 1 (root_messages P {q}) \<and> view_verify P (view_for q 7 (Some demo_alice) None) 1 = Inr ()
     \<and> (\<forall>e \<in> set (vw_entries (view_for q 7 (Some demo_alice) None)).
          \<exists>e' \<in> set (sp_entries q). entry_body.truncate e = entry_body.truncate e')"
proof -
  obtain P q where Pq: "json_law P" "hex_law P" "unforgeable P 1 (root_messages P {q})" "sp_typed q"
      "sp_verify P q 1 = Inr ()"
    using authentic_instance by blast
  have v: "view_verify P (view_for q 7 (Some demo_alice) None) 1 = Inr ()"
    using Pq(5) by (rule view_verifies)
  show ?thesis
    using view_authentic[OF Pq(1,2,3) _ _ v] Pq(3,4) v by (auto simp: sp_typed_def)
qed

end
