(* ===== verification/Idp_Claim.thy ===== *)
theory Idp_Claim
  imports Role_Match
begin

text \<open>
  \<open>library/calls/idp.rs\<close>: the ID token a caller presents, and \<open>verify_claim\<close>, the host's check
  that turns it into a \<open>Principal\<close>. The token is a text; \<open>ring\<close>'s two signature checks
  (RSA PKCS#1 with SHA-256 and ECDSA P-256 with SHA-256) are the fields of \<open>ring\<close>, a parameter.

  The lemmas characterise acceptance completely (\<open>verify_claim_Inr\<close>); the properties say that an
  accepted token is signed by one of the issuer's own keys for this audience, this node and this
  time, and that one token speaks for one node.
\<close>

record ring =
  rsa_verify :: "bytes \<Rightarrow> bytes \<Rightarrow> bytes \<Rightarrow> bytes \<Rightarrow> bool"
  p256_verify :: "bytes \<Rightarrow> bytes \<Rightarrow> bytes \<Rightarrow> bool"

definition oidc_nonce_context :: string where
  "oidc_nonce_context = ''wires oidc-nonce v1''"

definition clock_skew_secs :: i64 where
  "clock_skew_secs = 60"

definition google_issuer :: issuer where
  "google_issuer = ''https://accounts.google.com''"

type_synonym id_token = string

section \<open>The issuer's keys\<close>

record jwk =
  k_ty :: string
  k_id :: "string option"
  k_alg :: "string option"
  k_use :: "string option"
  k_n :: "string option"
  k_e :: "string option"
  k_crv :: "string option"
  k_x :: "string option"
  k_y :: "string option"

type_synonym jwks = "jwk list"

definition d_jwk :: "json \<Rightarrow> jwk option" where
  "d_jwk j = do {
     fs \<leftarrow> struct_fields [''kty'', ''kid'', ''alg'', ''use'', ''n'', ''e'', ''crv'', ''x'', ''y''] 1 False j;
     ty \<leftarrow> req fs ''kty'' d_str;
     i \<leftarrow> opt_field fs ''kid'' d_str;
     a \<leftarrow> opt_field fs ''alg'' d_str;
     u \<leftarrow> opt_field fs ''use'' d_str;
     n \<leftarrow> opt_field fs ''n'' d_str;
     e \<leftarrow> opt_field fs ''e'' d_str;
     c \<leftarrow> opt_field fs ''crv'' d_str;
     x \<leftarrow> opt_field fs ''x'' d_str;
     y \<leftarrow> opt_field fs ''y'' d_str;
     Some \<lparr> k_ty = ty, k_id = i, k_alg = a, k_use = u, k_n = n, k_e = e, k_crv = c, k_x = x, k_y = y \<rparr>
   }"

definition d_jwks :: "json \<Rightarrow> jwks option" where
  "d_jwks j = do {
     fs \<leftarrow> struct_fields [''keys''] 1 False j;
     req fs ''keys'' (d_list d_jwk)
   }"

definition jwks_from_json :: "prims \<Rightarrow> bytes \<Rightarrow> jwks res" where
  "jwks_from_json P b = map_err (\<lambda>_. Id_token (Malformed ''jwks'')) (from_slice P d_jwks b)"

definition has_kid :: "jwks \<Rightarrow> string \<Rightarrow> bool" where
  "has_kid ks kid \<longleftrightarrow> list_ex (\<lambda>k. k_id k = Some kid) ks"

section \<open>The nonce\<close>

definition nonce_for :: "prims \<Rightarrow> node_id \<Rightarrow> string" where
  "nonce_for P n = b64_enc P (be_bytes32 (blake3_derive P oidc_nonce_context (be_bytes32 n)))"

section \<open>A compact JWS\<close>

datatype alg = Rs256 | Es256

primrec alg_name :: "alg \<Rightarrow> string" where
  "alg_name Rs256 = ''RS256''"
| "alg_name Es256 = ''ES256''"

definition none_or :: "('a \<Rightarrow> bool) \<Rightarrow> 'a option \<Rightarrow> bool" where
  "none_or p x = (case x of None \<Rightarrow> True | Some y \<Rightarrow> p y)"

definition alg_fits :: "alg \<Rightarrow> jwk \<Rightarrow> bool" where
  "alg_fits a k \<longleftrightarrow>
     (case a of Rs256 \<Rightarrow> k_ty k = ''RSA'' | Es256 \<Rightarrow> k_ty k = ''EC'' \<and> k_crv k = Some ''P-256'')
     \<and> none_or (\<lambda>x. x = alg_name a) (k_alg k)
     \<and> none_or (\<lambda>u. u = ''sig'') (k_use k)"

record jws_header =
  jh_alg :: string
  jh_kid :: "string option"
  jh_crit :: "json option"

definition d_jws_header :: "json \<Rightarrow> jws_header option" where
  "d_jws_header j = do {
     fs \<leftarrow> struct_fields [''alg'', ''kid'', ''crit''] 3 False j;
     a \<leftarrow> req fs ''alg'' d_str;
     i \<leftarrow> opt_field fs ''kid'' d_str;
     c \<leftarrow> opt_field fs ''crit'' Some;
     Some \<lparr> jh_alg = a, jh_kid = i, jh_crit = c \<rparr>
   }"

text \<open>\<open>Map<String, Value>\<close>: the members, where a later one of the same name replaces an earlier.\<close>

type_synonym claims = "string \<Rightarrow> json option"

definition d_claims :: "json \<Rightarrow> claims option" where
  "d_claims j = (case j of JObj kvs \<Rightarrow> Some (map_of (rev kvs)) | _ \<Rightarrow> None)"

record jws =
  jw_header :: jws_header
  jw_alg :: alg
  jw_payload :: claims
  jw_input :: string
  jw_signature :: bytes

definition decode_header :: "prims \<Rightarrow> string \<Rightarrow> jws_header res" where
  "decode_header P seg = (case b64_dec P seg of
     None \<Rightarrow> Inl (Id_token (Malformed ''header is not base64url''))
   | Some b \<Rightarrow> map_err (\<lambda>_. Id_token (Malformed ''header is not a JSON object'')) (from_slice P d_jws_header b))"

definition decode_payload :: "prims \<Rightarrow> string \<Rightarrow> claims res" where
  "decode_payload P seg = (case b64_dec P seg of
     None \<Rightarrow> Inl (Id_token (Malformed ''payload is not base64url''))
   | Some b \<Rightarrow> map_err (\<lambda>_. Id_token (Malformed ''payload is not a JSON object'')) (from_slice P d_claims b))"

definition alg_of :: "string \<Rightarrow> alg res" where
  "alg_of s = (if s = ''RS256'' then Inr Rs256 else if s = ''ES256'' then Inr Es256
     else Inl (Id_token (Unsupported_signing s)))"

definition jws_parse :: "prims \<Rightarrow> id_token \<Rightarrow> jws res" where
  "jws_parse P t = (case split_char (CHR ''.'') t of
     [h, p, sig] \<Rightarrow>
       and_then (decode_header P h) (\<lambda>hd.
         if jh_crit hd \<noteq> None then Inl (Id_token (Malformed ''critical header extensions''))
         else and_then (alg_of (jh_alg hd)) (\<lambda>a.
           and_then (decode_payload P p) (\<lambda>pl.
             and_then (ok_or (Id_token (Malformed ''signature is not base64url'')) (b64_dec P sig)) (\<lambda>s.
               Inr \<lparr> jw_header = hd, jw_alg = a, jw_payload = pl,
                     jw_input = take (length h + 1 + length p) t, jw_signature = s \<rparr>))))
   | _ \<Rightarrow> Inl (Id_token (Malformed ''not a three-part compact JWS'')))"

definition strip_leading_zeros :: "bytes \<Rightarrow> bytes" where
  "strip_leading_zeros b = (case position (\<lambda>x. x \<noteq> 0) b of None \<Rightarrow> [] | Some i \<Rightarrow> drop i b)"

definition jwk_field :: "prims \<Rightarrow> string option \<Rightarrow> bytes res" where
  "jwk_field P v = and_then (ok_or (Id_token (Malformed ''jwk field'')) v) (\<lambda>t.
     ok_or (Id_token (Malformed ''jwk field'')) (b64_dec P t))"

definition verify_with :: "prims \<Rightarrow> ring \<Rightarrow> alg \<Rightarrow> jwk \<Rightarrow> bytes \<Rightarrow> bytes \<Rightarrow> bool res" where
  "verify_with P R a k msg sig = (case a of
     Rs256 \<Rightarrow> and_then (jwk_field P (k_n k)) (\<lambda>n. and_then (jwk_field P (k_e k)) (\<lambda>e.
       Inr (rsa_verify R (strip_leading_zeros n) (strip_leading_zeros e) msg sig)))
   | Es256 \<Rightarrow> and_then (jwk_field P (k_x k)) (\<lambda>x. and_then (jwk_field P (k_y k)) (\<lambda>y.
       if length x \<noteq> 32 \<or> length y \<noteq> 32 then Inl (Id_token (Malformed ''P-256 coordinate length''))
       else Inr (p256_verify R (4 # x @ y) msg sig))))"

definition key_selected :: "jws \<Rightarrow> jwk \<Rightarrow> bool" where
  "key_selected w k \<longleftrightarrow>
     (case jh_kid (jw_header w) of Some kid \<Rightarrow> k_id k = Some kid | None \<Rightarrow> True) \<and> alg_fits (jw_alg w) k"

definition jws_verify :: "prims \<Rightarrow> ring \<Rightarrow> jws \<Rightarrow> jwks \<Rightarrow> unit res" where
  "jws_verify P R w ks =
     (let candidates = filter (key_selected w) ks in
      if candidates = [] then Inl (Id_token (Unknown_key (jh_kid (jw_header w))))
      else if list_ex (\<lambda>k. verify_with P R (jw_alg w) k (as_bytes (jw_input w)) (jw_signature w) = Inr True) candidates
      then Inr () else Inl (Id_token Bad_signature))"

section \<open>Claims\<close>

definition as_str :: "json option \<Rightarrow> string option" where
  "as_str v = (case v of Some (JStr s) \<Rightarrow> Some s | _ \<Rightarrow> None)"

definition str_claim :: "claims \<Rightarrow> string \<Rightarrow> string res" where
  "str_claim p name = ok_or (Id_token (Missing_claim name)) (as_str (p name))"

text \<open>An integer of \<open>i64\<close>; else the value as a float, cast with saturation (a \<open>u64\<close> above
  \<open>i64::MAX\<close> gives \<open>i64::MAX\<close>).\<close>

definition int_claim :: "claims \<Rightarrow> string \<Rightarrow> i64 option res" where
  "int_claim p name = (case p name of
     None \<Rightarrow> Inr None
   | Some (JInt n) \<Rightarrow> Inr (Some (clamp_i64 n))
   | Some (JFloat i) \<Rightarrow> Inr (Some i)
   | Some _ \<Rightarrow> Inl (Id_token (Missing_claim name)))"

definition aud_claim :: "claims \<Rightarrow> string list res" where
  "aud_claim p = (case p ''aud'' of
     Some (JStr s) \<Rightarrow> Inr [s]
   | Some (JArr xs) \<Rightarrow> ok_or (Id_token (Missing_claim ''aud'')) (all_some d_str xs)
   | _ \<Rightarrow> Inl (Id_token (Missing_claim ''aud'')))"

definition email_verified :: "claims \<Rightarrow> bool" where
  "email_verified p = (case p ''email_verified'' of
     Some (JBool b) \<Rightarrow> b | Some (JStr s) \<Rightarrow> s = ''true'' | _ \<Rightarrow> False)"

definition principal_of :: "claims \<Rightarrow> string \<Rightarrow> string \<Rightarrow> i64 \<Rightarrow> principal" where
  "principal_of p iss sub exp =
     \<lparr> pr_issuer = iss, pr_subject = sub,
       pr_email = (if email_verified p then as_str (p ''email'') else None),
       pr_org = (if iss = google_issuer then as_str (p ''hd'') else None),
       pr_groups = (case p ''groups'' of Some (JArr xs) \<Rightarrow> List.map_filter d_str xs | _ \<Rightarrow> []),
       pr_not_after = exp \<rparr>"

record identity_claim =
  ic_node :: node_id
  ic_token :: id_token

definition verify_claim ::
  "prims \<Rightarrow> ring \<Rightarrow> identity_claim \<Rightarrow> issuer \<Rightarrow> jwks \<Rightarrow> audience list \<Rightarrow> i64 \<Rightarrow> principal res" where
  "verify_claim P R c issuer ks audiences now =
     and_then (jws_parse P (ic_token c)) (\<lambda>w.
     and_then (jws_verify P R w ks) (\<lambda>_.
     let p = jw_payload w in
     and_then (str_claim p ''iss'') (\<lambda>iss.
     if iss \<noteq> issuer then Inl (Id_token (Wrong_issuer issuer iss))
     else and_then (aud_claim p) (\<lambda>aud.
     if \<not> list_ex (\<lambda>a. list_ex (\<lambda>ok. ok = a) audiences) aud then Inl (Id_token (Wrong_audience aud))
     else and_then (int_claim p ''exp'') (\<lambda>exp'.
     and_then (ok_or (Id_token (Missing_claim ''exp'')) exp') (\<lambda>exp.
     if now > sat_add exp clock_skew_secs then Inl (Id_token (Token_expired exp))
     else and_then (int_claim p ''iat'') (\<lambda>iat'.
     case (case iat' of Some iat \<Rightarrow> if iat > sat_add now clock_skew_secs then Some iat else None
             | None \<Rightarrow> None) of
       Some iat \<Rightarrow> Inl (Id_token (Not_yet_valid iat))
     | None \<Rightarrow>
     and_then (str_claim p ''nonce'') (\<lambda>nonce.
     if nonce \<noteq> nonce_for P (ic_node c) then Inl (Id_token (Wrong_nonce (ic_node c)))
     else and_then (str_claim p ''sub'') (\<lambda>sub. Inr (principal_of p iss sub exp))))))))))"

definition unverified_issuer :: "prims \<Rightarrow> id_token \<Rightarrow> issuer res" where
  "unverified_issuer P t = and_then (jws_parse P t) (\<lambda>w.
     ok_or (Id_token (Missing_claim ''iss'')) (as_str (jw_payload w ''iss'')))"

definition unverified_kid :: "prims \<Rightarrow> id_token \<Rightarrow> string option res" where
  "unverified_kid P t = and_then (jws_parse P t) (\<lambda>w. Inr (jh_kid (jw_header w)))"

section \<open>Laws\<close>

lemma split_char_join: "s = a @ c # t \<Longrightarrow> c \<notin> set a \<Longrightarrow> split_char c s = a # split_char c t"
  by (induction a arbitrary: s) auto

lemma split_char_none: "c \<notin> set s \<Longrightarrow> split_char c s = [s]"
  by (induction s) auto

lemma split_char_ConsD:
  "split_char c s = a # ps \<Longrightarrow>
     c \<notin> set a \<and> (ps = [] \<and> s = a \<or> (\<exists>t. s = a @ c # t \<and> split_char c t = ps))"
proof -
  assume s: "split_char c s = a # ps"
  show ?thesis
  proof (cases "c \<in> set s")
    case True
    then obtain b t where "s = b @ c # t" "c \<notin> set b" by (meson split_list_first)
    with s split_char_join[of s b c t] show ?thesis by simp
  next
    case False
    with s split_char_none[of c s] show ?thesis by simp
  qed
qed

lemma split_char_join3:
  assumes "split_char c s = [h, p, sig]"
  shows "s = h @ c # p @ c # sig"
proof -
  obtain t where t: "s = h @ c # t" "split_char c t = [p, sig]" using split_char_ConsD[OF assms] by blast
  obtain u where "t = p @ c # u" "split_char c u = [sig]" using split_char_ConsD[OF t(2)] by blast
  with t split_char_ConsD[of c u sig "[]"] show ?thesis by auto
qed

lemma jws_parse_Inr: "jws_parse P t = Inr w \<longleftrightarrow>
    (\<exists>h p sig. split_char (CHR ''.'') t = [h, p, sig]
       \<and> decode_header P h = Inr (jw_header w) \<and> jh_crit (jw_header w) = None
       \<and> alg_of (jh_alg (jw_header w)) = Inr (jw_alg w)
       \<and> decode_payload P p = Inr (jw_payload w)
       \<and> b64_dec P sig = Some (jw_signature w) \<and> jw_input w = h @ ''.'' @ p)"
proof -
  have inp: "split_char (CHR ''.'') t = [h, p, sig] \<Longrightarrow> take (length h + 1 + length p) t = h @ ''.'' @ p"
    for h p sig
    using split_char_join3[of "CHR ''.''" t h p sig] by simp
  show ?thesis
    using inp
    by (cases w) (auto simp: jws_parse_def and_then_Inr_iff ok_or_Inr_iff split: list.splits if_splits)
qed

lemma jws_verify_Inr: "jws_verify P R w ks = Inr () \<longleftrightarrow>
    (\<exists>k \<in> set ks. key_selected w k
       \<and> verify_with P R (jw_alg w) k (as_bytes (jw_input w)) (jw_signature w) = Inr True)"
  by (auto simp: jws_verify_def Let_def list_ex_iff filter_empty_conv)

lemma str_claim_Inr: "str_claim p n = Inr s \<longleftrightarrow> p n = Some (JStr s)"
  by (auto simp: str_claim_def as_str_def ok_or_def split: option.splits json.splits)

lemma verify_claim_Inr: "verify_claim P R c issuer ks audiences now = Inr who \<longleftrightarrow>
    (\<exists>w aud exp iat sub. jws_parse P (ic_token c) = Inr w \<and> jws_verify P R w ks = Inr ()
       \<and> jw_payload w ''iss'' = Some (JStr issuer)
       \<and> aud_claim (jw_payload w) = Inr aud \<and> set aud \<inter> set audiences \<noteq> {}
       \<and> int_claim (jw_payload w) ''exp'' = Inr (Some exp) \<and> now \<le> sat_add exp clock_skew_secs
       \<and> int_claim (jw_payload w) ''iat'' = Inr iat
       \<and> (\<forall>i. iat = Some i \<longrightarrow> i \<le> sat_add now clock_skew_secs)
       \<and> jw_payload w ''nonce'' = Some (JStr (nonce_for P (ic_node c)))
       \<and> jw_payload w ''sub'' = Some (JStr sub)
       \<and> who = principal_of (jw_payload w) issuer sub exp)"
proof -
  have iat: "(case (case iat' of Some iat \<Rightarrow> if iat > b then Some iat else None | None \<Rightarrow> None) of
       Some iat \<Rightarrow> Inl (e iat) | None \<Rightarrow> r) = Inr x \<longleftrightarrow>
      (\<forall>i. iat' = Some i \<longrightarrow> i \<le> b) \<and> r = Inr x"
    for iat' :: "i64 option" and b e r and x :: principal
    by (auto split: option.splits)
  have aud: "list_ex (\<lambda>a. list_ex (\<lambda>ok. ok = a) audiences) aud \<longleftrightarrow> set aud \<inter> set audiences \<noteq> {}" for aud
    by (auto simp: list_ex_iff)
  have ite: "(if b then Inl e else r) = Inr x \<longleftrightarrow> \<not> b \<and> r = Inr x" for b e r and x :: principal
    by simp
  show ?thesis
    unfolding verify_claim_def Let_def and_then_Inr_iff iat aud ite str_claim_Inr ok_or_Inr_iff
    by (simp add: not_less) blast
qed

section \<open>A token for the witnesses\<close>

text \<open>Base64 is read as hex, and the two decoded segments parse to a header and a payload; any other
  bytes parse as they do for \<open>demo_prims\<close>.\<close>

definition demo_claims :: "prims \<Rightarrow> json" where
  "demo_claims P = JObj [
     (''aud'', JArr [JStr ''cli'']), (''email'', JStr ''alice@ex.com''), (''email_verified'', JBool True),
     (''exp'', JInt 1000), (''hd'', JStr ''ex.com''), (''iat'', JInt 400), (''iss'', JStr ''https://idp''),
     (''nonce'', JStr (nonce_for P 7)), (''sub'', JStr ''1'')]"

definition demo_idp :: prims where
  "demo_idp = demo_prims \<lparr> parse_json := (\<lambda>b.
     if b = [1] then Some (JObj [(''alg'', JStr ''RS256''), (''kid'', JStr ''k1'')])
     else if b = [2] then Some (demo_claims demo_prims) else parse_json demo_prims b) \<rparr>"

definition demo_ring :: ring where
  "demo_ring = \<lparr> rsa_verify = (\<lambda>n e m s. n = [5] \<and> e = [3] \<and> m = as_bytes ''01.02'' \<and> s = [9]),
                 p256_verify = (\<lambda>q m s. False) \<rparr>"

definition demo_keys :: jwks where
  "demo_keys = [\<lparr> k_ty = ''RSA'', k_id = Some ''k1'', k_alg = None, k_use = Some ''sig'',
     k_n = Some ''0005'', k_e = Some ''03'', k_crv = None, k_x = None, k_y = None \<rparr>]"

definition demo_claim :: identity_claim where
  "demo_claim = \<lparr> ic_node = 7, ic_token = ''01.02.09'' \<rparr>"

lemma demo_idp_b64 [simp]: "b64_dec demo_idp = undigits" "nonce_for demo_idp n = nonce_for demo_prims n"
  by (simp_all add: demo_idp_def demo_prims_def nonce_for_def)

lemma demo_idp_laws [simp]: "json_law demo_idp" "hex_law demo_idp" "ed25519_law demo_idp" "node_id demo_idp k = k"
proof -
  have "replicate n (0 :: 8 word) \<noteq> [1]" "replicate n (0 :: 8 word) \<noteq> [2]" for n by (cases n; simp)+
  then show "json_law demo_idp"
    using demo_prims_laws(1) by (simp add: json_law_def demo_idp_def) (simp add: demo_prims_def)
  show "hex_law demo_idp" "ed25519_law demo_idp"
    using demo_prims_laws(2,3) by (simp_all add: hex_law_def ed25519_law_def demo_idp_def)
  show "node_id demo_idp k = k" by (simp add: node_id_def demo_idp_def demo_prims_def)
qed

lemma demo_segments [simp]:
  "undigits ''01'' = Some [1]" "undigits ''02'' = Some [2]" "undigits ''09'' = Some [9]"
  "undigits ''0005'' = Some [0, 5]" "undigits ''03'' = Some [3]"
  by code_simp+

declare undigits.simps [simp del]

lemma demo_parses: "parse_json demo_idp [1] = Some (JObj [(''alg'', JStr ''RS256''), (''kid'', JStr ''k1'')])"
  "parse_json demo_idp [2] = Some (demo_claims demo_prims)"
  by (simp_all add: demo_idp_def)

lemma demo_header: "decode_header demo_idp ''01'' =
    Inr \<lparr> jh_alg = ''RS256'', jh_kid = Some ''k1'', jh_crit = None \<rparr>"
  by (simp add: decode_header_def from_slice_def demo_parses d_jws_header_def struct_fields_def
      Let_def req_def opt_field_def d_str_def)

lemma demo_payload: "\<exists>m. decode_payload demo_idp ''02'' = Inr m \<and>
    m ''iss'' = Some (JStr ''https://idp'') \<and> m ''aud'' = Some (JArr [JStr ''cli''])
    \<and> m ''exp'' = Some (JInt 1000) \<and> m ''iat'' = Some (JInt 400) \<and> m ''sub'' = Some (JStr ''1'')
    \<and> m ''nonce'' = Some (JStr (nonce_for demo_prims 7)) \<and> m ''email'' = Some (JStr ''alice@ex.com'')
    \<and> m ''email_verified'' = Some (JBool True) \<and> m ''groups'' = None"
  by (simp add: decode_payload_def from_slice_def demo_parses d_claims_def demo_claims_def)

lemma demo_claim_verifies:
  "verify_claim demo_idp demo_ring demo_claim ''https://idp'' demo_keys [''cli''] 500 =
     Inr \<lparr> pr_issuer = ''https://idp'', pr_subject = ''1'', pr_email = Some ''alice@ex.com'',
           pr_org = None, pr_groups = [], pr_not_after = 1000 \<rparr>"
proof -
  obtain m where m: "decode_payload demo_idp ''02'' = Inr m" "m ''iss'' = Some (JStr ''https://idp'')"
    "m ''aud'' = Some (JArr [JStr ''cli''])" "m ''exp'' = Some (JInt 1000)" "m ''iat'' = Some (JInt 400)"
    "m ''sub'' = Some (JStr ''1'')" "m ''nonce'' = Some (JStr (nonce_for demo_prims 7))"
    "m ''email'' = Some (JStr ''alice@ex.com'')" "m ''email_verified'' = Some (JBool True)" "m ''groups'' = None"
    using demo_payload by blast
  let ?w = "\<lparr> jw_header = \<lparr> jh_alg = ''RS256'', jh_kid = Some ''k1'', jh_crit = None \<rparr>, jw_alg = Rs256,
    jw_payload = m, jw_input = ''01.02'', jw_signature = [9] \<rparr>"
  have p: "jws_parse demo_idp (ic_token demo_claim) = Inr ?w"
    by (simp add: jws_parse_def demo_claim_def demo_header m(1) alg_of_def)
  have v: "jws_verify demo_idp demo_ring ?w demo_keys = Inr ()"
    by (simp add: jws_verify_def demo_keys_def key_selected_def alg_fits_def none_or_def verify_with_def
        jwk_field_def strip_leading_zeros_def demo_ring_def)
  have i: "int_claim m ''exp'' = Inr (Some 1000)" "int_claim m ''iat'' = Inr (Some 400)"
    by (simp_all add: int_claim_def m in_i64_def i64_min_def i64_max_def)
  have t: "sat_add 1000 clock_skew_secs = 1060" "sat_add 500 clock_skew_secs = 560"
    by (simp_all add: sat_add_def clamp_i64_def clock_skew_secs_def i64_min_def i64_max_def)
  have a: "aud_claim m = Inr [''cli'']" by (simp add: aud_claim_def m d_str_def)
  have c: "ic_node demo_claim = 7" by (simp add: demo_claim_def)
  show ?thesis
    unfolding verify_claim_Inr
    by (intro exI[of _ ?w] exI[of _ "[''cli'']"] exI[of _ 1000] exI[of _ "Some 400"] exI[of _ "''1''"])
      (simp add: p v i t a c m principal_of_def email_verified_def as_str_def google_issuer_def)
qed

section \<open>Properties\<close>

lemma verified_token:
  assumes "verify_claim P R c issuer ks audiences now = Inr who"
  shows "\<exists>h p sig (w :: jws) k aud. ic_token c = h @ ''.'' @ p @ ''.'' @ sig \<and> b64_dec P sig = Some (jw_signature w)
    \<and> decode_payload P p = Inr (jw_payload w)
    \<and> k \<in> set ks \<and> alg_fits (jw_alg w) k \<and> (\<forall>kid. jh_kid (jw_header w) = Some kid \<longrightarrow> k_id k = Some kid)
    \<and> verify_with P R (jw_alg w) k (as_bytes (h @ ''.'' @ p)) (jw_signature w) = Inr True
    \<and> jw_payload w ''iss'' = Some (JStr issuer) \<and> pr_issuer who = issuer
    \<and> aud_claim (jw_payload w) = Inr aud \<and> set aud \<inter> set audiences \<noteq> {}
    \<and> jw_payload w ''nonce'' = Some (JStr (nonce_for P (ic_node c)))
    \<and> now \<le> sat_add (pr_not_after who) clock_skew_secs
    \<and> (\<forall>i. int_claim (jw_payload w) ''iat'' = Inr (Some i) \<longrightarrow> i \<le> sat_add now clock_skew_secs)
    \<and> (pr_email who \<noteq> None \<longrightarrow> email_verified (jw_payload w))
    \<and> (pr_org who \<noteq> None \<longrightarrow> issuer = google_issuer)"
proof -
  obtain w aud exp iat sub where w: "jws_parse P (ic_token c) = Inr w" "jws_verify P R w ks = Inr ()"
    "jw_payload w ''iss'' = Some (JStr issuer)" "aud_claim (jw_payload w) = Inr aud"
    "set aud \<inter> set audiences \<noteq> {}" "now \<le> sat_add exp clock_skew_secs"
    "int_claim (jw_payload w) ''iat'' = Inr iat" "\<forall>i. iat = Some i \<longrightarrow> i \<le> sat_add now clock_skew_secs"
    "jw_payload w ''nonce'' = Some (JStr (nonce_for P (ic_node c)))"
    "who = principal_of (jw_payload w) issuer sub exp"
    using assms unfolding verify_claim_Inr by blast
  obtain h p sig where t: "split_char (CHR ''.'') (ic_token c) = [h, p, sig]"
    "decode_payload P p = Inr (jw_payload w)" "b64_dec P sig = Some (jw_signature w)"
    "jw_input w = h @ ''.'' @ p"
    using w(1) unfolding jws_parse_Inr by blast
  obtain k where k: "k \<in> set ks" "key_selected w k"
    "verify_with P R (jw_alg w) k (as_bytes (jw_input w)) (jw_signature w) = Inr True"
    using w(2) unfolding jws_verify_Inr by blast
  have s: "ic_token c = h @ ''.'' @ p @ ''.'' @ sig" using split_char_join3[OF t(1)] by simp
  have kid: "\<forall>kid. jh_kid (jw_header w) = Some kid \<longrightarrow> k_id k = Some kid" "alg_fits (jw_alg w) k"
    using k(2) by (auto simp: key_selected_def)
  show ?thesis
    by (rule exI[of _ h], rule exI[of _ p], rule exI[of _ sig], rule exI[of _ w], rule exI[of _ k],
        rule exI[of _ aud])
      (use w t k kid s in \<open>simp add: principal_of_def\<close>)
qed



text \<open>
  a token minted for one node cannot be replayed as another's. If the same token is accepted
  for two node ids (at any times, by any verifiers), the two ids are the same, as long as the keyed
  hash does not collide on them.
\<close>

theorem token_binds_node:
  assumes b64: "b64_law P"
    and nocoll: "blake3_derive P oidc_nonce_context (be_bytes32 (ic_node c)) =
        blake3_derive P oidc_nonce_context (be_bytes32 (ic_node d)) \<Longrightarrow> ic_node c = ic_node d"
    and one: "ic_token c = ic_token d"
    and "verify_claim P R c issuer ks audiences now = Inr who"
    and "verify_claim P R' d issuer' ks' audiences' now' = Inr who'"
  shows "ic_node c = ic_node d"
proof -
  from assms(3-5) have n: "nonce_for P (ic_node c) = nonce_for P (ic_node d)"
    unfolding verify_claim_Inr by fastforce
  have inj: "b64_enc P a = b64_enc P b \<Longrightarrow> a = b" for a b
    using b64 unfolding b64_law_def by (metis option.inject)
  have inj32: "be_bytes32 x = be_bytes32 y \<Longrightarrow> x = y" for x y
    by (metis of_be_bytes32)
  from n show ?thesis
    unfolding nonce_for_def by (intro nocoll inj32 inj)
qed

lemma demo_derive_inj: "blake3_derive demo_prims x (be_bytes32 a) = blake3_derive demo_prims x (be_bytes32 b) \<Longrightarrow> a = b"
  by (simp add: demo_prims_def)

theorem token_binds_node_witness:
  "ic_node demo_claim = 7"
  using token_binds_node[of demo_idp demo_claim "demo_claim \<lparr> ic_node := 7 \<rparr>", OF _ _ _ demo_claim_verifies]
    demo_claim_verifies demo_prims_laws(4)
  by (simp add: demo_claim_def demo_idp_def b64_law_def)

text \<open>
  The host looks for keys in the right place. Whatever token verifies, its unverified issuer,
  by which the host picks whose keys to use, is the issuer it verified under; and a token whose key
  id is not in the key set is refused with \<open>UnknownKey\<close> or an earlier error, so refetching a
  rotated key set first loses nothing.
\<close>

theorem keys_looked_up:
  assumes "verify_claim P R c issuer ks audiences now = Inr who"
  shows "unverified_issuer P (ic_token c) = Inr issuer
    \<and> (\<forall>kid. unverified_kid P (ic_token c) = Inr (Some kid) \<longrightarrow> has_kid ks kid)"
proof -
  obtain w where w: "jws_parse P (ic_token c) = Inr w" "jws_verify P R w ks = Inr ()"
    "jw_payload w ''iss'' = Some (JStr issuer)"
    using assms unfolding verify_claim_Inr by blast
  then show ?thesis
    by (auto simp: unverified_issuer_def unverified_kid_def as_str_def has_kid_def list_ex_iff
        jws_verify_Inr key_selected_def)
qed

theorem keys_looked_up_witness:
  "unverified_issuer demo_idp ''01.02.09'' = Inr ''https://idp''"
  using keys_looked_up[OF demo_claim_verifies] by (simp add: demo_claim_def)

declare undigits.simps [simp]

end
