(* ===== verification/Freshness_Words.thy ===== *)
theory Freshness_Words
  imports Access_Rules Idp_Claim
begin

text \<open>
  \<open>library/services/fresh.rs\<close>: a directory's signed word that a head is the newest it holds,
  and the set of words a host shows and a caller keeps. Times are \<open>i64\<close> seconds with the
  code's saturating arithmetic; a rank is the lexicographic triple the code compares.
\<close>

definition fresh_v1 :: "8 word" where
  "fresh_v1 = 1"

definition fresh_context :: bytes where
  "fresh_context = as_bytes (''wires/fresh/v1'' @ [CHR 0x00])"

section \<open>Fresh\<close>

record fresh_body =
  fr_format :: "8 word"
  fr_fabric :: node_id
  fr_directory :: node_id
  fr_version :: state_version
  fr_head :: hash256
  fr_at :: i64
  fr_until :: i64
  fr_alg :: algorithm_id

record fresh = fresh_body +
  fr_sig :: signature

definition fresh_body_fields :: "prims \<Rightarrow> 'a fresh_body_scheme \<Rightarrow> (string \<times> json option) list" where
  "fresh_body_fields P f = [
     (''format'', Some (j_u8 (fr_format f))),
     (''fabric'', Some (j_id P (fr_fabric f))),
     (''directory'', Some (j_id P (fr_directory f))),
     (''version'', Some (j_u64 (fr_version f))),
     (''head'', Some (j_id P (fr_head f))),
     (''at'', Some (JInt (fr_at f))),
     (''until'', Some (JInt (fr_until f))),
     (''alg'', Some (j_alg (fr_alg f)))]"

definition fresh_signed_bytes :: "prims \<Rightarrow> 'a fresh_body_scheme \<Rightarrow> bytes" where
  "fresh_signed_bytes P f = fresh_context @ canonical_bytes P (obj (fresh_body_fields P f))"

definition j_fresh :: "prims \<Rightarrow> fresh \<Rightarrow> json" where
  "j_fresh P f = obj (fresh_body_fields P f @ [(''sig'', Some (j_sig P (fr_sig f)))])"

definition d_fresh :: "prims \<Rightarrow> json \<Rightarrow> fresh option" where
  "d_fresh P j = do {
     fs \<leftarrow> struct_fields [''format'', ''fabric'', ''directory'', ''version'', ''head'', ''at'',
                          ''until'', ''alg'', ''sig''] 9 True j;
     format \<leftarrow> req fs ''format'' d_u8;
     fabric \<leftarrow> req fs ''fabric'' (d_id P);
     dir \<leftarrow> req fs ''directory'' (d_id P);
     version \<leftarrow> req fs ''version'' d_u64;
     head \<leftarrow> req fs ''head'' (d_id P);
     at \<leftarrow> req fs ''at'' d_i64;
     until \<leftarrow> req fs ''until'' d_i64;
     alg \<leftarrow> req fs ''alg'' d_alg;
     sig \<leftarrow> req fs ''sig'' (d_sig P);
     Some \<lparr> fr_format = format, fr_fabric = fabric, fr_directory = dir, fr_version = version,
            fr_head = head, fr_at = at, fr_until = until, fr_alg = alg, fr_sig = sig \<rparr>
   }"

definition fresh_ok :: "fresh \<Rightarrow> bool" where
  "fresh_ok f \<longleftrightarrow> in_i64 (fr_at f) \<and> in_i64 (fr_until f)"

definition fresh_sign :: "prims \<Rightarrow> node_identity \<Rightarrow> signed_head \<Rightarrow> i64 \<Rightarrow> i64 \<Rightarrow> fresh res" where
  "fresh_sign P directory head at until =
     (if \<not> is_directory (sh_head head) (node_id P directory) then Inl Not_a_directory
      else if until < at then bad Fresh_backwards
      else if sat_sub until at > uint (h_fresh_secs (sh_head head)) then Inl Fresh_too_long
      else let body = \<lparr> fr_format = fresh_v1, fr_fabric = h_fabric (sh_head head),
                fr_directory = node_id P directory, fr_version = h_version (sh_head head),
                fr_head = head_hash P head, fr_at = at, fr_until = until, fr_alg = Ed25519 \<rparr>
           in Inr (fresh_body.extend body \<lparr> fr_sig = sign_bytes P directory (fresh_signed_bytes P body) \<rparr>))"

definition fresh_verify :: "prims \<Rightarrow> fresh \<Rightarrow> signed_head \<Rightarrow> unit res" where
  "fresh_verify P f head =
     (if fr_format f \<noteq> fresh_v1 then Inl Unsupported_version
      else if fr_alg f \<noteq> Ed25519 then Inl Unsupported_algorithm
      else if fr_fabric f \<noteq> h_fabric (sh_head head) \<or> fr_version f \<noteq> h_version (sh_head head)
              \<or> fr_head f \<noteq> head_hash P head then Inl Fresh_mismatch
      else if \<not> is_directory (sh_head head) (fr_directory f) then Inl Not_a_directory
      else if fr_until f < fr_at f then bad Fresh_backwards
      else if sat_sub (fr_until f) (fr_at f) > uint (h_fresh_secs (sh_head head)) then Inl Fresh_too_long
      else verify_sig P (fr_directory f) (fresh_signed_bytes P f) (fr_sig f))"

definition fresh_verify_signature :: "prims \<Rightarrow> fresh \<Rightarrow> unit res" where
  "fresh_verify_signature P f =
     (if fr_format f \<noteq> fresh_v1 then Inl Unsupported_version
      else if fr_alg f \<noteq> Ed25519 then Inl Unsupported_algorithm
      else verify_sig P (fr_directory f) (fresh_signed_bytes P f) (fr_sig f))"

definition fresh_is_current :: "fresh \<Rightarrow> i64 \<Rightarrow> bool" where
  "fresh_is_current f now \<longleftrightarrow> now \<ge> sat_sub (fr_at f) clock_skew_secs \<and> now \<le> fr_until f"

definition fresh_vouches :: "prims \<Rightarrow> fresh \<Rightarrow> signed_head \<Rightarrow> node_id \<Rightarrow> i64 \<Rightarrow> unit res" where
  "fresh_vouches P f head host now =
     and_then (fresh_verify P f head) (\<lambda>_.
       if \<not> fresh_is_current f now then Inl Fresh_lapsed
       else let only_the_host = (h_directories (sh_head head) = [host]) in
         if fr_directory f = host \<and> \<not> only_the_host then Inl Self_vouched
         else Inr ())"

text \<open>A \<open>VerifiedFresh\<close> is made only by \<open>verified\<close>; it is the word it wraps.\<close>

type_synonym verified_fresh = fresh

definition fresh_verified :: "prims \<Rightarrow> fresh \<Rightarrow> signed_head \<Rightarrow> verified_fresh res" where
  "fresh_verified P f head = and_then (fresh_verify P f head) (\<lambda>_. Inr f)"

section \<open>FreshSet\<close>

type_synonym fresh_set = "verified_fresh list"

definition max_fresh_set :: nat where
  "max_fresh_set = 16"

definition fresh_rank :: "i64 \<Rightarrow> fresh \<Rightarrow> state_version \<times> bool \<times> i64" where
  "fresh_rank now f = (fr_version f, fresh_is_current f now, fr_until f)"

text \<open>\<open>min_by_key\<close>: the position of the first least element.\<close>

fun min_by_key :: "('a \<Rightarrow> 'k :: linorder) \<Rightarrow> 'a list \<Rightarrow> nat option" where
  "min_by_key key [] = None"
| "min_by_key key (x # xs) = (case min_by_key key xs of
     None \<Rightarrow> Some 0
   | Some i \<Rightarrow> if key x \<le> key (xs ! i) then Some 0 else Some (Suc i))"

definition remove_nth :: "nat \<Rightarrow> 'a list \<Rightarrow> 'a list" where
  "remove_nth i xs = take i xs @ drop (Suc i) xs"

definition fs_insert :: "verified_fresh \<Rightarrow> i64 \<Rightarrow> fresh_set \<Rightarrow> bool \<times> fresh_set" where
  "fs_insert f now s =
     (let rank = fresh_rank now in
      case position (\<lambda>g. fr_directory g = fr_directory f) s of
        Some i \<Rightarrow> if rank f \<le> rank (s ! i) then (False, s) else (True, s[i := f])
      | None \<Rightarrow>
          if length s \<ge> max_fresh_set then
            (case min_by_key rank s of
               None \<Rightarrow> (False, s)
             | Some worst \<Rightarrow>
                 if rank f \<le> rank (s ! worst) then (False, s)
                 else (True, remove_nth worst s @ [f]))
          else (True, s @ [f]))"

definition fs_vouching :: "prims \<Rightarrow> fresh_set \<Rightarrow> signed_head \<Rightarrow> node_id \<Rightarrow> i64 \<Rightarrow> fresh option" where
  "fs_vouching P s head host now = List.find (\<lambda>f. is_ok (fresh_vouches P f head host now)) s"

definition fs_current_for :: "prims \<Rightarrow> fresh_set \<Rightarrow> signed_head \<Rightarrow> i64 \<Rightarrow> fresh list" where
  "fs_current_for P s head now =
     take max_fresh_set (filter (\<lambda>f. is_ok (fresh_verify P f head) \<and> fresh_is_current f now) s)"

definition fs_from_unverified :: "prims \<Rightarrow> fresh list \<Rightarrow> signed_head \<Rightarrow> fresh_set" where
  "fs_from_unverified P words head =
     fold (\<lambda>f s. case fresh_verified P f head of
            Inl _ \<Rightarrow> s
          | Inr v \<Rightarrow> snd (fs_insert v (fr_at f) s)) words []"

definition fs_ok :: "fresh_set \<Rightarrow> bool" where
  "fs_ok s \<longleftrightarrow> distinct (map fr_directory s) \<and> length s \<le> max_fresh_set"

section \<open>Laws\<close>

lemma secs_lt: "uint (s :: u32) < i64_max" "0 \<le> uint s"
proof -
  have "uint s < 2 ^ LENGTH(32)" by (rule uint_bounds)
  then show "uint s < i64_max" by (simp add: i64_max_def)
qed simp

lemma lifetime_iff: "sat_sub u a \<le> uint (s :: u32) \<longleftrightarrow> u - a \<le> uint s"
  using sat_sub_nonneg_le[of "uint s" u a] secs_lt[of s] by auto

lemma lifetime_less: "uint (s :: u32) < sat_sub u a \<longleftrightarrow> uint s < u - a"
  using lifetime_iff[of u a s] by linarith

lemma fresh_verify_Inr [result_simps]:
  "fresh_verify P f head = Inr u \<longleftrightarrow>
     fr_format f = fresh_v1 \<and> fr_fabric f = h_fabric (sh_head head)
     \<and> fr_version f = h_version (sh_head head) \<and> fr_head f = head_hash P head
     \<and> fr_directory f \<in> set (h_directories (sh_head head))
     \<and> fr_at f \<le> fr_until f \<and> fr_until f - fr_at f \<le> uint (h_fresh_secs (sh_head head))
     \<and> ed_verify P (fr_directory f) (fresh_signed_bytes P f) (fr_sig f)"
  using alg_only[of "fr_alg f"]
  by (auto simp: fresh_verify_def verify_sig_Inr is_directory_def lifetime_less)

lemma fresh_vouches_Inr [result_simps]:
  "fresh_vouches P f head host now = Inr u \<longleftrightarrow>
     fresh_verify P f head = Inr () \<and> fresh_is_current f now
     \<and> (fr_directory f \<noteq> host \<or> h_directories (sh_head head) = [host])"
  by (auto simp: fresh_vouches_def and_then_Inr_iff Let_def)

lemma fresh_verified_Inr [result_simps]:
  "fresh_verified P f head = Inr v \<longleftrightarrow> v = f \<and> fresh_verify P f head = Inr ()"
  by (auto simp: fresh_verified_def and_then_Inr_iff)

lemma fresh_sign_Inr:
  "fresh_sign P d head at until = Inr f \<Longrightarrow>
     node_id P d \<in> set (h_directories (sh_head head)) \<and> at \<le> until
     \<and> until - at \<le> uint (h_fresh_secs (sh_head head))
     \<and> fr_format f = fresh_v1 \<and> fr_fabric f = h_fabric (sh_head head) \<and> fr_directory f = node_id P d
     \<and> fr_version f = h_version (sh_head head) \<and> fr_head f = head_hash P head
     \<and> fr_at f = at \<and> fr_until f = until \<and> fr_sig f = sign_bytes P d (fresh_signed_bytes P f)"
  by (auto simp: fresh_sign_def is_directory_def Let_def fresh_body.defs lifetime_less
      fresh_signed_bytes_def fresh_body_fields_def split: if_splits)

interpretation fresh_json: json_type "j_fresh P" "d_fresh P" "\<lambda>f. hex_law P \<and> fresh_ok f"
  for P
proof
  fix f :: fresh
  assume ok: "hex_law P \<and> fresh_ok f"
  then have "d_i64 (JInt (fr_at f)) = Some (fr_at f)" "d_i64 (JInt (fr_until f)) = Some (fr_until f)"
    using i64_json.decode_encode by (simp_all add: fresh_ok_def)
  then show "d_fresh P (j_fresh P f) = Some f"
    using ok id_json.decode_encode[of P] sig_json.decode_encode[of P "fr_sig f"] alg_json.decode_encode
      u8_json.decode_encode u64_json.decode_encode
    by (cases f) (simp add: d_fresh_def j_fresh_def fresh_body_fields_def json_simps req_def)
  show "json_ok (j_fresh P f)"
    using ok by (simp add: j_fresh_def fresh_body_fields_def json_simps fresh_ok_def)
qed

text \<open>\<open>min_by_key\<close> and insertion.\<close>

lemma min_by_key_None: "min_by_key key xs = None \<longleftrightarrow> xs = []"
  by (cases xs) (auto split: option.splits)

lemma min_by_key_Some:
  "min_by_key key xs = Some i \<Longrightarrow> i < length xs \<and> (\<forall>j<length xs. key (xs ! i) \<le> key (xs ! j))"
proof (induction xs arbitrary: i)
  case (Cons x xs)
  show ?case
  proof (cases "min_by_key key xs")
    case None
    then show ?thesis using Cons.prems by (simp add: min_by_key_None)
  next
    case (Some k)
    note k = Cons.IH[OF Some]
    have all: "(\<forall>j<length (x # xs). y \<le> key ((x # xs) ! j)) \<longleftrightarrow> y \<le> key x \<and> (\<forall>j<length xs. y \<le> key (xs ! j))" for y
      by (auto simp: less_Suc_eq_0_disj)
    show ?thesis
      using Cons.prems Some k unfolding all by (auto split: if_splits intro: order_trans)
  qed
qed simp

lemma set_remove_nth: "set (remove_nth i xs) \<subseteq> set xs"
  by (auto simp: remove_nth_def dest: in_set_takeD in_set_dropD)

lemma map_remove_nth: "map f (remove_nth i xs) = remove_nth i (map f xs)"
  by (simp add: remove_nth_def take_map drop_map)

lemma distinct_remove_nth: "distinct xs \<Longrightarrow> distinct (remove_nth i xs)"
  unfolding remove_nth_def
  by (metis append_take_drop_id distinct_append distinct_drop disjoint_iff drop_Suc distinct_take
      in_set_takeD in_set_dropD le_SucI set_drop_subset_set_drop set_take_disj_set_drop_if_distinct subsetD order_refl)

lemma length_remove_nth: "i < length xs \<Longrightarrow> length (remove_nth i xs) = length xs - 1"
  by (simp add: remove_nth_def)

lemma fs_insert_set: "set (snd (fs_insert f now s)) \<subseteq> insert f (set s)"
  by (auto simp: fs_insert_def Let_def split: option.splits
      dest: subsetD[OF set_remove_nth] subsetD[OF set_update_subset_insert])

lemma fs_insert_ok: "fs_ok s \<Longrightarrow> fs_ok (snd (fs_insert f now s))"
proof (cases "position (\<lambda>g. fr_directory g = fr_directory f) s")
  case (Some i)
  assume ok: "fs_ok s"
  from Some have i: "i < length s" "fr_directory (s ! i) = fr_directory f" by (auto simp: position_Some_iff)
  have "map fr_directory (s[i := f]) = map fr_directory s"
    using i by (metis list_update_id map_update nth_map)
  then show ?thesis using ok Some by (simp add: fs_insert_def Let_def fs_ok_def)
next
  case None
  assume ok: "fs_ok s"
  have new: "fr_directory f \<notin> fr_directory ` set s"
  proof
    assume "fr_directory f \<in> fr_directory ` set s"
    then show False using None by (induction s) (auto split: if_splits)
  qed
  show ?thesis
  proof (cases "length s \<ge> max_fresh_set")
    case False
    then show ?thesis using ok None new by (simp add: fs_insert_def Let_def fs_ok_def)
  next
    case True
    then obtain w where w: "min_by_key (fresh_rank now) s = Some w"
      using min_by_key_None[of "fresh_rank now" s] by (cases "min_by_key (fresh_rank now) s") (auto simp: max_fresh_set_def)
    have "w < length s" using min_by_key_Some[OF w] by simp
    then have "length (remove_nth w s) < max_fresh_set"
      using ok True by (simp add: length_remove_nth fs_ok_def max_fresh_set_def)
    moreover have "distinct (map fr_directory (remove_nth w s @ [f]))"
      using ok new set_remove_nth[of w s] distinct_remove_nth[of "map fr_directory s" w]
      by (auto simp: fs_ok_def map_remove_nth[symmetric])
    ultimately show ?thesis using ok None True w by (simp add: fs_insert_def Let_def fs_ok_def)
  qed
qed

lemma position_None_iff: "position p xs = None \<longleftrightarrow> (\<forall>x \<in> set xs. \<not> p x)"
  by (induction xs) auto

lemma fs_insert_signer: "fst (fs_insert f now s) \<Longrightarrow> f \<in> set (snd (fs_insert f now s))"
proof (cases "position (\<lambda>g. fr_directory g = fr_directory f) s")
  case (Some i)
  then have "i < length s" by (auto simp: position_Some_iff)
  then have "f \<in> set (s[i := f])" by (rule set_update_memI)
  then show "fst (fs_insert f now s) \<Longrightarrow> ?thesis"
    using Some by (simp add: fs_insert_def Let_def split: if_splits)
next
  case None
  then show "fst (fs_insert f now s) \<Longrightarrow> ?thesis"
    by (simp add: fs_insert_def Let_def split: if_splits option.splits)
qed

lemma fs_insert_refused: "\<not> fst (fs_insert f now s) \<Longrightarrow> snd (fs_insert f now s) = s"
  by (simp add: fs_insert_def Let_def split: option.splits if_splits)

text \<open>Nothing leaves the set but for a word that ranks above it.\<close>

lemma fs_insert_keeps:
  assumes ok: "fs_ok s" and g: "g \<in> set s"
  shows "g \<in> set (snd (fs_insert f now s)) \<or> fresh_rank now g < fresh_rank now f
    \<and> (fr_directory g = fr_directory f
       \<or> length s = max_fresh_set \<and> (\<forall>h \<in> set s. fresh_rank now g \<le> fresh_rank now h))"
proof (cases "position (\<lambda>g. fr_directory g = fr_directory f) s")
  case (Some i)
  then have i: "i < length s" "fr_directory (s ! i) = fr_directory f" by (auto simp: position_Some_iff)
  obtain k where k: "k < length s" "s ! k = g" using g by (auto simp: in_set_conv_nth)
  have "g \<in> set (s[i := f])" if "k \<noteq> i"
    using k that by (metis length_list_update nth_list_update_neq nth_mem)
  then show ?thesis using Some i k by (auto simp: fs_insert_def Let_def not_le)
next
  case None
  show ?thesis
  proof (cases "length s \<ge> max_fresh_set")
    case False
    then show ?thesis using None g by (simp add: fs_insert_def Let_def)
  next
    case True
    then have full: "length s = max_fresh_set" using ok by (simp add: fs_ok_def)
    obtain w where w: "min_by_key (fresh_rank now) s = Some w"
      using full min_by_key_None[of "fresh_rank now" s]
      by (cases "min_by_key (fresh_rank now) s") (auto simp: max_fresh_set_def)
    note least = min_by_key_Some[OF w]
    have "g \<in> set (remove_nth w s) \<or> g = s ! w"
      using g least id_take_nth_drop[of w s]
      by (metis Un_iff insert_iff list.simps(15) remove_nth_def set_append)
    moreover have "\<forall>h \<in> set s. fresh_rank now (s ! w) \<le> fresh_rank now h"
      using least by (metis in_set_conv_nth)
    ultimately show ?thesis
      using None full w g by (auto simp: fs_insert_def Let_def not_le)
  qed
qed

lemma fs_from_unverified_step:
  "fs_from_unverified P (words @ [f]) head =
     (case fresh_verified P f head of Inl _ \<Rightarrow> fs_from_unverified P words head
      | Inr v \<Rightarrow> snd (fs_insert v (fr_at f) (fs_from_unverified P words head)))"
  by (cases "fresh_verified P f head") (simp_all add: fs_from_unverified_def)

lemma fs_from_unverified_props:
  "fs_ok (fs_from_unverified P words head)
   \<and> (\<forall>g \<in> set (fs_from_unverified P words head). g \<in> set words \<and> fresh_verify P g head = Inr ())"
proof (induction words rule: rev_induct)
  case Nil
  show ?case by (simp add: fs_from_unverified_def fs_ok_def)
next
  case (snoc f words)
  show ?case
  proof (cases "fresh_verified P f head")
    case (Inl e)
    then show ?thesis using snoc by (auto simp: fs_from_unverified_step)
  next
    case (Inr v)
    then have v: "v = f" "fresh_verify P f head = Inr ()" by (auto simp: fresh_verified_Inr)
    let ?s = "fs_from_unverified P words head"
    have "fs_from_unverified P (words @ [f]) head = snd (fs_insert f (fr_at f) ?s)"
      using Inr v(1) by (simp add: fs_from_unverified_step)
    then show ?thesis
      using snoc fs_insert_ok[of ?s f "fr_at f"] fs_insert_set[of f "fr_at f" ?s] v(2) by auto
  qed
qed

lemma fs_from_unverified_complete:
  assumes few: "length (h_directories (sh_head head)) \<le> max_fresh_set"
  shows "f \<in> set words \<Longrightarrow> fresh_verify P f head = Inr () \<Longrightarrow>
    fr_directory f \<in> fr_directory ` set (fs_from_unverified P words head)"
proof (induction words rule: rev_induct)
  case (snoc g words)
  let ?s = "fs_from_unverified P words head"
  have ok: "fs_ok ?s" "\<forall>h \<in> set ?s. fr_directory h \<in> set (h_directories (sh_head head))"
    using fs_from_unverified_props[of P words head] by (auto simp: fresh_verify_Inr)
  have keeps: "fr_directory ` set ?s \<subseteq> fr_directory ` set (snd (fs_insert g now ?s))
      \<and> fr_directory g \<in> fr_directory ` set (snd (fs_insert g now ?s))"
    if g: "fresh_verify P g head = Inr ()" for now
  proof (cases "position (\<lambda>h. fr_directory h = fr_directory g) ?s")
    case (Some i)
    then have i: "i < length ?s" "fr_directory (?s ! i) = fr_directory g" by (auto simp: position_Some_iff)
    then have "map fr_directory (?s[i := g]) = map fr_directory ?s"
      by (metis list_update_id map_update nth_map)
    then have "fr_directory ` set (?s[i := g]) = fr_directory ` set ?s" by (metis list.set_map)
    moreover have "fr_directory g \<in> fr_directory ` set ?s" using i by (metis imageI nth_mem)
    ultimately show ?thesis using Some by (simp add: fs_insert_def Let_def)
  next
    case None
    then have new: "fr_directory g \<notin> set (map fr_directory ?s)"
      by (auto simp: position_None_iff)
    have "card (insert (fr_directory g) (set (map fr_directory ?s))) \<le> card (set (h_directories (sh_head head)))"
      using ok(2) g by (intro card_mono) (auto simp: fresh_verify_Inr)
    also have "\<dots> \<le> max_fresh_set" using few card_length order_trans by blast
    finally have "length ?s < max_fresh_set"
      using new ok(1) distinct_card[of "map fr_directory ?s"] by (simp add: fs_ok_def)
    then show ?thesis using None by (auto simp: fs_insert_def Let_def)
  qed
  show ?case
  proof (cases "fresh_verify P g head = Inr ()")
    case True
    then have "fs_from_unverified P (words @ [g]) head = snd (fs_insert g (fr_at g) ?s)"
      by (simp add: fs_from_unverified_step fresh_verified_def)
    then show ?thesis using keeps[OF True, of "fr_at g"] snoc by auto
  next
    case False
    then have "fs_from_unverified P (words @ [g]) head = ?s"
      by (cases "fresh_verify P g head") (auto simp: fs_from_unverified_step fresh_verified_def)
    then show ?thesis using snoc False by auto
  qed
qed simp

section \<open>Properties\<close>

lemma fresh_sign_ok_iff:
  "is_ok (fresh_sign P d head at until) \<longleftrightarrow>
     node_id P d \<in> set (h_directories (sh_head head)) \<and> at \<le> until
     \<and> until - at \<le> uint (h_fresh_secs (sh_head head))"
  by (auto simp: fresh_sign_def is_directory_def Let_def lifetime_less not_less)

definition demo_head :: signed_head where
  "demo_head = \<lparr> sh_head = head_of demo_prims demo_policy [], sh_alg = Ed25519, sh_sig = 0 \<rparr>"

lemma demo_head_simps [simp]:
  "h_directories (sh_head demo_head) = [9]" "h_fresh_secs (sh_head demo_head) = 900"
  "h_not_after (sh_head demo_head) = 1000" "h_version (sh_head demo_head) = 1"
  "h_fabric (sh_head demo_head) = 1" "h_format (sh_head demo_head) = policy_v5"
  by (simp_all add: demo_head_def head_of_def demo_policy_def policy_new_def settings_default_def
      default_fresh_secs_def)

lemma demo_node [simp]: "node_id demo_prims k = k" "po_fabric demo_policy = 1"
  by (simp_all add: node_id_def demo_prims_def demo_policy_def policy_new_def)

lemma demo_word: "\<exists>f. fresh_sign demo_prims 9 demo_head 100 900 = Inr f"
  using fresh_sign_ok_iff[of demo_prims 9 demo_head 100 900] by (simp add: is_ok_iff)

text \<open>
  a directory can vouch for a head only within the policy's bound, and what it signs is
  accepted. \<open>Fresh::sign\<close> succeeds exactly for a listed directory and a lifetime between 0 and
  the head's \<open>fresh_secs\<close>; the word verifies for that head, is current from 60 seconds before
  \<open>at\<close> to \<open>until\<close>, and vouches for any other host in that time.
\<close>

theorem fresh_sign_verify:
  assumes "ed25519_law P"
  shows "(is_ok (fresh_sign P d head at until) \<longleftrightarrow>
      node_id P d \<in> set (h_directories (sh_head head)) \<and> at \<le> until
      \<and> until - at \<le> uint (h_fresh_secs (sh_head head)))
    \<and> (\<forall>f. fresh_sign P d head at until = Inr f \<longrightarrow> fresh_verify P f head = Inr ()
        \<and> (\<forall>now host. sat_sub at 60 \<le> now \<longrightarrow> now \<le> until \<longrightarrow> host \<noteq> node_id P d \<longrightarrow>
             fresh_vouches P f head host now = Inr ()))"
proof (intro conjI allI impI)
  show "is_ok (fresh_sign P d head at until) \<longleftrightarrow>
      node_id P d \<in> set (h_directories (sh_head head)) \<and> at \<le> until
      \<and> until - at \<le> uint (h_fresh_secs (sh_head head))"
    by (rule fresh_sign_ok_iff)
next
  fix f assume f: "fresh_sign P d head at until = Inr f"
  note fields = fresh_sign_Inr[OF f]
  have "ed_verify P (node_id P d) (fresh_signed_bytes P f) (sign_bytes P d (fresh_signed_bytes P f))"
    using verify_signed[OF assms] by (simp add: verify_sig_Inr)
  then show ver: "fresh_verify P f head = Inr ()"
    using fields by (simp add: fresh_verify_Inr)
  fix now host assume "sat_sub at 60 \<le> now" "now \<le> until" "host \<noteq> node_id P d"
  then show "fresh_vouches P f head host now = Inr ()"
    using fields ver by (simp add: fresh_vouches_Inr fresh_is_current_def clock_skew_secs_def)
qed

theorem fresh_sign_verify_witness:
  "\<exists>f. fresh_sign demo_prims 9 demo_head 100 900 = Inr f
     \<and> fresh_vouches demo_prims f demo_head 2 500 = Inr ()"
proof -
  obtain f where f: "fresh_sign demo_prims 9 demo_head 100 900 = Inr f" using demo_word by blast
  have "sat_sub 100 60 = 40" by (simp add: sat_sub_def clamp_i64_def i64_min_def i64_max_def)
  then show ?thesis
    using fresh_sign_verify[of demo_prims 9 demo_head 100 900] f by auto
qed

text \<open>
  a \<open>FreshSet\<close> stays small, one word per signer, and only ever improves. Inserting keeps the
  invariant (at most 16 words, distinct signers); the set gains nothing but the new word; a word
  leaves only for one of strictly higher rank, and only if that is its own signer's or the set
  was full and it ranked lowest; and \<open>insert\<close> answers whether the new word is in.
\<close>

theorem fresh_set_improves:
  assumes "fs_ok s"
  shows "fs_ok (snd (fs_insert f now s))
    \<and> set (snd (fs_insert f now s)) \<subseteq> insert f (set s)
    \<and> (\<forall>g \<in> set s. g \<in> set (snd (fs_insert f now s)) \<or> fresh_rank now g < fresh_rank now f
         \<and> (fr_directory g = fr_directory f
            \<or> length s = max_fresh_set \<and> (\<forall>h \<in> set s. fresh_rank now g \<le> fresh_rank now h)))
    \<and> (if fst (fs_insert f now s) then f \<in> set (snd (fs_insert f now s)) else snd (fs_insert f now s) = s)"
  using fs_insert_ok[OF assms] fs_insert_set fs_insert_keeps[OF assms] fs_insert_signer fs_insert_refused
  by simp

theorem fresh_set_improves_witness:
  "\<exists>f. fresh_sign demo_prims 9 demo_head 100 900 = Inr f \<and> fs_ok (snd (fs_insert f 500 []))
     \<and> set (snd (fs_insert f 500 [])) = {f}"
proof -
  obtain f where f: "fresh_sign demo_prims 9 demo_head 100 900 = Inr f" using demo_word by blast
  have "fs_ok []" by (simp add: fs_ok_def)
  from fresh_set_improves[OF this, of f 500] f show ?thesis
    by (auto simp: fs_insert_def max_fresh_set_def)
qed

text \<open>
  a set read back from disk or shown by a peer is no better than its words. Every word that
  \<open>from_unverified\<close> keeps is one of those given and verifies for the head; and when the head
  lists at most 16 directories, every directory with a verifying word is represented, whatever
  forged or mismatched words stand around it.
\<close>

theorem from_unverified_filters:
  "fs_ok (fs_from_unverified P words head)
   \<and> (\<forall>g \<in> set (fs_from_unverified P words head). g \<in> set words \<and> fresh_verify P g head = Inr ())
   \<and> (length (h_directories (sh_head head)) \<le> 16 \<longrightarrow>
       (\<forall>f \<in> set words. fresh_verify P f head = Inr () \<longrightarrow>
          fr_directory f \<in> fr_directory ` set (fs_from_unverified P words head)))"
  using fs_from_unverified_props[of P words head] fs_from_unverified_complete[of head _ words P]
  by (auto simp: max_fresh_set_def)

theorem from_unverified_filters_witness:
  "\<exists>f. fresh_sign demo_prims 9 demo_head 100 900 = Inr f \<and>
     9 \<in> fr_directory ` set (fs_from_unverified demo_prims [f\<lparr>fr_sig := 0\<rparr>, f] demo_head)"
proof -
  obtain f where f: "fresh_sign demo_prims 9 demo_head 100 900 = Inr f" using demo_word by blast
  note fields = fresh_sign_Inr[OF f]
  have "ed_verify demo_prims 9 m (sign_bytes demo_prims 9 m)" for m
    using verify_signed[of demo_prims 9] by (simp add: verify_sig_Inr)
  then have "fresh_verify demo_prims f demo_head = Inr ()"
    using fields by (simp add: fresh_verify_Inr)
  then have "fr_directory f \<in> fr_directory ` set (fs_from_unverified demo_prims [f\<lparr>fr_sig := 0\<rparr>, f] demo_head)"
    using from_unverified_filters[of demo_prims "[f\<lparr>fr_sig := 0\<rparr>, f]" demo_head] by simp
  then show ?thesis using f fields by auto
qed

end
