(* ===== verification/Host_Proof.thy ===== *)
theory Host_Proof
  imports Freshness_Words
begin

text \<open>
  \<open>library/calls/proof.rs\<close>: what a host shows a caller before it is told anything, and the
  check the caller makes. The last property is the removed-host window.
\<close>

record host_proof =
  hp_head :: signed_head
  hp_fresh :: "fresh list"

datatype standing = Same | Newer state_version

fun proof_vouching_from :: "prims \<Rightarrow> signed_head \<Rightarrow> node_id \<Rightarrow> i64 \<Rightarrow> error \<Rightarrow> fresh list \<Rightarrow> fresh res" where
  "proof_vouching_from P head host now why [] = Inl why"
| "proof_vouching_from P head host now why (f # fs) = (case fresh_vouches P f head host now of
     Inr _ \<Rightarrow> Inr f
   | Inl e \<Rightarrow> proof_vouching_from P head host now (if why = Unvouched then e else why) fs)"

definition proof_vouching :: "prims \<Rightarrow> host_proof \<Rightarrow> node_id \<Rightarrow> i64 \<Rightarrow> fresh res" where
  "proof_vouching P pf host now = proof_vouching_from P (hp_head pf) host now Unvouched (hp_fresh pf)"

definition proof_check :: "prims \<Rightarrow> host_proof \<Rightarrow> node_id \<Rightarrow> signed_head \<Rightarrow> node_id \<Rightarrow> i64 \<Rightarrow> standing res" where
  "proof_check P pf root held host now =
     (if length (hp_fresh pf) > max_fresh_set then Inl Bad_frame
      else and_then (head_verify P root (hp_head pf)) (\<lambda>_.
        and_then (head_check_fresh (hp_head pf) now) (\<lambda>_.
          let theirs = h_version (sh_head (hp_head pf)); ours = h_version (sh_head held) in
          if theirs < ours then Inl (Older_head theirs ours)
          else if theirs = ours \<and> head_hash P (hp_head pf) \<noteq> head_hash P held then Inl Fresh_mismatch
          else and_then (proof_vouching P pf host now) (\<lambda>_.
            Inr (if theirs > ours then Newer theirs else Same)))))"

definition j_proof :: "prims \<Rightarrow> host_proof \<Rightarrow> json" where
  "j_proof P p = obj [(''head'', Some (j_signed_head P (hp_head p))),
                      (''fresh'', Some (j_list (j_fresh P) (hp_fresh p)))]"

definition d_proof :: "prims \<Rightarrow> json \<Rightarrow> host_proof option" where
  "d_proof P j = do {
     fs \<leftarrow> struct_fields [''head'', ''fresh''] 2 True j;
     h \<leftarrow> req fs ''head'' (d_signed_head P);
     f \<leftarrow> req fs ''fresh'' (d_list (d_fresh P));
     Some \<lparr> hp_head = h, hp_fresh = f \<rparr>
   }"

definition proof_ok :: "host_proof \<Rightarrow> bool" where
  "proof_ok p \<longleftrightarrow> head_ok (sh_head (hp_head p)) \<and> (\<forall>f \<in> set (hp_fresh p). fresh_ok f)"

interpretation proof_json: json_type "j_proof P" "d_proof P" "\<lambda>p. hex_law P \<and> proof_ok p"
  for P
proof
  fix p :: host_proof
  assume ok: "hex_law P \<and> proof_ok p"
  show "d_proof P (j_proof P p) = Some p"
    using ok signed_head_json.decode_encode[of P "hp_head p"] fresh_json.list_decode[of "hp_fresh p" P]
    by (cases p) (simp add: d_proof_def j_proof_def json_simps req_def proof_ok_def)
  show "json_ok (j_proof P p)"
    using ok fresh_json.list_canonical[of "hp_fresh p" P]
    by (simp add: j_proof_def json_simps proof_ok_def)
qed

section \<open>Laws\<close>

lemma vouching_from_Inr:
  "proof_vouching_from P head host now why fs = Inr f \<longleftrightarrow>
     List.find (\<lambda>f. is_ok (fresh_vouches P f head host now)) fs = Some f"
  by (induction fs arbitrary: why) (auto split: sum.splits)

lemma proof_vouching_Inr [result_simps]:
  "(\<exists>f. proof_vouching P pf host now = Inr f) \<longleftrightarrow>
     (\<exists>f \<in> set (hp_fresh pf). fresh_vouches P f (hp_head pf) host now = Inr ())"
proof -
  have ok: "is_ok r \<longleftrightarrow> r = Inr ()" for r :: "unit res" by (auto simp: is_ok_iff)
  have "(\<exists>f. List.find q xs = Some f) \<longleftrightarrow> (\<exists>x \<in> set xs. q x)" for q :: "fresh \<Rightarrow> bool" and xs
    by (metis find_None_iff not_Some_eq)
  then show ?thesis unfolding proof_vouching_def vouching_from_Inr ok .
qed

lemma vouches_not_unvouched: "fresh_vouches P f head host now \<noteq> Inl Unvouched"
  by (simp add: fresh_vouches_def fresh_verify_def verify_sig_def and_then_def Let_def split: sum.splits)

lemma head_check_fresh_Inr [result_simps]:
  "head_check_fresh s now = Inr u \<longleftrightarrow> now \<le> h_not_after (sh_head s)"
  by (auto simp: head_check_fresh_def)

lemma proof_check_Inr [result_simps]:
  "proof_check P pf root held host now = Inr st \<longleftrightarrow>
     length (hp_fresh pf) \<le> max_fresh_set
     \<and> head_verify P root (hp_head pf) = Inr () \<and> now \<le> h_not_after (sh_head (hp_head pf))
     \<and> h_version (sh_head held) \<le> h_version (sh_head (hp_head pf))
     \<and> (h_version (sh_head held) = h_version (sh_head (hp_head pf)) \<longrightarrow>
          head_hash P (hp_head pf) = head_hash P held)
     \<and> (\<exists>f \<in> set (hp_fresh pf). fresh_vouches P f (hp_head pf) host now = Inr ())
     \<and> st = (if h_version (sh_head held) < h_version (sh_head (hp_head pf))
             then Newer (h_version (sh_head (hp_head pf))) else Same)"
proof -
  note v = proof_vouching_Inr[of P pf host now]
  show ?thesis
    unfolding proof_check_def Let_def
    by (auto simp: and_then_Inr_iff head_check_fresh_Inr not_less v[symmetric] split: if_splits)
qed

lemma fresh_signed_at:
  assumes "json_law P" "fresh_ok f" "fresh_ok g" "fresh_signed_bytes P g = fresh_signed_bytes P f"
  shows "fr_at g = fr_at f"
proof -
  have ok: "json_ok (obj (fresh_body_fields P h))" if "fresh_ok h" for h :: fresh
    using that by (simp add: fresh_body_fields_def json_simps fresh_ok_def)
  have "obj (fresh_body_fields P g) = obj (fresh_body_fields P f)"
    using assms(4) json_law_inj[OF assms(1) ok[OF assms(3)] ok[OF assms(2)]]
    by (simp add: fresh_signed_bytes_def canonical_bytes_def)
  then show ?thesis by (simp add: fresh_body_fields_def json_simps)
qed

section \<open>Properties\<close>

text \<open>
  A caller tells a host anything only after all of this holds: the host showed at most 16
  words, its head verifies under the root, has not expired and is no older than the caller's
  view (and at the same version is the same head), and some word verifies for that head, is
  current, and is another directory's, unless the host is the one directory. The answer is
  \<open>Newer\<close> exactly for a newer head; and these conditions are also enough.
\<close>

theorem proof_check_spec:
  "proof_check P pf root held host now = Inr st \<longleftrightarrow>
     length (hp_fresh pf) \<le> 16
     \<and> head_verify P root (hp_head pf) = Inr () \<and> now \<le> h_not_after (sh_head (hp_head pf))
     \<and> h_version (sh_head held) \<le> h_version (sh_head (hp_head pf))
     \<and> (h_version (sh_head held) = h_version (sh_head (hp_head pf)) \<longrightarrow>
          head_hash P (hp_head pf) = head_hash P held)
     \<and> (\<exists>f \<in> set (hp_fresh pf). fresh_verify P f (hp_head pf) = Inr () \<and> fresh_is_current f now
          \<and> (fr_directory f \<noteq> host \<or> h_directories (sh_head (hp_head pf)) = [host]))
     \<and> st = (if h_version (sh_head held) < h_version (sh_head (hp_head pf))
             then Newer (h_version (sh_head (hp_head pf))) else Same)"
  unfolding proof_check_Inr fresh_vouches_Inr max_fresh_set_def by simp

theorem proof_check_spec_witness:
  "\<exists>h f. head_verify demo_prims 1 h = Inr () \<and>
     proof_check demo_prims \<lparr> hp_head = h, hp_fresh = [f] \<rparr> 1 h 2 500 = Inr Same"
proof -
  obtain s where s: "sign_with demo_prims demo_policy 1 None = Inr s"
    using sign_ok_iff[of demo_prims demo_policy 1 None] by (auto simp: is_ok_iff)
  let ?h = "sp_head s"
  have h: "head_sign demo_prims 1 (head_of demo_prims demo_policy (sp_items s)) = Inr ?h"
    using s by (auto simp: sign_with_Inr)
  then have fields: "h_directories (sh_head ?h) = [9]" "h_fresh_secs (sh_head ?h) = 900"
      "h_not_after (sh_head ?h) = 1000"
    by (auto simp: head_sign_Inr head_of_def demo_policy_def policy_new_def settings_default_def
        default_fresh_secs_def)
  have hv: "head_verify demo_prims 1 ?h = Inr ()"
    using head_verify_sign[OF _ h] by (simp add: head_of_def)
  obtain f where f: "fresh_sign demo_prims 9 ?h 100 900 = Inr f"
    using fresh_sign_ok_iff[of demo_prims 9 ?h 100 900] fields by (auto simp: is_ok_iff)
  have sig: "ed_verify demo_prims 9 m (sign_bytes demo_prims 9 m)" for m
    using verify_signed[of demo_prims 9] by (simp add: verify_sig_Inr)
  have "sat_sub 100 60 = 40" by (simp add: sat_sub_def clamp_i64_def i64_min_def i64_max_def)
  then have "fresh_verify demo_prims f ?h = Inr () \<and> fresh_is_current f 500 \<and> fr_directory f = 9"
    using fresh_sign_Inr[OF f] sig
    by (simp add: fresh_verify_Inr fresh_is_current_def clock_skew_secs_def)
  then have "proof_check demo_prims \<lparr> hp_head = ?h, hp_fresh = [f] \<rparr> 1 ?h 2 500 = Inr Same"
    using proof_check_spec[of demo_prims "\<lparr> hp_head = ?h, hp_fresh = [f] \<rparr>" 1 ?h 2 500 Same] hv fields
    by simp
  with hv show ?thesis by blast
qed

text \<open>
  C34: the removed-host window closes. Suppose that from time \<open>T\<close> on no other directory the old
  head lists signs a word for that head (they have adopted a newer policy), that their keys sign
  nothing else, and that the host is not the one directory. Then \<open>fresh_secs\<close> after \<open>T\<close> the host
  has nothing to show for that head: every caller's check fails, whatever words it collected or
  signed itself.
\<close>

theorem removed_host_window:
  assumes unf: "\<And>d. d \<in> set (h_directories (sh_head old)) \<Longrightarrow> d \<noteq> host \<Longrightarrow> unforgeable P d (M d)"
    and quiet: "\<And>d (f :: fresh). fresh_signed_bytes P f \<in> M d \<Longrightarrow> fresh_ok f \<Longrightarrow>
        fr_head f = head_hash P old \<Longrightarrow> fr_at f \<le> T"
    and others: "h_directories (sh_head old) \<noteq> [host]"
    and late: "now > T + uint (h_fresh_secs (sh_head old))"
    and shown: "hp_head pf = old" "\<forall>f \<in> set (hp_fresh pf). fresh_ok f"
  shows "\<not> is_ok (proof_check P pf root held host now)"
proof
  assume "is_ok (proof_check P pf root held host now)"
  then obtain f where f: "fresh_verify P f old = Inr ()" "fresh_is_current f now"
      "fr_directory f \<noteq> host \<or> h_directories (sh_head old) = [host]" "fresh_ok f"
    using shown by (auto simp: is_ok_iff proof_check_Inr fresh_vouches_Inr)
  have "fresh_signed_bytes P f \<in> M (fr_directory f)"
    using unf[of "fr_directory f"] f others by (auto simp: fresh_verify_Inr unforgeable_def)
  then have "fr_at f \<le> T" using quiet f(1,4) by (auto simp: fresh_verify_Inr)
  moreover have "now \<le> fr_until f" using f(2) by (simp add: fresh_is_current_def)
  moreover have "fr_until f - fr_at f \<le> uint (h_fresh_secs (sh_head old))"
    using f(1) by (simp add: fresh_verify_Inr)
  ultimately show False using late by linarith
qed

theorem removed_host_window_witness:
  "\<exists>P f. fresh_verify P f demo_head = Inr () \<and> fr_at f = 100
     \<and> \<not> is_ok (proof_check P \<lparr> hp_head = demo_head, hp_fresh = [f] \<rparr> 1 demo_head 2 1001)"
proof -
  obtain f where f: "fresh_sign demo_prims 9 demo_head 100 900 = Inr f" using demo_word by blast
  note fields = fresh_sign_Inr[OF f]
  define P where "P = demo_prims\<lparr> ed_verify := (\<lambda>n m s. m = fresh_signed_bytes demo_prims f) \<rparr>"
  have bytes: "fresh_signed_bytes P g = fresh_signed_bytes demo_prims g" for g :: fresh
    by (simp add: P_def fresh_signed_bytes_def canonical_bytes_def fresh_body_fields_def same_json)
  have hash: "head_hash P demo_head = head_hash demo_prims demo_head"
    by (simp add: P_def head_hash_def head_hash_bytes_def canonical_bytes_def j_signed_head_def j_head_def
        same_json)
  have law: "json_law P" by (simp add: P_def json_law_def) (simp add: demo_prims_def)
  have fok: "fresh_ok f" using fields by (simp add: fresh_ok_def in_i64_def i64_min_def i64_max_def)
  have v: "ed_verify P n m s \<longleftrightarrow> m = fresh_signed_bytes P f" for n m s
    by (simp add: bytes) (simp add: P_def)
  have ver: "fresh_verify P f demo_head = Inr ()"
    using fields by (simp add: fresh_verify_Inr hash v)
  have "\<not> is_ok (proof_check P \<lparr> hp_head = demo_head, hp_fresh = [f] \<rparr> 1 demo_head 2 1001)"
  proof (rule removed_host_window[where M = "\<lambda>_. {fresh_signed_bytes P f}" and T = 100 and old = demo_head])
    fix g assume "fresh_signed_bytes P (g :: fresh) \<in> {fresh_signed_bytes P f}" "fresh_ok g"
    then show "fr_at g \<le> 100" using fresh_signed_at[OF law fok, of g] fields by simp
  qed (simp_all add: unforgeable_def v fok)
  then show ?thesis using ver fields by blast
qed

end
