(* ===== verification/Session_Frames.thy ===== *)
theory Session_Frames
  imports Host_Proof
begin

text \<open>
  \<open>library/calls/session.rs\<close>: the handshake values and the frame codec of a session. A frame is
  a length-prefixed payload, a tag byte and a body; the interpretation \<open>session\<close> of the
  \<open>framed\<close> contract gives the stream lemmas for it.
\<close>

record hello =
  he_state_version :: state_version
  he_id_token :: id_token

record hello_ack =
  ha_state_version :: state_version
  ha_head :: "signed_head option"
  ha_entry :: "signed_entry option"

definition ack_assigns :: "prims \<Rightarrow> hello_ack \<Rightarrow> node_id \<Rightarrow> state_version \<Rightarrow> service_name \<Rightarrow> node_id \<Rightarrow> bool res" where
  "ack_assigns P a root held service host =
     (if ha_state_version a \<le> held then Inr True
      else and_then (ok_or (Invalid_policy (Ack_without_head (ha_state_version a))) (ha_head a)) (\<lambda>head.
        and_then (head_verify P root head) (\<lambda>_.
          if h_version (sh_head head) \<noteq> ha_state_version a
          then bad (Ack_head_version (h_version (sh_head head)) (ha_state_version a))
          else case ha_entry a of
            None \<Rightarrow> Inr False
          | Some entry \<Rightarrow>
              if se_name entry \<noteq> service then bad (Ack_other_entry (se_name entry) service)
              else and_then (check_entry_version entry head) (\<lambda>_.
                and_then (entry_verify P root entry) (\<lambda>_.
                  Inr (host \<in> set (sv_hosts (se_service entry))))))))"

definition j_hello :: "hello \<Rightarrow> json" where
  "j_hello h = obj [(''state_version'', Some (j_u64 (he_state_version h))),
                    (''id_token'', Some (JStr (he_id_token h)))]"

definition d_hello :: "json \<Rightarrow> hello option" where
  "d_hello j = do {
     fs \<leftarrow> struct_fields [''state_version'', ''id_token''] 2 True j;
     v \<leftarrow> req fs ''state_version'' d_u64;
     t \<leftarrow> req fs ''id_token'' d_str;
     Some \<lparr> he_state_version = v, he_id_token = t \<rparr>
   }"

definition j_hello_ack :: "prims \<Rightarrow> hello_ack \<Rightarrow> json" where
  "j_hello_ack P a = obj [(''state_version'', Some (j_u64 (ha_state_version a))),
     (''head'', map_option (j_signed_head P) (ha_head a)),
     (''entry'', map_option (j_entry P) (ha_entry a))]"

definition d_hello_ack :: "prims \<Rightarrow> json \<Rightarrow> hello_ack option" where
  "d_hello_ack P j = do {
     fs \<leftarrow> struct_fields [''state_version'', ''head'', ''entry''] 1 True j;
     v \<leftarrow> req fs ''state_version'' d_u64;
     h \<leftarrow> opt_field fs ''head'' (d_signed_head P);
     e \<leftarrow> opt_field fs ''entry'' (d_entry P);
     Some \<lparr> ha_state_version = v, ha_head = h, ha_entry = e \<rparr>
   }"

definition hello_ack_ok :: "hello_ack \<Rightarrow> bool" where
  "hello_ack_ok a \<longleftrightarrow> (\<forall>h. ha_head a = Some h \<longrightarrow> head_ok (sh_head h))
     \<and> (\<forall>e. ha_entry a = Some e \<longrightarrow> entry_ok e)"

section \<open>Frames\<close>

type_synonym chunk = bytes

datatype frame =
    Stdin chunk
  | Stdout chunk
  | Stderr chunk
  | Exit "32 word"
  | Denied string
  | Invoke invocation
  | Hello hello
  | Hello_Ack hello_ack
  | Open
  | Proof host_proof

definition frame_payload :: "prims \<Rightarrow> frame \<Rightarrow> bytes" where
  "frame_payload P f = (case f of
     Stdin c \<Rightarrow> 1 # c
   | Stdout c \<Rightarrow> 2 # c
   | Stderr c \<Rightarrow> 3 # c
   | Exit code \<Rightarrow> 4 # be32 (unat code)
   | Denied reason \<Rightarrow> 6 # as_bytes reason
   | Invoke i \<Rightarrow> 7 # canonical_bytes P (j_invocation i)
   | Hello h \<Rightarrow> 10 # canonical_bytes P (j_hello h)
   | Hello_Ack a \<Rightarrow> 11 # canonical_bytes P (j_hello_ack P a)
   | Open \<Rightarrow> [12]
   | Proof p \<Rightarrow> 13 # canonical_bytes P (j_proof P p))"

definition frame_encode :: "prims \<Rightarrow> frame \<Rightarrow> bytes res" where
  "frame_encode P f = length_prefixed (frame_payload P f)"

definition frame_of :: "prims \<Rightarrow> 8 word \<Rightarrow> bytes \<Rightarrow> frame res" where
  "frame_of P tag body =
     (if tag = 1 then Inr (Stdin body)
      else if tag = 2 then Inr (Stdout body)
      else if tag = 3 then Inr (Stderr body)
      else if tag = 4 then
        (case body of [a, b, c, d] \<Rightarrow> Inr (Exit (word_of_nat (of_be32 a b c d))) | _ \<Rightarrow> Inl Bad_frame)
      else if tag = 6 then map_err (\<lambda>_. Bad_frame) (and_then (ok_or Bad_frame (from_utf8 body)) (\<lambda>s. Inr (Denied s)))
      else if tag = 7 then and_then (from_slice P d_invocation body) (\<lambda>i. Inr (Invoke i))
      else if tag = 10 then and_then (from_slice P d_hello body) (\<lambda>h. Inr (Hello h))
      else if tag = 11 then and_then (from_slice P (d_hello_ack P) body) (\<lambda>a. Inr (Hello_Ack a))
      else if tag = 12 \<and> body = [] then Inr Open
      else if tag = 13 then and_then (from_slice P (d_proof P) body) (\<lambda>p. Inr (Proof p))
      else Inl Bad_frame)"

definition frame_decode :: "prims \<Rightarrow> bytes \<Rightarrow> (frame \<times> nat) option res" where
  "frame_decode P buf = (case split_frame buf of
     None \<Rightarrow> Inr None
   | Some (payload, e) \<Rightarrow> (case payload of
       [] \<Rightarrow> Inl Bad_frame
     | tag # body \<Rightarrow> and_then (frame_of P tag body) (\<lambda>f. Inr (Some (f, e)))))"

text \<open>The frames whose parts satisfy the invariants of their Rust types.\<close>

fun frame_ok :: "frame \<Rightarrow> bool" where
  "frame_ok (Denied reason) = utf8_valid (as_bytes reason)"
| "frame_ok (Invoke i) = invocation_ok i"
| "frame_ok (Hello_Ack a) = hello_ack_ok a"
| "frame_ok (Proof p) = proof_ok p"
| "frame_ok _ = True"

section \<open>Laws\<close>

interpretation hello_json: json_type j_hello d_hello "\<lambda>_. True"
proof
  fix h :: hello
  show "d_hello (j_hello h) = Some h"
    using u64_json.decode_encode by (cases h) (simp add: d_hello_def j_hello_def json_simps req_def d_str_def)
  show "json_ok (j_hello h)" by (simp add: j_hello_def json_simps)
qed

lemma opt_field_head: "opt_field fs k (d_signed_head P) = (case fs k of None \<Rightarrow> Some None
    | Some j \<Rightarrow> if j = JNull then Some None else map_option Some (d_signed_head P j))"
  by (auto simp: opt_field_def split: option.splits json.splits)

interpretation hello_ack_json: json_type "j_hello_ack P" "d_hello_ack P" "\<lambda>a. hex_law P \<and> hello_ack_ok a"
  for P
proof
  fix a :: hello_ack
  assume ok: "hex_law P \<and> hello_ack_ok a"
  then have h: "ha_head a = Some h \<Longrightarrow> d_signed_head P (j_signed_head P h) = Some h \<and> json_ok (j_signed_head P h)"
    and e: "ha_entry a = Some e \<Longrightarrow> d_entry P (j_entry P e) = Some e \<and> json_ok (j_entry P e)" for h e
    using signed_head_json.decode_encode signed_head_json.encode_canonical entry_json.decode_encode
      entry_json.encode_canonical
    by (auto simp: hello_ack_ok_def)
  have nn: "j_signed_head P h \<noteq> JNull" "j_entry P e' \<noteq> JNull" for h e'
    by (simp_all add: j_signed_head_def j_entry_def obj_def)
  have opt: "opt_field fs k d = (case fs k of None \<Rightarrow> Some None
      | Some j \<Rightarrow> if j = JNull then Some None else map_option Some (d j))" for fs k and d :: "json \<Rightarrow> 'b option"
    by (auto simp: opt_field_def split: option.splits json.splits)
  show "d_hello_ack P (j_hello_ack P a) = Some a"
    using h e nn u64_json.decode_encode
    by (cases a; cases "ha_head a"; cases "ha_entry a")
      (simp_all add: d_hello_ack_def j_hello_ack_def json_simps req_def opt)
  show "json_ok (j_hello_ack P a)"
    using h e by (simp add: j_hello_ack_def json_simps split: option.splits)
qed

lemma frame_of_payload:
  assumes "json_law P" "hex_law P" "frame_ok f"
  shows "\<exists>tag body. frame_payload P f = tag # body \<and> frame_of P tag body = Inr f"
proof (cases f)
  case (Exit code)
  have "unat code < 2 ^ LENGTH(32)" by (rule unsigned_less)
  then show ?thesis
    using of_be32_be32[of "unat code"] by (simp add: Exit frame_payload_def frame_of_def be32_def)
next
  case (Denied reason)
  then show ?thesis
    using assms(3) by (simp add: frame_payload_def frame_of_def from_utf8_def)
next
  case (Invoke i)
  then show ?thesis
    using assms invocation_json.from_slice_canonical[of P i] by (simp add: frame_payload_def frame_of_def)
next
  case (Hello h)
  then show ?thesis
    using assms hello_json.from_slice_canonical[of P h] by (simp add: frame_payload_def frame_of_def)
next
  case (Hello_Ack a)
  then show ?thesis
    using assms hello_ack_json.from_slice_canonical[of P P a] by (simp add: frame_payload_def frame_of_def)
next
  case (Proof p)
  then show ?thesis
    using assms proof_json.from_slice_canonical[of P P p] by (simp add: frame_payload_def frame_of_def)
qed (simp_all add: frame_payload_def frame_of_def)

interpretation session: framed "frame_encode P" "frame_decode P"
    "\<lambda>f. json_law P \<and> hex_law P \<and> frame_ok f"
  for P
proof
  fix f b rest
  assume ok: "json_law P \<and> hex_law P \<and> frame_ok f" and b: "frame_encode P f = Inr b"
  obtain tag body where p: "frame_payload P f = tag # body" "frame_of P tag body = Inr f"
    using frame_of_payload ok by blast
  show "frame_decode P (b @ rest) = Inr (Some (f, length b))"
    using b split_frame_whole[of "tag # body" rest]
    by (simp add: frame_encode_def length_prefixed_Inr p frame_decode_def)
next
  fix f b p
  assume "frame_encode P f = Inr b" "strict_prefix p b"
  then show "frame_decode P p = Inr None"
    using split_frame_prefix[of "frame_payload P f" p]
    by (simp add: frame_encode_def length_prefixed_Inr frame_decode_def)
next
  fix f b
  assume "frame_encode P f = Inr b"
  then show "4 \<le> length b" by (simp add: frame_encode_def length_prefixed_Inr)
qed

section \<open>Properties\<close>



text \<open>
  \<open>HelloAck::assigns\<close> lets a call go on only with nothing newer to know, or with the root's
  word that this host still serves it: \<open>Ok(true)\<close> exactly when the host's version is no newer than
  the caller's view, or its head verifies under the root at the version it reports and the entry
  it sent verifies under the root, is for this service and lists this host.
\<close>

theorem ack_assigns_true:
  "ack_assigns P a root held service host = Inr True \<longleftrightarrow>
     ha_state_version a \<le> held
     \<or> (\<exists>h e. ha_head a = Some h \<and> head_verify P root h = Inr ()
          \<and> h_version (sh_head h) = ha_state_version a
          \<and> ha_entry a = Some e \<and> se_name e = service \<and> se_fabric e = root
          \<and> se_version e \<le> h_version (sh_head h) \<and> entry_verify P root e = Inr ()
          \<and> host \<in> set (sv_hosts (se_service e)))"
proof (cases "ha_head a")
  case None
  then show ?thesis by (simp add: ack_assigns_def)
next
  case (Some h)
  have fab: "head_verify P root h = Inr () \<Longrightarrow> h_fabric (sh_head h) = root" by (simp add: head_verify_Inr)
  show ?thesis
    using Some fab
    by (cases "ha_entry a")
      (auto simp: ack_assigns_def and_then_Inr_iff check_entry_version_def split: if_splits)
qed

end
