(* ===== verification/Framed_Json.thy ===== *)
theory Framed_Json
  imports Session_Frames
begin

text \<open>
  Length-prefixed JSON frames with a size cap, as the inbox and directory protocols send them. A
  frame type that is a \<open>json_type\<close> gives, with any limit check and caps, a \<open>framed\<close> protocol: the
  locale \<open>wire_json\<close> proves it once, and both protocols interpret it on their own encoders.
\<close>

definition capped_encode :: "prims \<Rightarrow> ('f \<Rightarrow> json) \<Rightarrow> ('f \<Rightarrow> unit res) \<Rightarrow> nat \<Rightarrow> error \<Rightarrow> 'f \<Rightarrow> bytes res" where
  "capped_encode P j check cap e f = and_then (check f) (\<lambda>_.
     let body = canonical_bytes P (j f) in
     if length body > cap then Inl e else length_prefixed body)"

definition capped_decode ::
  "prims \<Rightarrow> (json \<Rightarrow> 'f option) \<Rightarrow> ('f \<Rightarrow> unit res) \<Rightarrow> nat \<Rightarrow> error \<Rightarrow> bytes \<Rightarrow> ('f \<times> nat) option res" where
  "capped_decode P d check cap e buf =
     (case prefix_len buf of
        Some n \<Rightarrow> if n > cap then Inl e
          else (case split_frame buf of
              None \<Rightarrow> Inr None
            | Some (body, stop) \<Rightarrow> and_then (from_slice P d body) (\<lambda>f.
                and_then (check f) (\<lambda>_. Inr (Some (f, stop)))))
      | None \<Rightarrow> Inr None)"

text \<open>A prefix over the cap is refused whatever follows it, so nothing is buffered for it.\<close>

lemma capped_decode_over: "prefix_len buf = Some n \<Longrightarrow> n > cap \<Longrightarrow> capped_decode P d c cap e (buf @ rest) = Inl e"
  by (simp add: capped_decode_def prefix_len_append)

lemma capped_decode_Some:
  assumes "capped_decode P d c cap e buf = Inr (Some (f, n))"
  shows "4 \<le> n \<and> n \<le> length buf \<and> n \<le> 4 + cap \<and> c f = Inr ()"
proof -
  obtain len body where b: "prefix_len buf = Some len" "len \<le> cap" "split_frame buf = Some (body, n)"
    using assms by (auto simp: capped_decode_def and_then_Inr_iff split: option.splits if_splits)
  moreover have "c f = Inr ()"
    using assms b by (simp add: capped_decode_def and_then_Inr_iff)
  moreover have "n = 4 + len" using b(1,3) by (auto simp: split_frame_def Let_def split: if_splits)
  ultimately show ?thesis using split_frame_bound[OF b(3)] by simp
qed

lemma strict_prefix_len:
  assumes "length body < 2 ^ 32" "strict_prefix p (be32 (length body) @ body)"
  shows "prefix_len p = None \<or> prefix_len p = Some (length body)"
proof (cases "prefix_len p")
  case (Some n)
  obtain q where "be32 (length body) @ body = p @ q"
    using assms(2) by (auto simp: strict_prefix_def prefix_def)
  then have "prefix_len (be32 (length body) @ body) = Some n"
    using prefix_len_append[OF Some, of q] by simp
  then show ?thesis using assms(1) Some by simp
qed simp

text \<open>A codec that loses nothing on a stream: frames that satisfy \<open>good\<close>, encoded one after another
  and arriving in any two pieces, decode to a prefix of exactly those frames, and what is left with
  the rest of the stream is exactly the encoding of the others.\<close>

definition streams :: "('f \<Rightarrow> bytes res) \<Rightarrow> (bytes \<Rightarrow> ('f \<times> nat) option res) \<Rightarrow> ('f \<Rightarrow> bool) \<Rightarrow> bool" where
  "streams enc dec good \<longleftrightarrow> (\<forall>fs bs arrived later fuel.
     list_all2 (\<lambda>f b. good f \<and> enc f = Inr b) fs bs \<and> concat bs = arrived @ later \<and> length fs < fuel \<longrightarrow>
     (\<exists>m rest. drain dec fuel arrived = (take m fs, rest, False) \<and> m \<le> length fs
        \<and> rest @ later = concat (drop m bs)))"

lemma streamsD:
  "streams enc dec good \<Longrightarrow> list_all2 (\<lambda>f b. good f \<and> enc f = Inr b) fs bs \<Longrightarrow> concat bs = a @ c \<Longrightarrow>
    length fs < k \<Longrightarrow> \<exists>m rest. drain dec k a = (take m fs, rest, False) \<and> m \<le> length fs
        \<and> rest @ c = concat (drop m bs)"
  by (simp add: streams_def)

locale wire_json = json_type to_json of_json ok
  for to_json :: "'f \<Rightarrow> json" and of_json ok +
  fixes P :: prims and check :: "'f \<Rightarrow> unit res" and cap_out cap_in :: nat and e_out e_in :: error
begin

definition small :: "'f \<Rightarrow> bool" where
  "small f \<longleftrightarrow> ok f \<and> json_law P \<and> length (canonical_bytes P (to_json f)) \<le> cap_in"

sublocale frames: framed "capped_encode P to_json check cap_out e_out"
    "capped_decode P of_json check cap_in e_in" small
proof
  fix f b rest
  assume f: "small f" and b: "capped_encode P to_json check cap_out e_out f = Inr b"
  let ?body = "canonical_bytes P (to_json f)"
  have l: "length ?body < 2 ^ 32" "b = be32 (length ?body) @ ?body" "check f = Inr ()"
    using b by (auto simp: capped_encode_def Let_def and_then_Inr_iff length_prefixed_Inr split: if_splits)
  have "from_slice P of_json ?body = Inr f" using f by (simp add: small_def from_slice_canonical)
  then show "capped_decode P of_json check cap_in e_in (b @ rest) = Inr (Some (f, length b))"
    using f split_frame_whole[OF l(1), of rest] l by (simp add: capped_decode_def small_def)
next
  fix f b p
  assume f: "small f" and b: "capped_encode P to_json check cap_out e_out f = Inr b" and p: "strict_prefix p b"
  let ?body = "canonical_bytes P (to_json f)"
  have l: "length ?body < 2 ^ 32" "b = be32 (length ?body) @ ?body"
    using b by (auto simp: capped_encode_def Let_def and_then_Inr_iff length_prefixed_Inr split: if_splits)
  show "capped_decode P of_json check cap_in e_in p = Inr None"
    using strict_prefix_len[OF l(1) p[unfolded l(2)]] split_frame_prefix[OF l(1) p[unfolded l(2)]] f
    by (auto simp: capped_decode_def small_def)
next
  fix f b
  assume "capped_encode P to_json check cap_out e_out f = Inr b"
  then show "4 \<le> length b"
    by (auto simp: capped_encode_def Let_def and_then_Inr_iff length_prefixed_Inr split: if_splits)
qed

lemma capped_length: "capped_encode P to_json check cap_out e_out f = Inr b \<Longrightarrow>
    length b = 4 + length (canonical_bytes P (to_json f)) \<and> length (canonical_bytes P (to_json f)) \<le> cap_out"
  by (auto simp: capped_encode_def Let_def and_then_Inr_iff length_prefixed_Inr split: if_splits)

lemma streams_small:
  assumes "json_law P" "\<And>f. good f \<Longrightarrow> ok f"
    and "\<And>f b. good f \<Longrightarrow> capped_encode P to_json check cap_out e_out f = Inr b \<Longrightarrow> length b \<le> 4 + cap_in"
  shows "streams (capped_encode P to_json check cap_out e_out) (capped_decode P of_json check cap_in e_in) good"
  unfolding streams_def
proof (intro allI impI, elim conjE)
  fix fs bs a c k
  assume enc: "list_all2 (\<lambda>f b. good f \<and> capped_encode P to_json check cap_out e_out f = Inr b) fs bs"
    and split: "concat bs = a @ c" "length fs < k"
  have "list_all2 (\<lambda>f b. small f \<and> capped_encode P to_json check cap_out e_out f = Inr b) fs bs"
    using enc by (rule list_all2_mono) (use assms capped_length in \<open>fastforce simp: small_def\<close>)
  then show "\<exists>m rest. drain (capped_decode P of_json check cap_in e_in) k a = (take m fs, rest, False)
      \<and> m \<le> length fs \<and> rest @ c = concat (drop m bs)"
    using split by (intro frames.drain_split) (simp_all add: capped_decode_def)
qed

end

section \<open>Optional fields\<close>

lemma opt_field_json:
  assumes "\<And>y. x = Some y \<Longrightarrow> d (j y) = Some y \<and> j y \<noteq> JNull"
  shows "fs k = map_option j x \<Longrightarrow> opt_field fs k d = Some x"
  using assms by (cases x) (auto simp: opt_field_def split: json.splits)

section \<open>Primitives that print one value as no bytes, for witnesses\<close>

definition short_prims :: "json \<Rightarrow> prims" where
  "short_prims v = demo_prims \<lparr>
     print_json := (\<lambda>w. if w = v then [] else replicate (Suc (to_nat w)) 0),
     parse_json := (\<lambda>b. if b = [] then Some v else Some (from_nat (length b - 1))) \<rparr>"

lemma short_prims_laws [simp]: "json_law (short_prims v)" "hex_law (short_prims v)" "ed25519_law (short_prims v)"
  using demo_prims_laws(2,3) by (simp_all add: short_prims_def json_law_def hex_law_def ed25519_law_def)

lemma short_prims_json [simp]: "canonical_bytes (short_prims v) v = []" "parse_json (short_prims v) [] = Some v"
  by (simp_all add: short_prims_def canonical_bytes_def)

end
