(* ===== verification/Inbox_Frames.thy ===== *)
theory Inbox_Frames
  imports Framed_Json
begin

text \<open>
  \<open>library/calls/push.rs\<close>: a push's subject, body and message, and the frames of the inbox
  protocol with their limits. The interpretation \<open>inbox\<close> of \<open>wire_json\<close> gives the stream lemmas.
\<close>

definition max_subject :: nat where "max_subject = 128"
definition max_push_body :: nat where "max_push_body = 16 * 1024"
definition max_batch :: nat where "max_batch = 32"
definition max_inbox_frame :: nat where "max_inbox_frame = 4 * 1024 * 1024"
definition max_inbox_hello :: nat where "max_inbox_hello = 64 * 1024"

section \<open>Messages\<close>

type_synonym push_id = "128 word"
type_synonym subject = string
type_synonym push_body = string

definition be_bytes16 :: "push_id \<Rightarrow> bytes" where
  "be_bytes16 w = be_nat 16 (unat w)"

definition push_id_hex :: "prims \<Rightarrow> push_id \<Rightarrow> string" where
  "push_id_hex P w = hex_enc P (be_bytes16 w)"

definition push_id_from_hex :: "prims \<Rightarrow> string \<Rightarrow> push_id res" where
  "push_id_from_hex P s = (case hex_dec P s of
     None \<Rightarrow> Inl Bad_hex
   | Some b \<Rightarrow> if length b = 16 then Inr (word_of_nat (nat_be b)) else Inl Bad_length)"

definition subject_new :: "string \<Rightarrow> subject res" where
  "subject_new s =
     (if trim s = [] then Inl (Invalid_push Subject_empty)
      else if length s > max_subject then Inl (Invalid_push Subject_long)
      else if has_control s then Inl (Invalid_push Subject_control)
      else Inr s)"

definition push_body_new :: "string \<Rightarrow> push_body res" where
  "push_body_new s = (if length s > max_push_body then Inl (Invalid_push Body_large) else Inr s)"

record push_message =
  pm_id :: push_id
  pm_from :: node_id
  pm_to :: node_id
  pm_subject :: subject
  pm_body :: push_body
  pm_at_ms :: i64
  pm_expires_ms :: i64

definition is_expired :: "push_message \<Rightarrow> i64 \<Rightarrow> bool" where
  "is_expired m now = (now \<ge> pm_expires_ms m)"

definition j_push_id :: "prims \<Rightarrow> push_id \<Rightarrow> json" where
  "j_push_id P i = JStr (push_id_hex P i)"

definition d_push_id :: "prims \<Rightarrow> json \<Rightarrow> push_id option" where
  "d_push_id P = d_try d_str (push_id_from_hex P)"

definition d_subject :: "json \<Rightarrow> subject option" where
  "d_subject = d_try d_str subject_new"

definition d_push_body :: "json \<Rightarrow> push_body option" where
  "d_push_body = d_try d_str push_body_new"

definition j_push_message :: "prims \<Rightarrow> push_message \<Rightarrow> json" where
  "j_push_message P m = obj [
     (''id'', Some (j_push_id P (pm_id m))), (''from'', Some (j_id P (pm_from m))),
     (''to'', Some (j_id P (pm_to m))), (''subject'', Some (JStr (pm_subject m))),
     (''body'', Some (JStr (pm_body m))), (''at_ms'', Some (JInt (pm_at_ms m))),
     (''expires_ms'', Some (JInt (pm_expires_ms m)))]"

definition d_push_message :: "prims \<Rightarrow> json \<Rightarrow> push_message option" where
  "d_push_message P j = do {
     fs \<leftarrow> struct_fields [''id'', ''from'', ''to'', ''subject'', ''body'', ''at_ms'', ''expires_ms''] 7 False j;
     i \<leftarrow> req fs ''id'' (d_push_id P);
     f \<leftarrow> req fs ''from'' (d_id P);
     t \<leftarrow> req fs ''to'' (d_id P);
     s \<leftarrow> req fs ''subject'' d_subject;
     b \<leftarrow> req fs ''body'' d_push_body;
     a \<leftarrow> req fs ''at_ms'' d_i64;
     e \<leftarrow> req fs ''expires_ms'' d_i64;
     Some \<lparr> pm_id = i, pm_from = f, pm_to = t, pm_subject = s, pm_body = b, pm_at_ms = a, pm_expires_ms = e \<rparr>
   }"

definition push_message_ok :: "push_message \<Rightarrow> bool" where
  "push_message_ok m \<longleftrightarrow> is_ok (subject_new (pm_subject m)) \<and> is_ok (push_body_new (pm_body m))
     \<and> in_i64 (pm_at_ms m) \<and> in_i64 (pm_expires_ms m)"

datatype push_outcome = Queued | Delivered | Fetched | Push_expired | Dropped | Push_denied

primrec outcome_str :: "push_outcome \<Rightarrow> string" where
  "outcome_str Queued = ''queued''"
| "outcome_str Delivered = ''delivered''"
| "outcome_str Fetched = ''fetched''"
| "outcome_str Push_expired = ''expired''"
| "outcome_str Dropped = ''dropped''"
| "outcome_str Push_denied = ''denied''"

section \<open>Frames\<close>

datatype inbox_frame =
    In_Open
  | In_Proof host_proof
  | In_Hello "id_token option"
  | In_Fetch u64
  | In_Deliver "push_message list"
  | In_Ack "push_id list"
  | In_Denied string

fun j_inbox :: "prims \<Rightarrow> inbox_frame \<Rightarrow> json" where
  "j_inbox P In_Open = obj [(''type'', Some (JStr ''open''))]"
| "j_inbox P (In_Proof p) = obj [(''type'', Some (JStr ''proof'')), (''proof'', Some (j_proof P p))]"
| "j_inbox P (In_Hello t) = obj [(''type'', Some (JStr ''hello'')), (''id_token'', map_option JStr t)]"
| "j_inbox P (In_Fetch w) = obj [(''type'', Some (JStr ''fetch'')), (''wait_ms'', Some (j_u64 w))]"
| "j_inbox P (In_Deliver ms) =
     obj [(''type'', Some (JStr ''deliver'')), (''messages'', Some (j_list (j_push_message P) ms))]"
| "j_inbox P (In_Ack ids) = obj [(''type'', Some (JStr ''ack'')), (''ids'', Some (j_list (j_push_id P) ids))]"
| "j_inbox P (In_Denied r) = obj [(''type'', Some (JStr ''denied'')), (''reason'', Some (JStr r))]"

definition d_inbox :: "prims \<Rightarrow> json \<Rightarrow> inbox_frame option" where
  "d_inbox P j = do {
     (t, rest) \<leftarrow> tag_split ''type'' j;
     if t = ''open'' then map_option (\<lambda>_. In_Open) (struct_fields [] 0 False rest)
     else if t = ''proof'' then do {
       fs \<leftarrow> struct_fields [''proof''] 1 False rest;
       map_option In_Proof (req fs ''proof'' (d_proof P)) }
     else if t = ''hello'' then do {
       fs \<leftarrow> struct_fields [''id_token''] 0 False rest;
       map_option In_Hello (opt_field fs ''id_token'' d_str) }
     else if t = ''fetch'' then do {
       fs \<leftarrow> struct_fields [''wait_ms''] 1 False rest;
       map_option In_Fetch (req fs ''wait_ms'' d_u64) }
     else if t = ''deliver'' then do {
       fs \<leftarrow> struct_fields [''messages''] 1 False rest;
       map_option In_Deliver (req fs ''messages'' (d_list (d_push_message P))) }
     else if t = ''ack'' then do {
       fs \<leftarrow> struct_fields [''ids''] 1 False rest;
       map_option In_Ack (req fs ''ids'' (d_list (d_push_id P))) }
     else if t = ''denied'' then do {
       fs \<leftarrow> struct_fields [''reason''] 1 False rest;
       map_option In_Denied (req fs ''reason'' d_str) }
     else None
   }"

definition inbox_check :: "inbox_frame \<Rightarrow> unit res" where
  "inbox_check f = (case f of
     In_Deliver ms \<Rightarrow> if length ms > max_batch then Inl (Invalid_push Deliver_many) else Inr ()
   | In_Ack ids \<Rightarrow> if length ids > max_batch then Inl (Invalid_push Ack_many) else Inr ()
   | _ \<Rightarrow> Inr ())"

definition inbox_encode :: "prims \<Rightarrow> inbox_frame \<Rightarrow> bytes res" where
  "inbox_encode P f = and_then (inbox_check f) (\<lambda>_.
     let body = canonical_bytes P (j_inbox P f) in
     if length body > max_inbox_frame then Inl (Invalid_push Inbox_frame_large) else length_prefixed body)"

definition inbox_length :: "bytes \<Rightarrow> nat option res" where
  "inbox_length buf = (case prefix_len buf of
     None \<Rightarrow> Inr None
   | Some len \<Rightarrow> if len > max_inbox_frame then Inl (Invalid_push Inbox_frame_large) else Inr (Some len))"

definition inbox_decode :: "prims \<Rightarrow> bytes \<Rightarrow> (inbox_frame \<times> nat) option res" where
  "inbox_decode P buf = and_then (inbox_length buf) (\<lambda>_. case split_frame buf of
     None \<Rightarrow> Inr None
   | Some (body, e) \<Rightarrow> and_then (from_slice P (d_inbox P) body) (\<lambda>f.
       and_then (inbox_check f) (\<lambda>_. Inr (Some (f, e)))))"

fun inbox_ok :: "inbox_frame \<Rightarrow> bool" where
  "inbox_ok (In_Proof p) = proof_ok p"
| "inbox_ok (In_Deliver ms) = (\<forall>m \<in> set ms. push_message_ok m)"
| "inbox_ok _ = True"

section \<open>Laws\<close>

lemma of_be_bytes16 [simp]: "word_of_nat (nat_be (be_bytes16 w)) = w"
proof -
  have "unat w < 2 ^ LENGTH(128)" by (rule unsigned_less)
  then show ?thesis by (simp add: be_bytes16_def nat_be_be_nat)
qed

interpretation push_id_json: json_type "j_push_id P" "d_push_id P" "\<lambda>_. hex_law P" for P
  by unfold_locales
    (simp_all add: j_push_id_def d_push_id_def d_str_def push_id_hex_def push_id_from_hex_def be_bytes16_def
      of_be_bytes16[unfolded be_bytes16_def])

lemma subject_new_Inr: "subject_new s = Inr r \<longleftrightarrow>
    r = s \<and> trim s \<noteq> [] \<and> length s \<le> max_subject \<and> \<not> has_control s"
  by (auto simp: subject_new_def)

lemma push_body_new_Inr: "push_body_new s = Inr r \<longleftrightarrow> r = s \<and> length s \<le> max_push_body"
  by (auto simp: push_body_new_def)

interpretation push_message_json: json_type "j_push_message P" "d_push_message P"
    "\<lambda>m. hex_law P \<and> push_message_ok m"
  for P
proof
  fix m :: push_message
  assume ok: "hex_law P \<and> push_message_ok m"
  then have "d_subject (JStr (pm_subject m)) = Some (pm_subject m)"
    "d_push_body (JStr (pm_body m)) = Some (pm_body m)"
    "d_i64 (JInt (pm_at_ms m)) = Some (pm_at_ms m)" "d_i64 (JInt (pm_expires_ms m)) = Some (pm_expires_ms m)"
    using i64_json.decode_encode
    by (auto simp: push_message_ok_def is_ok_iff subject_new_Inr push_body_new_Inr d_subject_def
        d_push_body_def d_str_def res_ok_Some_iff)
  then show "d_push_message P (j_push_message P m) = Some m"
    using ok push_id_json.decode_encode id_json.decode_encode
    by (cases m) (simp add: d_push_message_def j_push_message_def json_simps req_def)
  show "json_ok (j_push_message P m)"
    using ok id_json.encode_canonical
    by (simp add: j_push_message_def json_simps push_message_ok_def j_push_id_def)
qed

interpretation inbox_json: json_type "j_inbox P" "d_inbox P" "\<lambda>f. hex_law P \<and> inbox_ok f"
  for P
proof
  fix f :: inbox_frame
  assume ok: "hex_law P \<and> inbox_ok f"
  show "d_inbox P (j_inbox P f) = Some f"
  proof (cases f)
    case In_Open
    then show ?thesis by (simp add: d_inbox_def json_simps)
  next
    case (In_Proof p)
    then show ?thesis
      using ok proof_json.decode_encode[of P p] by (simp add: d_inbox_def json_simps req_def)
  next
    case (In_Hello t)
    then show ?thesis
      by (cases t) (simp_all add: d_inbox_def json_simps opt_field_def d_str_def)
  next
    case (In_Fetch w)
    then show ?thesis
      using u64_json.decode_encode[of w] by (simp add: d_inbox_def json_simps req_def)
  next
    case (In_Deliver ms)
    then show ?thesis
      using ok push_message_json.list_decode[of ms P] by (simp add: d_inbox_def json_simps req_def)
  next
    case (In_Ack ids)
    then show ?thesis
      using ok push_id_json.list_decode[of ids P] by (simp add: d_inbox_def json_simps req_def)
  next
    case (In_Denied r)
    then show ?thesis by (simp add: d_inbox_def json_simps req_def d_str_def)
  qed
  show "json_ok (j_inbox P f)"
    using ok proof_json.encode_canonical push_message_json.list_canonical push_id_json.list_canonical
      u64_json.encode_canonical
    by (cases f) (auto simp: json_simps split: option.splits)
qed

interpretation inbox: wire_json "j_inbox P" "d_inbox P" "\<lambda>f. hex_law P \<and> inbox_ok f" P inbox_check
    max_inbox_frame max_inbox_frame "Invalid_push Inbox_frame_large" "Invalid_push Inbox_frame_large"
  for P ..

lemma inbox_encode_capped: "inbox_encode P =
    capped_encode P (j_inbox P) inbox_check max_inbox_frame (Invalid_push Inbox_frame_large)"
  by (rule ext) (simp add: inbox_encode_def capped_encode_def)

lemma inbox_decode_capped: "inbox_decode P =
    capped_decode P (d_inbox P) inbox_check max_inbox_frame (Invalid_push Inbox_frame_large)"
  by (rule ext)
    (simp add: inbox_decode_def capped_decode_def inbox_length_def split_frame_def split: option.split)

text \<open>Whatever decodes is within the types' limits.\<close>

lemma d_push_message_safe:
  "d_push_message P j = Some m \<Longrightarrow>
     trim (pm_subject m) \<noteq> [] \<and> length (pm_subject m) \<le> 128 \<and> \<not> has_control (pm_subject m)
     \<and> length (pm_body m) \<le> 16384"
  by (auto simp: d_push_message_def req_def d_subject_def d_push_body_def subject_new_Inr
      push_body_new_Inr res_ok_Some_iff max_subject_def max_push_body_def bind_eq_Some_conv
      split: option.splits)

lemma d_inbox_deliver: "d_inbox P j = Some (In_Deliver ms) \<Longrightarrow> m \<in> set ms \<Longrightarrow> \<exists>k. d_push_message P k = Some m"
proof -
  assume d: "d_inbox P j = Some (In_Deliver ms)" and m: "m \<in> set ms"
  obtain fs where "req fs ''messages'' (d_list (d_push_message P)) = Some ms"
    using d by (auto simp: d_inbox_def bind_eq_Some_conv split: prod.splits if_splits)
  then obtain js where "list_all2 (\<lambda>x y. d_push_message P x = Some y) js ms"
    by (auto simp: req_def d_list_def all_some_Some_iff split: option.splits json.splits)
  then show ?thesis using m by (auto simp: list_all2_conv_all_nth in_set_conv_nth)
qed

section \<open>Properties\<close>

text \<open>
  The inbox codec loses nothing across arbitrary arrival. Frames within the limits, encoded
  one after another and arriving in any two pieces, decode to a prefix of exactly those frames, and
  what is left with the rest of the stream is exactly the encoding of the others.
\<close>

theorem inbox_stream:
  assumes "json_law P" "hex_law P"
    and "list_all2 (\<lambda>f b. inbox_ok f \<and> inbox_encode P f = Inr b) fs bs"
    and "concat bs = arrived @ later" and "length fs < fuel"
  shows "\<exists>m rest. drain (inbox_decode P) fuel arrived = (take m fs, rest, False) \<and> m \<le> length fs
    \<and> rest @ later = concat (drop m bs)"
  unfolding inbox_decode_capped
proof (rule inbox.frames.drain_split)
  have "inbox.small P f" if "inbox_ok f" "inbox_encode P f = Inr b" for f b
    unfolding inbox.small_def using that assms(1,2)
    by (auto simp: inbox_encode_def and_then_Inr_iff Let_def split: if_splits)
  then show "list_all2 (\<lambda>f b. inbox.small P f \<and>
      capped_encode P (j_inbox P) inbox_check max_inbox_frame (Invalid_push Inbox_frame_large) f = Inr b) fs bs"
    unfolding inbox_encode_capped[symmetric] using assms(3) by (auto elim: list_all2_mono)
  show "capped_decode P (d_inbox P) inbox_check max_inbox_frame (Invalid_push Inbox_frame_large) [] = Inr None"
    by (simp add: capped_decode_def)
qed (use assms in auto)

lemma short_open:
  "canonical_bytes (short_prims (j_inbox demo_prims In_Open)) (j_inbox P In_Open) = []"
  by (simp add: short_prims_def canonical_bytes_def)

theorem inbox_stream_witness:
  "\<exists>m rest. drain (inbox_decode (short_prims (j_inbox demo_prims In_Open))) 2 [0, 0] = (take m [In_Open], rest, False)
     \<and> rest @ [0, 0] = concat (drop m [[0, 0, 0, 0]])"
proof (rule inbox_stream[of _ "[In_Open]" "[[0, 0, 0, 0]]" "[0, 0]" "[0, 0]" 2, THEN exE])
  let ?P = "short_prims (j_inbox demo_prims In_Open)"
  have "inbox_encode ?P In_Open = Inr [0, 0, 0, 0]"
    using short_open[of ?P]
    by (simp add: inbox_encode_def inbox_check_def length_prefixed_def be32_def del: j_inbox.simps)
  then show "list_all2 (\<lambda>f b. inbox_ok f \<and> inbox_encode ?P f = Inr b) [In_Open] [[0, 0, 0, 0]]"
    by simp
qed auto

text \<open>
  A peer cannot make an inbox reader buffer or accept too much. A prefix announcing more than
  4 MiB is refused as soon as its four bytes are there, whatever follows; a frame that decodes
  used at most 4 MiB and its prefix, carries at most 32 messages or ids, and each message's subject
  is one printable line of 1 to 128 bytes and its body at most 16 KiB.
\<close>

theorem inbox_limits:
  "(prefix_len buf = Some n \<and> n > 4194304 \<longrightarrow>
      inbox_decode P (buf @ rest) = Inl (Invalid_push Inbox_frame_large))
   \<and> (inbox_decode P buf = Inr (Some (f, used)) \<longrightarrow>
      used \<le> length buf \<and> used \<le> 4 + 4194304
      \<and> (\<forall>ids. f = In_Ack ids \<longrightarrow> length ids \<le> 32)
      \<and> (\<forall>ms. f = In_Deliver ms \<longrightarrow> length ms \<le> 32 \<and> (\<forall>m \<in> set ms. trim (pm_subject m) \<noteq> []
          \<and> length (pm_subject m) \<le> 128 \<and> \<not> has_control (pm_subject m) \<and> length (pm_body m) \<le> 16384)))"
proof (intro conjI impI)
  assume "prefix_len buf = Some n \<and> n > 4194304"
  then show "inbox_decode P (buf @ rest) = Inl (Invalid_push Inbox_frame_large)"
    unfolding inbox_decode_capped by (intro capped_decode_over[of _ n]) (simp_all add: max_inbox_frame_def)
next
  assume d: "inbox_decode P buf = Inr (Some (f, used))"
  note b = capped_decode_Some[OF d[unfolded inbox_decode_capped]]
  then show "used \<le> length buf" "used \<le> 4 + 4194304" by (simp_all add: max_inbox_frame_def)
  show "\<forall>ids. f = In_Ack ids \<longrightarrow> length ids \<le> 32"
    using b by (auto simp: inbox_check_def max_batch_def split: if_splits)
  obtain body where body: "from_slice P (d_inbox P) body = Inr f"
    using d by (auto simp: inbox_decode_def and_then_Inr_iff split: option.splits)
  have m: "\<And>ms. f = In_Deliver ms \<Longrightarrow> length ms \<le> 32"
    using b by (auto simp: inbox_check_def max_batch_def split: if_splits)
  have "\<And>ms m. f = In_Deliver ms \<Longrightarrow> m \<in> set ms \<Longrightarrow> \<exists>k. d_push_message P k = Some m"
    using body d_inbox_deliver by (auto simp: from_slice_def ok_or_Inr_iff bind_eq_Some_conv)
  then show "\<forall>ms. f = In_Deliver ms \<longrightarrow> length ms \<le> 32 \<and> (\<forall>m \<in> set ms. trim (pm_subject m) \<noteq> []
      \<and> length (pm_subject m) \<le> 128 \<and> \<not> has_control (pm_subject m) \<and> length (pm_body m) \<le> 16384)"
    using m d_push_message_safe by blast
qed

theorem inbox_limits_witness:
  "inbox_decode demo_prims ([255, 0, 0, 0] @ [1, 2, 3]) = Inl (Invalid_push Inbox_frame_large)"
  using inbox_limits[of "[255, 0, 0, 0]" 4278190080 demo_prims "[1, 2, 3]"]
  by (simp add: of_be32_def)

end
