(* ===== verification/Policy_Store.thy ===== *)
theory Policy_Store
  imports Session_Frames
begin

text \<open>
  \<open>wires/policy/store.rs\<close>: a node's one copy of the signed policy, \<open>policy.json\<close>, and the only
  operation that writes it, \<open>adopt_if_newer\<close>. The file lock makes the compare-and-swap atomic, so
  the operation is a function on the node's home. The file holds the policy's JSON (the order of
  members in it, which reading does not depend on, is that of the canonical form here).

  The locale \<open>ratchet\<close> is the contract of every piece of state that only moves forward: the
  stored policy, a host's highest version, the identity index, a set of freshness words.
\<close>

section \<open>State that only moves forward\<close>

locale ratchet =
  fixes step :: "'op \<Rightarrow> 's \<Rightarrow> 's" and ahead :: "'s \<Rightarrow> 's \<Rightarrow> bool" and op_ok :: "'op \<Rightarrow> bool" and inv :: "'s \<Rightarrow> bool"
  assumes ahead_refl: "ahead s s"
    and ahead_trans: "ahead s t \<Longrightarrow> ahead t u \<Longrightarrow> ahead s u"
    and step_inv: "op_ok op \<Longrightarrow> inv s \<Longrightarrow> inv (step op s)"
    and step_ahead: "op_ok op \<Longrightarrow> inv s \<Longrightarrow> ahead s (step op s)"
begin

text \<open>Any operations, in any order.\<close>

lemma run_inv: "\<forall>op \<in> set ops. op_ok op \<Longrightarrow> inv s \<Longrightarrow> inv (fold step ops s)"
  by (induction ops arbitrary: s) (auto simp: step_inv)

lemma run_ahead: "\<forall>op \<in> set ops. op_ok op \<Longrightarrow> inv s \<Longrightarrow> ahead s (fold step ops s)"
proof (induction ops arbitrary: s)
  case (Cons op ops)
  then have "ahead s (step op s)" "ahead (step op s) (fold step ops (step op s))"
    by (simp_all add: step_inv step_ahead)
  then show ?case using ahead_trans by simp
qed (simp add: ahead_refl)

text \<open>Between any two moments of a run, the later is ahead of the earlier.\<close>

lemma run_between:
  assumes "\<forall>op \<in> set ops. op_ok op" "inv s"
  shows "ahead (fold step (take i ops) s) (fold step ops s)"
proof -
  have "inv (fold step (take i ops) s)" using assms by (intro run_inv) (auto dest: in_set_takeD)
  then have "ahead (fold step (take i ops) s) (fold step (drop i ops) (fold step (take i ops) s))"
    using assms(1) by (intro run_ahead) (auto dest: in_set_dropD)
  then show ?thesis by (metis append_take_drop_id fold_append comp_apply)
qed

end

section \<open>SignedPolicy as JSON\<close>

definition j_signed_policy :: "prims \<Rightarrow> signed_policy \<Rightarrow> json" where
  "j_signed_policy P s = obj [(''head'', Some (j_signed_head P (sp_head s))),
                              (''items'', Some (j_list (j_item P) (sp_items s)))]"

definition d_signed_policy :: "prims \<Rightarrow> json \<Rightarrow> signed_policy option" where
  "d_signed_policy P j = do {
     fs \<leftarrow> struct_fields [''head'', ''items''] 2 True j;
     h \<leftarrow> req fs ''head'' (d_signed_head P);
     i \<leftarrow> req fs ''items'' (d_list (d_item P));
     Some \<lparr> sp_head = h, sp_items = i \<rparr>
   }"

interpretation signed_policy_json: json_type "j_signed_policy P" "d_signed_policy P"
    "\<lambda>s. hex_law P \<and> sp_typed s"
  for P
proof
  fix s :: signed_policy
  assume ok: "hex_law P \<and> sp_typed s"
  show "d_signed_policy P (j_signed_policy P s) = Some s"
    using ok signed_head_json.decode_encode[of P "sp_head s"] item_json.list_decode[of "sp_items s" P]
    by (cases s) (simp add: d_signed_policy_def j_signed_policy_def json_simps req_def sp_typed_def)
  show "json_ok (j_signed_policy P s)"
    using ok signed_head_json.encode_canonical[of P "sp_head s"] item_json.list_canonical[of "sp_items s" P]
    by (simp add: j_signed_policy_def json_simps sp_typed_def)
qed

section \<open>A file of the node's home\<close>

text \<open>What \<open>read_to_string\<close> finds: no file, an error other than that (or text that is not
  UTF-8), or a text. A home that does not take writes fails them and keeps what it has.\<close>

datatype disk_file = Absent | Unreadable | Text string

record home =
  ho_policy :: disk_file
  ho_fresh :: disk_file
  ho_writable :: bool

datatype store_error =
    Store_unreadable
  | Store_parsing
  | Store_unverified error
  | Store_no_policy
  | Offer_unverified error
  | Offer_not_fresh error
  | Store_not_one_line
  | Store_io

definition newline :: string where
  "newline = [CHR 0x0A]"

text \<open>\<open>serde_json\<close> writes compact JSON: no newline, no white space around it.\<close>

definition compact_law :: "prims \<Rightarrow> bool" where
  "compact_law P \<longleftrightarrow> (\<forall>v. json_ok v \<longrightarrow>
     CHR 0x0A \<notin> set (text_of (print_json P v)) \<and> as_bytes (text_of (print_json P v)) = print_json P v
     \<and> trim (text_of (print_json P v) @ newline) = text_of (print_json P v))"

definition json_text :: "prims \<Rightarrow> json \<Rightarrow> string" where
  "json_text P v = text_of (print_json P v)"

definition from_str :: "prims \<Rightarrow> (json \<Rightarrow> 'a option) \<Rightarrow> string \<Rightarrow> 'a res" where
  "from_str P d s = from_slice P d (as_bytes s)"

section \<open>Held\<close>

record held =
  hd_signed :: signed_policy
  hd_policy :: policy

definition held_verify :: "prims \<Rightarrow> signed_policy \<Rightarrow> node_id \<Rightarrow> held res" where
  "held_verify P s root =
     and_then (sp_verify P s root) (\<lambda>_.
     and_then (to_policy s) (\<lambda>p. Inr \<lparr> hd_signed = s, hd_policy = p \<rparr>))"

definition held_version :: "held \<Rightarrow> state_version" where
  "held_version h = sp_version (hd_signed h)"

definition held_check_fresh :: "held \<Rightarrow> i64 \<Rightarrow> unit res" where
  "held_check_fresh h now = head_check_fresh (sp_head (hd_signed h)) now"

definition held_directories :: "held \<Rightarrow> node_id list" where
  "held_directories h = h_directories (sh_head (sp_head (hd_signed h)))"

section \<open>Reading and adopting\<close>

definition store_read :: "prims \<Rightarrow> home \<Rightarrow> node_id \<Rightarrow> store_error + held option" where
  "store_read P ks root = (case ho_policy ks of
     Absent \<Rightarrow> Inr None
   | Unreadable \<Rightarrow> Inl Store_unreadable
   | Text text \<Rightarrow>
       and_then (map_err (\<lambda>_. Store_parsing) (from_str P (d_signed_policy P) (trim text))) (\<lambda>s.
       and_then (map_err Store_unverified (held_verify P s root)) (\<lambda>h. Inr (Some h))))"

definition require_policy :: "prims \<Rightarrow> home \<Rightarrow> node_id \<Rightarrow> store_error + held" where
  "require_policy P ks root = and_then (store_read P ks root) (\<lambda>h. ok_or Store_no_policy h)"

definition adopt_if_newer :: "prims \<Rightarrow> signed_policy \<Rightarrow> node_id \<Rightarrow> i64 \<Rightarrow> home \<Rightarrow> (store_error + bool) \<times> home" where
  "adopt_if_newer P candidate root now ks =
     (case and_then (map_err Offer_unverified (sp_verify P candidate root)) (\<lambda>_.
             and_then (map_err Offer_not_fresh (head_check_fresh (sp_head candidate) now)) (\<lambda>_.
             store_read P ks root)) of
        Inl e \<Rightarrow> (Inl e, ks)
      | Inr stored \<Rightarrow>
          if (case stored of None \<Rightarrow> False | Some s \<Rightarrow> \<not> sp_is_newer_than candidate (hd_signed s))
          then (Inr False, ks)
          else let text = json_text P (j_signed_policy P candidate) in
            if CHR 0x0A \<in> set text then (Inl Store_not_one_line, ks)
            else if \<not> ho_writable ks then (Inl Store_io, ks)
            else (Inr True, ks \<lparr> ho_policy := Text (text @ newline) \<rparr>))"

section \<open>Laws\<close>

lemma from_str_text:
  assumes "json_law P" "hex_law P" "compact_law P" "sp_typed s"
  shows "from_str P (d_signed_policy P) (trim (json_text P (j_signed_policy P s) @ newline)) = Inr s"
    "CHR 0x0A \<notin> set (json_text P (j_signed_policy P s))"
  using assms signed_policy_json.encode_canonical[of P s]
    signed_policy_json.from_slice_canonical[of P P s]
  by (simp_all add: from_str_def json_text_def compact_law_def canonical_bytes_def)

lemma held_verify_Inr [result_simps]: "held_verify P s root = Inr h \<longleftrightarrow>
    sp_verify P s root = Inr () \<and> to_policy s = Inr (hd_policy h) \<and> hd_signed h = s"
  by (cases h) (auto simp: held_verify_def and_then_Inr_iff)

text \<open>What verifies also reads back as a policy.\<close>

lemma sp_verify_to_policy: "sp_verify P s root = Inr u \<Longrightarrow> \<exists>p. to_policy s = Inr p"
  by (auto simp: sp_verify_def check_items_def to_policy_def and_then_Inr_iff split: if_splits)

lemma newer_version: "sp_is_newer_than c d \<Longrightarrow> sp_version d < sp_version c"
  by (simp add: sp_is_newer_than_def head_is_newer_than_def sp_version_def)

lemma adopt_effect:
  assumes "json_law P" "hex_law P" "compact_law P" "sp_typed c"
    and "adopt_if_newer P c root now ks = (r, ks')"
  shows "(r = Inr True \<and> (\<exists>p. store_read P ks' root = Inr (Some \<lparr> hd_signed = c, hd_policy = p \<rparr>))
            \<and> sp_verify P c root = Inr () \<and> head_check_fresh (sp_head c) now = Inr ()
            \<and> (store_read P ks root = Inr None
               \<or> (\<exists>h. store_read P ks root = Inr (Some h) \<and> sp_is_newer_than c (hd_signed h))))
        \<or> (r \<noteq> Inr True \<and> ks' = ks)"
proof (cases "r = Inr True")
  case False
  then show ?thesis
    using assms(5) by (auto simp: adopt_if_newer_def Let_def split: sum.splits if_splits)
next
  case True
  obtain st where st: "sp_verify P c root = Inr ()" "head_check_fresh (sp_head c) now = Inr ()"
      "store_read P ks root = Inr st"
    and nw: "\<not> (case st of None \<Rightarrow> False | Some s \<Rightarrow> \<not> sp_is_newer_than c (hd_signed s))"
    and ks': "ks' = ks \<lparr> ho_policy := Text (json_text P (j_signed_policy P c) @ newline) \<rparr>"
    using assms(5) True
    by (auto simp: adopt_if_newer_def Let_def and_then_Inr_iff map_err_Inr_iff split: sum.splits if_splits)
  obtain p where p: "to_policy c = Inr p" using sp_verify_to_policy st(1) by blast
  have "store_read P ks' root = Inr (Some \<lparr> hd_signed = c, hd_policy = p \<rparr>)"
    using from_str_text(1)[OF assms(1-4)] st(1) p by (simp add: store_read_def ks' held_verify_def)
  then show ?thesis using True st nw by (auto split: option.splits)
qed

lemma adopt_yes:
  assumes "CHR 0x0A \<notin> set (json_text P (j_signed_policy P c))"
  shows "fst (adopt_if_newer P c root now ks) = Inr True \<longleftrightarrow>
      sp_verify P c root = Inr () \<and> head_check_fresh (sp_head c) now = Inr () \<and> ho_writable ks
      \<and> (store_read P ks root = Inr None
         \<or> (\<exists>h. store_read P ks root = Inr (Some h) \<and> sp_is_newer_than c (hd_signed h)))"
  using assms
  by (cases "sp_verify P c root"; cases "head_check_fresh (sp_head c) now"; cases "store_read P ks root")
    (auto simp: adopt_if_newer_def Let_def split: option.splits)

definition store_ahead :: "prims \<Rightarrow> node_id \<Rightarrow> home \<Rightarrow> home \<Rightarrow> bool" where
  "store_ahead P root ks ks' \<longleftrightarrow> (\<forall>h. store_read P ks root = Inr (Some h) \<longrightarrow>
     (\<exists>h'. store_read P ks' root = Inr (Some h') \<and> held_version h \<le> held_version h'
        \<and> (held_version h = held_version h' \<longrightarrow> h' = h)))"

definition adopt_step :: "prims \<Rightarrow> node_id \<Rightarrow> signed_policy \<times> i64 \<Rightarrow> home \<Rightarrow> home" where
  "adopt_step P root op ks = snd (adopt_if_newer P (fst op) root (snd op) ks)"

interpretation policy_file: ratchet "adopt_step P root" "store_ahead P root"
    "\<lambda>op. sp_typed (fst op)" "\<lambda>_. json_law P \<and> hex_law P \<and> compact_law P"
  for P root
proof
  fix s t u :: home
  show "store_ahead P root s s" by (simp add: store_ahead_def)
  assume st: "store_ahead P root s t" and tu: "store_ahead P root t u"
  show "store_ahead P root s u"
    unfolding store_ahead_def
  proof (intro allI impI)
    fix h assume "store_read P s root = Inr (Some h)"
    then obtain h' where h': "store_read P t root = Inr (Some h')" "held_version h \<le> held_version h'"
      "held_version h = held_version h' \<longrightarrow> h' = h" using st unfolding store_ahead_def by blast
    then obtain h'' where "store_read P u root = Inr (Some h'')" "held_version h' \<le> held_version h''"
      "held_version h' = held_version h'' \<longrightarrow> h'' = h'" using tu unfolding store_ahead_def by blast
    with h' show "\<exists>h''. store_read P u root = Inr (Some h'') \<and> held_version h \<le> held_version h''
        \<and> (held_version h = held_version h'' \<longrightarrow> h'' = h)"
      by (intro exI[of _ h'']) auto
  qed
next
  fix op :: "signed_policy \<times> i64" and s :: home
  assume ok: "sp_typed (fst op)" and laws: "json_law P \<and> hex_law P \<and> compact_law P"
  obtain r s' where a: "adopt_if_newer P (fst op) root (snd op) s = (r, s')" by fastforce
  show "store_ahead P root s (adopt_step P root op s)"
    using adopt_effect[OF _ _ _ ok a] laws
    by (auto simp: store_ahead_def adopt_step_def a held_version_def dest!: newer_version)
qed auto

section \<open>The demonstration primitives print compact JSON\<close>

lemma as_bytes_text_of [simp]: "as_bytes (text_of b) = b"
proof -
  have "word_of_nat (of_char (char_of (unat w) :: char)) = w" for w :: "8 word"
  proof -
    have "unat w < 2 ^ LENGTH(8)" by (rule unsigned_less)
    then show ?thesis by simp
  qed
  then show ?thesis by (simp add: as_bytes_def text_of_def map_idI)
qed

lemma trim_front_clean:
  assumes "set s \<inter> set (concat ws) = {}"
  shows "trim_front ws s = s"
proof -
  have "List.find (\<lambda>w. w \<noteq> [] \<and> prefix w s) ws = None"
    using assms by (fastforce simp: find_None_iff prefix_def neq_Nil_conv)
  then show ?thesis by (simp add: trim_front.simps)
qed

lemma char_of_tab_newline: "char_of (9 :: nat) = CHR 0x09" "char_of (10 :: nat) = CHR 0x0A"
  by code_simp+

lemma trim_front_newline: "trim_front (map rev white_space) (CHR 0x0A # s) = trim_front (map rev white_space) s"
proof -
  have "map rev white_space = [CHR 0x09] # newline # drop 2 (map rev white_space)"
    by (simp add: white_space_def newline_def char_of_tab_newline)
  then obtain ws where "map rev white_space = [CHR 0x09] # newline # ws" by (rule that)
  then have "List.find (\<lambda>w. w \<noteq> [] \<and> prefix w (CHR 0x0A # s)) (map rev white_space) = Some newline"
    by (simp add: newline_def)
  then show ?thesis by (subst trim_front.simps) (simp add: newline_def)
qed

lemma trim_clean_newline:
  assumes "set s \<inter> set (concat white_space) = {}"
  shows "trim (s @ newline) = s"
proof (cases s)
  case Nil
  then show ?thesis
    by (simp add: trim_def trim_front.simps white_space_def newline_def char_of_tab_newline)
next
  case (Cons c r)
  have "List.find (\<lambda>w. w \<noteq> [] \<and> prefix w (s @ newline)) white_space = None"
    using assms by (fastforce simp: find_None_iff prefix_def neq_Nil_conv Cons)
  then have "trim_front white_space (s @ newline) = s @ newline" by (simp add: trim_front.simps)
  moreover have "trim_front (map rev white_space) (rev s) = rev s"
    using assms by (intro trim_front_clean) auto
  ultimately show ?thesis
    using trim_front_newline[of "rev s"] by (simp add: trim_def newline_def)
qed

lemma demo_compact [simp]: "compact_law demo_prims"
proof -
  have "list_all (\<lambda>w. list_all (\<lambda>c. of_char c \<noteq> (0 :: nat)) w) white_space"
    by (simp add: white_space_def)
  moreover have "of_char (CHR 0x00) = (0 :: nat)" by simp
  ultimately have "CHR 0x00 \<notin> set (concat white_space)" by (force simp: list_all_iff)
  moreover have z: "char_of (0 :: nat) = CHR 0x00" by code_simp
  moreover have "set (text_of (replicate n 0)) \<subseteq> {CHR 0x00}" for n by (auto simp: text_of_def z)
  ultimately have "set (text_of (replicate n 0)) \<inter> set (concat white_space) = {}" for n by blast
  then have "trim (text_of (replicate n 0) @ newline) = text_of (replicate n 0)" for n
    by (rule trim_clean_newline)
  moreover have "CHR 0x0A \<notin> set (text_of (replicate n 0))" for n by (auto simp: text_of_def z)
  ultimately show ?thesis by (simp add: compact_law_def demo_prims_def)
qed

definition demo_home :: home where
  "demo_home = \<lparr> ho_policy = Absent, ho_fresh = Absent, ho_writable = True \<rparr>"

lemma demo_laws_offered:
  assumes "ed25519_law P" "node_id P 1 = 1"
  shows "\<exists>s. sign_with P demo_policy 1 None = Inr s \<and> sp_typed s
    \<and> sp_verify P s 1 = Inr () \<and> to_policy s = Inr demo_policy
    \<and> head_check_fresh (sp_head s) 500 = Inr () \<and> sp_version s = 1"
proof -
  have one: "po_fabric demo_policy = 1" by (simp add: demo_policy_def policy_new_def)
  then obtain s where s: "sign_with P demo_policy 1 None = Inr s"
    using sign_ok_iff[of P demo_policy 1 None] assms(2) by (auto simp: is_ok_iff)
  have "h_not_after (sh_head (sp_head s)) = 1000" "sp_version s = 1"
    using s by (auto simp: sign_with_Inr head_sign_Inr head_of_def demo_policy_def policy_new_def sp_version_def)
  then show ?thesis
    using s demo_typed[OF s] sign_with_verifies[OF assms(1) _ s] by (simp add: assms(2) head_check_fresh_def)
qed

lemma demo_laws_stored:
  assumes "json_law P" "hex_law P" "compact_law P" "ed25519_law P" "node_id P 1 = 1"
  shows "\<exists>s. sp_typed s \<and> sp_version s = 1 \<and> to_policy s = Inr demo_policy
    \<and> head_check_fresh (sp_head s) 500 = Inr ()
    \<and> store_read P (snd (adopt_if_newer P s 1 500 demo_home)) 1
       = Inr (Some \<lparr> hd_signed = s, hd_policy = demo_policy \<rparr>)"
proof -
  obtain s where s: "sp_typed s" "sp_verify P s 1 = Inr ()" "to_policy s = Inr demo_policy"
    "head_check_fresh (sp_head s) 500 = Inr ()" "sp_version s = 1"
    using demo_laws_offered[OF assms(4,5)] by blast
  obtain r ks where a: "adopt_if_newer P s 1 500 demo_home = (r, ks)" by fastforce
  have "r = Inr True"
    using adopt_yes[OF from_str_text(2)[of P s], of 1 500 demo_home] s a assms
    by (simp add: demo_home_def store_read_def)
  with adopt_effect[OF assms(1-3) s(1) a] obtain p where
    "store_read P ks 1 = Inr (Some \<lparr> hd_signed = s, hd_policy = p \<rparr>)" by auto
  moreover from this have "to_policy s = Inr p"
    by (auto simp: store_read_def and_then_Inr_iff map_err_Inr_iff held_verify_Inr split: disk_file.splits)
  ultimately show ?thesis using s a by auto
qed

lemma demo_prims_node [simp]: "node_id demo_prims k = k"
  by (simp add: node_id_def demo_prims_def)

lemmas demo_offered = demo_laws_offered[OF demo_prims_laws(2) demo_prims_node]
lemmas demo_stored = demo_laws_stored[OF demo_prims_laws(1,3) demo_compact demo_prims_laws(2) demo_prims_node]

section \<open>Properties\<close>

text \<open>
  C28: no rollback of the stored policy. Whatever policies are offered, by whomever and in whatever
  order, at whatever times, the stored one afterwards still reads and verifies under the root, at a
  version no lower than before; and at the same version it is the very policy that was there. It
  holds at every moment of the run, not only at its end.
\<close>

theorem store_no_rollback:
  assumes "json_law P" "hex_law P" "compact_law P"
    and "\<forall>op \<in> set ops. sp_typed (fst op)"
    and "store_read P (fold (adopt_step P root) (take i ops) ks) root = Inr (Some h)"
  shows "\<exists>h'. store_read P (fold (adopt_step P root) ops ks) root = Inr (Some h')
    \<and> held_version h \<le> held_version h' \<and> (held_version h = held_version h' \<longrightarrow> h' = h)"
  using policy_file.run_between[where P = P and root = root and ops = ops and s = ks and i = i] assms by (simp add: store_ahead_def)

theorem store_no_rollback_witness:
  "\<exists>s h. store_read demo_prims (fold (adopt_step demo_prims 1) [(s, 500), (s, 2000)] demo_home) 1 = Inr (Some h)
     \<and> 1 \<le> held_version h"
proof -
  obtain s where s: "sp_typed s" "sp_version s = 1"
    "store_read demo_prims (snd (adopt_if_newer demo_prims s 1 500 demo_home)) 1
       = Inr (Some \<lparr> hd_signed = s, hd_policy = demo_policy \<rparr>)" using demo_stored by blast
  from store_no_rollback[of demo_prims "[(s, 500), (s, 2000)]" 1 1 demo_home] s
  show ?thesis by (fastforce simp: adopt_step_def held_version_def)
qed

text \<open>
  \<open>adopt_if_newer\<close> says yes exactly to a policy that verifies under the root, is fresh now and
  is strictly newer than the stored copy (in a home that takes writes and whose stored copy, if
  any, reads); what it said yes to is what is read back; and in every other case nothing changes.
\<close>

theorem adopt_exact:
  assumes "json_law P" "hex_law P" "compact_law P" "sp_typed c"
  shows "(fst (adopt_if_newer P c root now ks) = Inr True \<longleftrightarrow>
      sp_verify P c root = Inr () \<and> head_check_fresh (sp_head c) now = Inr () \<and> ho_writable ks
      \<and> (store_read P ks root = Inr None
         \<or> (\<exists>h. store_read P ks root = Inr (Some h) \<and> sp_is_newer_than c (hd_signed h))))
    \<and> (fst (adopt_if_newer P c root now ks) = Inr True \<longrightarrow>
        (\<exists>h. store_read P (snd (adopt_if_newer P c root now ks)) root = Inr (Some h) \<and> hd_signed h = c))
    \<and> (fst (adopt_if_newer P c root now ks) \<noteq> Inr True \<longrightarrow> snd (adopt_if_newer P c root now ks) = ks)"
proof (intro conjI impI)
  obtain r ks' where a: "adopt_if_newer P c root now ks = (r, ks')" by fastforce
  note e = adopt_effect[OF assms a]
  show "fst (adopt_if_newer P c root now ks) = Inr True \<longleftrightarrow>
      sp_verify P c root = Inr () \<and> head_check_fresh (sp_head c) now = Inr () \<and> ho_writable ks
      \<and> (store_read P ks root = Inr None
         \<or> (\<exists>h. store_read P ks root = Inr (Some h) \<and> sp_is_newer_than c (hd_signed h)))"
    using from_str_text(2)[OF assms] by (rule adopt_yes)
  show "fst (adopt_if_newer P c root now ks) = Inr True \<Longrightarrow>
      \<exists>h. store_read P (snd (adopt_if_newer P c root now ks)) root = Inr (Some h) \<and> hd_signed h = c"
    using e by (auto simp: a)
  show "fst (adopt_if_newer P c root now ks) \<noteq> Inr True \<Longrightarrow> snd (adopt_if_newer P c root now ks) = ks"
    using e by (auto simp: a)
qed

theorem adopt_exact_witness:
  "\<exists>s. fst (adopt_if_newer demo_prims s 1 500 demo_home) = Inr True"
proof -
  obtain s where "sp_typed s" "sp_verify demo_prims s 1 = Inr ()" "head_check_fresh (sp_head s) 500 = Inr ()"
    using demo_offered by blast
  with adopt_exact[of demo_prims s 1 500 demo_home] show ?thesis
    by (auto simp: demo_home_def store_read_def)
qed

end
