(* ===== verification/Push_Queue.thy ===== *)
theory Push_Queue
  imports Inbox_Frames Policy_Store "HOL-Library.Multiset"
begin

text \<open>
  The queue of \<open>wires/host/push.rs\<close>: messages a host holds for recipients that were not listening,
  one FIFO per recipient, bounded, oldest dropped first. Its file is its JSON. The lemmas say that
  every operation keeps \<open>queue_ok\<close> and accounts for every entry: what goes in stays in or is handed
  back.
\<close>

definition queue_per_recipient :: nat where "queue_per_recipient = 64"

record queue_entry =
  qe_message :: push_message
  qe_principal :: "principal option"
  qe_role :: "string option"

type_synonym queue = "(node_id, queue_entry list) btree_map"

section \<open>Operations\<close>

definition queue_of :: "queue \<Rightarrow> node_id \<Rightarrow> queue_entry list" where
  "queue_of q to = (case bm_get q to of None \<Rightarrow> [] | Some es \<Rightarrow> es)"

definition queue_insert :: "queue_entry \<Rightarrow> nat \<Rightarrow> queue \<Rightarrow> queue_entry option \<times> queue" where
  "queue_insert e cap q =
     (let to = pm_to (qe_message e); es = queue_of q to @ [e] in
      if length es > cap then (Some (hd es), bm_put to (tl es) q) else (None, bm_put to es q))"

definition queue_pending :: "queue \<Rightarrow> node_id \<Rightarrow> i64 \<Rightarrow> nat \<Rightarrow> push_message list" where
  "queue_pending q to now_ms most =
     map qe_message (take most (filter (\<lambda>e. \<not> is_expired (qe_message e) now_ms) (queue_of q to)))"

definition queue_remove :: "node_id \<Rightarrow> push_id list \<Rightarrow> queue \<Rightarrow> queue_entry list \<times> queue" where
  "queue_remove to ids q = (case bm_get q to of
     None \<Rightarrow> ([], q)
   | Some es \<Rightarrow>
       let gone = filter (\<lambda>e. pm_id (qe_message e) \<in> set ids) es;
           kept = filter (\<lambda>e. pm_id (qe_message e) \<notin> set ids) es
       in (gone, if kept = [] then bm_del to q else bm_put to kept q))"

definition queue_expire :: "i64 \<Rightarrow> queue \<Rightarrow> queue_entry list \<times> queue" where
  "queue_expire now_ms q =
     (concat (map (\<lambda>(_, es). filter (\<lambda>e. is_expired (qe_message e) now_ms) es) q),
      bm_retain (\<lambda>_ es. es \<noteq> []) (bm_map (\<lambda>_ es. filter (\<lambda>e. \<not> is_expired (qe_message e) now_ms) es) q))"

definition queue_purge :: "node_id \<Rightarrow> queue \<Rightarrow> queue_entry list \<times> queue" where
  "queue_purge to q = (queue_of q to, bm_del to q)"

definition queue_holds :: "queue \<Rightarrow> node_id \<Rightarrow> push_id \<Rightarrow> bool" where
  "queue_holds q to i = list_ex (\<lambda>e. pm_id (qe_message e) = i) (queue_of q to)"

section \<open>Its file\<close>

definition j_principal :: "principal \<Rightarrow> json" where
  "j_principal p = obj [
     (''issuer'', Some (JStr (pr_issuer p))), (''subject'', Some (JStr (pr_subject p))),
     (''email'', map_option JStr (pr_email p)), (''org'', map_option JStr (pr_org p)),
     (''groups'', if pr_groups p = [] then None else Some (j_list JStr (pr_groups p))),
     (''not_after'', Some (JInt (pr_not_after p)))]"

definition d_principal :: "json \<Rightarrow> principal option" where
  "d_principal j = do {
     fs \<leftarrow> struct_fields [''issuer'', ''subject'', ''email'', ''org'', ''groups'', ''not_after''] 6 False j;
     i \<leftarrow> req fs ''issuer'' d_str;
     s \<leftarrow> req fs ''subject'' d_str;
     e \<leftarrow> opt_field fs ''email'' d_str;
     g \<leftarrow> opt_field fs ''org'' d_str;
     gs \<leftarrow> default_field fs ''groups'' [] (d_list d_str);
     n \<leftarrow> req fs ''not_after'' d_i64;
     Some \<lparr> pr_issuer = i, pr_subject = s, pr_email = e, pr_org = g, pr_groups = gs, pr_not_after = n \<rparr>
   }"

definition j_queue_entry :: "prims \<Rightarrow> queue_entry \<Rightarrow> json" where
  "j_queue_entry P e = obj [(''message'', Some (j_push_message P (qe_message e))),
     (''principal'', map_option j_principal (qe_principal e)), (''role'', map_option JStr (qe_role e))]"

definition d_queue_entry :: "prims \<Rightarrow> json \<Rightarrow> queue_entry option" where
  "d_queue_entry P j = do {
     fs \<leftarrow> struct_fields [''message'', ''principal'', ''role''] 1 False j;
     m \<leftarrow> req fs ''message'' (d_push_message P);
     p \<leftarrow> opt_field fs ''principal'' d_principal;
     r \<leftarrow> opt_field fs ''role'' d_str;
     Some \<lparr> qe_message = m, qe_principal = p, qe_role = r \<rparr>
   }"

definition j_queue :: "prims \<Rightarrow> queue \<Rightarrow> json" where
  "j_queue P q = obj [(''by_recipient'', Some (j_map (hex_of P) (j_list (j_queue_entry P)) q))]"

definition d_queue :: "prims \<Rightarrow> json \<Rightarrow> queue option" where
  "d_queue P j = do {
     fs \<leftarrow> struct_fields [''by_recipient''] 1 False j;
     req fs ''by_recipient'' (d_map (\<lambda>k. d_id P (JStr k)) (d_list (d_queue_entry P)))
   }"

text \<open>\<open>persisted_queue\<close>: a host that starts reads the file; what it cannot read it ignores.\<close>

definition persisted_queue :: "prims \<Rightarrow> disk_file \<Rightarrow> queue" where
  "persisted_queue P f = (case f of
     Text text \<Rightarrow> (case from_str P (d_queue P) text of Inr q \<Rightarrow> q | Inl _ \<Rightarrow> [])
   | _ \<Rightarrow> [])"

section \<open>Laws\<close>

definition queue_ok :: "nat \<Rightarrow> queue \<Rightarrow> bool" where
  "queue_ok cap q \<longleftrightarrow> bm_ok q \<and> (\<forall>to es. bm_get q to = Some es \<longrightarrow>
     es \<noteq> [] \<and> length es \<le> cap \<and> (\<forall>e \<in> set es. pm_to (qe_message e) = to))"

definition entries :: "queue \<Rightarrow> queue_entry multiset" where
  "entries q = mset (concat (map snd q))"

lemma queue_ok_empty [simp]: "queue_ok cap []"
  by (simp add: queue_ok_def)

lemma entries_Nil [simp]: "entries [] = {#}"
  by (simp add: entries_def)

lemma entries_Cons [simp]: "entries ((k, es) # q) = mset es + entries q"
  by (simp add: entries_def)

lemma queue_of_Cons: "queue_of ((k, es) # q) to = (if to = k then es else queue_of q to)"
  by (simp add: queue_of_def)

lemma queue_of_absent: "to \<notin> fst ` set q \<Longrightarrow> queue_of q to = []"
  by (simp add: queue_of_def flip: map_of_eq_None_iff)

lemma entries_put: "bm_ok q \<Longrightarrow> entries (bm_put to es q) + mset (queue_of q to) = entries q + mset es"
proof (induction to es q rule: bm_put.induct)
  case (2 k v k' v' m)
  have "k < k' \<Longrightarrow> k \<notin> fst ` set m" using 2(2) by auto
  then show ?case using 2 queue_of_absent[of k m] by (auto simp: queue_of_Cons ac_simps)
qed (simp add: queue_of_def)

lemma entries_del: "bm_ok q \<Longrightarrow> entries (bm_del to q) + mset (queue_of q to) = entries q"
proof (induction q)
  case (Cons kv q)
  obtain k es where kv: "kv = (k, es)" by fastforce
  have "k \<notin> fst ` set q" using Cons.prems kv by auto
  then have "k = to \<Longrightarrow> bm_del to q = q \<and> queue_of q to = []"
    using queue_of_absent[of to q] by (auto simp: bm_del_def filter_id_conv)
  with Cons kv show ?case by (auto simp: queue_of_Cons bm_del_def ac_simps)
qed (simp add: queue_of_def bm_del_def)

lemma queue_ok_of:
  "queue_ok cap q \<Longrightarrow> length (queue_of q to) \<le> cap \<and> (\<forall>e \<in> set (queue_of q to). pm_to (qe_message e) = to)"
  by (auto simp: queue_ok_def queue_of_def split: option.splits)

lemma queue_ok_put:
  assumes "queue_ok cap q" "es \<noteq> []" "length es \<le> cap" "\<forall>e \<in> set es. pm_to (qe_message e) = to"
  shows "queue_ok cap (bm_put to es q)"
  using assms by (auto simp: queue_ok_def bm.get_put split: if_splits)

lemma queue_ok_del: "queue_ok cap q \<Longrightarrow> queue_ok cap (bm_del to q)"
  by (auto simp: queue_ok_def split: if_splits)

lemma queue_of_put [simp]: "bm_ok q \<Longrightarrow> queue_of (bm_put k es q) to = (if to = k then es else queue_of q to)"
  by (simp add: queue_of_def bm.get_put)

lemma queue_of_del [simp]: "queue_of (bm_del k q) to = (if to = k then [] else queue_of q to)"
  by (simp add: queue_of_def)

lemma queue_insert_law:
  assumes ok: "queue_ok cap q" and cap: "0 < cap" and i: "queue_insert e cap q = (d, q')"
  shows "queue_ok cap q' \<and> entries q' + (case d of None \<Rightarrow> {#} | Some x \<Rightarrow> {#x#}) = add_mset e (entries q)
    \<and> (\<forall>to. (case d of None \<Rightarrow> [] | Some x \<Rightarrow> if to = pm_to (qe_message e) then [x] else []) @ queue_of q' to
          = queue_of q to @ (if to = pm_to (qe_message e) then [e] else []))"
proof -
  let ?to = "pm_to (qe_message e)"
  have b: "bm_ok q" using ok by (simp add: queue_ok_def)
  note o = queue_ok_of[OF ok, of ?to]
  show ?thesis
  proof (cases "length (queue_of q ?to @ [e]) > cap")
    case True
    then obtain x xs where old: "queue_of q ?to = x # xs" using cap by (cases "queue_of q ?to") auto
    have r: "d = Some x" "q' = bm_put ?to (xs @ [e]) q"
      using i True by (simp_all add: queue_insert_def Let_def old)
    have "queue_ok cap q'" unfolding r using o ok by (intro queue_ok_put) (simp_all add: old)
    moreover have "(entries q' + {#x#}) + mset xs = add_mset e (entries q) + mset xs"
      using entries_put[OF b, of ?to "xs @ [e]"] by (simp add: r old ac_simps)
    ultimately show ?thesis using b by (simp add: r old)
  next
    case False
    then have r: "d = None" "q' = bm_put ?to (queue_of q ?to @ [e]) q"
      using i by (auto simp: queue_insert_def Let_def)
    have "queue_ok cap q'" unfolding r using o ok False by (intro queue_ok_put) auto
    moreover have "entries q' + mset (queue_of q ?to) = add_mset e (entries q) + mset (queue_of q ?to)"
      using entries_put[OF b, of ?to "queue_of q ?to @ [e]"] by (simp add: r ac_simps)
    ultimately show ?thesis using b by (simp add: r)
  qed
qed

lemma mset_split: "mset (filter p xs) + mset (filter (\<lambda>x. \<not> p x) xs) = mset xs"
  by (induction xs) auto

lemma queue_remove_law:
  assumes ok: "queue_ok cap q" and i: "queue_remove to ids q = (gone, q')"
  shows "queue_ok cap q' \<and> entries q' + mset gone = entries q
    \<and> gone = filter (\<lambda>e. pm_id (qe_message e) \<in> set ids) (queue_of q to)
    \<and> (\<forall>k. queue_of q' k = (if k = to then filter (\<lambda>e. pm_id (qe_message e) \<notin> set ids) (queue_of q to)
                            else queue_of q k))"
proof (cases "bm_get q to")
  case None
  then show ?thesis using i ok by (auto simp: queue_remove_def queue_of_def)
next
  case (Some es)
  let ?gone = "filter (\<lambda>e. pm_id (qe_message e) \<in> set ids) es"
  let ?kept = "filter (\<lambda>e. pm_id (qe_message e) \<notin> set ids) es"
  have b: "bm_ok q" and es: "queue_of q to = es" using ok Some by (simp_all add: queue_ok_def queue_of_def)
  have r: "gone = ?gone" "q' = (if ?kept = [] then bm_del to q else bm_put to ?kept q)"
    using i Some by (auto simp: queue_remove_def Let_def)
  note o = queue_ok_of[OF ok, of to]
  have len: "length ?kept \<le> cap" by (rule order_trans[OF length_filter_le]) (use o es in simp)
  then have okq: "queue_ok cap q'"
    unfolding r using o ok by (auto simp: es intro!: queue_ok_put queue_ok_del)
  have ms: "mset ?gone + mset ?kept = mset es" by (rule mset_split)
  have "entries q' + mset es = entries q + mset ?kept"
  proof (cases "?kept = []")
    case True
    then have "q' = bm_del to q" unfolding r by (rule if_P)
    then show ?thesis using entries_del[OF b, of to] by (simp only: True es) simp
  next
    case False
    then have "q' = bm_put to ?kept q" unfolding r by (rule if_not_P)
    then show ?thesis using entries_put[OF b, of to ?kept] by (simp only: es)
  qed
  then have "(entries q' + mset ?gone) + mset ?kept = entries q + mset ?kept"
    by (simp add: ms add.assoc)
  then show ?thesis using okq b by (simp add: r es)
qed

lemma queue_purge_law:
  assumes ok: "queue_ok cap q" and i: "queue_purge to q = (gone, q')"
  shows "queue_ok cap q' \<and> entries q' + mset gone = entries q \<and> gone = queue_of q to
    \<and> (\<forall>k. queue_of q' k = (if k = to then [] else queue_of q k))"
proof -
  have "bm_ok q" using ok by (simp add: queue_ok_def)
  then show ?thesis using i entries_del[of q to] queue_ok_del[OF ok, of to] by (auto simp: queue_purge_def)
qed

lemma entries_expire: "entries (bm_retain (\<lambda>_ es. es \<noteq> []) (bm_map (\<lambda>_ es. filter (\<lambda>e. \<not> x e) es) q))
    + mset (concat (map (\<lambda>(_, es). filter x es) q)) = entries q"
proof (induction q)
  case (Cons kv q)
  obtain k es where "kv = (k, es)" by fastforce
  then show ?case
    using Cons mset_split[of x es]
    by (cases "filter (\<lambda>e. \<not> x e) es = []")
      (auto simp: bm_map_def bm_retain_def ac_simps simp flip: add.assoc)
qed (simp add: bm_map_def bm_retain_def)

lemma queue_expire_law:
  assumes ok: "queue_ok cap q" and i: "queue_expire now q = (gone, q')"
  shows "queue_ok cap q' \<and> entries q' + mset gone = entries q
    \<and> (\<forall>e \<in> set gone. is_expired (qe_message e) now)
    \<and> (\<forall>to. queue_of q' to = filter (\<lambda>e. \<not> is_expired (qe_message e) now) (queue_of q to))"
proof -
  have b: "bm_ok q" using ok by (simp add: queue_ok_def)
  have r: "q' = bm_retain (\<lambda>_ es. es \<noteq> []) (bm_map (\<lambda>_ es. filter (\<lambda>e. \<not> is_expired (qe_message e) now) es) q)"
    "gone = concat (map (\<lambda>(_, es). filter (\<lambda>e. is_expired (qe_message e) now) es) q)"
    using i by (simp_all add: queue_expire_def)
  have get: "bm_get q' to = (case bm_get q to of None \<Rightarrow> None | Some es \<Rightarrow>
      let kept = filter (\<lambda>e. \<not> is_expired (qe_message e) now) es in if kept = [] then None else Some kept)" for to
    using b by (auto simp: r Let_def split: option.splits)
  have "queue_ok cap q'"
    unfolding queue_ok_def
  proof (intro conjI allI impI)
    show "bm_ok q'" using b by (simp add: r)
    fix to es assume "bm_get q' to = Some es"
    then obtain es0 where es: "bm_get q to = Some es0" "es \<noteq> []"
        "es = filter (\<lambda>e. \<not> is_expired (qe_message e) now) es0"
      by (auto simp: get Let_def split: option.splits if_splits)
    then have "length es \<le> length es0" "length es0 \<le> cap" "\<forall>e \<in> set es0. pm_to (qe_message e) = to"
      using ok by (auto simp: queue_ok_def)
    then have "length es \<le> cap" by (metis order_trans)
    with es \<open>\<forall>e \<in> set es0. pm_to (qe_message e) = to\<close>
    show "es \<noteq> []" "length es \<le> cap" "\<forall>e \<in> set es. pm_to (qe_message e) = to" by simp_all
  qed
  moreover have "queue_of q' to = filter (\<lambda>e. \<not> is_expired (qe_message e) now) (queue_of q to)" for to
    by (simp add: queue_of_def get Let_def split: option.split)
  ultimately show ?thesis using entries_expire[of "\<lambda>e. is_expired (qe_message e) now" q] by (auto simp: r)
qed

section \<open>The file reads back\<close>

interpretation principal_json: json_type j_principal d_principal "\<lambda>p. in_i64 (pr_not_after p)"
proof
  fix p :: principal
  assume ok: "in_i64 (pr_not_after p)"
  note parts = i64_json.decode_encode[OF ok] str_json.list_decode[of "pr_groups p"]
  show "d_principal (j_principal p) = Some p"
    by (cases p; cases "pr_email p"; cases "pr_org p"; cases "pr_groups p = []")
      (use parts in \<open>simp_all add: d_principal_def j_principal_def json_simps req_def opt_field_def default_field_def
        d_str_def\<close>)
  show "json_ok (j_principal p)"
    using ok str_json.list_canonical[of "pr_groups p"]
    by (auto simp: j_principal_def json_simps split: option.splits)
qed

definition queue_entry_ok :: "queue_entry \<Rightarrow> bool" where
  "queue_entry_ok e \<longleftrightarrow> push_message_ok (qe_message e)
     \<and> (\<forall>p. qe_principal e = Some p \<longrightarrow> in_i64 (pr_not_after p))"

interpretation queue_entry_json: json_type "j_queue_entry P" "d_queue_entry P" "\<lambda>e. hex_law P \<and> queue_entry_ok e"
  for P
proof
  fix e :: queue_entry
  assume ok: "hex_law P \<and> queue_entry_ok e"
  have p: "d_principal (j_principal p) = Some p \<and> j_principal p \<noteq> JNull" if "qe_principal e = Some p" for p
    using ok that principal_json.decode_encode[of p] by (auto simp: queue_entry_ok_def j_principal_def obj_def)
  have m: "d_push_message P (j_push_message P (qe_message e)) = Some (qe_message e)"
    using ok push_message_json.decode_encode[of P "qe_message e"] by (simp add: queue_entry_ok_def)
  show "d_queue_entry P (j_queue_entry P e) = Some e"
    by (cases e; cases "qe_principal e"; cases "qe_role e")
      (use m p in \<open>auto simp: d_queue_entry_def j_queue_entry_def json_simps req_def opt_field_def d_str_def
        split: json.split\<close>)
  show "json_ok (j_queue_entry P e)"
    using ok push_message_json.encode_canonical[of P "qe_message e"] principal_json.encode_canonical
    by (auto simp: j_queue_entry_def json_simps queue_entry_ok_def split: option.splits)
qed

interpretation entry_list_json: json_type "j_list (j_queue_entry P)" "d_list (d_queue_entry P)"
    "\<lambda>es. \<forall>e \<in> set es. hex_law P \<and> queue_entry_ok e"
  for P
  by unfold_locales (simp_all only: queue_entry_json.list_decode queue_entry_json.list_canonical)

interpretation queue_json: json_type "j_queue P" "d_queue P"
    "\<lambda>q. hex_law P \<and> bm_ok q \<and> (\<forall>e \<in># entries q. queue_entry_ok e)"
  for P
proof
  fix q :: queue
  assume ok: "hex_law P \<and> bm_ok q \<and> (\<forall>e \<in># entries q. queue_entry_ok e)"
  then have key: "d_id P (JStr (hex_of P k)) = Some k" for k
    using id_json.decode_encode[of P k] by (simp add: j_id_def)
  have vals: "\<forall>es \<in> snd ` set q. \<forall>e \<in> set es. hex_law P \<and> queue_entry_ok e"
    using ok by (auto simp: entries_def)
  show "d_queue P (j_queue P q) = Some q"
    using entry_list_json.map_decode[where key = "hex_of P" and of_key = "\<lambda>k. d_id P (JStr k)", OF key _ vals] ok
    by (simp add: d_queue_def j_queue_def json_simps req_def)
  show "json_ok (j_queue P q)"
    using entry_list_json.map_canonical[where key = "hex_of P" and of_key = "\<lambda>k. d_id P (JStr k)", OF key _ vals] ok
    by (simp add: j_queue_def json_simps)
qed

lemma persisted_saved:
  assumes "json_law P" "hex_law P" "compact_law P" "bm_ok q" "\<forall>e \<in># entries q. queue_entry_ok e"
  shows "persisted_queue P (Text (json_text P (j_queue P q))) = q"
  using assms queue_json.encode_canonical[of P q] queue_json.from_slice_canonical[of P P q]
  by (simp add: persisted_queue_def from_str_def json_text_def compact_law_def canonical_bytes_def)

end
