(* ===== verification/Host_Config.thy ===== *)
theory Host_Config
  imports Policy_Store
begin

text \<open>
  \<open>wires/host/config.rs\<close>: \<open>host.json\<close>, how a host implements the services the policy assigns to
  it. The lemmas say what a file that parses guarantees, that it can only narrow whom the policy
  trusts, and what \<open>check_against\<close> accepts. \<open>IdpTrust\<close> is \<open>wires/host/identity.rs\<close>'s.
\<close>

definition host_config_version :: u32 where "host_config_version = 2"

record service_impl =
  si_command :: "string list"
  si_cwd :: "string option"
  si_env :: "(string, string) btree_map"
  si_also_require :: "role_name list"
  si_end_of_options :: bool

record trusted_issuer =
  ti_issuer :: string
  ti_audiences :: "string list"

type_synonym identity_config = "trusted_issuer list"
type_synonym push_rule = "role_name list"

record host_config =
  hc_version :: u32
  hc_identity :: "identity_config option"
  hc_services :: "(service_name, service_impl) btree_map"
  hc_push :: "push_rule option"

datatype config_error =
    Cfg_json
  | Cfg_version u32
  | Cfg_no_version
  | Cfg_no_services
  | Cfg_issuer_empty
  | Cfg_issuer_twice string
  | Cfg_audience_empty string
  | Cfg_command_empty service_name
  | Cfg_cwd_empty service_name
  | Cfg_env_name service_name string
  | Cfg_env_reserved service_name string
  | Cfg_no_such_service service_name
  | Cfg_not_assigned service_name
  | Cfg_require_undefined service_name role_name
  | Cfg_push_undefined role_name

section \<open>Running a service\<close>

definition si_argv :: "service_impl \<Rightarrow> string list \<Rightarrow> (string \<times> string list) option" where
  "si_argv s caller = (case si_command s of
     [] \<Rightarrow> None
   | program # fixed \<Rightarrow>
       Some (program, fixed @ (if si_end_of_options s then [''--''] else []) @ caller))"

section \<open>Parsing\<close>

definition d_service_impl :: "json \<Rightarrow> service_impl option" where
  "d_service_impl j = do {
     fs \<leftarrow> struct_fields [''command'', ''cwd'', ''env'', ''also_require'', ''end_of_options''] 2 True j;
     c \<leftarrow> req fs ''command'' (d_list d_str);
     w \<leftarrow> opt_field fs ''cwd'' d_str;
     e \<leftarrow> default_field fs ''env'' [] (d_map Some d_str);
     a \<leftarrow> default_field fs ''also_require'' [] (d_list d_role_name);
     o' \<leftarrow> default_field fs ''end_of_options'' False d_bool;
     Some \<lparr> si_command = c, si_cwd = w, si_env = e, si_also_require = a, si_end_of_options = o' \<rparr>
   }"

definition d_trusted_issuer :: "json \<Rightarrow> trusted_issuer option" where
  "d_trusted_issuer j = do {
     fs \<leftarrow> struct_fields [''issuer'', ''audiences''] 1 True j;
     i \<leftarrow> req fs ''issuer'' d_str;
     a \<leftarrow> default_field fs ''audiences'' [] (d_list d_str);
     Some \<lparr> ti_issuer = i, ti_audiences = a \<rparr>
   }"

definition d_identity_config :: "json \<Rightarrow> identity_config option" where
  "d_identity_config j = do {
     fs \<leftarrow> struct_fields [''issuers''] 0 True j;
     default_field fs ''issuers'' [] (d_list d_trusted_issuer)
   }"

definition d_push_rule :: "json \<Rightarrow> push_rule option" where
  "d_push_rule j = do {
     fs \<leftarrow> struct_fields [''allow''] 0 True j;
     default_field fs ''allow'' [] (d_list d_role_name)
   }"

definition d_host_config :: "json \<Rightarrow> host_config option" where
  "d_host_config j = do {
     fs \<leftarrow> struct_fields [''version'', ''identity'', ''services'', ''push''] 4 True j;
     v \<leftarrow> req fs ''version'' d_u32;
     i \<leftarrow> opt_field fs ''identity'' d_identity_config;
     s \<leftarrow> req fs ''services'' (d_map (\<lambda>k. res_ok (service_name_new k)) d_service_impl);
     p \<leftarrow> opt_field fs ''push'' d_push_rule;
     Some \<lparr> hc_version = v, hc_identity = i, hc_services = s, hc_push = p \<rparr>
   }"

definition d_peek :: "json \<Rightarrow> u32 option option" where
  "d_peek j = do { fs \<leftarrow> struct_fields [''version''] 1 False j; opt_field fs ''version'' d_u32 }"

definition hc_parse_schema :: "prims \<Rightarrow> string \<Rightarrow> config_error + host_config" where
  "hc_parse_schema P text =
     and_then (map_err (\<lambda>_. Cfg_json) (from_str P d_peek text)) (\<lambda>v. case v of
       None \<Rightarrow> Inl Cfg_no_version
     | Some v \<Rightarrow> if v \<noteq> host_config_version then Inl (Cfg_version v)
         else map_err (\<lambda>_. Cfg_json) (from_str P d_host_config text))"

fun check_issuers :: "string list \<Rightarrow> trusted_issuer list \<Rightarrow> config_error + unit" where
  "check_issuers seen [] = Inr ()"
| "check_issuers seen (t # ts) =
     (let iss = ti_issuer t in
      if trim iss = [] then Inl Cfg_issuer_empty
      else if iss \<in> set seen then Inl (Cfg_issuer_twice iss)
      else if list_ex (\<lambda>a. trim a = []) (ti_audiences t) then Inl (Cfg_audience_empty iss)
      else check_issuers (seen @ [iss]) ts)"

definition check_env_name :: "service_name \<Rightarrow> string \<Rightarrow> config_error + unit" where
  "check_env_name name key =
     (if key = [] \<or> CHR ''='' \<in> set key \<or> CHR 0x00 \<in> set key then Inl (Cfg_env_name name key)
      else if prefix ''WIRES_'' key then Inl (Cfg_env_reserved name key)
      else Inr ())"

definition check_service_impl :: "service_name \<times> service_impl \<Rightarrow> config_error + unit" where
  "check_service_impl = (\<lambda>(name, svc).
     if si_command svc = [] then Inl (Cfg_command_empty name)
     else if si_cwd svc = Some [] then Inl (Cfg_cwd_empty name)
     else all_ok (check_env_name name) (map fst (si_env svc)))"

definition hc_validate_fields :: "host_config \<Rightarrow> config_error + unit" where
  "hc_validate_fields c =
     and_then (check_issuers [] (case hc_identity c of None \<Rightarrow> [] | Some i \<Rightarrow> i)) (\<lambda>_.
       all_ok check_service_impl (hc_services c))"

definition hc_validate :: "host_config \<Rightarrow> config_error + unit" where
  "hc_validate c = (if hc_services c = [] then Inl Cfg_no_services else hc_validate_fields c)"

definition hc_parse :: "prims \<Rightarrow> string \<Rightarrow> config_error + host_config" where
  "hc_parse P text = and_then (hc_parse_schema P text) (\<lambda>c. and_then (hc_validate c) (\<lambda>_. Inr c))"

definition hc_parse_embedded :: "prims \<Rightarrow> string \<Rightarrow> config_error + host_config" where
  "hc_parse_embedded P text =
     and_then (hc_parse_schema P text) (\<lambda>c. and_then (hc_validate_fields c) (\<lambda>_. Inr c))"

section \<open>Which IdPs a host trusts\<close>

type_synonym idp_trust = "(issuer \<times> audience list) list"

definition trust_issuers :: "idp_trust \<Rightarrow> issuer list" where
  "trust_issuers t = map fst t"

definition audiences_for :: "idp_trust \<Rightarrow> issuer \<Rightarrow> audience list" where
  "audiences_for t iss = (case List.find (\<lambda>e. fst e = iss) t of None \<Rightarrow> [] | Some e \<Rightarrow> snd e)"

definition audiences_for_claim :: "prims \<Rightarrow> idp_trust \<Rightarrow> identity_claim \<Rightarrow> audience list" where
  "audiences_for_claim P t c = (case unverified_issuer P (ic_token c) of
     Inr iss \<Rightarrow> audiences_for t iss | Inl _ \<Rightarrow> [])"

definition hc_trust :: "host_config \<Rightarrow> policy \<Rightarrow> idp_trust" where
  "hc_trust c p =
     (let trusted = map (\<lambda>(iss, cfg). (iss, ic_audiences cfg)) (po_issuers p) in
      case hc_identity c of
        None \<Rightarrow> trusted
      | Some identity \<Rightarrow> List.map_filter (\<lambda>(iss, audiences).
          map_option (\<lambda>local. (iss,
              if ti_audiences local = [] then audiences
              else filter (\<lambda>a. list_ex (\<lambda>l. l = a) (ti_audiences local)) audiences))
            (List.find (\<lambda>t. ti_issuer t = iss) identity)) trusted)"

section \<open>Against the signed policy\<close>

definition hc_check_against :: "host_config \<Rightarrow> policy \<Rightarrow> node_id \<Rightarrow> config_error + unit" where
  "hc_check_against c p me =
     (let undefined_role = (\<lambda>r. \<not> bm_has (po_roles p) r) in
      and_then (all_ok (\<lambda>name.
          if policy_service p name = None then Inl (Cfg_no_such_service name)
          else if \<not> assigns p name me then Inl (Cfg_not_assigned name)
          else Inr ()) (map fst (hc_services c))) (\<lambda>_.
      and_then (all_ok (\<lambda>(name, svc). case List.find undefined_role (si_also_require svc) of
          Some r \<Rightarrow> Inl (Cfg_require_undefined name r) | None \<Rightarrow> Inr ()) (hc_services c)) (\<lambda>_.
      case List.find undefined_role (case hc_push c of None \<Rightarrow> [] | Some a \<Rightarrow> a) of
        Some r \<Rightarrow> Inl (Cfg_push_undefined r) | None \<Rightarrow> Inr ())))"

section \<open>Laws\<close>

lemma check_issuers_Inr: "check_issuers seen ts = Inr () \<longleftrightarrow>
    distinct (map ti_issuer ts) \<and> set (map ti_issuer ts) \<inter> set seen = {}
    \<and> (\<forall>t \<in> set ts. trim (ti_issuer t) \<noteq> [] \<and> (\<forall>a \<in> set (ti_audiences t). trim a \<noteq> []))"
  by (induction ts arbitrary: seen) (auto simp: Let_def list_ex_iff)

lemma check_service_impl_Inr: "check_service_impl (name, svc) = Inr () \<longleftrightarrow>
    si_command svc \<noteq> [] \<and> si_cwd svc \<noteq> Some []
    \<and> (\<forall>k \<in> fst ` set (si_env svc). k \<noteq> [] \<and> CHR ''='' \<notin> set k \<and> CHR 0x00 \<notin> set k \<and> \<not> prefix ''WIRES_'' k)"
  by (auto simp: check_service_impl_def all_ok_Inr_iff check_env_name_def)

lemma hc_validate_fields_Inr: "hc_validate_fields c = Inr () \<longleftrightarrow>
    check_issuers [] (case hc_identity c of None \<Rightarrow> [] | Some i \<Rightarrow> i) = Inr ()
    \<and> (\<forall>(name, svc) \<in> set (hc_services c). check_service_impl (name, svc) = Inr ())"
  by (auto simp: hc_validate_fields_def and_then_Inr_iff all_ok_Inr_iff)

lemma map_filter_mem: "y \<in> set (List.map_filter f xs) \<longleftrightarrow> (\<exists>x \<in> set xs. f x = Some y)"
  by (induction xs) (auto simp: List.map_filter_simps split: option.splits)

lemma hc_trust_mem:
  assumes "(iss, auds) \<in> set (hc_trust c p)"
  shows "\<exists>cfg. (iss, cfg) \<in> set (po_issuers p) \<and> set auds \<subseteq> set (ic_audiences cfg)
    \<and> (\<forall>i. hc_identity c = Some i \<longrightarrow> (\<exists>t \<in> set i. ti_issuer t = iss
        \<and> (ti_audiences t \<noteq> [] \<longrightarrow> set auds \<subseteq> set (ti_audiences t))))"
proof (cases "hc_identity c")
  case None
  then show ?thesis using assms by (auto simp: hc_trust_def)
next
  case (Some i)
  then obtain cfg t where t: "(iss, cfg) \<in> set (po_issuers p)" "List.find (\<lambda>t. ti_issuer t = iss) i = Some t"
    "auds = (if ti_audiences t = [] then ic_audiences cfg
       else filter (\<lambda>a. list_ex (\<lambda>l. l = a) (ti_audiences t)) (ic_audiences cfg))"
    using assms by (auto simp: hc_trust_def Let_def map_filter_mem)
  then show ?thesis
    using find_SomeD[OF t(2)] Some by (intro exI[of _ cfg]) (auto simp: list_ex_iff)
qed

lemma find_None_all: "List.find q xs = None \<longleftrightarrow> (\<forall>x \<in> set xs. \<not> q x)"
  by (auto simp: find_None_iff)

section \<open>Properties\<close>

text \<open>
  a host can only narrow whom the network trusts. Every issuer and audience a host accepts
  tokens from is one the signed policy trusts (and, when \<open>host.json\<close> narrows, also one it lists);
  with no \<open>identity\<close> in it, the policy's exactly.
\<close>

theorem trust_narrows:
  "(\<forall>iss \<in> set (trust_issuers (hc_trust c p)). \<exists>cfg. (iss, cfg) \<in> set (po_issuers p)
      \<and> (\<forall>i. hc_identity c = Some i \<longrightarrow> (\<exists>t \<in> set i. ti_issuer t = iss)))
   \<and> (\<forall>iss a. a \<in> set (audiences_for (hc_trust c p) iss) \<longrightarrow>
        (\<exists>cfg. (iss, cfg) \<in> set (po_issuers p) \<and> a \<in> set (ic_audiences cfg)))
   \<and> (hc_identity c = None \<longrightarrow> hc_trust c p = map (\<lambda>(iss, cfg). (iss, ic_audiences cfg)) (po_issuers p))"
proof (intro conjI ballI allI impI)
  fix iss assume "iss \<in> set (trust_issuers (hc_trust c p))"
  then show "\<exists>cfg. (iss, cfg) \<in> set (po_issuers p)
      \<and> (\<forall>i. hc_identity c = Some i \<longrightarrow> (\<exists>t \<in> set i. ti_issuer t = iss))"
    by (force simp: trust_issuers_def dest: hc_trust_mem)
next
  fix iss a assume "a \<in> set (audiences_for (hc_trust c p) iss)"
  then obtain auds where "(iss, auds) \<in> set (hc_trust c p)" "a \<in> set auds"
    using find_SomeD[of "\<lambda>e. fst e = iss" "hc_trust c p"]
    by (cases "List.find (\<lambda>e. fst e = iss) (hc_trust c p)") (auto simp: audiences_for_def)
  then show "\<exists>cfg. (iss, cfg) \<in> set (po_issuers p) \<and> a \<in> set (ic_audiences cfg)"
    using hc_trust_mem by blast
qed (simp add: hc_trust_def)

definition demo_config :: host_config where
  "demo_config = \<lparr> hc_version = 2, hc_identity = Some [\<lparr> ti_issuer = ''https://idp'', ti_audiences = [] \<rparr>],
     hc_services = [(''status'', \<lparr> si_command = [''uptime''], si_cwd = None, si_env = [(''LC_ALL'', ''C'')],
       si_also_require = [''staff''], si_end_of_options = True \<rparr>)], hc_push = Some [''staff''] \<rparr>"

theorem trust_narrows_witness:
  "\<exists>cfg. (''https://idp'', cfg) \<in> set (po_issuers demo_policy)"
proof -
  have "''https://idp'' \<in> set (trust_issuers (hc_trust demo_config demo_policy))"
    by (simp add: trust_issuers_def hc_trust_def demo_config_def demo_policy_def Let_def
        List.map_filter_simps)
  then show ?thesis using trust_narrows[of demo_config demo_policy] by blast
qed

text \<open>
  A \<open>host.json\<close> that parses is safe to run: it is of the version this host reads, implements
  something, every command has a program, no variable name is empty or holds \<open>=\<close> or NUL, none
  is one of the \<open>WIRES_*\<close> the host itself sets, and no issuer is empty or listed twice.
\<close>

theorem host_config_safe:
  assumes "hc_parse P text = Inr c"
  shows "hc_services c \<noteq> []
    \<and> (\<forall>(name, svc) \<in> set (hc_services c). (\<exists>program args. si_argv svc caller = Some (program, args @ caller))
        \<and> si_cwd svc \<noteq> Some []
        \<and> (\<forall>k \<in> fst ` set (si_env svc). k \<noteq> [] \<and> CHR ''='' \<notin> set k \<and> CHR 0x00 \<notin> set k
             \<and> \<not> prefix ''WIRES_'' k))
    \<and> (\<forall>i. hc_identity c = Some i \<longrightarrow> distinct (map ti_issuer i)
        \<and> (\<forall>t \<in> set i. trim (ti_issuer t) \<noteq> [] \<and> (\<forall>a \<in> set (ti_audiences t). trim a \<noteq> [])))"
proof -
  have v: "hc_services c \<noteq> []" "hc_validate_fields c = Inr ()"
    using assms by (auto simp: hc_parse_def and_then_Inr_iff hc_validate_def split: if_splits)
  have "\<exists>program args. si_argv svc caller = Some (program, args @ caller)" if "si_command svc \<noteq> []" for svc
    using that by (cases "si_command svc") (auto simp: si_argv_def)
  then show ?thesis
    using v by (auto simp: hc_validate_fields_Inr check_service_impl_Inr check_issuers_Inr split: prod.splits)
qed

definition demo_config_json :: json where
  "demo_config_json = JObj [(''services'', JObj [(''status'', JObj [(''command'', JArr [JStr ''uptime''])])]),
     (''version'', JInt 2)]"

lemma demo_config_parses: "hc_parse (demo_prims \<lparr> parse_json := \<lambda>_. Some demo_config_json \<rparr>) ''cfg'' =
    Inr \<lparr> hc_version = 2, hc_identity = None, hc_services = [(''status'', \<lparr> si_command = [''uptime''],
      si_cwd = None, si_env = [], si_also_require = [], si_end_of_options = False \<rparr>)], hc_push = None \<rparr>"
proof -
  have n: "service_name_new ''status'' = Inr ''status''" by code_simp
  have v: "d_u32 (JInt 2) = Some 2" by (simp add: d_u32_def d_int_def)
  have svc: "d_service_impl (JObj [(''command'', JArr [JStr ''uptime''])]) = Some \<lparr> si_command = [''uptime''],
      si_cwd = None, si_env = [], si_also_require = [], si_end_of_options = False \<rparr>"
    by (simp add: d_service_impl_def struct_fields_def Let_def req_def opt_field_def default_field_def
        d_list_def d_str_def)
  have "d_peek demo_config_json = Some (Some 2)"
    by (simp add: d_peek_def demo_config_json_def struct_fields_def Let_def opt_field_def v)
  moreover have "d_host_config demo_config_json = Some \<lparr> hc_version = 2, hc_identity = None,
      hc_services = [(''status'', \<lparr> si_command = [''uptime''], si_cwd = None, si_env = [],
        si_also_require = [], si_end_of_options = False \<rparr>)], hc_push = None \<rparr>"
    by (simp add: d_host_config_def demo_config_json_def struct_fields_def Let_def req_def opt_field_def v
        d_map_def n svc bm_from_def)
  ultimately show ?thesis
    by (simp add: hc_parse_def hc_parse_schema_def from_str_def from_slice_def host_config_version_def
        hc_validate_def hc_validate_fields_def check_service_impl_def)
qed

theorem host_config_safe_witness:
  "\<exists>args. si_argv \<lparr> si_command = [''uptime''], si_cwd = None, si_env = [], si_also_require = [],
     si_end_of_options = False \<rparr> [''-p''] = Some (''uptime'', args @ [''-p''])"
  using host_config_safe[OF demo_config_parses, of "[''-p'']"] by (auto simp: si_argv_def)

text \<open>
  \<open>serve\<close> starts only on what the policy assigns: \<open>check_against\<close> accepts exactly when every
  service of the file is one of the policy's assigned to this host, and every role the file names
  (in \<open>also_require\<close> or \<open>push.allow\<close>) is one the policy defines.
\<close>

theorem check_against_spec:
  "hc_check_against c p me = Inr () \<longleftrightarrow>
     (\<forall>name \<in> fst ` set (hc_services c). policy_service p name \<noteq> None \<and> assigns p name me)
     \<and> (\<forall>svc \<in> snd ` set (hc_services c). \<forall>r \<in> set (si_also_require svc). bm_has (po_roles p) r)
     \<and> (\<forall>a. hc_push c = Some a \<longrightarrow> (\<forall>r \<in> set a. bm_has (po_roles p) r))"
proof -
  have one: "(if a then Inl e else if \<not> b then Inl e' else Inr ()) = Inr () \<longleftrightarrow> \<not> a \<and> b" for a b e e'
    by simp
  have find: "(case List.find q xs of Some r \<Rightarrow> Inl (g r) | None \<Rightarrow> Inr ()) = Inr () \<longleftrightarrow> (\<forall>x \<in> set xs. \<not> q x)"
    for q :: "role_name \<Rightarrow> bool" and g :: "role_name \<Rightarrow> config_error" and xs
    by (cases "List.find q xs") (auto simp: find_None_all[symmetric])
  have roles: "(\<forall>x \<in> set (hc_services c). (case x of (name, svc) \<Rightarrow> \<forall>r \<in> set (si_also_require svc). P' r)) \<longleftrightarrow>
      (\<forall>svc \<in> snd ` set (hc_services c). \<forall>r \<in> set (si_also_require svc). P' r)" for P'
    by force
  have push: "(\<forall>r \<in> set (case hc_push c of None \<Rightarrow> [] | Some a \<Rightarrow> a). P' r) \<longleftrightarrow>
      (\<forall>a. hc_push c = Some a \<longrightarrow> (\<forall>r \<in> set a. P' r))" for P'
    by (cases "hc_push c") auto
  show ?thesis
    unfolding hc_check_against_def Let_def and_then_Inr_iff all_ok_Inr_iff one split_beta find
    using roles push by (auto simp: split_beta)
qed

theorem check_against_spec_witness: "hc_check_against demo_config demo_policy 2 = Inr ()"
  unfolding check_against_spec
  by (simp add: demo_config_def demo_policy_def policy_new_def policy_service_def assigns_def bm_has_def bans_node_def)

end
