(* ===== verification/Key_Fetcher.thy ===== *)
theory Key_Fetcher
  imports Host_Config
begin

text \<open>
  \<open>wires/caller/jwks.rs\<close>: fetching and caching the issuers' keys, and verifying a claim with them.

  The network is a parameter \<open>web\<close>: how a text parses as a URL (the \<open>url\<close> crate), a URL's scheme
  and whether its host is loopback, and what a GET of it answers at the moment it is asked
  (\<open>reqwest\<close>), so every operation takes the web of its moment. The on-disk cache is a map from
  file names (\<open>ring\<close>'s SHA-256 of the issuer) to texts, absent for a host or directory.
\<close>

definition default_ttl :: i64 where "default_ttl = 3600"
definition min_ttl :: i64 where "min_ttl = 60"
definition max_ttl :: i64 where "max_ttl = 86400"
definition max_doc_bytes :: nat where "max_doc_bytes = 256 * 1024"

type_synonym url = string

record response =
  rp_success :: bool
  rp_cache_control :: "string option"
  rp_body :: bytes

record web =
  w_parse :: "string \<Rightarrow> url option"
  w_scheme :: "url \<Rightarrow> string"
  w_loopback :: "url \<Rightarrow> bool"
  w_send :: "url \<Rightarrow> response option"
  w_file :: "issuer \<Rightarrow> string"
  w_disk_ok :: bool
  w_parse_i64 :: "string \<Rightarrow> i64 option"

record discovery =
  ds_issuer :: string
  ds_authorization :: url
  ds_token :: url
  ds_jwks :: url

record cached =
  ca_issuer :: issuer
  ca_expires_at :: i64
  ca_jwks :: jwks

datatype fetch_error =
    Not_a_url
  | Insecure_url
  | Send_failed
  | Http_status
  | Too_large
  | Bad_discovery
  | Discovery_other_issuer string
  | Not_utf8
  | Bad_jwks
  | Not_asked_again fetch_error

record key_fetcher =
  kf_disk :: "(string \<rightharpoonup> string) option"
  kf_keys :: "issuer \<rightharpoonup> cached"
  kf_discovery :: "issuer \<rightharpoonup> discovery"
  kf_forced :: "issuer \<rightharpoonup> i64"
  kf_failed :: "issuer \<rightharpoonup> i64 \<times> fetch_error"

definition kf_new :: "(string \<rightharpoonup> string) option \<Rightarrow> key_fetcher" where
  "kf_new disk = \<lparr> kf_disk = disk, kf_keys = (\<lambda>_. None), kf_discovery = (\<lambda>_. None),
     kf_forced = (\<lambda>_. None), kf_failed = (\<lambda>_. None) \<rparr>"

section \<open>One request\<close>

definition require_secure :: "web \<Rightarrow> url \<Rightarrow> fetch_error + unit" where
  "require_secure W u =
     (if w_scheme W u = ''https'' then Inr ()
      else if w_scheme W u = ''http'' \<and> w_loopback W u then Inr ()
      else Inl Insecure_url)"

definition trim_end_slash :: "string \<Rightarrow> string" where
  "trim_end_slash s = rev (dropWhile (\<lambda>c. c = CHR ''/'') (rev s))"

definition discovery_url :: "web \<Rightarrow> issuer \<Rightarrow> fetch_error + url" where
  "discovery_url W iss =
     and_then (ok_or Not_a_url (w_parse W (trim_end_slash iss @ ''/.well-known/openid-configuration''))) (\<lambda>u.
     and_then (require_secure W u) (\<lambda>_. Inr u))"

definition trim_quotes :: "string \<Rightarrow> string" where
  "trim_quotes s = (let q = (\<lambda>c. c = CHR 0x22) in rev (dropWhile q (rev (dropWhile q s))))"

fun max_age_from :: "web \<Rightarrow> i64 option \<Rightarrow> string list \<Rightarrow> i64 option" where
  "max_age_from W out [] = out"
| "max_age_from W out (d # ds) =
     (let lower = ascii_lower (trim d) in
      if lower = ''no-store'' \<or> lower = ''no-cache'' then Some 0
      else case strip_prefix ''max-age='' lower of
        Some n \<Rightarrow> max_age_from W (w_parse_i64 W (trim_quotes n)) ds
      | None \<Rightarrow> max_age_from W out ds)"

definition parse_max_age :: "web \<Rightarrow> string \<Rightarrow> i64 option" where
  "parse_max_age W value = max_age_from W None (split_char (CHR '','') value)"

definition kf_get :: "web \<Rightarrow> url \<Rightarrow> fetch_error + (bytes \<times> i64 option)" where
  "kf_get W u =
     and_then (require_secure W u) (\<lambda>_.
     and_then (ok_or Send_failed (w_send W u)) (\<lambda>r.
       if \<not> rp_success r then Inl Http_status
       else if length (rp_body r) > max_doc_bytes then Inl Too_large
       else Inr (rp_body r, Option.bind (rp_cache_control r) (parse_max_age W))))"

section \<open>Discovery\<close>

definition d_url :: "web \<Rightarrow> json \<Rightarrow> url option" where
  "d_url W j = Option.bind (d_str j) (w_parse W)"

definition d_discovery :: "web \<Rightarrow> json \<Rightarrow> discovery option" where
  "d_discovery W j = do {
     fs \<leftarrow> struct_fields [''issuer'', ''authorization_endpoint'', ''token_endpoint'', ''jwks_uri''] 4 False j;
     i \<leftarrow> req fs ''issuer'' d_str;
     a \<leftarrow> req fs ''authorization_endpoint'' (d_url W);
     t \<leftarrow> req fs ''token_endpoint'' (d_url W);
     k \<leftarrow> req fs ''jwks_uri'' (d_url W);
     Some \<lparr> ds_issuer = i, ds_authorization = a, ds_token = t, ds_jwks = k \<rparr>
   }"

definition kf_discover :: "prims \<Rightarrow> web \<Rightarrow> issuer \<Rightarrow> key_fetcher \<Rightarrow> (fetch_error + discovery) \<times> key_fetcher" where
  "kf_discover P W iss f = (case kf_discovery f iss of
     Some d \<Rightarrow> (Inr d, f)
   | None \<Rightarrow>
       (case and_then (discovery_url W iss) (\<lambda>u.
             and_then (kf_get W u) (\<lambda>(body, _).
             and_then (map_err (\<lambda>_. Bad_discovery) (from_slice P (d_discovery W) body)) (\<lambda>doc.
               if ds_issuer doc \<noteq> iss then Inl (Discovery_other_issuer (ds_issuer doc))
               else and_then (all_ok (require_secure W) [ds_authorization doc, ds_token doc, ds_jwks doc])
                      (\<lambda>_. Inr doc)))) of
          Inl e \<Rightarrow> (Inl e, f)
        | Inr doc \<Rightarrow> (Inr doc, f \<lparr> kf_discovery := (kf_discovery f)(iss \<mapsto> doc) \<rparr>)))"

section \<open>The caches\<close>

definition j_jwk :: "jwk \<Rightarrow> json" where
  "j_jwk k = obj [(''kty'', Some (JStr (k_ty k))), (''kid'', map_option JStr (k_id k)),
     (''alg'', map_option JStr (k_alg k)), (''use'', map_option JStr (k_use k)),
     (''n'', map_option JStr (k_n k)), (''e'', map_option JStr (k_e k)),
     (''crv'', map_option JStr (k_crv k)), (''x'', map_option JStr (k_x k)),
     (''y'', map_option JStr (k_y k))]"

definition j_jwks :: "jwks \<Rightarrow> json" where
  "j_jwks ks = obj [(''keys'', Some (j_list j_jwk ks))]"

definition j_cached :: "cached \<Rightarrow> json" where
  "j_cached c = obj [(''issuer'', Some (JStr (ca_issuer c))), (''expires_at'', Some (JInt (ca_expires_at c))),
                     (''jwks'', Some (j_jwks (ca_jwks c)))]"

definition d_cached :: "json \<Rightarrow> cached option" where
  "d_cached j = do {
     fs \<leftarrow> struct_fields [''issuer'', ''expires_at'', ''jwks''] 3 False j;
     i \<leftarrow> req fs ''issuer'' d_str;
     e \<leftarrow> req fs ''expires_at'' d_i64;
     k \<leftarrow> req fs ''jwks'' d_jwks;
     Some \<lparr> ca_issuer = i, ca_expires_at = e, ca_jwks = k \<rparr>
   }"

definition kf_read_disk :: "prims \<Rightarrow> web \<Rightarrow> issuer \<Rightarrow> key_fetcher \<Rightarrow> cached option" where
  "kf_read_disk P W iss f = do {
     dir \<leftarrow> kf_disk f;
     text \<leftarrow> dir (w_file W iss);
     res_ok (from_str P d_cached text)
   }"

definition kf_write_disk :: "prims \<Rightarrow> web \<Rightarrow> cached \<Rightarrow> key_fetcher \<Rightarrow> key_fetcher" where
  "kf_write_disk P W c f = (case kf_disk f of
     None \<Rightarrow> f
   | Some dir \<Rightarrow>
       if w_disk_ok W then f \<lparr> kf_disk := Some (dir(w_file W (ca_issuer c) \<mapsto> json_text P (j_cached c))) \<rparr>
       else f)"

definition kf_cached :: "prims \<Rightarrow> web \<Rightarrow> issuer \<Rightarrow> i64 \<Rightarrow> key_fetcher \<Rightarrow> jwks option \<times> key_fetcher" where
  "kf_cached P W iss now f =
     (case (case kf_keys f iss of None \<Rightarrow> None | Some c \<Rightarrow> if ca_expires_at c > now then Some c else None) of
        Some c \<Rightarrow> (Some (ca_jwks c), f)
      | None \<Rightarrow> (case kf_read_disk P W iss f of
          None \<Rightarrow> (None, f)
        | Some c \<Rightarrow>
            if ca_issuer c \<noteq> iss \<or> ca_expires_at c \<le> now \<or> ca_expires_at c > now + max_ttl then (None, f)
            else (Some (ca_jwks c), f \<lparr> kf_keys := (kf_keys f)(iss \<mapsto> c) \<rparr>)))"

definition clamp_ttl :: "i64 \<Rightarrow> i64" where
  "clamp_ttl t = max min_ttl (min max_ttl t)"

definition kf_fetch :: "prims \<Rightarrow> web \<Rightarrow> issuer \<Rightarrow> i64 \<Rightarrow> key_fetcher \<Rightarrow> (fetch_error + jwks) \<times> key_fetcher" where
  "kf_fetch P W iss now f = (case kf_discover P W iss f of
     (Inl e, f) \<Rightarrow> (Inl e, f)
   | (Inr doc, f) \<Rightarrow>
       (case and_then (kf_get W (ds_jwks doc)) (\<lambda>(body, max_age).
             and_then (ok_or Not_utf8 (from_utf8 body)) (\<lambda>text.
             and_then (map_err (\<lambda>_. Bad_jwks) (jwks_from_json P (as_bytes text))) (\<lambda>ks. Inr (ks, max_age)))) of
          Inl e \<Rightarrow> (Inl e, f)
        | Inr (ks, max_age) \<Rightarrow>
            let ttl = clamp_ttl (case max_age of None \<Rightarrow> default_ttl | Some t \<Rightarrow> t);
                c = \<lparr> ca_issuer = iss, ca_expires_at = now + ttl, ca_jwks = ks \<rparr>;
                f = kf_write_disk P W c f
            in (Inr ks, f \<lparr> kf_keys := (kf_keys f)(iss \<mapsto> c) \<rparr>)))"

definition kf_ask :: "prims \<Rightarrow> web \<Rightarrow> issuer \<Rightarrow> i64 \<Rightarrow> key_fetcher \<Rightarrow> (fetch_error + jwks) \<times> key_fetcher" where
  "kf_ask P W iss now f =
     (case (case kf_failed f iss of None \<Rightarrow> None
              | Some (at, why) \<Rightarrow> if now - at < min_ttl then Some why else None) of
        Some why \<Rightarrow> (Inl (Not_asked_again why), f)
      | None \<Rightarrow> (case kf_fetch P W iss now f of
          (Inr ks, f) \<Rightarrow> (Inr ks, f \<lparr> kf_failed := (kf_failed f)(iss := None) \<rparr>)
        | (Inl e, f) \<Rightarrow> (Inl e, f \<lparr> kf_failed := (kf_failed f)(iss \<mapsto> (now, e)) \<rparr>)))"

definition kf_keys_for :: "prims \<Rightarrow> web \<Rightarrow> issuer \<Rightarrow> string option \<Rightarrow> i64 \<Rightarrow> key_fetcher
    \<Rightarrow> (fetch_error + jwks) \<times> key_fetcher" where
  "kf_keys_for P W iss kid now f = (case kf_cached P W iss now f of
     (None, f) \<Rightarrow> kf_ask P W iss now f
   | (Some ks, f) \<Rightarrow>
       if (case kid of None \<Rightarrow> False | Some k \<Rightarrow> \<not> has_kid ks k)
       then if (case kf_forced f iss of None \<Rightarrow> False | Some t \<Rightarrow> now - t < min_ttl) then (Inr ks, f)
            else kf_ask P W iss now (f \<lparr> kf_forced := (kf_forced f)(iss \<mapsto> now) \<rparr>)
       else (Inr ks, f))"

section \<open>Verifying a claim\<close>

datatype verify_error =
    Untrusted issuer
  | Unavailable "error + fetch_error"
  | Rejected id_token_error
  | Sign_in_expired principal

definition verify_error_of :: "error \<Rightarrow> verify_error" where
  "verify_error_of e = (case e of Id_token t \<Rightarrow> Rejected t | _ \<Rightarrow> Unavailable (Inl e))"

definition kf_verify :: "prims \<Rightarrow> ring \<Rightarrow> web \<Rightarrow> identity_claim \<Rightarrow> issuer list \<Rightarrow> audience list \<Rightarrow> i64
    \<Rightarrow> key_fetcher \<Rightarrow> (verify_error + principal) \<times> key_fetcher" where
  "kf_verify P R W c trusted audiences now f = (case unverified_issuer P (ic_token c) of
     Inl e \<Rightarrow> (Inl (verify_error_of e), f)
   | Inr iss \<Rightarrow>
       if iss \<notin> set trusted then (Inl (Untrusted iss), f)
       else case unverified_kid P (ic_token c) of
         Inl e \<Rightarrow> (Inl (verify_error_of e), f)
       | Inr kid \<Rightarrow> (case kf_keys_for P W iss kid now f of
           (Inl e, f) \<Rightarrow> (Inl (Unavailable (Inr e)), f)
         | (Inr ks, f) \<Rightarrow> (case verify_claim P R c iss ks audiences now of
             Inr who \<Rightarrow> (Inr who, f)
           | Inl (Id_token (Token_expired exp)) \<Rightarrow>
               (case verify_claim P R c iss ks audiences exp of
                  Inr who \<Rightarrow> (Inl (Sign_in_expired who), f)
                | Inl e \<Rightarrow> (Inl (verify_error_of e), f))
           | Inl e \<Rightarrow> (Inl (verify_error_of e), f))))"

section \<open>Laws\<close>

text \<open>What the fetcher holds for an issuer is that issuer's, and goes stale within a day.\<close>

definition kf_ok :: "i64 \<Rightarrow> key_fetcher \<Rightarrow> bool" where
  "kf_ok now f \<longleftrightarrow> (\<forall>iss c. kf_keys f iss = Some c \<longrightarrow> ca_issuer c = iss \<and> ca_expires_at c \<le> now + max_ttl)"

text \<open>Whether a call reaches the network.\<close>

definition kf_asks :: "prims \<Rightarrow> web \<Rightarrow> issuer \<Rightarrow> string option \<Rightarrow> i64 \<Rightarrow> key_fetcher \<Rightarrow> bool" where
  "kf_asks P W iss kid now f =
     ((case kf_cached P W iss now f of
        (None, _) \<Rightarrow> True
      | (Some ks, f) \<Rightarrow> (case kid of None \<Rightarrow> False | Some k \<Rightarrow> \<not> has_kid ks k)
          \<and> \<not> (case kf_forced f iss of None \<Rightarrow> False | Some t \<Rightarrow> now - t < min_ttl))
      \<and> \<not> (case kf_failed f iss of None \<Rightarrow> False | Some (at, _) \<Rightarrow> now - at < min_ttl))"

lemma clamp_ttl_bounds: "min_ttl \<le> clamp_ttl t" "clamp_ttl t \<le> max_ttl"
  by (simp_all add: clamp_ttl_def min_ttl_def max_ttl_def)

lemma kf_cached_Some:
  assumes "kf_cached P W iss now f = (Some ks, f')"
  shows "\<exists>c. kf_keys f' iss = Some c \<and> ca_jwks c = ks \<and> ca_expires_at c > now
     \<and> (kf_keys f iss = Some c \<or> ca_issuer c = iss \<and> ca_expires_at c \<le> now + max_ttl)
     \<and> kf_forced f' = kf_forced f \<and> kf_failed f' = kf_failed f
     \<and> (\<forall>i. i \<noteq> iss \<longrightarrow> kf_keys f' i = kf_keys f i)"
  using assms by (auto simp: kf_cached_def split: option.splits if_splits)

lemma kf_cached_None:
  "kf_cached P W iss now f = (None, f') \<Longrightarrow> f' = f \<and> (\<forall>c. kf_keys f iss = Some c \<longrightarrow> ca_expires_at c \<le> now)"
  by (auto simp: kf_cached_def split: option.splits if_splits)

lemma kf_discover_keeps:
  "kf_discover P W iss f = (r, f') \<Longrightarrow>
     kf_keys f' = kf_keys f \<and> kf_forced f' = kf_forced f \<and> kf_failed f' = kf_failed f \<and> kf_disk f' = kf_disk f"
  by (auto simp: kf_discover_def split: option.splits sum.splits)

lemma kf_write_keeps:
  "kf_keys (kf_write_disk P W c f) = kf_keys f \<and> kf_forced (kf_write_disk P W c f) = kf_forced f
   \<and> kf_failed (kf_write_disk P W c f) = kf_failed f"
  by (auto simp: kf_write_disk_def split: option.splits)

lemma kf_fetch_effect:
  assumes "kf_fetch P W iss now f = (r, f')"
  shows "kf_forced f' = kf_forced f \<and> kf_failed f' = kf_failed f
    \<and> (\<forall>i. i \<noteq> iss \<longrightarrow> kf_keys f' i = kf_keys f i)
    \<and> (\<forall>ks. r = Inr ks \<longrightarrow> (\<exists>c. kf_keys f' iss = Some c \<and> ca_issuer c = iss \<and> ca_jwks c = ks
          \<and> now + min_ttl \<le> ca_expires_at c \<and> ca_expires_at c \<le> now + max_ttl))
    \<and> (\<forall>e. r = Inl e \<longrightarrow> kf_keys f' = kf_keys f)"
proof -
  obtain d g where d: "kf_discover P W iss f = (d, g)" by fastforce
  note g = kf_discover_keeps[OF d]
  show ?thesis
    using assms g clamp_ttl_bounds
    by (auto simp: kf_fetch_def d Let_def kf_write_keeps split: sum.splits)
qed

lemma kf_ask_effect:
  assumes "kf_ask P W iss now f = (r, f')"
    and "\<not> (case kf_failed f iss of None \<Rightarrow> False | Some (at, _) \<Rightarrow> now - at < min_ttl)"
  shows "kf_forced f' = kf_forced f
    \<and> (\<forall>i. i \<noteq> iss \<longrightarrow> kf_keys f' i = kf_keys f i \<and> kf_failed f' i = kf_failed f i)
    \<and> (\<forall>ks. r = Inr ks \<longrightarrow> (\<exists>c. kf_keys f' iss = Some c \<and> ca_issuer c = iss \<and> ca_jwks c = ks
          \<and> now + min_ttl \<le> ca_expires_at c \<and> ca_expires_at c \<le> now + max_ttl))
    \<and> (\<forall>e. r = Inl e \<longrightarrow> kf_keys f' = kf_keys f \<and> kf_failed f' iss = Some (now, e))"
proof -
  obtain q g where q: "kf_fetch P W iss now f = (q, g)" by fastforce
  have skip: "(case kf_failed f iss of None \<Rightarrow> None | Some (at, why) \<Rightarrow> if now - at < min_ttl then Some why else None) = None"
    using assms(2) by (auto split: option.splits)
  show ?thesis
    using assms(1) kf_fetch_effect[OF q]
    unfolding kf_ask_def skip by (auto simp: q split: sum.splits)
qed

lemma kf_ask_refused:
  assumes "kf_failed f iss = Some (at, why)" "now - at < min_ttl"
  shows "kf_ask P W iss now f = (Inl (Not_asked_again why), f)"
  using assms by (simp add: kf_ask_def)

text \<open>A call that returns keys returns what the cache now holds for the issuer, not yet stale.\<close>

lemma kf_keys_for_Inr:
  assumes "kf_ok now f" "kf_keys_for P W iss kid now f = (Inr ks, f')"
  shows "\<exists>c. kf_keys f' iss = Some c \<and> ca_issuer c = iss \<and> ca_jwks c = ks
    \<and> now < ca_expires_at c \<and> ca_expires_at c \<le> now + max_ttl"
proof -
  obtain q g where q: "kf_cached P W iss now f = (q, g)" by fastforce
  have asked: "kf_ask P W iss now h = (Inr ks, f') \<Longrightarrow> ?thesis" for h
  proof -
    assume a: "kf_ask P W iss now h = (Inr ks, f')"
    have "\<not> (case kf_failed h iss of None \<Rightarrow> False | Some (at, _) \<Rightarrow> now - at < min_ttl)"
      using a kf_ask_refused by (auto split: option.splits)
    from kf_ask_effect[OF a this] show ?thesis by (auto simp: min_ttl_def)
  qed
  show ?thesis
  proof (cases q)
    case None
    then show ?thesis using assms(2) asked by (simp add: kf_keys_for_def q)
  next
    case (Some ks')
    from kf_cached_Some[OF q[unfolded Some]] assms(1)
    have c: "\<exists>c. kf_keys g iss = Some c \<and> ca_issuer c = iss \<and> ca_jwks c = ks'
      \<and> now < ca_expires_at c \<and> ca_expires_at c \<le> now + max_ttl"
      by (auto simp: kf_ok_def)
    show ?thesis
      using assms(2) asked c by (auto simp: kf_keys_for_def q Some split: if_splits)
  qed
qed

lemma kf_verify_Inr:
  assumes "kf_verify P R W c trusted auds now f = (Inr who, f')"
  shows "\<exists>iss kid ks. unverified_issuer P (ic_token c) = Inr iss \<and> iss \<in> set trusted
    \<and> unverified_kid P (ic_token c) = Inr kid \<and> kf_keys_for P W iss kid now f = (Inr ks, f')
    \<and> verify_claim P R c iss ks auds now = Inr who"
  using assms
  by (auto simp: kf_verify_def split: sum.splits if_splits prod.splits error.splits id_token_error.splits)

lemma kf_verify_expired:
  assumes "kf_verify P R W c trusted auds now f = (Inl (Sign_in_expired who), f')"
  shows "\<exists>iss ks exp. iss \<in> set trusted \<and> verify_claim P R c iss ks auds now = Inl (Id_token (Token_expired exp))
    \<and> verify_claim P R c iss ks auds exp = Inr who"
proof -
  have ve: "verify_error_of e \<noteq> Sign_in_expired who" for e by (simp add: verify_error_of_def split: error.splits)
  show ?thesis
    using assms
    by (auto simp: kf_verify_def ve ve[symmetric] split: sum.splits if_splits prod.splits error.splits id_token_error.splits)
qed

section \<open>How often an issuer is asked\<close>

text \<open>One issuer's calls, each at its moment, with the web of that moment: how many reached the
  network.\<close>

fun kf_count :: "prims \<Rightarrow> issuer \<Rightarrow> (web \<times> string option \<times> i64) list \<Rightarrow> key_fetcher \<Rightarrow> nat" where
  "kf_count P iss [] f = 0"
| "kf_count P iss ((W, kid, now) # cs) f =
     (if kf_asks P W iss kid now f then 1 else 0) + kf_count P iss cs (snd (kf_keys_for P W iss kid now f))"

text \<open>The three situations within a minute after \<open>t\<close>: no ask is left, or one forced one.\<close>

definition kf_failed_since :: "i64 \<Rightarrow> issuer \<Rightarrow> key_fetcher \<Rightarrow> bool" where
  "kf_failed_since t iss f \<longleftrightarrow> (\<exists>at why. kf_failed f iss = Some (at, why) \<and> t \<le> at)"

definition kf_holds_until :: "i64 \<Rightarrow> issuer \<Rightarrow> key_fetcher \<Rightarrow> bool" where
  "kf_holds_until t iss f \<longleftrightarrow> (\<exists>c. kf_keys f iss = Some c \<and> t + min_ttl \<le> ca_expires_at c)"

definition kf_forced_since :: "i64 \<Rightarrow> issuer \<Rightarrow> key_fetcher \<Rightarrow> bool" where
  "kf_forced_since t iss f \<longleftrightarrow> (\<exists>at. kf_forced f iss = Some at \<and> t \<le> at)"

lemma kf_quiet_step:
  assumes "\<not> kf_asks P W iss kid now f"
  shows "kf_failed (snd (kf_keys_for P W iss kid now f)) = kf_failed f
    \<and> (\<forall>t. t \<le> now \<longrightarrow> kf_forced_since t iss f \<longrightarrow>
          kf_forced_since t iss (snd (kf_keys_for P W iss kid now f)))
    \<and> (\<forall>t. now < t + min_ttl \<longrightarrow> kf_holds_until t iss f \<longrightarrow>
          kf_holds_until t iss (snd (kf_keys_for P W iss kid now f)))"
proof -
  obtain q g where q: "kf_cached P W iss now f = (q, g)" by fastforce
  show ?thesis
  proof (cases q)
    case None
    note n = kf_cached_None[OF q[unfolded None]]
    then obtain at why where "kf_failed f iss = Some (at, why)" "now - at < min_ttl"
      using assms by (auto simp: kf_asks_def q None split: option.splits)
    then show ?thesis using n kf_ask_refused by (simp add: kf_keys_for_def q None)
  next
    case (Some ks)
    note c = kf_cached_Some[OF q[unfolded Some]]
    have hold: "kf_holds_until t iss f \<Longrightarrow> now < t + min_ttl \<Longrightarrow> kf_holds_until t iss g" for t
      using q by (auto simp: kf_holds_until_def kf_cached_def Some split: option.splits if_splits)
    let ?unknown = "case kid of None \<Rightarrow> False | Some k \<Rightarrow> \<not> has_kid ks k"
    let ?recent = "case kf_forced g iss of None \<Rightarrow> False | Some t \<Rightarrow> now - t < min_ttl"
    consider "\<not> ?unknown \<or> ?recent" | "?unknown" "\<not> ?recent" by blast
    then show ?thesis
    proof cases
      case 1
      then have "snd (kf_keys_for P W iss kid now f) = g"
        by (auto simp: kf_keys_for_def q Some)
      then show ?thesis using c hold by (auto simp: kf_forced_since_def)
    next
      case 2
      let ?h = "g \<lparr> kf_forced := (kf_forced g)(iss \<mapsto> now) \<rparr>"
      obtain at why where "kf_failed f iss = Some (at, why)" "now - at < min_ttl"
        using assms 2 by (auto simp: kf_asks_def q Some split: option.splits)
      then have "kf_ask P W iss now ?h = (Inl (Not_asked_again why), ?h)"
        using c by (intro kf_ask_refused) auto
      then have "snd (kf_keys_for P W iss kid now f) = ?h"
        using 2 by (simp add: kf_keys_for_def q Some)
      then show ?thesis using c hold by (auto simp: kf_holds_until_def kf_forced_since_def)
    qed
  qed
qed

lemma kf_ask_step:
  assumes "kf_asks P W iss kid now f"
  shows "(kf_failed_since now iss (snd (kf_keys_for P W iss kid now f))
      \<or> kf_holds_until now iss (snd (kf_keys_for P W iss kid now f)))
    \<and> (\<forall>c. kf_keys f iss = Some c \<and> now < ca_expires_at c \<longrightarrow>
        kf_forced_since now iss (snd (kf_keys_for P W iss kid now f)))"
proof -
  obtain q g where q: "kf_cached P W iss now f = (q, g)" by fastforce
  have ask: "kf_failed_since now iss h' \<or> kf_holds_until now iss h'" "kf_forced h' = kf_forced h"
    if h: "kf_ask P W iss now h = (r, h')" "kf_failed h iss = kf_failed f iss" for h h' r
  proof -
    have "\<not> (case kf_failed h iss of None \<Rightarrow> False | Some (at, _) \<Rightarrow> now - at < min_ttl)"
      using assms h(2) by (simp add: kf_asks_def)
    note e = kf_ask_effect[OF h(1) this]
    then show "kf_forced h' = kf_forced h" by blast
    from e show "kf_failed_since now iss h' \<or> kf_holds_until now iss h'"
      by (cases r) (auto simp: kf_failed_since_def kf_holds_until_def)
  qed
  show ?thesis
  proof (cases q)
    case None
    note n = kf_cached_None[OF q[unfolded None]]
    obtain r h' where h: "kf_ask P W iss now g = (r, h')" by fastforce
    then show ?thesis using n ask[OF h] by (auto simp: kf_keys_for_def q None)
  next
    case (Some ks)
    note c = kf_cached_Some[OF q[unfolded Some]]
    let ?h = "g \<lparr> kf_forced := (kf_forced g)(iss \<mapsto> now) \<rparr>"
    obtain r h' where h: "kf_ask P W iss now ?h = (r, h')" by fastforce
    have "snd (kf_keys_for P W iss kid now f) = h'"
      using assms h by (simp add: kf_keys_for_def kf_asks_def q Some)
    then show ?thesis
      using ask[OF h] c by (auto simp: kf_forced_since_def)
  qed
qed

lemma kf_failed_quiet:
  assumes "kf_failed_since t iss f" "now < t + min_ttl"
  shows "\<not> kf_asks P W iss kid now f"
  using assms by (auto simp: kf_failed_since_def kf_asks_def split: option.splits)

lemma kf_forced_quiet:
  assumes "kf_holds_until t iss f" "kf_forced_since t iss f" "now < t + min_ttl"
  shows "\<not> kf_asks P W iss kid now f"
  using assms
  by (auto simp: kf_holds_until_def kf_forced_since_def kf_asks_def kf_cached_def split: option.splits)

lemma kf_count_failed:
  assumes "kf_failed_since t iss f" "\<forall>(W, kid, now) \<in> set cs. t \<le> now \<and> now < t + min_ttl"
  shows "kf_count P iss cs f = 0"
  using assms
proof (induction cs arbitrary: f)
  case (Cons x cs)
  obtain W kid now where x: "x = (W, kid, now)" by (cases x)
  have q: "\<not> kf_asks P W iss kid now f" using Cons.prems kf_failed_quiet by (auto simp: x)
  then have "kf_failed_since t iss (snd (kf_keys_for P W iss kid now f))"
    using kf_quiet_step[OF q] Cons.prems(1) by (simp add: kf_failed_since_def)
  then show ?case using Cons q by (simp add: x)
qed simp

lemma kf_count_forced:
  assumes "kf_holds_until t iss f" "kf_forced_since t iss f"
    "\<forall>(W, kid, now) \<in> set cs. t \<le> now \<and> now < t + min_ttl"
  shows "kf_count P iss cs f = 0"
  using assms
proof (induction cs arbitrary: f)
  case (Cons x cs)
  obtain W kid now where x: "x = (W, kid, now)" by (cases x)
  have w: "t \<le> now" "now < t + min_ttl" using Cons.prems(3) by (auto simp: x)
  have q: "\<not> kf_asks P W iss kid now f" using Cons.prems(1,2) w(2) by (rule kf_forced_quiet)
  then have "kf_holds_until t iss (snd (kf_keys_for P W iss kid now f))"
    "kf_forced_since t iss (snd (kf_keys_for P W iss kid now f))"
    using kf_quiet_step[OF q] Cons.prems(1,2) w by blast+
  then show ?case using Cons q by (simp add: x)
qed simp

lemma kf_since_mono:
  "t \<le> now \<Longrightarrow> kf_failed_since now iss f \<Longrightarrow> kf_failed_since t iss f"
  "t \<le> now \<Longrightarrow> kf_holds_until now iss f \<Longrightarrow> kf_holds_until t iss f"
  "t \<le> now \<Longrightarrow> kf_forced_since now iss f \<Longrightarrow> kf_forced_since t iss f"
  by (auto simp: kf_failed_since_def kf_holds_until_def kf_forced_since_def)

lemma kf_count_holding:
  assumes "kf_holds_until t iss f" "\<forall>(W, kid, now) \<in> set cs. t \<le> now \<and> now < t + min_ttl"
  shows "kf_count P iss cs f \<le> 1"
  using assms
proof (induction cs arbitrary: f)
  case (Cons x cs)
  obtain W kid now where x: "x = (W, kid, now)" by (cases x)
  have w: "t \<le> now" "now < t + min_ttl" and rest: "\<forall>(W, kid, now) \<in> set cs. t \<le> now \<and> now < t + min_ttl"
    using Cons.prems(2) by (auto simp: x)
  let ?f = "snd (kf_keys_for P W iss kid now f)"
  show ?case
  proof (cases "kf_asks P W iss kid now f")
    case True
    note s = kf_ask_step[OF True]
    obtain c where "kf_keys f iss = Some c" "now < ca_expires_at c"
      using Cons.prems(1) w(2) by (auto simp: kf_holds_until_def)
    then have "kf_forced_since t iss ?f" using s kf_since_mono(3)[OF w(1)] by blast
    moreover have "kf_failed_since t iss ?f \<or> kf_holds_until t iss ?f"
      using s kf_since_mono(1,2)[OF w(1)] by blast
    ultimately have "kf_count P iss cs ?f = 0"
      using kf_count_failed[OF _ rest] kf_count_forced[OF _ _ rest] by blast
    then show ?thesis by (simp add: x)
  next
    case False
    then have "kf_holds_until t iss ?f" using kf_quiet_step[OF False] Cons.prems(1) w(2) by blast
    then show ?thesis using Cons.IH rest False by (simp add: x)
  qed
qed simp

lemma kf_count_minute:
  assumes "\<forall>(W, kid, now) \<in> set cs. t \<le> now \<and> now < t + min_ttl"
  shows "kf_count P iss cs f \<le> 2"
  using assms
proof (induction cs arbitrary: f)
  case (Cons x cs)
  obtain W kid now where x: "x = (W, kid, now)" by (cases x)
  have w: "t \<le> now" and rest: "\<forall>(W, kid, now) \<in> set cs. t \<le> now \<and> now < t + min_ttl"
    using Cons.prems by (auto simp: x)
  let ?f = "snd (kf_keys_for P W iss kid now f)"
  show ?case
  proof (cases "kf_asks P W iss kid now f")
    case True
    then have "kf_failed_since t iss ?f \<or> kf_holds_until t iss ?f"
      using kf_ask_step[OF True] kf_since_mono(1,2)[OF w] by blast
    then have "kf_count P iss cs ?f \<le> 1"
      using kf_count_failed[OF _ rest, of iss ?f P] kf_count_holding[OF _ rest, of iss ?f P] by auto
    then show ?thesis by (simp add: x)
  next
    case False
    then show ?thesis using Cons.IH[OF rest, of ?f] by (simp add: x)
  qed
qed simp

section \<open>Properties\<close>


definition demo_web :: web where
  "demo_web = \<lparr> w_parse = Some, w_scheme = (\<lambda>_. ''https''), w_loopback = (\<lambda>_. False),
     w_send = (\<lambda>_. None), w_file = (\<lambda>i. i), w_disk_ok = True, w_parse_i64 = (\<lambda>_. None) \<rparr>"


text \<open>
  Keys only from whom the host trusts, and only while they last. A claim verifies only when the
  issuer its token names is one of the trusted ones; the key set it was checked against is the one
  the fetcher now holds for that issuer, not yet stale and never older than a day; and a token of any
  other issuer is refused without a request to anyone: the answer does not depend on the network.
\<close>

theorem keys_of_trusted_only:
  "(kf_ok now f \<and> kf_verify P R W c trusted auds now f = (Inr who, f') \<longrightarrow>
      (\<exists>iss ca. iss \<in> set trusted \<and> unverified_issuer P (ic_token c) = Inr iss \<and> pr_issuer who = iss
        \<and> kf_keys f' iss = Some ca \<and> ca_issuer ca = iss \<and> now < ca_expires_at ca
        \<and> ca_expires_at ca \<le> now + 86400 \<and> verify_claim P R c iss (ca_jwks ca) auds now = Inr who))
   \<and> ((\<forall>iss \<in> set trusted. unverified_issuer P (ic_token c) \<noteq> Inr iss) \<longrightarrow>
        kf_verify P R W c trusted auds now f = kf_verify P R W' c trusted auds now f
        \<and> snd (kf_verify P R W c trusted auds now f) = f)"
proof (intro conjI impI)
  assume a: "kf_ok now f \<and> kf_verify P R W c trusted auds now f = (Inr who, f')"
  obtain iss kid ks where v: "unverified_issuer P (ic_token c) = Inr iss" "iss \<in> set trusted"
    "kf_keys_for P W iss kid now f = (Inr ks, f')" "verify_claim P R c iss ks auds now = Inr who"
    using a kf_verify_Inr by blast
  obtain ca where "kf_keys f' iss = Some ca" "ca_issuer ca = iss" "ca_jwks ca = ks"
    "now < ca_expires_at ca" "ca_expires_at ca \<le> now + max_ttl"
    using kf_keys_for_Inr[OF _ v(3)] a by blast
  moreover have "pr_issuer who = iss"
    using v(4) unfolding verify_claim_Inr by (auto simp: principal_of_def)
  ultimately show "\<exists>iss ca. iss \<in> set trusted \<and> unverified_issuer P (ic_token c) = Inr iss \<and> pr_issuer who = iss
      \<and> kf_keys f' iss = Some ca \<and> ca_issuer ca = iss \<and> now < ca_expires_at ca
      \<and> ca_expires_at ca \<le> now + 86400 \<and> verify_claim P R c iss (ca_jwks ca) auds now = Inr who"
    using v by (intro exI[of _ iss] exI[of _ ca]) (simp add: max_ttl_def)
next
  assume "\<forall>iss \<in> set trusted. unverified_issuer P (ic_token c) \<noteq> Inr iss"
  then show "kf_verify P R W c trusted auds now f = kf_verify P R W' c trusted auds now f"
    "snd (kf_verify P R W c trusted auds now f) = f"
    by (auto simp: kf_verify_def split: sum.splits)
qed

definition demo_fetcher :: key_fetcher where
  "demo_fetcher = (kf_new None) \<lparr> kf_keys := [''https://idp'' \<mapsto>
     \<lparr> ca_issuer = ''https://idp'', ca_expires_at = 1000, ca_jwks = demo_keys \<rparr>] \<rparr>"

lemma demo_kf_verify:
  "kf_verify demo_idp demo_ring demo_web demo_claim [''https://idp''] [''cli''] 500 demo_fetcher =
     (Inr \<lparr> pr_issuer = ''https://idp'', pr_subject = ''1'', pr_email = Some ''alice@ex.com'',
            pr_org = None, pr_groups = [], pr_not_after = 1000 \<rparr>, demo_fetcher)"
proof -
  obtain w where w: "jws_parse demo_idp (ic_token demo_claim) = Inr w"
      "jw_payload w ''iss'' = Some (JStr ''https://idp'')"
    using demo_claim_verifies unfolding verify_claim_Inr by blast
  then have p: "jws_parse demo_idp ''01.02.09'' = Inr w" by (simp add: demo_claim_def)
  then have "jw_header w = \<lparr> jh_alg = ''RS256'', jh_kid = Some ''k1'', jh_crit = None \<rparr>"
    unfolding jws_parse_Inr by (auto simp: demo_header)
  with p w(2) have p: "jws_parse demo_idp ''01.02.09'' = Inr w"
      "jw_header w = \<lparr> jh_alg = ''RS256'', jh_kid = Some ''k1'', jh_crit = None \<rparr>"
      "jw_payload w ''iss'' = Some (JStr ''https://idp'')" by simp_all
  then have "unverified_issuer demo_idp ''01.02.09'' = Inr ''https://idp''"
    "unverified_kid demo_idp ''01.02.09'' = Inr (Some ''k1'')"
    by (simp_all add: unverified_issuer_def unverified_kid_def as_str_def)
  then show ?thesis
    using demo_claim_verifies
    by (simp add: kf_verify_def demo_claim_def kf_keys_for_def kf_cached_def demo_fetcher_def has_kid_def
        demo_keys_def)
qed

theorem keys_of_trusted_only_witness:
  "\<exists>ca. kf_keys demo_fetcher ''https://idp'' = Some ca \<and> 500 < ca_expires_at ca"
proof -
  have "kf_ok 500 demo_fetcher" by (simp add: kf_ok_def demo_fetcher_def kf_new_def max_ttl_def)
  with demo_kf_verify show ?thesis
    using keys_of_trusted_only[of 500 demo_fetcher demo_idp demo_ring demo_web demo_claim "[''https://idp'']"
        "[''cli'']" _ demo_fetcher] by fastforce
qed

end
