(* ===== verification/Host_Gate.thy ===== *)
theory Host_Gate
  imports Key_Fetcher
begin

text \<open>
  The host's decisions: \<open>wires/host/identity.rs\<close> (who is behind each node key),
  \<open>wires/host/freshness.rs\<close> (what the host shows a caller first) and \<open>wires/host/gate.rs\<close> (the
  checks of every call, and who may receive pushes). A host's state is a record; every operation
  returns it updated. Texts shown to a peer that are fixed are kept as they are; those that quote a
  version or an error are values naming what they quote.
\<close>

section \<open>Identities (identity.rs)\<close>

record verified =
  vf_token :: id_token
  vf_principal :: principal

record identities =
  id_fetcher :: key_fetcher
  id_trust :: idp_trust
  id_known :: "(node_id, principal) btree_map"

definition principal_is_fresh :: "principal \<Rightarrow> i64 \<Rightarrow> bool" where
  "principal_is_fresh p now \<longleftrightarrow> now \<le> sat_add (pr_not_after p) clock_skew_secs"

definition identities_new :: "key_fetcher \<Rightarrow> idp_trust \<Rightarrow> identities" where
  "identities_new f t = \<lparr> id_fetcher = f, id_trust = t, id_known = [] \<rparr>"

definition set_trust :: "idp_trust \<Rightarrow> identities \<Rightarrow> identities" where
  "set_trust t ids = (if id_trust ids \<noteq> t then ids \<lparr> id_trust := t \<rparr> else ids)"

definition verify_token :: "prims \<Rightarrow> ring \<Rightarrow> web \<Rightarrow> node_id \<Rightarrow> id_token \<Rightarrow> i64 \<Rightarrow> identities
    \<Rightarrow> (verify_error + principal) \<times> identities" where
  "verify_token P R W node token now ids =
     (let claim = \<lparr> ic_node = node, ic_token = token \<rparr>; trust = id_trust ids in
      case kf_verify P R W claim (trust_issuers trust) (audiences_for_claim P trust claim) now (id_fetcher ids) of
        (r, f) \<Rightarrow> (r, ids \<lparr> id_fetcher := f \<rparr>))"

definition id_record :: "node_id \<Rightarrow> verify_error + principal \<Rightarrow> identities \<Rightarrow> identities" where
  "id_record node verdict ids =
     (case (case verdict of Inr p \<Rightarrow> Some p | Inl (Sign_in_expired p) \<Rightarrow> Some p | Inl _ \<Rightarrow> None) of
        None \<Rightarrow> ids
      | Some p \<Rightarrow>
          if (case bm_get (id_known ids) node of None \<Rightarrow> True | Some old \<Rightarrow> pr_not_after p \<ge> pr_not_after old)
          then ids \<lparr> id_known := bm_put node p (id_known ids) \<rparr> else ids)"

definition id_nodes :: "identities \<Rightarrow> node_id list" where
  "id_nodes ids = map fst (id_known ids)"

definition id_current :: "identities \<Rightarrow> node_id \<Rightarrow> i64 \<Rightarrow> principal option" where
  "id_current ids node now = (case bm_get (id_known ids) node of
     None \<Rightarrow> None | Some p \<Rightarrow> if principal_is_fresh p now then Some p else None)"

section \<open>Freshness (freshness.rs)\<close>

definition fresh_load :: "prims \<Rightarrow> home \<Rightarrow> signed_head option \<Rightarrow> fresh_set" where
  "fresh_load P ks head =
     (let words = (case ho_fresh ks of
          Text text \<Rightarrow> (case from_str P (d_list (d_fresh P)) (trim text) of Inr ws \<Rightarrow> ws | Inl _ \<Rightarrow> [])
        | _ \<Rightarrow> [])
      in case head of None \<Rightarrow> [] | Some h \<Rightarrow> fs_from_unverified P words h)"

definition fresh_offer :: "prims \<Rightarrow> fresh \<Rightarrow> signed_head \<Rightarrow> i64 \<Rightarrow> fresh_set \<times> home
    \<Rightarrow> (store_error + bool) \<times> fresh_set \<times> home" where
  "fresh_offer P fresh head now = (\<lambda>(held, ks).
     case fresh_verified P fresh head of
       Inl e \<Rightarrow> (Inl (Offer_unverified e), held, ks)
     | Inr f \<Rightarrow> (case fs_insert f now held of
         (False, held) \<Rightarrow> (Inr False, held, ks)
       | (True, held) \<Rightarrow>
           if ho_writable ks
           then (Inr True, held, ks \<lparr> ho_fresh := Text (json_text P (j_list (j_fresh P) held) @ newline) \<rparr>)
           else (Inl Store_io, held, ks)))"

definition fresh_proof :: "prims \<Rightarrow> fresh_set \<Rightarrow> signed_head \<Rightarrow> i64 \<Rightarrow> host_proof" where
  "fresh_proof P held head now = \<lparr> hp_head = head, hp_fresh = fs_current_for P held head now \<rparr>"

section \<open>What a peer hears (gate.rs)\<close>

definition not_admitted_text :: string where
  "not_admitted_text =
     ''not admitted to this network: sign in with `wires login`, or ask your admin for a role''"

definition not_callable_text :: "service_name \<Rightarrow> string" where
  "not_callable_text s = ''no service named `'' @ s @ ''` that you may call''"

definition sign_in_expired_text :: string where
  "sign_in_expired_text = ''your sign-in has expired; run `wires login`''"

definition idp_unreachable_text :: string where
  "idp_unreachable_text = ''the identity provider is unreachable from this host; try again later''"

datatype gate_refusal =
    Stale state_version error
  | Gate_not_admitted error
  | Gate_not_callable service_name refusal
  | Not_assigned service_name state_version
  | Also_require service_name "role_name list" string

datatype heard =
    Heard string
  | Heard_stale state_version error
  | Heard_not_assigned service_name state_version
  | Heard_own_rules string service_name

fun gate_heard :: "gate_refusal \<Rightarrow> heard" where
  "gate_heard (Stale v e) = Heard_stale v e"
| "gate_heard (Gate_not_admitted _) = Heard not_admitted_text"
| "gate_heard (Gate_not_callable s _) = Heard (not_callable_text s)"
| "gate_heard (Not_assigned s v) = Heard_not_assigned s v"
| "gate_heard (Also_require s _ who) = Heard_own_rules who s"

datatype admit_why =
    Why_expired string
  | Why_unreachable "error + fetch_error"
  | Why_token verify_error
  | Why_policy string error
  | Why_no_token

record not_admitted =
  na_said :: string
  na_why :: admit_why
  na_banned :: bool

record admitted =
  ad_role :: role_name
  ad_version :: state_version
  ad_caller :: verified

section \<open>Deciding a call\<close>

definition gate_admit :: "held \<Rightarrow> host_config \<Rightarrow> node_id \<Rightarrow> node_id \<Rightarrow> verified \<Rightarrow> service_name \<Rightarrow> i64
    \<Rightarrow> gate_refusal + admitted" where
  "gate_admit state config me caller v service now =
     (let who = vf_principal v; s = hd_policy state; version = held_version state in
      case check_admitted s caller who of
        Inl e \<Rightarrow> Inl (Gate_not_admitted e)
      | Inr _ \<Rightarrow>
          and_then (map_err (Stale version) (held_check_fresh state now)) (\<lambda>_.
          and_then (map_err (\<lambda>r. case r of Refusal_Banned \<Rightarrow> Gate_not_admitted Banned
                                        | _ \<Rightarrow> Gate_not_callable service r)
                     (authorize s caller (Some who) service)) (\<lambda>role.
          if \<not> assigns s service me then Inl (Not_assigned service version)
          else let also = (case bm_get (hc_services config) service of
                 None \<Rightarrow> [] | Some svc \<Rightarrow> si_also_require svc) in
            if \<not> list_all (\<lambda>r. role_admits s r (Some who)) also
            then Inl (Also_require service also (principal_name who))
            else Inr \<lparr> ad_role = role, ad_version = version, ad_caller = v \<rparr>)))"

definition gate_decide :: "held \<Rightarrow> host_config \<Rightarrow> node_id \<Rightarrow> node_id \<Rightarrow> verified \<Rightarrow> service_name \<Rightarrow> i64
    \<Rightarrow> heard + admitted" where
  "gate_decide state config me caller v service now =
     map_err gate_heard (gate_admit state config me caller v service now)"

section \<open>A host\<close>

datatype policy_error =
    Policy_unusable store_error
  | Policy_missing
  | Policy_rolled_back state_version state_version

record services_host =
  gh_me :: node_id
  gh_root :: node_id
  gh_home :: home
  gh_config :: host_config
  gh_native :: "service_name list"
  gh_identities :: identities
  gh_freshness :: fresh_set
  gh_high_water :: u64

definition host_policy :: "prims \<Rightarrow> services_host \<Rightarrow> (policy_error + held) \<times> services_host" where
  "host_policy P h = (case store_read P (gh_home h) (gh_root h) of
     Inl e \<Rightarrow> (Inl (Policy_unusable e), h)
   | Inr None \<Rightarrow> (Inl Policy_missing, h)
   | Inr (Some state) \<Rightarrow>
       let version = held_version state; seen = gh_high_water h;
           h = h \<lparr> gh_high_water := max seen version \<rparr>
       in if version < seen then (Inl (Policy_rolled_back version seen), h)
          else (Inr state, h \<lparr> gh_identities :=
                  set_trust (hc_trust (gh_config h) (hd_policy state)) (gh_identities h) \<rparr>))"

datatype preflight_error =
    Pre_policy policy_error
  | Pre_stale error
  | Pre_config config_error
  | Pre_both service_name
  | Pre_no_such_service service_name
  | Pre_not_assigned service_name

definition preflight :: "prims \<Rightarrow> i64 \<Rightarrow> services_host \<Rightarrow> (preflight_error + held) \<times> services_host" where
  "preflight P now h = (case host_policy P h of
     (Inl e, h) \<Rightarrow> (Inl (Pre_policy e), h)
   | (Inr state, h) \<Rightarrow>
       (and_then (map_err Pre_stale (held_check_fresh state now)) (\<lambda>_.
        and_then (map_err Pre_config (hc_check_against (gh_config h) (hd_policy state) (gh_me h))) (\<lambda>_.
        and_then (all_ok (\<lambda>name.
            if bm_has (hc_services (gh_config h)) name then Inl (Pre_both name)
            else if policy_service (hd_policy state) name = None then Inl (Pre_no_such_service name)
            else if \<not> assigns (hd_policy state) name (gh_me h) then Inl (Pre_not_assigned name)
            else Inr ()) (gh_native h)) (\<lambda>_. Inr state))), h))"

datatype implementation = Native service_name | Command service_impl

definition host_implementation :: "services_host \<Rightarrow> service_name \<Rightarrow> implementation option" where
  "host_implementation h service =
     (if service \<in> set (gh_native h) then Some (Native service)
      else map_option Command (bm_get (hc_services (gh_config h)) service))"

definition admit_caller :: "prims \<Rightarrow> ring \<Rightarrow> web \<Rightarrow> held \<Rightarrow> node_id \<Rightarrow> id_token \<Rightarrow> i64 \<Rightarrow> services_host
    \<Rightarrow> (not_admitted + verified) \<times> services_host" where
  "admit_caller P R W state caller token now h =
     (let p = hd_policy state;
          refused = (\<lambda>said why. \<lparr> na_said = said, na_why = why, na_banned = bans_node p caller \<rparr>)
      in case verify_token P R W caller token now (gh_identities h) of (r, ids) \<Rightarrow>
        let h = h \<lparr> gh_identities := ids \<rparr> in
        case r of
          Inl (Sign_in_expired who) \<Rightarrow>
            (Inl ((refused sign_in_expired_text (Why_expired (principal_name who)))
                  \<lparr> na_banned := bans_node p caller \<or> bans_person p who \<rparr>), h)
        | Inl (Unavailable e) \<Rightarrow> (Inl (refused idp_unreachable_text (Why_unreachable e)), h)
        | Inl e \<Rightarrow> (Inl (refused not_admitted_text (Why_token e)), h)
        | Inr who \<Rightarrow> (case check_admitted p caller who of
            Inl e \<Rightarrow> (Inl \<lparr> na_said = not_admitted_text, na_why = Why_policy (principal_name who) e,
                         na_banned = (e = Banned) \<rparr>, h)
          | Inr _ \<Rightarrow> (Inr \<lparr> vf_token = token, vf_principal = who \<rparr>,
                      h \<lparr> gh_identities := id_record caller (Inr who) ids \<rparr>)))"

section \<open>Deciding a push\<close>

datatype push_why =
    Push_misconfigured
  | Push_stale state_version error
  | Push_removed state_version
  | Push_no_longer state_version error
  | Push_to_no_one
  | Push_no_role "string option"

datatype push_refusal = Push_not_admitted push_why | Push_refused push_why

definition decide_push :: "prims \<Rightarrow> node_id \<Rightarrow> i64 \<Rightarrow> services_host
    \<Rightarrow> (push_refusal + (principal option \<times> role_name)) \<times> services_host" where
  "decide_push P node now h = (case host_policy P h of
     (Inl _, h) \<Rightarrow> (Inl (Push_refused Push_misconfigured), h)
   | (Inr state, h) \<Rightarrow>
       (case held_check_fresh state now of
          Inl e \<Rightarrow> Inl (Push_refused (Push_stale (held_version state) e))
        | Inr _ \<Rightarrow>
            let who = id_current (gh_identities h) node now; p = hd_policy state in
            case (case who of
                Some w \<Rightarrow> check_admitted p node w
              | None \<Rightarrow> if bans_node p node then Inl Banned else Inr ()) of
              Inl Banned \<Rightarrow> Inl (Push_not_admitted (Push_removed (held_version state)))
            | Inl e \<Rightarrow> Inl (Push_refused (Push_no_longer (held_version state) e))
            | Inr _ \<Rightarrow>
                let allow = (case hc_push (gh_config h) of None \<Rightarrow> [] | Some a \<Rightarrow> a) in
                if allow = [] then Inl (Push_refused Push_to_no_one)
                else case List.find (\<lambda>r. role_admits p r who) allow of
                  Some role \<Rightarrow> Inr (who, role)
                | None \<Rightarrow> Inl (Push_refused (Push_no_role (map_option principal_name who))), h))"

definition push_recipients :: "prims \<Rightarrow> role_name \<Rightarrow> i64 \<Rightarrow> services_host \<Rightarrow> node_id list \<times> services_host" where
  "push_recipients P role now h = (case host_policy P h of
     (Inl _, h) \<Rightarrow> ([], h)
   | (Inr state, h) \<Rightarrow>
       (sort (filter (\<lambda>n. n \<noteq> gh_me h) (filter (\<lambda>n.
          case id_current (gh_identities h) n now of
            None \<Rightarrow> False
          | Some p \<Rightarrow> check_admitted (hd_policy state) n p = Inr ()
                     \<and> role_admits (hd_policy state) role (Some p))
          (id_nodes (gh_identities h)))), h))"

end
