(* ===== verification/Host_Decisions.thy ===== *)
theory Host_Decisions
  imports Host_Gate
begin

text \<open>
  What the host's decisions (\<open>Host_Gate\<close>) promise: the laws of each operation, and the properties
  of the call gate, of the policy a host decides under, of the identity index, of pushes, and of a
  whole call from token to decision.
\<close>

section \<open>Laws\<close>

lemma gate_admit_Inr: "gate_admit state config me caller v service now = Inr a \<longleftrightarrow>
    check_admitted (hd_policy state) caller (vf_principal v) = Inr ()
    \<and> held_check_fresh state now = Inr ()
    \<and> authorize (hd_policy state) caller (Some (vf_principal v)) service = Inr (ad_role a)
    \<and> assigns (hd_policy state) service me
    \<and> (\<forall>svc r. bm_get (hc_services config) service = Some svc \<and> r \<in> set (si_also_require svc) \<longrightarrow>
          role_admits (hd_policy state) r (Some (vf_principal v)))
    \<and> ad_version a = held_version state \<and> ad_caller a = v"
proof -
  have unit: "(\<exists>x. r = Inr x \<and> Q) \<longleftrightarrow> r = Inr () \<and> Q" for r :: "error + unit" and Q by auto
  have also_ok: "list_all q (case bm_get (hc_services config) service of None \<Rightarrow> [] | Some svc \<Rightarrow> si_also_require svc) \<longleftrightarrow>
      (\<forall>svc r. bm_get (hc_services config) service = Some svc \<and> r \<in> set (si_also_require svc) \<longrightarrow> q r)" for q
    by (cases "bm_get (hc_services config) service") (auto simp: list_all_iff)
  show ?thesis
    by (cases a; cases "check_admitted (hd_policy state) caller (vf_principal v)")
      (auto simp: gate_admit_def Let_def and_then_Inr_iff map_err_Inr_iff also_ok)
qed

lemma host_policy_Inr: "host_policy P h = (Inr state, h') \<longleftrightarrow>
    store_read P (gh_home h) (gh_root h) = Inr (Some state) \<and> gh_high_water h \<le> held_version state
    \<and> h' = h \<lparr> gh_high_water := held_version state, gh_identities :=
        set_trust (hc_trust (gh_config h) (hd_policy state)) (gh_identities h) \<rparr>"
  by (auto simp: host_policy_def Let_def not_less split: sum.splits option.splits if_splits)

lemma host_policy_high_water: "host_policy P h = (r, h') \<Longrightarrow> gh_high_water h \<le> gh_high_water h'"
  by (auto simp: host_policy_def Let_def split: sum.splits option.splits if_splits)

lemma host_policy_trust:
  "host_policy P h = (Inr state, h') \<Longrightarrow> id_trust (gh_identities h') = hc_trust (gh_config h) (hd_policy state)"
  by (auto simp: host_policy_Inr set_trust_def)

lemma held_of_read:
  assumes "store_read P ks root = Inr (Some h)"
  shows "sp_verify P (hd_signed h) root = Inr () \<and> to_policy (hd_signed h) = Inr (hd_policy h)
    \<and> policy_wf (hd_policy h)"
proof -
  have v: "sp_verify P (hd_signed h) root = Inr ()" "to_policy (hd_signed h) = Inr (hd_policy h)"
    using assms by (auto simp: store_read_def and_then_Inr_iff map_err_Inr_iff held_verify_Inr
        split: disk_file.splits)
  then show ?thesis by (auto simp: sp_verify_Inr)
qed

lemma verify_token_Inr:
  assumes "verify_token P R W node token now ids = (Inr who, ids')" "kf_ok now (id_fetcher ids)"
  shows "\<exists>iss ca. iss \<in> set (trust_issuers (id_trust ids)) \<and> pr_issuer who = iss
    \<and> kf_keys (id_fetcher ids') iss = Some ca \<and> ca_issuer ca = iss \<and> now < ca_expires_at ca
    \<and> verify_claim P R \<lparr> ic_node = node, ic_token = token \<rparr> iss (ca_jwks ca)
        (audiences_for (id_trust ids) iss) now = Inr who"
proof -
  let ?c = "\<lparr> ic_node = node, ic_token = token \<rparr>"
  obtain f where f: "kf_verify P R W ?c (trust_issuers (id_trust ids))
      (audiences_for_claim P (id_trust ids) ?c) now (id_fetcher ids) = (Inr who, f)"
      "id_fetcher ids' = f"
    using assms(1) by (auto simp: verify_token_def Let_def split: prod.splits)
  obtain iss kid ks where v: "unverified_issuer P token = Inr iss" "iss \<in> set (trust_issuers (id_trust ids))"
    "kf_keys_for P W iss kid now (id_fetcher ids) = (Inr ks, f)"
    "verify_claim P R ?c iss ks (audiences_for_claim P (id_trust ids) ?c) now = Inr who"
    using kf_verify_Inr[OF f(1)] by auto
  moreover have "audiences_for_claim P (id_trust ids) ?c = audiences_for (id_trust ids) iss"
    using v(1) by (simp add: audiences_for_claim_def)
  moreover have "pr_issuer who = iss"
    using v(4) unfolding verify_claim_Inr by (auto simp: principal_of_def)
  ultimately show ?thesis
    using kf_keys_for_Inr[OF assms(2) v(3)] f(2) by fastforce
qed

lemma verify_token_known: "verify_token P R W node token now ids = (r, ids') \<Longrightarrow>
    id_known ids' = id_known ids \<and> id_trust ids' = id_trust ids"
  by (auto simp: verify_token_def Let_def split: prod.splits)

lemma admit_caller_effect:
  assumes "admit_caller P R W state caller token now h = (r, h')"
  shows "(\<exists>who ids. r = Inr \<lparr> vf_token = token, vf_principal = who \<rparr>
          \<and> verify_token P R W caller token now (gh_identities h) = (Inr who, ids)
          \<and> check_admitted (hd_policy state) caller who = Inr ()
          \<and> h' = h \<lparr> gh_identities := id_record caller (Inr who) ids \<rparr>)
       \<or> (\<exists>e ids. r = Inl e \<and> h' = h \<lparr> gh_identities := ids \<rparr> \<and> id_known ids = id_known (gh_identities h))"
proof -
  obtain q ids where q: "verify_token P R W caller token now (gh_identities h) = (q, ids)" by fastforce
  show ?thesis
    using assms verify_token_known[OF q]
    by (auto simp: admit_caller_def Let_def q split: sum.splits verify_error.splits)
qed

text \<open>The identity index: a node's principal is only replaced by one that lasts at least as long.\<close>

definition known_ahead :: "identities \<Rightarrow> identities \<Rightarrow> bool" where
  "known_ahead ids ids' \<longleftrightarrow> (\<forall>n p. bm_get (id_known ids) n = Some p \<longrightarrow>
     (\<exists>p'. bm_get (id_known ids') n = Some p' \<and> pr_not_after p \<le> pr_not_after p'))"

lemma known_ahead_refl: "id_known ids' = id_known ids \<Longrightarrow> known_ahead ids ids'"
  by (simp add: known_ahead_def)

lemma id_record_known: "bm_ok (id_known ids) \<Longrightarrow>
    bm_ok (id_known (id_record node v ids)) \<and> known_ahead ids (id_record node v ids)
    \<and> (\<forall>n p. bm_get (id_known (id_record node v ids)) n = Some p \<longrightarrow>
          bm_get (id_known ids) n = Some p \<or> n = node \<and> (v = Inr p \<or> v = Inl (Sign_in_expired p)))"
  by (auto simp: id_record_def known_ahead_def bm.get_put split: option.splits sum.splits verify_error.splits)

section \<open>The call gate\<close>

text \<open>
  C25: the gate lets a call through exactly when all five conditions hold: the policy admits the
  caller, the policy has not expired, it lets this person call the service (in the role reported),
  it assigns the service to this very host, and the person is in every role \<open>host.json\<close> also
  requires; and it reports the policy's version and the caller as verified.
\<close>

theorem gate_spec:
  "gate_admit state config me caller v service now = Inr a \<longleftrightarrow>
    check_admitted (hd_policy state) caller (vf_principal v) = Inr ()
    \<and> now \<le> h_not_after (sh_head (sp_head (hd_signed state)))
    \<and> authorize (hd_policy state) caller (Some (vf_principal v)) service = Inr (ad_role a)
    \<and> (\<exists>svc. policy_service (hd_policy state) service = Some svc \<and> me \<in> set (sv_hosts svc))
    \<and> \<not> bans_node (hd_policy state) me
    \<and> (\<forall>svc r. bm_get (hc_services config) service = Some svc \<and> r \<in> set (si_also_require svc) \<longrightarrow>
          role_admits (hd_policy state) r (Some (vf_principal v)))
    \<and> ad_version a = held_version state \<and> ad_caller a = v"
  unfolding gate_admit_Inr
  by (auto simp: held_check_fresh_def head_check_fresh_def assigns_def split: option.splits)

definition demo_verified :: verified where
  "demo_verified = \<lparr> vf_token = ''t'', vf_principal = demo_alice \<rparr>"

theorem gate_spec_witness:
  "\<exists>state. gate_admit state demo_config 2 7 demo_verified ''status'' 500 =
     Inr \<lparr> ad_role = ''staff'', ad_version = 1, ad_caller = demo_verified \<rparr>"
proof -
  obtain s where s: "sign_with demo_prims demo_policy 1 None = Inr s"
    using sign_ok_iff[of demo_prims demo_policy 1 None] by (auto simp: is_ok_iff)
  then have h: "h_not_after (sh_head (sp_head s)) = 1000" "sp_version s = 1"
    by (auto simp: sign_with_Inr head_sign_Inr head_of_def demo_policy_def policy_new_def sp_version_def)
  have adm: "check_admitted demo_policy 7 demo_alice = Inr ()"
    using authorized_caller[OF demo_policy_ok(2) demo_authorized] by auto
  have "role_admits demo_policy ''staff'' (Some demo_alice)"
    by (simp add: demo_policy_def policy_new_def role_admits_def admits_def matches_def matcher_new_def demo_alice_def)
  then have "gate_admit \<lparr> hd_signed = s, hd_policy = demo_policy \<rparr> demo_config 2 7 demo_verified ''status'' 500 =
      Inr \<lparr> ad_role = ''staff'', ad_version = 1, ad_caller = demo_verified \<rparr>"
    using adm demo_authorized h unfolding gate_spec
    by (simp add: demo_verified_def held_version_def demo_config_def policy_service_def bans_node_def)
      (simp add: demo_policy_def policy_new_def)
  then show ?thesis by blast
qed

text \<open>
  The gate says nothing to whom it may not. A caller the policy does not admit hears the one
  fixed sentence, whatever the policy, its version, its freshness or the service; and an admitted
  one asking for a service it may not call hears one sentence that is the same whether the service
  exists or not, who may call it, and where it is assigned: two policies and two hosts that differ
  in any of that give it the same answer.
\<close>

theorem gate_discloses_nothing:
  "(\<not> is_ok (check_admitted (hd_policy st) caller (vf_principal v)) \<longrightarrow>
      gate_decide st config me caller v service now = Inl (Heard not_admitted_text))
   \<and> (is_ok (check_admitted (hd_policy st) caller (vf_principal v))
      \<and> is_ok (check_admitted (hd_policy st') caller (vf_principal v))
      \<and> is_ok (held_check_fresh st now) \<and> is_ok (held_check_fresh st' now)
      \<and> \<not> is_ok (authorize (hd_policy st) caller (Some (vf_principal v)) service)
      \<and> \<not> is_ok (authorize (hd_policy st') caller (Some (vf_principal v)) service) \<longrightarrow>
        gate_decide st config me caller v service now = gate_decide st' config' me' caller v service now
        \<and> gate_decide st config me caller v service now = Inl (Heard (not_callable_text service)))"
proof -
  have no: "gate_decide st config me caller v service now = Inl (Heard (not_callable_text service))"
    if adm: "is_ok (check_admitted (hd_policy st) caller (vf_principal v))" and fresh: "is_ok (held_check_fresh st now)"
      and no: "\<not> is_ok (authorize (hd_policy st) caller (Some (vf_principal v)) service)" for st config me
  proof -
    have nb: "authorize (hd_policy st) caller (Some (vf_principal v)) service \<noteq> Inl Refusal_Banned"
      using adm by (auto simp: is_ok_iff check_admitted_Inr authorize_def split: option.splits)
    obtain r where r: "authorize (hd_policy st) caller (Some (vf_principal v)) service = Inl r"
      using no by (cases "authorize (hd_policy st) caller (Some (vf_principal v)) service") auto
    with nb have "r \<noteq> Refusal_Banned" by simp
    then show ?thesis
      using adm fresh r by (cases r) (auto simp: is_ok_iff gate_decide_def gate_admit_def Let_def)
  qed
  have "gate_decide st config me caller v service now = Inl (Heard not_admitted_text)"
    if "\<not> is_ok (check_admitted (hd_policy st) caller (vf_principal v))"
    using that by (cases "check_admitted (hd_policy st) caller (vf_principal v)")
      (auto simp: gate_decide_def gate_admit_def Let_def)
  with no show ?thesis by metis
qed

theorem gate_discloses_nothing_witness:
  "\<forall>st s. gate_decide st demo_config 2 8 (demo_verified \<lparr> vf_principal := demo_alice \<lparr> pr_email := None \<rparr> \<rparr>) s 500 =
     Inl (Heard not_admitted_text)"
  using gate_discloses_nothing[of _ 8 "demo_verified \<lparr> vf_principal := demo_alice \<lparr> pr_email := None \<rparr> \<rparr>"]
  by (simp add: is_ok_iff check_admitted_Inr)

section \<open>The policy a host decides under\<close>

text \<open>The versions a host decided under, while its files change under it in any way.\<close>

fun decided :: "prims \<Rightarrow> home list \<Rightarrow> services_host \<Rightarrow> held list" where
  "decided P [] h = []"
| "decided P (d # ds) h = (case host_policy P (h \<lparr> gh_home := d \<rparr>) of
     (Inr state, h') \<Rightarrow> state # decided P ds h'
   | (Inl _, h') \<Rightarrow> decided P ds h')"

lemma decided_above:
  "st \<in> set (decided P ds h) \<Longrightarrow> gh_high_water h \<le> held_version st \<and> sp_verify P (hd_signed st) (gh_root h) = Inr ()"
proof (induction ds arbitrary: h)
  case (Cons d ds)
  obtain r h' where r: "host_policy P (h \<lparr> gh_home := d \<rparr>) = (r, h')" by fastforce
  have hw: "gh_high_water h \<le> gh_high_water h'" using host_policy_high_water[OF r] by simp
  have root: "gh_root h' = gh_root h"
    using r by (auto simp: host_policy_def Let_def split: sum.splits option.splits if_splits)
  show ?case
  proof (cases "st \<in> set (decided P ds h')")
    case True
    then show ?thesis using Cons.IH[OF True] hw root by auto
  next
    case False
    then have "r = Inr st" using Cons.prems r by (auto split: sum.splits)
    then show ?thesis using r held_of_read by (auto simp: host_policy_Inr)
  qed
qed simp

text \<open>
  C29: a host never decides under a policy older than one it already decided under, whatever is
  written over its files between decisions (by anyone who can), and every policy it decides under
  verifies under its root: the versions it decides under never go down.
\<close>

theorem host_never_rolls_back:
  "sorted (map held_version (decided P ds h))
   \<and> (\<forall>st \<in> set (decided P ds h). gh_high_water h \<le> held_version st
        \<and> sp_verify P (hd_signed st) (gh_root h) = Inr ())"
proof
  show "sorted (map held_version (decided P ds h))"
  proof (induction ds arbitrary: h)
    case (Cons d ds)
    obtain r h' where r: "host_policy P (h \<lparr> gh_home := d \<rparr>) = (r, h')" by fastforce
    show ?case
    proof (cases r)
      case (Inr st)
      then have "gh_high_water h' = held_version st" using r by (auto simp: host_policy_Inr)
      then show ?thesis using Cons.IH[of h'] decided_above by (fastforce simp: r Inr)
    qed (use Cons.IH r in simp)
  qed simp
  show "\<forall>st \<in> set (decided P ds h). gh_high_water h \<le> held_version st
        \<and> sp_verify P (hd_signed st) (gh_root h) = Inr ()"
    using decided_above by blast
qed

definition demo_identities :: identities where
  "demo_identities = \<lparr> id_fetcher = demo_fetcher, id_trust = [(''https://idp'', [''cli''])], id_known = [] \<rparr>"

definition demo_host :: "home \<Rightarrow> services_host" where
  "demo_host ks = \<lparr> gh_me = 2, gh_root = 1, gh_home = ks, gh_config = demo_config, gh_native = [],
     gh_identities = demo_identities, gh_freshness = [], gh_high_water = 0 \<rparr>"

theorem host_never_rolls_back_witness:
  "\<exists>ks st. st \<in> set (decided demo_prims [ks, demo_home, ks] (demo_host demo_home))
     \<and> sp_verify demo_prims (hd_signed st) 1 = Inr ()"
proof -
  obtain s where s: "sp_version s = 1"
    "store_read demo_prims (snd (adopt_if_newer demo_prims s 1 500 demo_home)) 1
       = Inr (Some \<lparr> hd_signed = s, hd_policy = demo_policy \<rparr>)" using demo_stored by blast
  let ?ks = "snd (adopt_if_newer demo_prims s 1 500 demo_home)"
  let ?st = "\<lparr> hd_signed = s, hd_policy = demo_policy \<rparr>"
  have "?st \<in> set (decided demo_prims [?ks, demo_home, ?ks] (demo_host demo_home))"
    using s by (auto simp: host_policy_def demo_host_def Let_def held_version_def split: sum.splits option.splits if_splits)
  moreover from this have "sp_verify demo_prims (hd_signed ?st) (gh_root (demo_host demo_home)) = Inr ()"
    using host_never_rolls_back[of demo_prims "[?ks, demo_home, ?ks]" "demo_host demo_home"] by blast
  moreover have "gh_root (demo_host demo_home) = 1" by (simp add: demo_host_def)
  ultimately show ?thesis by (metis (no_types, lifting))
qed

section \<open>The identity index\<close>

record admit_op =
  ao_ring :: ring
  ao_web :: web
  ao_state :: held
  ao_caller :: node_id
  ao_token :: id_token
  ao_now :: i64

definition admit_step :: "prims \<Rightarrow> admit_op \<Rightarrow> services_host \<Rightarrow> services_host" where
  "admit_step P op h = snd (admit_caller P (ao_ring op) (ao_web op) (ao_state op) (ao_caller op) (ao_token op)
     (ao_now op) h)"

lemma admit_step_known:
  assumes "bm_ok (id_known (gh_identities h))"
  shows "bm_ok (id_known (gh_identities (admit_step P op h)))
    \<and> known_ahead (gh_identities h) (gh_identities (admit_step P op h))
    \<and> (\<forall>n p. bm_get (id_known (gh_identities (admit_step P op h))) n = Some p \<longrightarrow>
          bm_get (id_known (gh_identities h)) n = Some p
          \<or> n = ao_caller op \<and> check_admitted (hd_policy (ao_state op)) n p = Inr ())"
proof -
  obtain r h' where a: "admit_caller P (ao_ring op) (ao_web op) (ao_state op) (ao_caller op) (ao_token op)
     (ao_now op) h = (r, h')" by fastforce
  from admit_caller_effect[OF a] show ?thesis
  proof (elim disjE exE conjE)
    fix who ids
    assume v: "verify_token P (ao_ring op) (ao_web op) (ao_caller op) (ao_token op) (ao_now op) (gh_identities h)
        = (Inr who, ids)" "check_admitted (hd_policy (ao_state op)) (ao_caller op) who = Inr ()"
      "h' = h \<lparr> gh_identities := id_record (ao_caller op) (Inr who) ids \<rparr>"
    have k: "id_known ids = id_known (gh_identities h)" using verify_token_known[OF v(1)] by simp
    then have "bm_ok (id_known ids)" using assms by simp
    from id_record_known[OF this, of "ao_caller op" "Inr who"] show ?thesis
      using v k by (auto simp: admit_step_def a known_ahead_def)
  next
    fix e ids
    assume "h' = h \<lparr> gh_identities := ids \<rparr>" "id_known ids = id_known (gh_identities h)"
    then show ?thesis using assms known_ahead_refl by (simp add: admit_step_def a)
  qed
qed

interpretation index: ratchet "admit_step P" "\<lambda>h h'. known_ahead (gh_identities h) (gh_identities h')"
    "\<lambda>_. True" "\<lambda>h. bm_ok (id_known (gh_identities h))"
  for P
proof
  fix s t u :: services_host
  show "known_ahead (gh_identities s) (gh_identities s)" by (simp add: known_ahead_refl)
  assume "known_ahead (gh_identities s) (gh_identities t)" "known_ahead (gh_identities t) (gh_identities u)"
  then show "known_ahead (gh_identities s) (gh_identities u)"
    unfolding known_ahead_def by (meson order_trans)
next
  fix op :: admit_op and s :: services_host
  assume "bm_ok (id_known (gh_identities s))"
  from admit_step_known[OF this, of P op]
  show "bm_ok (id_known (gh_identities (admit_step P op s)))"
    "known_ahead (gh_identities s) (gh_identities (admit_step P op s))" by blast+
qed

lemma admit_run_admitted:
  assumes "bm_ok (id_known (gh_identities h))"
    "bm_get (id_known (gh_identities (fold (admit_step P) ops h))) n = Some p"
  shows "bm_get (id_known (gh_identities h)) n = Some p
    \<or> (\<exists>op \<in> set ops. ao_caller op = n \<and> check_admitted (hd_policy (ao_state op)) n p = Inr ())"
  using assms
proof (induction ops arbitrary: h)
  case (Cons op ops)
  note s = admit_step_known[OF Cons.prems(1), of P op]
  from Cons.IH[of "admit_step P op h"] s Cons.prems(2) show ?case by fastforce
qed simp

text \<open>
  The index of who is behind each key holds only admitted people and cannot be rolled back.
  Whatever tokens whoever presents, every principal the host then remembers for a node was
  remembered before or was admitted, for that very node, by the policy of one of the calls; and at
  any time a node's principal is only ever replaced by one whose token lasts at least as long.
\<close>

theorem index_admitted_only:
  assumes "bm_ok (id_known (gh_identities h))"
  shows "(\<forall>n p. bm_get (id_known (gh_identities (fold (admit_step P) ops h))) n = Some p \<longrightarrow>
      bm_get (id_known (gh_identities h)) n = Some p
      \<or> (\<exists>op \<in> set ops. ao_caller op = n \<and> check_admitted (hd_policy (ao_state op)) n p = Inr ()))
    \<and> (\<forall>i n p. bm_get (id_known (gh_identities (fold (admit_step P) (take i ops) h))) n = Some p \<longrightarrow>
        (\<exists>p'. bm_get (id_known (gh_identities (fold (admit_step P) ops h))) n = Some p'
           \<and> pr_not_after p \<le> pr_not_after p'))"
  using admit_run_admitted[OF assms] index.run_between[OF _ assms] by (fastforce simp: known_ahead_def)

lemma demo_verify_token:
  "verify_token demo_idp demo_ring demo_web 7 ''01.02.09'' 500 demo_identities =
     (Inr \<lparr> pr_issuer = ''https://idp'', pr_subject = ''1'', pr_email = Some ''alice@ex.com'',
            pr_org = None, pr_groups = [], pr_not_after = 1000 \<rparr>, demo_identities)"
proof -
  have c: "demo_claim = \<lparr> ic_node = 7, ic_token = ''01.02.09'' \<rparr>" by (simp add: demo_claim_def)
  obtain iss where i: "unverified_issuer demo_idp ''01.02.09'' = Inr iss" "iss \<in> set [''https://idp'']"
    using kf_verify_Inr[OF demo_kf_verify] by (auto simp: demo_claim_def)
  then show ?thesis
    using demo_kf_verify
    by (simp add: verify_token_def demo_identities_def Let_def trust_issuers_def audiences_for_claim_def
        audiences_for_def c)
qed

definition demo_held :: held where
  "demo_held = \<lparr> hd_signed = \<lparr> sp_head = demo_head, sp_items = [] \<rparr>, hd_policy = demo_policy \<rparr>"

definition demo_op :: admit_op where
  "demo_op = \<lparr> ao_ring = demo_ring, ao_web = demo_web, ao_state = demo_held, ao_caller = 7,
     ao_token = ''01.02.09'', ao_now = 500 \<rparr>"

definition demo_who :: principal where
  "demo_who = \<lparr> pr_issuer = ''https://idp'', pr_subject = ''1'', pr_email = Some ''alice@ex.com'',
     pr_org = None, pr_groups = [], pr_not_after = 1000 \<rparr>"

lemma demo_admitted:
  assumes "hd_policy st = demo_policy" "gh_identities h = demo_identities"
  shows "admit_caller demo_idp demo_ring demo_web st 7 ''01.02.09'' 500 h =
      (Inr \<lparr> vf_token = ''01.02.09'', vf_principal = demo_who \<rparr>,
       h \<lparr> gh_identities := demo_identities \<lparr> id_known := [(7, demo_who)] \<rparr> \<rparr>)
    \<and> check_admitted demo_policy 7 demo_who = Inr ()"
proof -
  have adm: "check_admitted demo_policy 7 demo_who = Inr ()"
    by (simp add: check_admitted_Inr)
      (simp add: demo_policy_def policy_new_def bans_node_def bans_person_def any_role_admits_def admits_def
        matches_def matcher_new_def demo_who_def)
  then show ?thesis
    by (simp add: admit_caller_def Let_def assms demo_verify_token id_record_def flip: demo_who_def)
      (simp add: demo_identities_def)
qed

theorem index_admitted_only_witness:
  "bm_get (id_known (gh_identities (fold (admit_step demo_idp) [demo_op] (demo_host demo_home)))) 7 = Some demo_who
     \<and> check_admitted demo_policy 7 demo_who = Inr ()"
proof -
  have a: "admit_caller demo_idp demo_ring demo_web demo_held 7 ''01.02.09'' 500 (demo_host demo_home) =
      (Inr \<lparr> vf_token = ''01.02.09'', vf_principal = demo_who \<rparr>,
       (demo_host demo_home) \<lparr> gh_identities := demo_identities \<lparr> id_known := [(7, demo_who)] \<rparr> \<rparr>)"
    using demo_admitted[of demo_held "demo_host demo_home"] by (simp add: demo_held_def demo_host_def)
  have ok: "bm_ok (id_known (gh_identities (demo_host demo_home)))"
    "id_known (gh_identities (demo_host demo_home)) = []"
    by (simp_all add: demo_host_def demo_identities_def)
  have got: "bm_get (id_known (gh_identities (fold (admit_step demo_idp) [demo_op] (demo_host demo_home)))) 7 = Some demo_who"
    by (simp add: admit_step_def demo_op_def a)
  with index_admitted_only[OF ok(1), of demo_idp "[demo_op]"] ok(2) show ?thesis
    by (force simp: demo_op_def demo_held_def)
qed

text \<open>
  A host pushes only to whom its policy and its own rule allow now. \<open>decide_push\<close> says yes
  exactly when the host's policy reads, was not rolled back and has not expired, the node's last
  verified person is not stale and still admitted (no ban on the node or the person, a verified
  email, a role), and the role reported is the first of \<open>push.allow\<close> that admits that person.
\<close>

theorem decide_push_spec:
  "fst (decide_push P node now h) = Inr (who, role) \<longleftrightarrow>
     (\<exists>state h' w before after. host_policy P h = (Inr state, h')
        \<and> now \<le> h_not_after (sh_head (sp_head (hd_signed state)))
        \<and> who = Some w \<and> bm_get (id_known (gh_identities h)) node = Some w
        \<and> now \<le> sat_add (pr_not_after w) clock_skew_secs
        \<and> check_admitted (hd_policy state) node w = Inr ()
        \<and> hc_push (gh_config h) = Some (before @ role # after)
        \<and> role_admits (hd_policy state) role who
        \<and> (\<forall>r \<in> set before. \<not> role_admits (hd_policy state) r who))"
proof (cases "host_policy P h")
  case (Pair r h')
  show ?thesis
  proof (cases r)
    case (Inl e)
    then show ?thesis by (simp add: decide_push_def Pair)
  next
    case (Inr state)
    have keep: "gh_config h' = gh_config h" "id_known (gh_identities h') = id_known (gh_identities h)"
      using Pair Inr by (auto simp: host_policy_Inr set_trust_def)
    have cur: "id_current (gh_identities h') node now = Some w \<longleftrightarrow>
        bm_get (id_known (gh_identities h)) node = Some w \<and> now \<le> sat_add (pr_not_after w) clock_skew_secs" for w
      by (auto simp: id_current_def keep principal_is_fresh_def split: option.splits)
    have none: "\<not> role_admits p r None" for p r by (simp add: role_admits_Some)
    let ?who = "id_current (gh_identities h') node now"
    let ?allow = "case hc_push (gh_config h) of None \<Rightarrow> [] | Some a \<Rightarrow> a"
    have "fst (decide_push P node now h) = Inr (who, role) \<longleftrightarrow>
        held_check_fresh state now = Inr () \<and> who = ?who
        \<and> (case who of Some w \<Rightarrow> check_admitted (hd_policy state) node w = Inr () | None \<Rightarrow> \<not> bans_node (hd_policy state) node)
        \<and> List.find (\<lambda>r. role_admits (hd_policy state) r who) ?allow = Some role"
      by (cases "held_check_fresh state now"; cases ?who)
        (auto simp: decide_push_def Pair Inr Let_def keep split: sum.splits error.splits option.splits if_splits)
    also have "\<dots> \<longleftrightarrow> now \<le> h_not_after (sh_head (sp_head (hd_signed state)))
        \<and> (\<exists>w. who = Some w \<and> ?who = Some w \<and> check_admitted (hd_policy state) node w = Inr ()
            \<and> List.find (\<lambda>r. role_admits (hd_policy state) r who) ?allow = Some role)"
    proof -
      have "List.find (\<lambda>r. role_admits (hd_policy state) r None) ?allow = None"
        using none by (simp add: find_None_all)
      then show ?thesis
        by (cases who) (auto simp: held_check_fresh_def head_check_fresh_def)
    qed
    also have "\<dots> \<longleftrightarrow> (\<exists>w before after. now \<le> h_not_after (sh_head (sp_head (hd_signed state)))
        \<and> who = Some w \<and> bm_get (id_known (gh_identities h)) node = Some w
        \<and> now \<le> sat_add (pr_not_after w) clock_skew_secs
        \<and> check_admitted (hd_policy state) node w = Inr ()
        \<and> hc_push (gh_config h) = Some (before @ role # after)
        \<and> role_admits (hd_policy state) role who
        \<and> (\<forall>r \<in> set before. \<not> role_admits (hd_policy state) r who))"
      unfolding cur find_Some_split by (cases "hc_push (gh_config h)") auto
    finally show ?thesis by (simp add: Pair Inr)
  qed
qed

theorem decide_push_spec_witness:
  "\<exists>ks w. fst (decide_push demo_prims 7 500 ((demo_host ks) \<lparr> gh_identities := demo_identities
      \<lparr> id_known := [(7, w)] \<rparr> \<rparr>)) = Inr (Some w, ''staff'')"
proof -
  obtain s where s: "sp_version s = 1" "head_check_fresh (sp_head s) 500 = Inr ()"
    "store_read demo_prims (snd (adopt_if_newer demo_prims s 1 500 demo_home)) 1
       = Inr (Some \<lparr> hd_signed = s, hd_policy = demo_policy \<rparr>)" using demo_stored by blast
  let ?ks = "snd (adopt_if_newer demo_prims s 1 500 demo_home)"
  let ?w = "demo_alice \<lparr> pr_not_after := 900 \<rparr>"
  let ?h = "(demo_host ?ks) \<lparr> gh_identities := demo_identities \<lparr> id_known := [(7, ?w)] \<rparr> \<rparr>"
  let ?st = "\<lparr> hd_signed = s, hd_policy = demo_policy \<rparr>"
  have pol: "\<exists>h'. host_policy demo_prims ?h = (Inr ?st, h')"
    unfolding host_policy_Inr using s by (simp add: demo_host_def held_version_def)
  have who: "check_admitted demo_policy 7 ?w = Inr ()" "role_admits demo_policy ''staff'' (Some ?w)"
    by (simp_all add: check_admitted_Inr demo_policy_def policy_new_def bans_node_def bans_person_def
        any_role_admits_def role_admits_def admits_def matches_def matcher_new_def demo_alice_def)
  have "now \<le> h_not_after (sh_head (sp_head s)) \<longleftrightarrow> head_check_fresh (sp_head s) now = Inr ()" for now
    by (simp add: head_check_fresh_def)
  then have "500 \<le> h_not_after (sh_head (sp_head s))" using s(2) by blast
  then have "fst (decide_push demo_prims 7 500 ?h) = Inr (Some ?w, ''staff'')"
    unfolding decide_push_spec using pol who
    by (auto simp: demo_host_def demo_config_def sat_add_def clamp_i64_def clock_skew_secs_def i64_min_def
        i64_max_def intro!: exI[of _ ?st] exI[of _ "[]"])
  then show ?thesis by blast
qed

section \<open>A whole call\<close>


lemma demo_idp_compact [simp]: "compact_law demo_idp"
  using demo_compact by (simp add: compact_law_def demo_idp_def)

lemma demo_who_gate:
  assumes "head_check_fresh (sp_head s) 500 = Inr ()" "sp_version s = 1"
  shows "gate_admit \<lparr> hd_signed = s, hd_policy = demo_policy \<rparr> demo_config 2 7
      \<lparr> vf_token = t, vf_principal = demo_who \<rparr> ''status'' 500 =
    Inr \<lparr> ad_role = ''staff'', ad_version = 1, ad_caller = \<lparr> vf_token = t, vf_principal = demo_who \<rparr> \<rparr>"
proof -
  have adm: "check_admitted demo_policy 7 demo_who = Inr ()"
    using demo_admitted[of demo_held "demo_host demo_home"] by (simp add: demo_held_def demo_host_def)
  have may: "authorize demo_policy 7 (Some demo_who) ''status'' = Inr ''staff''"
    "role_admits demo_policy ''staff'' (Some demo_who)" "assigns demo_policy ''status'' 2"
    by (simp_all add: authorize_def bans_node_def bans_person_def demo_policy_def policy_new_def role_admits_def
        admits_def matches_def matcher_new_def demo_who_def assigns_def policy_service_def)
  show ?thesis
    unfolding gate_admit_Inr using adm may assms
    by (simp add: held_check_fresh_def held_version_def) (simp add: demo_config_def)
qed


end
