(* ===== verification/Push_Host.thy ===== *)
theory Push_Host
  imports Push_Queue Host_Decisions
begin

text \<open>
  The push service of \<open>wires/host/push.rs\<close>: sending (\<open>send\<close>, \<open>deliver_direct\<close>), the fetch side of the
  inbox protocol (\<open>serve_fetch\<close>) and the expiry sweep. What a peer does (it answers a dial, it
  acknowledges, it writes frames) and what the clock says are inputs of the handlers; what the
  handlers trace with \<open>record\<close> is part of the state, as the fate of each message.
\<close>

definition push_default_ttl :: u64 where "push_default_ttl = 24 * 3600"
definition push_max_ttl :: u64 where "push_max_ttl = 7 * 24 * 3600"
definition fetch_wait_max :: nat where "fetch_wait_max = 25000"
definition max_preauth_fetches :: nat where "max_preauth_fetches = 64"
definition max_fetches_per_node :: nat where "max_fetches_per_node = 2"

section \<open>State\<close>

record push_spec =
  ps_to :: string
  ps_subject :: subject
  ps_body :: push_body
  ps_ttl_secs :: "u64 option"

record push_result =
  rs_to :: node_id
  rs_who :: "string option"
  rs_id :: push_id
  rs_outcome :: push_outcome
  rs_reason :: "push_refusal option"

definition any_accepted :: "push_result list \<Rightarrow> bool" where
  "any_accepted rs = list_ex (\<lambda>r. rs_outcome r \<noteq> Push_denied) rs"

text \<open>\<open>ph_path\<close> is the queue's file (\<open>None\<close>: memory only), \<open>ph_disk_ok\<close> whether it takes writes,
  \<open>ph_up\<close> whether the endpoint is attached, \<open>ph_preauth\<close> the fetches being read, \<open>ph_fetching\<close> the open
  long polls, and \<open>ph_fates\<close> what was traced, oldest first.\<close>

record push_host =
  ph_host :: services_host
  ph_queue :: queue
  ph_path :: "disk_file option"
  ph_disk_ok :: bool
  ph_up :: bool
  ph_preauth :: nat
  ph_fetching :: "(node_id, nat) btree_map"
  ph_fates :: "(queue_entry \<times> push_outcome) list"

definition from_state :: "services_host \<Rightarrow> push_host" where
  "from_state h = \<lparr> ph_host = h, ph_queue = [], ph_path = None, ph_disk_ok = True, ph_up = False,
     ph_preauth = 0, ph_fetching = [], ph_fates = [] \<rparr>"

definition with_persisted :: "prims \<Rightarrow> disk_file \<Rightarrow> push_host \<Rightarrow> push_host" where
  "with_persisted P f st = st \<lparr> ph_queue := persisted_queue P f, ph_path := Some f \<rparr>"

definition ph_record :: "queue_entry list \<Rightarrow> push_outcome \<Rightarrow> push_host \<Rightarrow> push_host" where
  "ph_record es o' st = st \<lparr> ph_fates := ph_fates st @ map (\<lambda>e. (e, o')) es \<rparr>"

definition ph_save :: "prims \<Rightarrow> push_host \<Rightarrow> push_host" where
  "ph_save P st = (case ph_path st of
     None \<Rightarrow> st
   | Some _ \<Rightarrow> if ph_disk_ok st then st \<lparr> ph_path := Some (Text (json_text P (j_queue P (ph_queue st)))) \<rparr> else st)"

definition with_queue :: "prims \<Rightarrow> (queue \<Rightarrow> 'a \<times> queue) \<Rightarrow> push_host \<Rightarrow> 'a \<times> push_host" where
  "with_queue P f st = (case f (ph_queue st) of (out, q) \<Rightarrow> (out, ph_save P (st \<lparr> ph_queue := q \<rparr>)))"

definition drop_queue :: "prims \<Rightarrow> node_id \<Rightarrow> push_host \<Rightarrow> push_host" where
  "drop_queue P node st = (case with_queue P (queue_purge node) st of (gone, st) \<Rightarrow> ph_record gone Push_denied st)"

definition ph_sweep :: "prims \<Rightarrow> i64 \<Rightarrow> push_host \<Rightarrow> push_host" where
  "ph_sweep P now_ms st = (case queue_expire now_ms (ph_queue st) of (gone, q) \<Rightarrow>
     let st = st \<lparr> ph_queue := q \<rparr>; st = (if gone = [] then st else ph_save P st)
     in ph_record gone Push_expired st)"

section \<open>Who may receive\<close>

definition push_authorize :: "prims \<Rightarrow> node_id \<Rightarrow> i64 \<Rightarrow> push_host
    \<Rightarrow> (push_refusal + (principal option \<times> string option)) \<times> push_host" where
  "push_authorize P node now st = (case decide_push P node now (ph_host st) of
     (r, h) \<Rightarrow> ((case r of Inl e \<Rightarrow> Inl e | Inr (p, role) \<Rightarrow> Inr (p, Some role)), st \<lparr> ph_host := h \<rparr>))"

datatype send_error = Bad_ttl | Not_a_recipient string | Nobody_in role_name

definition ph_recipients :: "prims \<Rightarrow> string \<Rightarrow> i64 \<Rightarrow> push_host \<Rightarrow> (send_error + node_id list) \<times> push_host" where
  "ph_recipients P to now st =
     (case (if length to = 64 then res_ok (node_from_hex P to) else None) of
        Some node \<Rightarrow> (Inr [node], st)
      | None \<Rightarrow> (case role_name_new to of
          Inl _ \<Rightarrow> (Inl (Not_a_recipient to), st)
        | Inr role \<Rightarrow> (case push_recipients P role now (ph_host st) of (nodes, h) \<Rightarrow>
            (if nodes = [] then Inl (Nobody_in role) else Inr nodes, st \<lparr> ph_host := h \<rparr>))))"

section \<open>Sending\<close>

text \<open>What a dialed receiver does with a batch: nothing the host can use (no route, a timeout, an
  unreadable or other frame), a refusal, or an acknowledgement.\<close>

datatype peer_answer = No_answer | Refuses string | Acks "push_id list"

record send_turn =
  tn_id :: push_id
  tn_now :: i64
  tn_now_ms :: i64
  tn_peer :: "push_message list \<Rightarrow> peer_answer"

definition deliver_direct :: "prims \<Rightarrow> node_id \<Rightarrow> send_turn \<Rightarrow> push_host \<Rightarrow> push_id list option \<times> push_host" where
  "deliver_direct P to t st = (case push_authorize P to (tn_now t) st of
     (Inl (Push_not_admitted _), st) \<Rightarrow> (None, drop_queue P to st)
   | (Inl (Push_refused _), st) \<Rightarrow> (None, st)
   | (Inr _, st) \<Rightarrow>
       let batch = queue_pending (ph_queue st) to (tn_now_ms t) max_batch in
       if batch = [] then (Some [], st)
       else if \<not> ph_up st then (None, st)
       else (case tn_peer t batch of
           Acks acked \<Rightarrow> (case with_queue P (queue_remove to acked) st of (gone, st) \<Rightarrow>
             (Some (map (pm_id \<circ> qe_message) gone), ph_record gone Delivered st))
         | _ \<Rightarrow> (None, st)))"

definition send_one :: "prims \<Rightarrow> push_spec \<Rightarrow> u64 \<Rightarrow> i64 \<Rightarrow> i64 \<Rightarrow> send_turn \<Rightarrow> node_id \<Rightarrow> push_host
    \<Rightarrow> push_result \<times> push_host" where
  "send_one P spec ttl now at_ms t to st =
     (let message = \<lparr> pm_id = tn_id t, pm_from = gh_me (ph_host st), pm_to = to, pm_subject = ps_subject spec,
            pm_body = ps_body spec, pm_at_ms = at_ms, pm_expires_ms = sat_add at_ms (uint ttl * 1000) \<rparr>
      in case push_authorize P to now st of
        (Inl refusal, st) \<Rightarrow>
          (\<lparr> rs_to = to, rs_who = None, rs_id = tn_id t, rs_outcome = Push_denied, rs_reason = Some refusal \<rparr>,
           ph_record [\<lparr> qe_message = message, qe_principal = None, qe_role = None \<rparr>] Push_denied st)
      | (Inr (who, role), st) \<Rightarrow>
          let e = \<lparr> qe_message = message, qe_principal = who, qe_role = role \<rparr> in
          case with_queue P (queue_insert e queue_per_recipient) st of (dropped, st) \<Rightarrow>
          let st = ph_record (case dropped of None \<Rightarrow> [] | Some d \<Rightarrow> [d]) Dropped st in
          case deliver_direct P to t st of (r, st) \<Rightarrow>
          let delivered = (case r of Some ids \<Rightarrow> tn_id t \<in> set ids | None \<Rightarrow> False);
              st = (if delivered then st
                    else if queue_holds (ph_queue st) to (tn_id t) then ph_record [e] Queued st else st)
          in (\<lparr> rs_to = to, rs_who = Option.bind who pr_email, rs_id = tn_id t,
                rs_outcome = (if delivered then Delivered else Queued), rs_reason = None \<rparr>, st))"

fun send_each :: "prims \<Rightarrow> push_spec \<Rightarrow> u64 \<Rightarrow> i64 \<Rightarrow> i64 \<Rightarrow> (nat \<Rightarrow> send_turn) \<Rightarrow> node_id list \<Rightarrow> push_host
    \<Rightarrow> push_result list \<times> push_host" where
  "send_each P spec ttl now at_ms turns [] st = ([], st)"
| "send_each P spec ttl now at_ms turns (to # tos) st =
     (case send_one P spec ttl now at_ms (turns 0) to st of (r, st) \<Rightarrow>
      case send_each P spec ttl now at_ms (\<lambda>i. turns (Suc i)) tos st of (rs, st) \<Rightarrow> (r # rs, st))"

definition push_send :: "prims \<Rightarrow> push_spec \<Rightarrow> i64 \<Rightarrow> i64 \<Rightarrow> (nat \<Rightarrow> send_turn) \<Rightarrow> push_host
    \<Rightarrow> (send_error + push_result list) \<times> push_host" where
  "push_send P spec now at_ms turns st =
     (let ttl = (case ps_ttl_secs spec of None \<Rightarrow> push_default_ttl | Some t \<Rightarrow> t) in
      if ttl = 0 \<or> ttl > push_max_ttl then (Inl Bad_ttl, st)
      else case ph_recipients P (ps_to spec) now st of
        (Inl e, st) \<Rightarrow> (Inl e, st)
      | (Inr tos, st) \<Rightarrow> (case send_each P spec ttl now at_ms turns tos st of (rs, st) \<Rightarrow> (Inr rs, st)))"

section \<open>Serving a fetch\<close>

datatype 'f frame_read = Got 'f | Ended | Unread

definition fetch_slot :: "node_id \<Rightarrow> push_host \<Rightarrow> push_host option" where
  "fetch_slot node st =
     (let n = (case bm_get (ph_fetching st) node of None \<Rightarrow> 0 | Some n \<Rightarrow> n) in
      if n \<ge> max_fetches_per_node then None
      else Some (st \<lparr> ph_fetching := bm_put node (n + 1) (ph_fetching st) \<rparr>))"

definition fetch_slot_drop :: "node_id \<Rightarrow> push_host \<Rightarrow> push_host" where
  "fetch_slot_drop node st = (case bm_get (ph_fetching st) node of
     None \<Rightarrow> st
   | Some n \<Rightarrow> st \<lparr> ph_fetching :=
       (if n - 1 = 0 then bm_del node (ph_fetching st) else bm_put node (n - 1) (ph_fetching st)) \<rparr>)"

definition preauth_take :: "push_host \<Rightarrow> push_host option" where
  "preauth_take st = (if ph_preauth st \<ge> max_preauth_fetches then None
     else Some (st \<lparr> ph_preauth := ph_preauth st + 1 \<rparr>))"

definition preauth_drop :: "push_host \<Rightarrow> push_host" where
  "preauth_drop st = st \<lparr> ph_preauth := ph_preauth st - 1 \<rparr>"

text \<open>Why a fetch ends before its long poll; the peer hears the text of each.\<close>

datatype fetch_denial =
    Host_busy
  | Host_misconfigured
  | Expected_hello
  | Expected_fetch
  | Fetch_not_admitted string
  | Inbox_refused
  | Fetches_open

definition fetch_denial_text :: "fetch_denial \<Rightarrow> string" where
  "fetch_denial_text d = (case d of
     Host_busy \<Rightarrow> ''this host is busy; try again''
   | Host_misconfigured \<Rightarrow> ''host configuration error''
   | Expected_hello \<Rightarrow> ''expected hello''
   | Expected_fetch \<Rightarrow> ''expected fetch''
   | Fetch_not_admitted said \<Rightarrow> said
   | Inbox_refused \<Rightarrow> ''inbox fetch refused: this host does not push to you''
   | Fetches_open \<Rightarrow> ''inbox fetch refused: this node already has 2 fetches open here'')"

text \<open>The frames before the decision: an optional \<open>Open\<close>, the \<open>Hello\<close>, the \<open>Fetch\<close>.\<close>

definition read_opening :: "inbox_frame frame_read list \<Rightarrow> fetch_denial + (id_token option \<times> u64)" where
  "read_opening reads =
     (let next = (\<lambda>rs. case rs of [] \<Rightarrow> (Ended, []) | r # rs \<Rightarrow> (r, rs)) in
      case next reads of (first, rest) \<Rightarrow>
      case (if first = Got In_Open then next rest else (first, rest)) of (first, rest) \<Rightarrow>
      case first of
        Got (In_Hello tok) \<Rightarrow> (case next rest of
            (Got (In_Fetch wait_ms), _) \<Rightarrow> Inr (tok, wait_ms)
          | _ \<Rightarrow> Inl Expected_fetch)
      | _ \<Rightarrow> Inl Expected_hello)"

definition fetch_admit :: "prims \<Rightarrow> ring \<Rightarrow> web \<Rightarrow> held \<Rightarrow> node_id \<Rightarrow> id_token option \<Rightarrow> i64 \<Rightarrow> push_host
    \<Rightarrow> (fetch_denial + unit) \<times> push_host" where
  "fetch_admit P R W state caller tok now st =
     (case (case tok of
         Some t \<Rightarrow> admit_caller P R W state caller t now (ph_host st)
       | None \<Rightarrow> (Inl \<lparr> na_said = not_admitted_text, na_why = Why_no_token,
                     na_banned = bans_node (hd_policy state) caller \<rparr>, ph_host st)) of
        (Inl refused, h) \<Rightarrow>
          let st = st \<lparr> ph_host := h \<rparr> in
          (Inl (Fetch_not_admitted (na_said refused)),
           if na_banned refused \<or> bans_node (hd_policy state) caller then drop_queue P caller st else st)
      | (Inr _, h) \<Rightarrow> (case push_authorize P caller now (st \<lparr> ph_host := h \<rparr>) of
            (Inr _, st) \<Rightarrow> (Inr (), st)
          | (Inl (Push_not_admitted _), st) \<Rightarrow> (Inl (Fetch_not_admitted not_admitted_text), drop_queue P caller st)
          | (Inl (Push_refused _), st) \<Rightarrow> (Inl Inbox_refused, st)))"

text \<open>Up to the slot of the long poll. The proof is the first frame the host writes, and it writes
  one only once its policy reads.\<close>

definition fetch_open :: "prims \<Rightarrow> ring \<Rightarrow> web \<Rightarrow> node_id \<Rightarrow> i64 \<Rightarrow> inbox_frame frame_read list \<Rightarrow> i64 \<Rightarrow> push_host
    \<Rightarrow> host_proof option \<times> (fetch_denial + u64) \<times> push_host" where
  "fetch_open P R W caller now0 reads now st =
     (case preauth_take st of
        None \<Rightarrow> (None, Inl Host_busy, st)
      | Some st \<Rightarrow> (case host_policy P (ph_host st) of
          (Inl _, h) \<Rightarrow> (None, Inl Host_misconfigured, preauth_drop (st \<lparr> ph_host := h \<rparr>))
        | (Inr state, h) \<Rightarrow>
            let st = st \<lparr> ph_host := h \<rparr>;
                proof' = fresh_proof P (gh_freshness h) (sp_head (hd_signed state)) now0
            in case read_opening reads of
                 Inl d \<Rightarrow> (Some proof', Inl d, preauth_drop st)
               | Inr (tok, wait_ms) \<Rightarrow> (case fetch_admit P R W state caller tok now st of
                   (Inl d, st) \<Rightarrow> (Some proof', Inl d, preauth_drop st)
                 | (Inr _, st) \<Rightarrow> (case fetch_slot caller (preauth_drop st) of
                     None \<Rightarrow> (Some proof', Inl Fetches_open, preauth_drop st)
                   | Some st \<Rightarrow> (Some proof', Inr wait_ms, st)))))"

text \<open>The long poll looks, and waits for something to arrive or for its deadline (in milliseconds
  after the fetch was let in); each look is given what other tasks did since the one before, the
  clock, and the time since. After the deadline it looks once more and answers.\<close>

record poll_look =
  pl_since :: nat
  pl_now_ms :: i64
  pl_others :: "push_host \<Rightarrow> push_host"

definition fetch_until :: "u64 \<Rightarrow> nat" where
  "fetch_until wait_ms = min (unat wait_ms) fetch_wait_max"

fun fetch_poll :: "node_id \<Rightarrow> nat \<Rightarrow> poll_look list \<Rightarrow> push_host \<Rightarrow> push_message list \<times> push_host" where
  "fetch_poll caller until [] st = ([], st)"
| "fetch_poll caller until (l # ls) st =
     (let st = pl_others l st; batch = queue_pending (ph_queue st) caller (pl_now_ms l) max_batch in
      if batch \<noteq> [] \<or> pl_since l \<ge> until then (batch, st) else fetch_poll caller until ls st)"

definition fetch_close :: "prims \<Rightarrow> node_id \<Rightarrow> push_id list option \<Rightarrow> push_host \<Rightarrow> push_host" where
  "fetch_close P caller acked st = fetch_slot_drop caller (case acked of
     None \<Rightarrow> st
   | Some ids \<Rightarrow> (case with_queue P (queue_remove caller ids) st of (gone, st) \<Rightarrow> ph_record gone Fetched st))"

text \<open>The whole handler: what it delivered, if it got so far. \<open>ack\<close> is what the fetcher answered the
  batch with (nothing: the stream ended, or another frame), after what other tasks did meanwhile.\<close>

definition serve_fetch :: "prims \<Rightarrow> ring \<Rightarrow> web \<Rightarrow> node_id \<Rightarrow> i64 \<Rightarrow> inbox_frame frame_read list \<Rightarrow> i64
    \<Rightarrow> poll_look list \<Rightarrow> (push_message list \<Rightarrow> push_id list option) \<Rightarrow> (push_host \<Rightarrow> push_host) \<Rightarrow> push_host
    \<Rightarrow> (fetch_denial + push_message list) \<times> push_host" where
  "serve_fetch P R W caller now0 reads now looks ack others st =
     (case fetch_open P R W caller now0 reads now st of
        (_, Inl d, st) \<Rightarrow> (Inl d, st)
      | (_, Inr wait_ms, st) \<Rightarrow> (case fetch_poll caller (fetch_until wait_ms) looks st of
          (batch, st) \<Rightarrow> (Inr batch, fetch_close P caller (ack batch) (others st))))"

section \<open>The ledger\<close>

text \<open>
  What every handler does to the queue and the trace is a sequence of these moves, each one locked
  section of the code; so is any interleaving of handlers. A ledger is the queue, the fates traced
  so far, and the ids of the messages made.
\<close>

type_synonym ledger = "queue \<times> (queue_entry \<times> push_outcome) list \<times> push_id multiset"

abbreviation entry_id :: "queue_entry \<Rightarrow> push_id" where
  "entry_id e \<equiv> pm_id (qe_message e)"

definition opt_list :: "'a option \<Rightarrow> 'a list" where
  "opt_list x = (case x of None \<Rightarrow> [] | Some y \<Rightarrow> [y])"

inductive queue_move :: "ledger \<Rightarrow> ledger \<Rightarrow> bool" where
  Enqueue: "queue_insert e queue_per_recipient q = (d, q') \<Longrightarrow>
    queue_move (q, fs, made) (q', fs @ map (\<lambda>x. (x, Dropped)) (opt_list d), add_mset (entry_id e) made)"
| Refuse: "queue_move (q, fs, made) (q, fs @ [(e, Push_denied)], add_mset (entry_id e) made)"
| Take: "queue_remove to ids q = (gone, q') \<Longrightarrow> out \<in> {Delivered, Fetched} \<Longrightarrow>
    queue_move (q, fs, made) (q', fs @ map (\<lambda>x. (x, out)) gone, made)"
| Purge: "queue_purge to q = (gone, q') \<Longrightarrow>
    queue_move (q, fs, made) (q', fs @ map (\<lambda>x. (x, Push_denied)) gone, made)"
| Expire: "queue_expire now q = (gone, q') \<Longrightarrow>
    queue_move (q, fs, made) (q', fs @ map (\<lambda>x. (x, Push_expired)) gone, made)"
| Note: "queue_move (q, fs, made) (q, fs @ [(e, Queued)], made)"

inductive_cases queue_moveE: "queue_move l l'"

text \<open>A message that was only queued has no fate yet.\<close>

definition settled :: "(queue_entry \<times> push_outcome) list \<Rightarrow> push_id multiset" where
  "settled fs = mset (map (entry_id \<circ> fst) (filter (\<lambda>f. snd f \<noteq> Queued) fs))"

definition ledger_ok :: "ledger \<Rightarrow> bool" where
  "ledger_ok l = (case l of (q, fs, made) \<Rightarrow>
     queue_ok queue_per_recipient q \<and> image_mset entry_id (entries q) + settled fs = made)"

lemma settled_append [simp]: "settled (fs @ gs) = settled fs + settled gs"
  by (simp add: settled_def)

lemma settled_all [simp]: "out \<noteq> Queued \<Longrightarrow> settled (map (\<lambda>x. (x, out)) es) = image_mset entry_id (mset es)"
  by (simp add: settled_def comp_def filter_True flip: mset_map)

lemma settled_simps [simp]: "settled [] = {#}" "settled [(e, Queued)] = {#}" "settled [(e, Push_denied)] = {#entry_id e#}"
  by (simp_all add: settled_def)

lemma moved_out:
  assumes "queue_ok cap q \<and> entries q + mset gone = entries q0 \<and> Q" "out \<noteq> Queued"
  shows "image_mset entry_id (entries q) + settled (fs @ map (\<lambda>x. (x, out)) gone)
    = image_mset entry_id (entries q0) + settled fs"
proof -
  have "image_mset entry_id (entries q0) = image_mset entry_id (entries q) + image_mset entry_id (mset gone)"
    using assms(1) by (metis image_mset_union)
  then show ?thesis using assms(2) by (simp add: ac_simps)
qed

lemma queue_move_ok: "queue_move l l' \<Longrightarrow> ledger_ok l \<Longrightarrow> ledger_ok l'"
proof (induction rule: queue_move.induct)
  case (Enqueue e q d q' fs made)
  then have law: "queue_ok queue_per_recipient q' \<and> entries q' + mset (opt_list d) = add_mset e (entries q)"
    using queue_insert_law[of queue_per_recipient q e d q']
    by (auto simp: ledger_ok_def opt_list_def queue_per_recipient_def split: option.splits)
  then have "image_mset entry_id (entries q') + image_mset entry_id (mset (opt_list d))
      = add_mset (entry_id e) (image_mset entry_id (entries q))"
    by (metis image_mset_union image_mset_add_mset)
  then show ?case using Enqueue.prems law by (simp add: ledger_ok_def) (metis (no_types) add.commute add.left_commute union_mset_add_mset_left)
next
  case (Take to ids q gone q' out fs made)
  then show ?case
    using queue_remove_law[OF _ Take.hyps(1), of queue_per_recipient]
      moved_out[of queue_per_recipient q' gone q _ out fs] by (auto simp: ledger_ok_def)
next
  case (Purge to q gone q' fs made)
  then show ?case
    using queue_purge_law[OF _ Purge.hyps(1), of queue_per_recipient]
      moved_out[of queue_per_recipient q' gone q _ Push_denied fs] by (auto simp: ledger_ok_def)
next
  case (Expire now q gone q' fs made)
  then show ?case
    using queue_expire_law[OF _ Expire.hyps(1), of queue_per_recipient]
      moved_out[of queue_per_recipient q' gone q _ Push_expired fs] by (auto simp: ledger_ok_def)
qed (auto simp: ledger_ok_def)

lemma queue_moves_ok: "queue_move\<^sup>*\<^sup>* l l' \<Longrightarrow> ledger_ok l \<Longrightarrow> ledger_ok l'"
  by (induction rule: rtranclp_induct) (auto intro: queue_move_ok)

section \<open>The handlers only make such moves\<close>

definition ledger_of :: "push_id multiset \<Rightarrow> push_host \<Rightarrow> ledger" where
  "ledger_of made st = (ph_queue st, ph_fates st, made)"

lemma ledger_of_simps [simp]:
  "ledger_of made (ph_save P st) = ledger_of made st"
  "ledger_of made (st \<lparr> ph_host := h \<rparr>) = ledger_of made st"
  "ledger_of made (st \<lparr> ph_fetching := g \<rparr>) = ledger_of made st"
  "ledger_of made (st \<lparr> ph_preauth := n \<rparr>) = ledger_of made st"
  by (simp_all add: ledger_of_def ph_save_def split: option.splits)

lemma drop_queue_moves: "queue_move\<^sup>*\<^sup>* (ledger_of made st) (ledger_of made (drop_queue P node st))"
  using Purge[of node "ph_queue st" _ _ "ph_fates st" made]
  by (auto simp: ledger_of_def drop_queue_def with_queue_def ph_record_def ph_save_def
      split: prod.splits option.splits)

lemma ph_sweep_moves: "queue_move\<^sup>*\<^sup>* (ledger_of made st) (ledger_of made (ph_sweep P now st))"
  using Expire[of now "ph_queue st" _ _ "ph_fates st" made]
  by (auto simp: ledger_of_def ph_sweep_def ph_record_def ph_save_def Let_def
      split: prod.splits option.splits)

lemma taken_moves:
  assumes "with_queue P (queue_remove to ids) st = (gone, st')" "out \<in> {Delivered, Fetched}"
  shows "queue_move\<^sup>*\<^sup>* (ledger_of made st) (ledger_of made (ph_record gone out st'))"
  using Take[of to ids "ph_queue st" gone _ out "ph_fates st" made] assms
  by (auto simp: ledger_of_def with_queue_def ph_record_def ph_save_def
      split: prod.splits option.splits if_splits)

lemma push_authorize_ledger: "push_authorize P node now st = (r, st') \<Longrightarrow> ledger_of made st' = ledger_of made st"
  by (auto simp: push_authorize_def split: prod.splits)

lemma ph_recipients_ledger: "ph_recipients P to now st = (r, st') \<Longrightarrow> ledger_of made st' = ledger_of made st"
  by (auto simp: ph_recipients_def split: prod.splits option.splits sum.splits)

lemma deliver_direct_moves:
  assumes "deliver_direct P to t st = (r, st')"
  shows "queue_move\<^sup>*\<^sup>* (ledger_of made st) (ledger_of made st')"
proof -
  obtain a st1 where a: "push_authorize P to (tn_now t) st = (a, st1)" by fastforce
  have "queue_move\<^sup>*\<^sup>* (ledger_of made st1) (ledger_of made st')"
    using assms drop_queue_moves[of made st1 P to] taken_moves[of P to _ st1 _ _ Delivered made]
    by (auto simp: deliver_direct_def a Let_def split: sum.splits push_refusal.splits if_splits
        peer_answer.splits prod.splits)
  then show ?thesis using push_authorize_ledger[OF a] by simp
qed

lemma send_one_moves:
  assumes "send_one P spec ttl now at_ms t to st = (r, st')"
  shows "queue_move\<^sup>*\<^sup>* (ledger_of made st) (ledger_of (add_mset (rs_id r) made) st')"
proof -
  let ?m = "\<lparr> pm_id = tn_id t, pm_from = gh_me (ph_host st), pm_to = to, pm_subject = ps_subject spec,
            pm_body = ps_body spec, pm_at_ms = at_ms, pm_expires_ms = sat_add at_ms (uint ttl * 1000) \<rparr>"
  obtain a st1 where a: "push_authorize P to now st = (a, st1)" by fastforce
  note same = push_authorize_ledger[OF a]
  show ?thesis
  proof (cases a)
    case (Inl refusal)
    let ?e = "\<lparr> qe_message = ?m, qe_principal = None, qe_role = None \<rparr>"
    have "rs_id r = tn_id t" "st' = ph_record [?e] Push_denied st1"
      using assms by (auto simp: send_one_def Let_def a Inl)
    then show ?thesis
      using Refuse[of "ph_queue st1" "ph_fates st1" made ?e] same[of made]
      by (simp add: ledger_of_def ph_record_def)
  next
    case (Inr pr)
    obtain who role where pr: "pr = (who, role)" by fastforce
    let ?e = "\<lparr> qe_message = ?m, qe_principal = who, qe_role = role \<rparr>"
    obtain d st2 where q: "with_queue P (queue_insert ?e queue_per_recipient) st1 = (d, st2)" by fastforce
    let ?st3 = "ph_record (opt_list d) Dropped st2"
    obtain r0 st4 where dd: "deliver_direct P to t ?st3 = (r0, st4)" by fastforce
    have r: "rs_id r = tn_id t" "st' = st4 \<or> st' = ph_record [?e] Queued st4"
      using assms q dd by (auto simp: send_one_def Let_def a Inr pr opt_list_def split: if_splits)
    have "queue_move (ledger_of made st1) (ledger_of (add_mset (tn_id t) made) ?st3)"
      using Enqueue[of ?e "ph_queue st1" d _ "ph_fates st1" made] q
      by (auto simp: ledger_of_def with_queue_def ph_record_def ph_save_def split: prod.splits option.splits if_splits)
    also note deliver_direct_moves[OF dd]
    finally have "queue_move\<^sup>*\<^sup>* (ledger_of made st1) (ledger_of (add_mset (tn_id t) made) st4)" .
    moreover have "queue_move\<^sup>*\<^sup>* (ledger_of m st4) (ledger_of m st')" for m
      using r(2) Note[of "ph_queue st4" "ph_fates st4" m ?e] by (auto simp: ledger_of_def ph_record_def)
    ultimately show ?thesis using same[of made] r(1) by (metis rtranclp_trans)
  qed
qed

lemma send_each_moves:
  "send_each P spec ttl now at_ms turns tos st = (rs, st') \<Longrightarrow>
    queue_move\<^sup>*\<^sup>* (ledger_of made st) (ledger_of (made + mset (map rs_id rs)) st')"
proof (induction tos arbitrary: turns st rs made)
  case (Cons to tos)
  obtain r st1 where o: "send_one P spec ttl now at_ms (turns 0) to st = (r, st1)" by fastforce
  obtain rs' where rs: "send_each P spec ttl now at_ms (\<lambda>i. turns (Suc i)) tos st1 = (rs', st')" "rs = r # rs'"
    using Cons.prems o by (auto split: prod.splits)
  show ?case
    using send_one_moves[OF o, of made] Cons.IH[OF rs(1), of "add_mset (rs_id r) made"] rs(2) by simp
qed simp

lemma push_send_moves:
  assumes "push_send P spec now at_ms turns st = (r, st')"
  shows "queue_move\<^sup>*\<^sup>* (ledger_of made st)
    (ledger_of (made + mset (case r of Inl _ \<Rightarrow> [] | Inr rs \<Rightarrow> map rs_id rs)) st')"
proof -
  let ?ttl = "case ps_ttl_secs spec of None \<Rightarrow> push_default_ttl | Some t \<Rightarrow> t"
  obtain tos st1 where t: "ph_recipients P (ps_to spec) now st = (tos, st1)" by fastforce
  note same = ph_recipients_ledger[OF t, of made]
  show ?thesis
  proof (cases "?ttl = 0 \<or> ?ttl > push_max_ttl")
    case True
    then show ?thesis using assms by (auto simp: push_send_def Let_def)
  next
    case False
    show ?thesis
    proof (cases tos)
      case (Inl e)
      then show ?thesis using assms False t same by (auto simp: push_send_def Let_def)
    next
      case (Inr ns)
      then show ?thesis
        using assms False t same send_each_moves[of P spec ?ttl now at_ms turns ns st1 _ st' made]
        by (auto simp: push_send_def Let_def split: prod.splits if_splits)
    qed
  qed
qed

lemma fetch_slot_ledger:
  "fetch_slot node st = Some st' \<Longrightarrow> ledger_of made st' = ledger_of made st"
  "ledger_of made (fetch_slot_drop node st) = ledger_of made st"
  by (auto simp: fetch_slot_def fetch_slot_drop_def Let_def split: if_splits option.splits)

lemma preauth_ledger:
  "preauth_take st = Some st' \<Longrightarrow> ledger_of made st' = ledger_of made st"
  "ledger_of made (preauth_drop st) = ledger_of made st"
  by (auto simp: preauth_take_def preauth_drop_def split: if_splits)

lemma fetch_admit_moves:
  assumes "fetch_admit P R W state caller tok now st = (r, st')"
  shows "queue_move\<^sup>*\<^sup>* (ledger_of made st) (ledger_of made st')"
proof -
  obtain v h where v: "(case tok of
         Some t \<Rightarrow> admit_caller P R W state caller t now (ph_host st)
       | None \<Rightarrow> (Inl \<lparr> na_said = not_admitted_text, na_why = Why_no_token,
                     na_banned = bans_node (hd_policy state) caller \<rparr>, ph_host st)) = (v, h)" by fastforce
  obtain a st1 where a: "push_authorize P caller now (st \<lparr> ph_host := h \<rparr>) = (a, st1)" by fastforce
  have same: "ledger_of made (st \<lparr> ph_host := h \<rparr>) = ledger_of made st" "ledger_of made st1 = ledger_of made st"
    using push_authorize_ledger[OF a, of made] by simp_all
  show ?thesis
    using assms same drop_queue_moves[of made "st \<lparr> ph_host := h \<rparr>" P caller] drop_queue_moves[of made st1 P caller]
    unfolding fetch_admit_def v
    by (cases v; cases a) (auto simp: a Let_def split: push_refusal.splits if_splits)
qed

lemma fetch_open_moves:
  assumes "fetch_open P R W caller now0 reads now st = (pf, r, st')"
  shows "queue_move\<^sup>*\<^sup>* (ledger_of made st) (ledger_of made st')"
proof (cases "preauth_take st")
  case None
  then show ?thesis using assms by (simp add: fetch_open_def)
next
  case (Some st1)
  note s1 = preauth_ledger(1)[OF Some, of made]
  obtain p h where p: "host_policy P (ph_host st1) = (p, h)" by fastforce
  show ?thesis
  proof (cases p)
    case (Inl e)
    then show ?thesis using assms s1 by (auto simp: fetch_open_def Some p preauth_ledger(2))
  next
    case (Inr state)
    let ?st2 = "st1 \<lparr> ph_host := h \<rparr>"
    show ?thesis
    proof (cases "read_opening reads")
      case (Inl d)
      then show ?thesis using assms s1 Inr by (auto simp: fetch_open_def Some p Let_def preauth_ledger(2))
    next
      case (Inr tw)
      obtain tok wait where tw: "tw = (tok, wait)" by fastforce
      obtain a st3 where a: "fetch_admit P R W state caller tok now ?st2 = (a, st3)" by fastforce
      have "ledger_of made st' = ledger_of made st3"
        using assms \<open>p = Inr state\<close> Inr tw a fetch_slot_ledger(1)[of caller "preauth_drop st3" _ made]
        by (auto simp: fetch_open_def Some p Let_def preauth_ledger(2) split: sum.splits option.splits)
      then show ?thesis using fetch_admit_moves[OF a, of made] s1 by simp
    qed
  qed
qed

lemma fetch_close_moves: "queue_move\<^sup>*\<^sup>* (ledger_of made st) (ledger_of made (fetch_close P caller acked st))"
  using taken_moves[of P caller _ st _ _ Fetched made]
  by (auto simp: fetch_close_def fetch_slot_ledger split: option.splits prod.splits)

section \<open>Runs\<close>

text \<open>Anything that happens to the service, in any order. A fetch is its opening and its close, with
  anything in between; the host's own state (its policy file, who called it) changes freely.\<close>

datatype push_event =
    Ev_send push_spec i64 i64 "nat \<Rightarrow> send_turn"
  | Ev_open ring web node_id i64 "inbox_frame frame_read list" i64
  | Ev_close node_id "push_id list option"
  | Ev_sweep i64
  | Ev_host services_host

fun push_event_step :: "prims \<Rightarrow> push_event \<Rightarrow> push_host \<Rightarrow> push_result list \<times> push_host" where
  "push_event_step P (Ev_send spec now at_ms turns) st = (case push_send P spec now at_ms turns st of
     (Inl _, st) \<Rightarrow> ([], st) | (Inr rs, st) \<Rightarrow> (rs, st))"
| "push_event_step P (Ev_open R W caller now0 reads now) st =
     ([], snd (snd (fetch_open P R W caller now0 reads now st)))"
| "push_event_step P (Ev_close caller acked) st = ([], fetch_close P caller acked st)"
| "push_event_step P (Ev_sweep now_ms) st = ([], ph_sweep P now_ms st)"
| "push_event_step P (Ev_host h) st = ([], st \<lparr> ph_host := h \<rparr>)"

fun push_run :: "prims \<Rightarrow> push_event list \<Rightarrow> push_host \<Rightarrow> push_result list \<times> push_host" where
  "push_run P [] st = ([], st)"
| "push_run P (ev # evs) st = (case push_event_step P ev st of (rs, st) \<Rightarrow>
     case push_run P evs st of (rs', st) \<Rightarrow> (rs @ rs', st))"

lemma push_event_moves:
  assumes "push_event_step P ev st = (rs, st')"
  shows "queue_move\<^sup>*\<^sup>* (ledger_of made st) (ledger_of (made + mset (map rs_id rs)) st')"
proof (cases ev)
  case (Ev_send spec now at_ms turns)
  obtain r st1 where "push_send P spec now at_ms turns st = (r, st1)" by fastforce
  then show ?thesis
    using push_send_moves[of P spec now at_ms turns st r st1 made] assms Ev_send by (auto split: sum.splits)
next
  case (Ev_open R W caller now0 reads now)
  obtain pf r st1 where "fetch_open P R W caller now0 reads now st = (pf, r, st1)" by (meson prod_cases3)
  then show ?thesis using fetch_open_moves[of P R W caller now0 reads now st pf r st1 made] assms Ev_open by auto
qed (use assms fetch_close_moves ph_sweep_moves in auto)

lemma push_run_moves:
  "push_run P evs st = (rs, st') \<Longrightarrow>
    queue_move\<^sup>*\<^sup>* (ledger_of made st) (ledger_of (made + mset (map rs_id rs)) st')"
proof (induction evs arbitrary: st rs made)
  case (Cons ev evs)
  obtain rs1 st1 where s: "push_event_step P ev st = (rs1, st1)" by fastforce
  obtain rs2 where r: "push_run P evs st1 = (rs2, st')" "rs = rs1 @ rs2"
    using Cons.prems s by (auto split: prod.splits)
  have "queue_move\<^sup>*\<^sup>* (ledger_of made st) (ledger_of (made + mset (map rs_id rs1)) st1)"
    by (rule push_event_moves[OF s])
  also have "queue_move\<^sup>*\<^sup>* \<dots> (ledger_of (made + mset (map rs_id rs1) + mset (map rs_id rs2)) st')"
    by (rule Cons.IH[OF r(1)])
  finally show ?case by (simp add: r(2) add.assoc)
qed simp

section \<open>What every handler keeps\<close>

text \<open>
  An invariant of the service: it does not depend on the host, the trace or the permits, and the
  queue operations, the sweep and the slots keep it. Then every handler and every run keeps it.
\<close>

definition keeps_queue :: "(queue \<Rightarrow> 'a \<times> queue) \<Rightarrow> bool" where
  "keeps_queue f \<longleftrightarrow> (\<forall>q. queue_ok queue_per_recipient q \<longrightarrow> queue_ok queue_per_recipient (snd (f q)))"

lemma keeps_queue_simps [simp]:
  "keeps_queue (queue_insert e queue_per_recipient)" "keeps_queue (queue_remove to ids)" "keeps_queue (queue_purge to)"
  using queue_insert_law[of queue_per_recipient _ e] queue_remove_law[of queue_per_recipient _ to ids]
    queue_purge_law[of queue_per_recipient _ to]
  by (auto simp: keeps_queue_def queue_per_recipient_def prod_eq_iff)

locale push_invariant =
  fixes P :: prims and Q :: "push_host \<Rightarrow> bool"
  assumes aside: "Q st \<Longrightarrow> ph_queue st' = ph_queue st \<Longrightarrow> ph_path st' = ph_path st \<Longrightarrow>
      ph_disk_ok st' = ph_disk_ok st \<Longrightarrow> ph_fetching st' = ph_fetching st \<Longrightarrow> Q st'"
    and queued: "Q st \<Longrightarrow> (queue_ok queue_per_recipient (ph_queue st) \<Longrightarrow> queue_ok queue_per_recipient q) \<Longrightarrow>
      Q (ph_save P (st \<lparr> ph_queue := q \<rparr>))"
    and swept: "Q st \<Longrightarrow> Q (ph_sweep P now st)"
    and slot: "Q st \<Longrightarrow> fetch_slot node st = Some st' \<Longrightarrow> Q st'"
    and slot_drop: "Q st \<Longrightarrow> Q (fetch_slot_drop node st)"
begin

lemma recorded: "Q (ph_record es out st) \<longleftrightarrow> Q st"
  by (rule iffI; erule aside; simp add: ph_record_def)

lemma aside_updates:
  "Q (st \<lparr> ph_host := h \<rparr>) \<longleftrightarrow> Q st" "Q (st \<lparr> ph_preauth := n \<rparr>) \<longleftrightarrow> Q st" "Q (preauth_drop st) \<longleftrightarrow> Q st"
  by (rule iffI; erule aside; simp add: preauth_drop_def)+

lemma queued_with: "Q st \<Longrightarrow> keeps_queue f \<Longrightarrow> with_queue P f st = (gone, st') \<Longrightarrow> Q st'"
  using queued[of st "snd (f (ph_queue st))"] by (auto simp: with_queue_def keeps_queue_def split: prod.splits)

lemma drop: "Q st \<Longrightarrow> Q (drop_queue P node st)"
  using queued_with[of st "queue_purge node"] by (auto simp: drop_queue_def recorded split: prod.splits)

lemma authorized: "Q st \<Longrightarrow> push_authorize P node now st = (r, st') \<Longrightarrow> Q st'"
  by (auto simp: push_authorize_def aside_updates split: prod.splits)

lemma recipients: "Q st \<Longrightarrow> ph_recipients P to now st = (r, st') \<Longrightarrow> Q st'"
  by (auto simp: ph_recipients_def aside_updates split: prod.splits option.splits sum.splits)

lemma delivered:
  assumes "Q st" "deliver_direct P to t st = (r, st')"
  shows "Q st'"
proof -
  obtain a st1 where a: "push_authorize P to (tn_now t) st = (a, st1)" by fastforce
  have q: "Q st1" using authorized[OF assms(1) a] .
  then show ?thesis
    using assms(2) drop[OF q, of to] queued_with[OF q, of "queue_remove to _"]
    by (auto simp: deliver_direct_def a Let_def recorded split: sum.splits push_refusal.splits if_splits
        peer_answer.splits prod.splits)
qed

lemma sent_one:
  assumes "Q st" "send_one P spec ttl now at_ms t to st = (r, st')"
  shows "Q st'"
proof -
  obtain a st1 where a: "push_authorize P to now st = (a, st1)" by fastforce
  have q: "Q st1" using authorized[OF assms(1) a] .
  show ?thesis
  proof (cases a)
    case (Inl e)
    then show ?thesis using assms(2) q by (auto simp: send_one_def a Let_def recorded)
  next
    case (Inr pr)
    obtain who role where pr: "pr = (who, role)" by fastforce
    let ?e = "\<lparr> qe_message = \<lparr> pm_id = tn_id t, pm_from = gh_me (ph_host st), pm_to = to, pm_subject = ps_subject spec,
            pm_body = ps_body spec, pm_at_ms = at_ms, pm_expires_ms = sat_add at_ms (uint ttl * 1000) \<rparr>,
            qe_principal = who, qe_role = role \<rparr>"
    obtain d st2 where w: "with_queue P (queue_insert ?e queue_per_recipient) st1 = (d, st2)" by fastforce
    let ?st3 = "ph_record (case d of None \<Rightarrow> [] | Some d \<Rightarrow> [d]) Dropped st2"
    obtain r0 st4 where dd: "deliver_direct P to t ?st3 = (r0, st4)" by fastforce
    have "Q st4" using delivered[OF _ dd] queued_with[OF q _ w] by (simp add: recorded)
    then show ?thesis
      using assms(2) w dd by (auto simp: send_one_def a Inr pr Let_def recorded split: if_splits)
  qed
qed

lemma sent_each: "Q st \<Longrightarrow> send_each P spec ttl now at_ms turns tos st = (rs, st') \<Longrightarrow> Q st'"
proof (induction tos arbitrary: turns st rs)
  case (Cons to tos)
  obtain r st1 where o: "send_one P spec ttl now at_ms (turns 0) to st = (r, st1)" by fastforce
  then obtain rs' where "send_each P spec ttl now at_ms (\<lambda>i. turns (Suc i)) tos st1 = (rs', st')"
    using Cons.prems(2) by (auto split: prod.splits)
  then show ?case using Cons.IH sent_one[OF Cons.prems(1) o] by blast
qed simp

lemma sent:
  assumes "Q st" "push_send P spec now at_ms turns st = (r, st')"
  shows "Q st'"
proof -
  obtain tos st1 where t: "ph_recipients P (ps_to spec) now st = (tos, st1)" by fastforce
  have q: "Q st1" using recipients[OF assms(1) t] .
  then show ?thesis
    using assms t sent_each[OF q] by (auto simp: push_send_def Let_def split: if_splits sum.splits prod.splits)
qed

lemma fetch_admitted:
  assumes "Q st" "fetch_admit P R W state caller tok now st = (r, st')"
  shows "Q st'"
proof -
  obtain v h where v: "(case tok of
         Some t \<Rightarrow> admit_caller P R W state caller t now (ph_host st)
       | None \<Rightarrow> (Inl \<lparr> na_said = not_admitted_text, na_why = Why_no_token,
                     na_banned = bans_node (hd_policy state) caller \<rparr>, ph_host st)) = (v, h)" by fastforce
  obtain a st1 where a: "push_authorize P caller now (st \<lparr> ph_host := h \<rparr>) = (a, st1)" by fastforce
  have q: "Q (st \<lparr> ph_host := h \<rparr>)" using assms(1) by (simp add: aside_updates)
  have "Q st1" using authorized[OF q a] .
  then show ?thesis
    using assms(2) q drop[of "st \<lparr> ph_host := h \<rparr>" caller] drop[of st1 caller] unfolding fetch_admit_def v
    by (cases v; cases a) (auto simp: a Let_def split: push_refusal.splits if_splits)
qed

lemma fetch_opened:
  assumes "Q st" "fetch_open P R W caller now0 reads now st = (pf, r, st')"
  shows "Q st'"
proof (cases "preauth_take st")
  case None
  then show ?thesis using assms by (simp add: fetch_open_def)
next
  case (Some st1)
  have q: "Q st1" using assms(1) Some by (auto simp: preauth_take_def aside_updates split: if_splits)
  obtain p h where p: "host_policy P (ph_host st1) = (p, h)" by fastforce
  show ?thesis
  proof (cases p)
    case (Inl e)
    then show ?thesis using assms(2) q by (auto simp: fetch_open_def Some p aside_updates)
  next
    case (Inr state)
    let ?st2 = "st1 \<lparr> ph_host := h \<rparr>"
    have q2: "Q ?st2" using q by (simp add: aside_updates)
    show ?thesis
    proof (cases "read_opening reads")
      case (Inl d)
      then show ?thesis
        using assms(2) \<open>p = Inr state\<close> q by (auto simp: fetch_open_def Some p Let_def aside_updates)
    next
      case (Inr tw)
      obtain tok wait where tw: "tw = (tok, wait)" by fastforce
      obtain a st3 where a: "fetch_admit P R W state caller tok now ?st2 = (a, st3)" by fastforce
      have q3: "Q (preauth_drop st3)" using fetch_admitted[OF q2 a] by (simp add: aside_updates)
      show ?thesis
        using assms(2) \<open>p = Inr state\<close> Inr tw a q3 slot[OF q3]
        by (auto simp: fetch_open_def Some p Let_def split: sum.splits option.splits)
    qed
  qed
qed

lemma fetch_closed: "Q st \<Longrightarrow> Q (fetch_close P caller acked st)"
  using queued_with[of st "queue_remove caller _"] slot_drop
  by (auto simp: fetch_close_def recorded split: option.splits prod.splits)

lemma event: "Q st \<Longrightarrow> push_event_step P ev st = (rs, st') \<Longrightarrow> Q st'"
proof (cases ev)
  case (Ev_send spec now at_ms turns)
  assume "Q st" "push_event_step P ev st = (rs, st')"
  moreover obtain r st1 where "push_send P spec now at_ms turns st = (r, st1)" by fastforce
  ultimately show ?thesis using sent Ev_send by (auto split: sum.splits)
next
  case (Ev_open R W caller now0 reads now)
  assume "Q st" "push_event_step P ev st = (rs, st')"
  moreover obtain pf r st1 where "fetch_open P R W caller now0 reads now st = (pf, r, st1)" by (meson prod_cases3)
  ultimately show ?thesis using fetch_opened Ev_open by auto
qed (auto simp: aside_updates fetch_closed swept)

lemma run: "Q st \<Longrightarrow> push_run P evs st = (rs, st') \<Longrightarrow> Q st'"
proof (induction evs arbitrary: st rs)
  case (Cons ev evs)
  obtain rs1 st1 where s: "push_event_step P ev st = (rs1, st1)" by fastforce
  then obtain rs2 where "push_run P evs st1 = (rs2, st')" using Cons.prems(2) by (auto split: prod.splits)
  then show ?case using Cons.IH event[OF Cons.prems(1) s] by blast
qed simp

end

text \<open>The queue's file holds the queue.\<close>

definition synced :: "prims \<Rightarrow> push_host \<Rightarrow> bool" where
  "synced P st \<longleftrightarrow> queue_ok queue_per_recipient (ph_queue st) \<and> ph_disk_ok st
     \<and> (\<forall>f. ph_path st = Some f \<longrightarrow> f = Text (json_text P (j_queue P (ph_queue st))) \<or> persisted_queue P f = ph_queue st)"

lemma queue_of_entries: "x \<in> set (queue_of q to) \<Longrightarrow> x \<in># entries q"
proof (cases "bm_get q to")
  case (Some es)
  assume "x \<in> set (queue_of q to)"
  then have "x \<in> set es" "(to, es) \<in> set q" using Some by (simp_all add: queue_of_def map_of_SomeD)
  then show ?thesis by (force simp: entries_def)
qed (simp add: queue_of_def)

lemma get_queue_of: "queue_ok cap q \<Longrightarrow> bm_get q to = (if queue_of q to = [] then None else Some (queue_of q to))"
  by (auto simp: queue_ok_def queue_of_def split: option.splits)

lemma expire_nothing:
  assumes ok: "queue_ok cap q" and none: "queue_expire now q = ([], q')"
  shows "q' = q"
proof (rule bm_ext)
  note law = queue_expire_law[OF ok none]
  show "bm_ok q'" "bm_ok q" using law ok by (simp_all add: queue_ok_def)
  have e: "\<forall>x \<in># entries q. \<not> is_expired (qe_message x) now"
    using none by (auto simp: queue_expire_def entries_def filter_empty_conv)
  fix to
  have "queue_of q' to = queue_of q to"
  proof -
    show ?thesis using law e queue_of_entries[of _ q to] by (auto simp: filter_id_conv)
  qed
  then show "bm_get q' to = bm_get q to"
    using get_queue_of[OF ok, of to] get_queue_of[of cap q' to] law by simp
qed

interpretation saved: push_invariant P "synced P" for P
proof
  fix st st' :: push_host
  assume "synced P st" "ph_queue st' = ph_queue st" "ph_path st' = ph_path st" "ph_disk_ok st' = ph_disk_ok st"
  then show "synced P st'" by (simp add: synced_def)
next
  fix st :: push_host and q
  assume "synced P st" "queue_ok queue_per_recipient (ph_queue st) \<Longrightarrow> queue_ok queue_per_recipient q"
  then show "synced P (ph_save P (st \<lparr> ph_queue := q \<rparr>))"
    by (auto simp: synced_def ph_save_def split: option.splits)
next
  fix st :: push_host and now
  assume s: "synced P st"
  obtain gone q where e: "queue_expire now (ph_queue st) = (gone, q)" by fastforce
  have "queue_ok queue_per_recipient q" using queue_expire_law[OF _ e] s by (auto simp: synced_def)
  then show "synced P (ph_sweep P now st)"
    using s e expire_nothing[of queue_per_recipient "ph_queue st" now q]
    by (auto simp: synced_def ph_sweep_def ph_record_def ph_save_def Let_def split: option.splits)
next
  fix st st' :: push_host and node
  assume "synced P st"
  then show "fetch_slot node st = Some st' \<Longrightarrow> synced P st'" "synced P (fetch_slot_drop node st)"
    by (auto simp: synced_def fetch_slot_def fetch_slot_drop_def Let_def split: if_splits option.splits)
qed

section \<open>Properties\<close>

text \<open>
  C30: no push is lost or answered for twice. Whatever a host's push service does, in any order and
  interleaving of sends, fetches, acknowledgements, expiries and changes of its policy, every
  message it ever reported an id for is in exactly one place: still in its recipient's queue, or
  traced with one final outcome (delivered, fetched, expired, dropped or denied); and no recipient
  ever has more than 64 messages queued, each in the queue of the node it is for.
\<close>

theorem push_ledger_balanced:
  assumes "push_run P evs st = (rs, st')" "queue_ok 64 (ph_queue st)" "ph_fates st = []"
  shows "image_mset entry_id (entries (ph_queue st')) + settled (ph_fates st')
      = image_mset entry_id (entries (ph_queue st)) + mset (map rs_id rs)
    \<and> queue_ok 64 (ph_queue st')"
proof -
  have "ledger_ok (ledger_of (image_mset entry_id (entries (ph_queue st))) st)"
    using assms(2,3) by (simp add: ledger_ok_def ledger_of_def queue_per_recipient_def)
  from queue_moves_ok[OF push_run_moves[OF assms(1)] this] show ?thesis
    by (simp add: ledger_ok_def ledger_of_def queue_per_recipient_def)
qed

definition demo_entry :: queue_entry where
  "demo_entry = \<lparr> qe_message = \<lparr> pm_id = 5, pm_from = 2, pm_to = 7, pm_subject = ''s'', pm_body = ''b'',
     pm_at_ms = 0, pm_expires_ms = 1000 \<rparr>, qe_principal = None, qe_role = Some ''staff'' \<rparr>"

definition demo_push :: push_host where
  "demo_push = (from_state (demo_host demo_home)) \<lparr> ph_queue := [(7, [demo_entry])] \<rparr>"

theorem push_ledger_balanced_witness:
  "\<exists>st'. push_run demo_prims [Ev_sweep 10, Ev_close 7 (Some [5])] demo_push = ([], st')
     \<and> image_mset entry_id (entries (ph_queue st')) + settled (ph_fates st') = {#5#}"
proof -
  obtain rs st' where r: "push_run demo_prims [Ev_sweep 10, Ev_close 7 (Some [5])] demo_push = (rs, st')" by fastforce
  have ok: "queue_ok 64 (ph_queue demo_push)" "ph_fates demo_push = []"
    by (simp_all add: demo_push_def from_state_def queue_ok_def demo_entry_def)
  have "rs = []" using r by (auto split: prod.splits)
  moreover have "image_mset entry_id (entries (ph_queue demo_push)) = {#5#}"
    by (simp add: demo_push_def demo_entry_def)
  ultimately show ?thesis using push_ledger_balanced[OF r ok] r by simp
qed

text \<open>
  C33: a restart loses nothing. A service whose queue is kept in a file, however it started from that
  file and whatever happened since, would read back from the file exactly the queue it holds now
  (as long as the file takes writes and what is queued is of its types).
\<close>

theorem restart_keeps_queue:
  assumes "json_law P" "hex_law P" "compact_law P"
    and "push_run P evs (with_persisted P f (from_state h)) = (rs, st)" "ph_path st = Some f'"
    and "queue_ok 64 (persisted_queue P f)" "\<forall>e \<in># entries (ph_queue st). queue_entry_ok e"
  shows "ph_queue (with_persisted P f' (from_state h')) = ph_queue st"
proof -
  have "synced P (with_persisted P f (from_state h))"
    using assms(6) by (simp add: synced_def with_persisted_def from_state_def queue_per_recipient_def)
  then have s: "synced P st" using assms(4) saved.run by blast
  then have "bm_ok (ph_queue st)" by (simp add: synced_def queue_ok_def)
  then show ?thesis
    using s assms(5) persisted_saved[OF assms(1-3) _ assms(7)] by (auto simp: synced_def with_persisted_def)
qed

theorem restart_keeps_queue_witness:
  "\<exists>st f'. push_run demo_prims [Ev_close 7 (Some [5])] (with_persisted demo_prims Absent (from_state (demo_host demo_home)))
       = ([], st) \<and> ph_path st = Some f' \<and> persisted_queue demo_prims f' = ph_queue st"
proof -
  let ?st0 = "with_persisted demo_prims Absent (from_state (demo_host demo_home))"
  obtain rs st where r: "push_run demo_prims [Ev_close 7 (Some [5])] ?st0 = (rs, st)" by fastforce
  have st: "rs = []" "ph_queue st = []" "\<exists>f'. ph_path st = Some f'"
    using r by (auto simp: fetch_close_def with_queue_def queue_remove_def with_persisted_def from_state_def
        persisted_queue_def ph_save_def ph_record_def fetch_slot_drop_def)
  then obtain f' where f': "ph_path st = Some f'" by blast
  have "queue_ok 64 (persisted_queue demo_prims Absent)" by (simp add: persisted_queue_def)
  with restart_keeps_queue[OF _ _ _ r f', of "demo_host demo_home"] st f' r show ?thesis
    by (intro exI[of _ st] exI[of _ f']) (simp add: with_persisted_def)
qed

lemma fetch_open_Inr:
  assumes "fetch_open P R W caller now0 reads now st = (pf, Inr wait, st')"
  shows "\<exists>state h1 tok v h2 x h3. host_policy P (ph_host st) = (Inr state, h1)
    \<and> read_opening reads = Inr (Some tok, wait)
    \<and> admit_caller P R W state caller tok now h1 = (Inr v, h2) \<and> decide_push P caller now h2 = (Inr x, h3)
    \<and> ph_queue st' = ph_queue st"
proof -
  obtain st1 where s1: "preauth_take st = Some st1" using assms by (cases "preauth_take st") (auto simp: fetch_open_def)
  have same: "ph_host st1 = ph_host st" "ph_queue st1 = ph_queue st"
    using s1 by (auto simp: preauth_take_def split: if_splits)
  obtain state h1 where p: "host_policy P (ph_host st) = (Inr state, h1)"
    using assms same by (cases "host_policy P (ph_host st)") (auto simp: fetch_open_def s1 split: sum.splits)
  obtain tok where r: "read_opening reads = Inr (tok, wait)"
    using assms same p by (cases "read_opening reads")
      (auto simp: fetch_open_def s1 Let_def split: sum.splits option.splits prod.splits)
  let ?st2 = "st1 \<lparr> ph_host := h1 \<rparr>"
  obtain st3 where a: "fetch_admit P R W state caller tok now ?st2 = (Inr (), st3)"
      "fetch_slot caller (preauth_drop st3) = Some st'"
    using assms same p r by (auto simp: fetch_open_def s1 Let_def split: sum.splits option.splits prod.splits)
  obtain t v h2 where t: "tok = Some t" "admit_caller P R W state caller t now h1 = (Inr v, h2)"
    using a(1) by (auto simp: fetch_admit_def Let_def split: option.splits sum.splits prod.splits)
  obtain x st4 where x: "push_authorize P caller now (?st2 \<lparr> ph_host := h2 \<rparr>) = (Inr x, st4)" "st3 = st4"
    using a(1) t by (auto simp: fetch_admit_def Let_def split: sum.splits prod.splits push_refusal.splits)
  then obtain y h3 where "decide_push P caller now h2 = (Inr y, h3)" "st4 = ?st2 \<lparr> ph_host := h3 \<rparr>"
    by (auto simp: push_authorize_def split: sum.splits prod.splits)
  moreover from this have "ph_queue st' = ph_queue st"
    using a(2) x(2) same by (auto simp: fetch_slot_def preauth_drop_def Let_def split: if_splits)
  ultimately show ?thesis using p r t by blast
qed

lemma fetch_poll_batch:
  assumes "fetch_poll caller until looks st = (batch, st')" "queue_ok 64 (ph_queue st)"
    and "\<forall>l \<in> set looks. \<forall>s. queue_ok 64 (ph_queue s) \<longrightarrow> queue_ok 64 (ph_queue (pl_others l s))"
  shows "length batch \<le> 32 \<and> (\<forall>m \<in> set batch. pm_to m = caller \<and> (\<exists>l \<in> set looks. \<not> is_expired m (pl_now_ms l)))"
  using assms
proof (induction looks arbitrary: st)
  case (Cons l looks)
  have ok: "queue_ok 64 (ph_queue (pl_others l st))" using Cons.prems(2,3) by simp
  let ?batch = "queue_pending (ph_queue (pl_others l st)) caller (pl_now_ms l) max_batch"
  have b: "length ?batch \<le> 32" "\<forall>m \<in> set ?batch. pm_to m = caller \<and> \<not> is_expired m (pl_now_ms l)"
    using queue_ok_of[OF ok, of caller] by (auto simp: queue_pending_def max_batch_def dest: in_set_takeD)
  show ?case
  proof (cases "?batch \<noteq> [] \<or> pl_since l \<ge> until")
    case True
    then have "batch = ?batch" using Cons.prems(1) by (auto simp: Let_def)
    then show ?thesis using b by auto
  next
    case False
    then have "fetch_poll caller until looks (pl_others l st) = (batch, st')" using Cons.prems(1) by (auto simp: Let_def)
    then show ?thesis using Cons.IH[OF _ ok] Cons.prems(3) by auto
  qed
qed simp

text \<open>
  C31: an inbox fetch hands messages only to their recipient, admitted now. When a fetch delivers,
  the host's policy read, the peer's token was verified and admitted under it, and at that moment
  the push rule allowed that node; what it gets is at most 32 messages, each addressed to it and not
  expired when it was looked up.
\<close>

theorem fetch_serves_recipient:
  assumes "serve_fetch P R W caller now0 reads now looks ack others st = (Inr batch, st')"
    and "queue_ok 64 (ph_queue st)"
    and "\<forall>l \<in> set looks. \<forall>s. queue_ok 64 (ph_queue s) \<longrightarrow> queue_ok 64 (ph_queue (pl_others l s))"
  shows "\<exists>state h1 tok wait v h2 x h3. host_policy P (ph_host st) = (Inr state, h1)
    \<and> read_opening reads = Inr (Some tok, wait)
    \<and> admit_caller P R W state caller tok now h1 = (Inr v, h2) \<and> decide_push P caller now h2 = (Inr x, h3)
    \<and> length batch \<le> 32
    \<and> (\<forall>m \<in> set batch. pm_to m = caller \<and> (\<exists>l \<in> set looks. \<not> is_expired m (pl_now_ms l)))"
proof -
  obtain pf wait st1 where o: "fetch_open P R W caller now0 reads now st = (pf, Inr wait, st1)"
    using assms(1) by (auto simp: serve_fetch_def split: prod.splits sum.splits)
  then obtain st2 where b: "fetch_poll caller (fetch_until wait) looks st1 = (batch, st2)"
    using assms(1) by (auto simp: serve_fetch_def split: prod.splits)
  note a = fetch_open_Inr[OF o]
  then have "queue_ok 64 (ph_queue st1)" using assms(2) by auto
  from fetch_poll_batch[OF b this assms(3)] a show ?thesis by blast
qed

lemma demo_decides_push:
  assumes "store_read P ks 1 = Inr (Some \<lparr> hd_signed = s, hd_policy = demo_policy \<rparr>)" "sp_version s = 1"
    "head_check_fresh (sp_head s) 500 = Inr ()"
  defines "h \<equiv> (demo_host ks) \<lparr> gh_high_water := 1,
      gh_identities := demo_identities \<lparr> id_known := [(7, demo_who)] \<rparr> \<rparr>"
  shows "decide_push P 7 500 h = (Inr (Some demo_who, ''staff''), h)"
proof -
  have t: "hc_trust demo_config demo_policy = [(''https://idp'', [''cli''])]" by code_simp
  have p: "host_policy P h = (Inr \<lparr> hd_signed = s, hd_policy = demo_policy \<rparr>, h)"
    unfolding host_policy_Inr
    using assms by (simp add: demo_host_def held_version_def t set_trust_def demo_identities_def)
  have who: "check_admitted demo_policy 7 demo_who = Inr ()" "role_admits demo_policy ''staff'' (Some demo_who)"
    by (simp_all add: check_admitted_Inr demo_policy_def policy_new_def bans_node_def bans_person_def
        any_role_admits_def role_admits_def admits_def matches_def matcher_new_def demo_who_def)
  have cur: "id_current (gh_identities h) 7 500 = Some demo_who"
    by (simp add: h_def id_current_def principal_is_fresh_def demo_who_def sat_add_def clamp_i64_def
        clock_skew_secs_def i64_min_def i64_max_def)
  have "gh_config h = demo_config" by (simp add: h_def demo_host_def)
  then have "hc_push (gh_config h) = Some [''staff'']" by (simp add: demo_config_def)
  then show ?thesis
    using assms(3) who by (simp add: decide_push_def p cur held_check_fresh_def Let_def)
qed

abbreviation demo_fetch :: "(push_message list \<Rightarrow> push_id list option) \<Rightarrow> (push_host \<Rightarrow> push_host) \<Rightarrow> home
    \<Rightarrow> (fetch_denial + push_message list) \<times> push_host" where
  "demo_fetch ack others ks \<equiv> serve_fetch demo_idp demo_ring demo_web 7 500
      [Got (In_Hello (Some ''01.02.09'')), Got (In_Fetch 0)] 500
      [\<lparr> pl_since = 0, pl_now_ms = 10, pl_others = (\<lambda>s. s) \<rparr>] ack others
      ((from_state (demo_host ks)) \<lparr> ph_queue := [(7, [demo_entry])] \<rparr>)"

lemma demo_fetch_serves: "\<exists>ks. \<forall>ack others. fst (demo_fetch ack others ks) = Inr [qe_message demo_entry]"
proof -
  obtain s where s: "sp_version s = 1" "head_check_fresh (sp_head s) 500 = Inr ()"
    "store_read demo_idp (snd (adopt_if_newer demo_idp s 1 500 demo_home)) 1
       = Inr (Some \<lparr> hd_signed = s, hd_policy = demo_policy \<rparr>)"
    using demo_laws_stored[of demo_idp] by auto
  let ?ks = "snd (adopt_if_newer demo_idp s 1 500 demo_home)"
  let ?st = "\<lparr> hd_signed = s, hd_policy = demo_policy \<rparr>"
  let ?h1 = "(demo_host ?ks) \<lparr> gh_high_water := 1 \<rparr>"
  let ?h2 = "?h1 \<lparr> gh_identities := demo_identities \<lparr> id_known := [(7, demo_who)] \<rparr> \<rparr>"
  let ?ph = "(from_state (demo_host ?ks)) \<lparr> ph_queue := [(7, [demo_entry])] \<rparr>"
  let ?looks = "[\<lparr> pl_since = 0, pl_now_ms = 10, pl_others = (\<lambda>s. s) \<rparr>]"
  let ?reads = "[Got (In_Hello (Some ''01.02.09'')), Got (In_Fetch 0)]"
  have "hc_trust demo_config demo_policy = [(''https://idp'', [''cli''])]" by code_simp
  then have p: "host_policy demo_idp (demo_host ?ks) = (Inr ?st, ?h1)"
    unfolding host_policy_Inr using s
    by (simp add: demo_host_def held_version_def set_trust_def demo_identities_def)
  have a: "admit_caller demo_idp demo_ring demo_web ?st 7 ''01.02.09'' 500 ?h1 =
      (Inr \<lparr> vf_token = ''01.02.09'', vf_principal = demo_who \<rparr>, ?h2)"
    using demo_admitted[of ?st ?h1] by (simp add: demo_host_def)
  have d: "decide_push demo_idp 7 500 ?h2 = (Inr (Some demo_who, ''staff''), ?h2)"
    using demo_decides_push[OF s(3,1,2)] by simp
  have "preauth_take ?ph = Some (?ph \<lparr> ph_preauth := 1 \<rparr>)"
    by (simp add: preauth_take_def from_state_def max_preauth_fetches_def)
  then obtain pf where o: "fetch_open demo_idp demo_ring demo_web 7 500 ?reads 500 ?ph =
      (pf, Inr 0, ?ph \<lparr> ph_host := ?h2, ph_fetching := [(7, 1)] \<rparr>)"
    using p a d
    by (simp add: fetch_open_def read_opening_def fetch_admit_def push_authorize_def fetch_slot_def preauth_drop_def
        max_fetches_per_node_def from_state_def Let_def)
  have b: "fetch_poll 7 (fetch_until 0) ?looks (?ph \<lparr> ph_host := ?h2, ph_fetching := [(7, 1)] \<rparr>) =
      ([qe_message demo_entry], ?ph \<lparr> ph_host := ?h2, ph_fetching := [(7, 1)] \<rparr>)"
    by (simp add: queue_pending_def queue_of_def demo_entry_def is_expired_def max_batch_def Let_def)
  have "fst (demo_fetch ack others ?ks) = Inr [qe_message demo_entry]" for ack others
    by (simp only: serve_fetch_def o b prod.case sum.case fst_conv)
  then show ?thesis by blast
qed

theorem fetch_serves_recipient_witness:
  "\<exists>ks. fst (demo_fetch (\<lambda>b. None) (\<lambda>s. s) ks) = Inr [qe_message demo_entry] \<and> pm_to (qe_message demo_entry) = 7"
proof -
  obtain ks where r: "fst (demo_fetch (\<lambda>b. None) (\<lambda>s. s) ks) = Inr [qe_message demo_entry]"
    using demo_fetch_serves by blast
  then obtain st' where f: "demo_fetch (\<lambda>b. None) (\<lambda>s. s) ks = (Inr [qe_message demo_entry], st')"
    by (metis prod.collapse)
  have "queue_ok 64 (ph_queue ((from_state (demo_host ks)) \<lparr> ph_queue := [(7, [demo_entry])] \<rparr>))"
    by (simp add: queue_ok_def demo_entry_def)
  with fetch_serves_recipient[OF f] have "pm_to (qe_message demo_entry) = 7" by auto
  then show ?thesis using r by blast
qed

end
