(* ===== verification/Push_Capability.thy ===== *)
theory Push_Capability
  imports Push_Host
begin

text \<open>
  How a request reaches the push service: the per-call push tokens of \<open>wires/host/capability.rs\<close> and
  the control sockets of \<open>wires/host/control.rs\<close> (the line reader, the requests, what each socket's
  authority lets through). Instants are milliseconds. Minting draws a random token, so the token is
  an input. The inductive relation \<open>caps_reach\<close> is the history of one \<open>serve\<close>.
\<close>

type_synonym instant = nat
type_synonym push_token = "256 word"

definition capability_grace :: nat where "capability_grace = 10 * 60 * 1000"

section \<open>Tokens\<close>

definition is_ascii_hexdigit :: "char \<Rightarrow> bool" where
  "is_ascii_hexdigit c \<longleftrightarrow> char_between 48 57 c \<or> char_between 97 102 c \<or> char_between 65 70 c"

definition hex_value :: "char \<Rightarrow> nat" where
  "hex_value c = (let n = of_char c in if n \<le> 57 then n - 48 else if n \<le> 70 then n - 55 else n - 87)"

fun hex_pairs :: "string \<Rightarrow> bytes" where
  "hex_pairs (a # b # s) = word_of_nat (16 * hex_value a + hex_value b) # hex_pairs s"
| "hex_pairs _ = []"

definition token_hex :: "push_token \<Rightarrow> string" where
  "token_hex t = concat (map digit_pair (be_bytes32 t))"

definition token_from_hex :: "string \<Rightarrow> push_token option" where
  "token_from_hex s = (if length s \<noteq> 64 \<or> \<not> list_all is_ascii_hexdigit s then None
     else Some (word_of_nat (nat_be (hex_pairs s))))"

record grant =
  gr_caller :: node_id
  gr_expires :: "instant option"

datatype capability_refusal = Unknown_token | Not_the_caller node_id

type_synonym capabilities = "(push_token, grant) btree_map"

definition grant_live :: "grant \<Rightarrow> instant \<Rightarrow> bool" where
  "grant_live g now \<longleftrightarrow> (case gr_expires g of None \<Rightarrow> True | Some t \<Rightarrow> t > now)"

definition caps_prune :: "instant \<Rightarrow> capabilities \<Rightarrow> capabilities" where
  "caps_prune now m = bm_retain (\<lambda>_ g. grant_live g now) m"

definition caps_mint :: "push_token \<Rightarrow> node_id \<Rightarrow> instant \<Rightarrow> capabilities \<Rightarrow> capabilities" where
  "caps_mint tok caller now m = bm_put tok \<lparr> gr_caller = caller, gr_expires = None \<rparr> (caps_prune now m)"

definition caps_finish :: "push_token \<Rightarrow> instant \<Rightarrow> capabilities \<Rightarrow> capabilities" where
  "caps_finish tok at m = (case bm_get m tok of
     None \<Rightarrow> m | Some g \<Rightarrow> bm_put tok (g \<lparr> gr_expires := Some (at + capability_grace) \<rparr>) m)"

definition caps_check :: "prims \<Rightarrow> push_token \<Rightarrow> string \<Rightarrow> instant \<Rightarrow> capabilities
    \<Rightarrow> (capability_refusal + grant) \<times> capabilities" where
  "caps_check P tok to now m =
     (let m = caps_prune now m in
      (case bm_get m tok of
         None \<Rightarrow> Inl Unknown_token
       | Some g \<Rightarrow> if node_from_hex P to \<noteq> Inr (gr_caller g) then Inl (Not_the_caller (gr_caller g)) else Inr g, m))"

section \<open>The control sockets\<close>

definition max_request_line :: nat where "max_request_line = 1024 * 1024"

datatype line_error = Line_too_long

text \<open>The stream as the buffered reader yields it: non-empty chunks, then the end.\<close>

fun read_capped_line :: "nat \<Rightarrow> bytes \<Rightarrow> bytes list \<Rightarrow> (line_error + bytes option) \<times> bytes list" where
  "read_capped_line cap line [] = (Inr (if line = [] then None else Some line), [])"
| "read_capped_line cap line (c # cs) = (case position (\<lambda>b. b = 10) c of
     Some at \<Rightarrow> (Inr (Some (line @ take at c)), if drop (at + 1) c = [] then cs else drop (at + 1) c # cs)
   | None \<Rightarrow> if length (line @ c) > cap then (Inl Line_too_long, cs) else read_capped_line cap (line @ c) cs)"

datatype control_request = Push_any push_spec | Caller_push string push_spec

datatype authority = Operator | Calls

definition d_push_spec :: "json \<Rightarrow> push_spec option" where
  "d_push_spec j = do {
     fs \<leftarrow> struct_fields [''to'', ''subject'', ''body'', ''ttl_secs''] 4 False j;
     t \<leftarrow> req fs ''to'' d_str;
     s \<leftarrow> req fs ''subject'' d_subject;
     b \<leftarrow> req fs ''body'' d_push_body;
     l \<leftarrow> opt_field fs ''ttl_secs'' d_u64;
     Some \<lparr> ps_to = t, ps_subject = s, ps_body = b, ps_ttl_secs = l \<rparr>
   }"

definition d_caller_push :: "json \<Rightarrow> control_request option" where
  "d_caller_push j = do {
     fs \<leftarrow> struct_fields [''token'', ''push''] 2 True j;
     t \<leftarrow> req fs ''token'' d_str;
     p \<leftarrow> req fs ''push'' d_push_spec;
     Some (Caller_push t p)
   }"

text \<open>Externally tagged: one member, named by the variant.\<close>

definition d_control_request :: "json \<Rightarrow> control_request option" where
  "d_control_request j = (case j of
     JObj [(tag, v)] \<Rightarrow>
       if tag = ''push'' then map_option Push_any (d_push_spec v)
       else if tag = ''caller_push'' then d_caller_push v
       else None
   | _ \<Rightarrow> None)"

datatype control_refusal =
    Child_takes_calls
  | Operator_takes_pushes
  | Capability capability_refusal
  | Malformed_request

text \<open>What a request line comes to: a push for the push service, or a refusal.\<close>

definition control_decide :: "prims \<Rightarrow> authority \<Rightarrow> bytes \<Rightarrow> instant \<Rightarrow> capabilities
    \<Rightarrow> (control_refusal + push_spec) \<times> capabilities" where
  "control_decide P authority line now caps =
     (case (from_slice P d_control_request line, authority) of
        (Inr (Push_any spec), Operator) \<Rightarrow> (Inr spec, caps)
      | (Inr (Caller_push token spec), Calls) \<Rightarrow>
          (case (case token_from_hex token of
              Some tok \<Rightarrow> caps_check P tok (ps_to spec) now caps
            | None \<Rightarrow> (Inl Unknown_token, caps)) of
             (Inr _, caps) \<Rightarrow> (Inr spec, caps)
           | (Inl e, caps) \<Rightarrow> (Inl (Capability e), caps))
      | (Inr (Push_any _), Calls) \<Rightarrow> (Inl Child_takes_calls, caps)
      | (Inr (Caller_push _ _), Operator) \<Rightarrow> (Inl Operator_takes_pushes, caps)
      | (Inl _, _) \<Rightarrow> (Inl Malformed_request, caps))"

definition is_ascii_whitespace :: "8 word \<Rightarrow> bool" where
  "is_ascii_whitespace b \<longleftrightarrow> b \<in> {32, 9, 10, 12, 13}"

text \<open>Every line that is not blank gets one reply, in order; each is decided at its own time, after
  what else happened to the tokens.\<close>

fun control_serve :: "prims \<Rightarrow> authority \<Rightarrow> (bytes \<times> instant \<times> (capabilities \<Rightarrow> capabilities)) list \<Rightarrow> capabilities
    \<Rightarrow> (control_refusal + push_spec) list \<times> capabilities" where
  "control_serve P authority [] caps = ([], caps)"
| "control_serve P authority ((line, now, others) # rest) caps =
     (let caps = others caps in
      if list_all is_ascii_whitespace line then control_serve P authority rest caps
      else case control_decide P authority line now caps of (r, caps) \<Rightarrow>
        case control_serve P authority rest caps of (rs, caps) \<Rightarrow> (r # rs, caps))"

text \<open>The route \<open>wires push\<close> takes, from its environment.\<close>

datatype push_route = Route_capability string string | Route_operator

definition push_route_from_env :: "(string \<Rightarrow> string option) \<Rightarrow> push_route option" where
  "push_route_from_env var =
     (let non_empty = (\<lambda>x. case x of None \<Rightarrow> None | Some s \<Rightarrow> if s = [] then None else Some s) in
      case non_empty (var ''WIRES_PUSH_TOKEN'') of
        None \<Rightarrow> Some Route_operator
      | Some token \<Rightarrow> map_option (\<lambda>socket. Route_capability socket token) (non_empty (var ''WIRES_PUSH_SOCKET'')))"

section \<open>Histories\<close>

text \<open>What was minted and finished, at the time of the last operation, and the store that came of it:
  one \<open>CallCapability\<close> finishes its token once, when it is dropped.\<close>

inductive caps_reach :: "prims \<Rightarrow> (push_token \<rightharpoonup> grant) \<Rightarrow> instant \<Rightarrow> capabilities \<Rightarrow> bool" for P where
  Start: "caps_reach P Map.empty t []"
| Mint: "caps_reach P S t m \<Longrightarrow> t \<le> now \<Longrightarrow>
    caps_reach P (S(tok \<mapsto> \<lparr> gr_caller = caller, gr_expires = None \<rparr>)) now (caps_mint tok caller now m)"
| Finish: "caps_reach P S t m \<Longrightarrow> S tok = Some \<lparr> gr_caller = c, gr_expires = None \<rparr> \<Longrightarrow> t \<le> at \<Longrightarrow>
    caps_reach P (S(tok \<mapsto> \<lparr> gr_caller = c, gr_expires = Some (at + capability_grace) \<rparr>)) at (caps_finish tok at m)"
| Check: "caps_reach P S t m \<Longrightarrow> t \<le> now \<Longrightarrow> caps_reach P S now (snd (caps_check P tok to now m))"

text \<open>The store holds granted tokens only, and all that still live.\<close>

definition caps_match :: "(push_token \<rightharpoonup> grant) \<Rightarrow> instant \<Rightarrow> capabilities \<Rightarrow> bool" where
  "caps_match S t m \<longleftrightarrow> bm_ok m \<and> (\<forall>tok g. bm_get m tok = Some g \<longrightarrow> S tok = Some g)
     \<and> (\<forall>tok g. S tok = Some g \<and> grant_live g t \<longrightarrow> bm_get m tok = Some g)"

lemma grant_live_earlier: "grant_live g now \<Longrightarrow> t \<le> now \<Longrightarrow> grant_live g t"
  by (auto simp: grant_live_def split: option.splits)

lemma caps_matchI:
  assumes "bm_ok m" "\<And>tok g. bm_get m tok = Some g \<Longrightarrow> S tok = Some g"
    "\<And>tok g. S tok = Some g \<Longrightarrow> grant_live g t \<Longrightarrow> bm_get m tok = Some g"
  shows "caps_match S t m"
  using assms unfolding caps_match_def by blast

lemma caps_matchD:
  assumes "caps_match S t m"
  shows "bm_ok m" "bm_get m tok = Some g \<Longrightarrow> S tok = Some g"
    "S tok = Some g \<Longrightarrow> grant_live g t \<Longrightarrow> bm_get m tok = Some g"
  using assms unfolding caps_match_def by blast+

lemma get_prune: "bm_ok m \<Longrightarrow> bm_get (caps_prune now m) tok = Some g \<longleftrightarrow> bm_get m tok = Some g \<and> grant_live g now"
  by (auto simp: caps_prune_def split: option.splits if_splits)

lemma bm_ok_prune [simp]: "bm_ok m \<Longrightarrow> bm_ok (caps_prune now m)"
  by (simp add: caps_prune_def)

lemma caps_match_prune: "caps_match S t m \<Longrightarrow> t \<le> now \<Longrightarrow> caps_match S now (caps_prune now m)"
proof (rule caps_matchI)
  assume c: "caps_match S t m" and t: "t \<le> now"
  note b = caps_matchD(1)[OF c]
  show "bm_ok (caps_prune now m)" using b by simp
  show "bm_get (caps_prune now m) tok = Some g \<Longrightarrow> S tok = Some g" for tok g
    using caps_matchD(2)[OF c] get_prune[OF b] by blast
  show "S tok = Some g \<Longrightarrow> grant_live g now \<Longrightarrow> bm_get (caps_prune now m) tok = Some g" for tok g
    using caps_matchD(3)[OF c] get_prune[OF b] grant_live_earlier[OF _ t] by blast
qed

lemma caps_match_put:
  assumes c: "caps_match S t m"
  shows "caps_match (S(tok \<mapsto> g)) t (bm_put tok g m)"
proof (rule caps_matchI)
  note b = caps_matchD(1)[OF c]
  show "bm_ok (bm_put tok g m)" using b by simp
  show "bm_get (bm_put tok g m) x = Some y \<Longrightarrow> (S(tok \<mapsto> g)) x = Some y" for x y
    using caps_matchD(2)[OF c, of x y] b by (simp split: if_splits)
  show "(S(tok \<mapsto> g)) x = Some y \<Longrightarrow> grant_live y t \<Longrightarrow> bm_get (bm_put tok g m) x = Some y" for x y
    using caps_matchD(3)[OF c, of x y] b by (simp split: if_splits)
qed

lemma caps_match_later:
  assumes c: "caps_match S t m" and t: "t \<le> now"
  shows "caps_match S now m"
  using caps_matchD[OF c] grant_live_earlier[OF _ t] by (intro caps_matchI) blast+

lemma caps_reach_match: "caps_reach P S t m \<Longrightarrow> caps_match S t m"
proof (induction rule: caps_reach.induct)
  case (Start t)
  show ?case by (rule caps_matchI) simp_all
next
  case (Mint S t m now tok caller)
  show ?case unfolding caps_mint_def by (intro caps_match_put caps_match_prune[OF Mint.IH Mint.hyps(2)])
next
  case (Finish S t m tok c at)
  have "bm_get m tok = Some \<lparr> gr_caller = c, gr_expires = None \<rparr>"
    using caps_matchD(3)[OF Finish.IH Finish.hyps(2)] by (simp add: grant_live_def)
  then have e: "caps_finish tok at m = bm_put tok \<lparr> gr_caller = c, gr_expires = Some (at + capability_grace) \<rparr> m"
    by (simp add: caps_finish_def)
  show ?case unfolding e by (rule caps_match_later[OF caps_match_put[OF Finish.IH] Finish.hyps(3)])
next
  case (Check S t m now tok to)
  then show ?case using caps_match_prune by (simp add: caps_check_def Let_def)
qed

lemma caps_check_exact:
  assumes "caps_reach P S t m" "t \<le> now"
  shows "fst (caps_check P tok to now m) = (case S tok of
      None \<Rightarrow> Inl Unknown_token
    | Some g \<Rightarrow> if \<not> grant_live g now then Inl Unknown_token
        else if node_from_hex P to \<noteq> Inr (gr_caller g) then Inl (Not_the_caller (gr_caller g)) else Inr g)"
proof -
  have m: "caps_match S now (caps_prune now m)" using caps_match_prune[OF caps_reach_match] assms by blast
  have b: "bm_ok m" using caps_matchD(1)[OF caps_reach_match[OF assms(1)]] .
  have "bm_get (caps_prune now m) tok = (case S tok of None \<Rightarrow> None | Some g \<Rightarrow> if grant_live g now then Some g else None)"
  proof (cases "bm_get (caps_prune now m) tok")
    case None
    then show ?thesis using caps_matchD(3)[OF m, of tok] by (cases "S tok") auto
  next
    case (Some g)
    then have "S tok = Some g" "grant_live g now" using caps_matchD(2)[OF m] b by (simp_all add: get_prune)
    then show ?thesis using Some by simp
  qed
  then show ?thesis by (simp add: caps_check_def Let_def split: option.splits)
qed

section \<open>Lines\<close>

lemma read_capped_line_bound:
  "read_capped_line cap line cs = (Inr (Some l), rest) \<Longrightarrow> length line \<le> cap \<Longrightarrow> \<forall>c \<in> set cs. length c \<le> k \<Longrightarrow>
    length l < cap + k \<or> length l \<le> cap"
proof (induction cap line cs rule: read_capped_line.induct)
  case (2 cap line c cs)
  show ?case
  proof (cases "position (\<lambda>b. b = 10) c")
    case None
    then show ?thesis using 2 by (auto split: if_splits)
  next
    case (Some i)
    then have "i < length c" by (simp add: position_Some_iff)
    then show ?thesis using 2 Some by (auto split: if_splits)
  qed
qed (auto split: if_splits)

text \<open>The cap is checked only when a chunk holds no newline, so a line may end past it.\<close>

lemma line_over_cap: "read_capped_line 4 [] [[1, 2, 3, 4], [5, 6, 10]] = (Inr (Some [1, 2, 3, 4, 5, 6]), [])"
  by simp

section \<open>Decoding requests\<close>

definition j_push_spec :: "push_spec \<Rightarrow> json" where
  "j_push_spec s = obj [(''to'', Some (JStr (ps_to s))), (''subject'', Some (JStr (ps_subject s))),
     (''body'', Some (JStr (ps_body s))), (''ttl_secs'', map_option j_u64 (ps_ttl_secs s))]"

definition j_control_request :: "control_request \<Rightarrow> json" where
  "j_control_request r = (case r of
     Push_any s \<Rightarrow> obj [(''push'', Some (j_push_spec s))]
   | Caller_push t s \<Rightarrow> obj [(''caller_push'', Some (obj [(''token'', Some (JStr t)), (''push'', Some (j_push_spec s))]))])"

definition push_spec_ok :: "push_spec \<Rightarrow> bool" where
  "push_spec_ok s \<longleftrightarrow> is_ok (subject_new (ps_subject s)) \<and> is_ok (push_body_new (ps_body s))"

interpretation push_spec_json: json_type j_push_spec d_push_spec push_spec_ok
proof
  fix s :: push_spec
  assume "push_spec_ok s"
  then have "d_subject (JStr (ps_subject s)) = Some (ps_subject s)" "d_push_body (JStr (ps_body s)) = Some (ps_body s)"
    by (auto simp: push_spec_ok_def is_ok_iff subject_new_Inr push_body_new_Inr d_subject_def
        d_push_body_def d_str_def res_ok_Some_iff)
  then show "d_push_spec (j_push_spec s) = Some s"
    using u64_json.decode_encode
    by (cases s; cases "ps_ttl_secs s")
      (simp_all add: d_push_spec_def j_push_spec_def json_simps req_def opt_field_def d_str_def j_u64_def)
  show "json_ok (j_push_spec s)" by (simp add: j_push_spec_def json_simps split: option.splits)
qed

interpretation control_request_json: json_type j_control_request d_control_request
  "\<lambda>r. push_spec_ok (case r of Push_any s \<Rightarrow> s | Caller_push _ s \<Rightarrow> s)"
proof
  fix r :: control_request
  assume ok: "push_spec_ok (case r of Push_any s \<Rightarrow> s | Caller_push _ s \<Rightarrow> s)"
  have "obj [(k, Some v)] = JObj [(k, v)]" for k v by (simp add: obj_def kept_fields_def bm_from_def)
  then show "d_control_request (j_control_request r) = Some r"
    using ok push_spec_json.decode_encode
    by (cases r) (simp_all add: d_control_request_def j_control_request_def d_caller_push_def json_simps req_def d_str_def)
  show "json_ok (j_control_request r)"
    using ok push_spec_json.encode_canonical
    by (cases r) (simp_all add: j_control_request_def json_simps)
qed

section \<open>What the sockets let through\<close>

text \<open>
  C32: (\<open>Capabilities::check\<close>) After any history of mints, ends of calls and checks, the token store
  answers exactly as the full history of grants would, although it forgets expired grants as it goes:
  a token opens nothing unless it was minted and its call is running or ended less than ten minutes
  ago, and then only for the node the call was made by.
\<close>

theorem capability_exact:
  assumes "caps_reach P S t m" "t \<le> now"
  shows "fst (caps_check P tok to now m) = (case S tok of
      None \<Rightarrow> Inl Unknown_token
    | Some g \<Rightarrow> if \<not> grant_live g now then Inl Unknown_token
        else if node_from_hex P to \<noteq> Inr (gr_caller g) then Inl (Not_the_caller (gr_caller g)) else Inr g)"
  using caps_check_exact[OF assms] .

definition demo_caps :: capabilities where
  "demo_caps = caps_mint 0 7 1000 []"

lemma demo_caps_reach: "caps_reach P [0 \<mapsto> \<lparr> gr_caller = 7, gr_expires = None \<rparr>] 1000 demo_caps"
  using Mint[OF Start[of P 0], of 1000 0 7] by (simp add: demo_caps_def)

theorem capability_exact_witness:
  "fst (caps_check demo_prims 0 (hex_of demo_prims 7) 1000 demo_caps) = Inr \<lparr> gr_caller = 7, gr_expires = None \<rparr>
   \<and> fst (caps_check demo_prims 0 (hex_of demo_prims 8) 1000 demo_caps) = Inl (Not_the_caller 7)
   \<and> fst (caps_check demo_prims 1 (hex_of demo_prims 7) 1000 demo_caps) = Inl Unknown_token"
  by (simp add: capability_exact[OF demo_caps_reach] grant_live_def)

text \<open>What the hex decoder is relied on for: two characters a byte.\<close>

definition hex_length_law :: "prims \<Rightarrow> bool" where
  "hex_length_law P \<longleftrightarrow> (\<forall>s b. hex_dec P s = Some b \<longrightarrow> length s = 2 * length b)"

lemma node_recipients:
  assumes "hex_length_law P" "node_from_hex P s = Inr n"
  shows "ph_recipients P s now st = (Inr [n], st)"
proof -
  have "length s = 64" using assms by (auto simp: node_from_hex_def hex_length_law_def split: option.splits if_splits)
  then show ?thesis using assms(2) by (simp add: ph_recipients_def res_ok_def)
qed

lemma control_calls_Inr:
  assumes "control_decide P Calls line now caps = (Inr spec, caps')"
  shows "\<exists>token tok g. from_slice P d_control_request line = Inr (Caller_push token spec) \<and> token_from_hex token = Some tok
    \<and> caps_check P tok (ps_to spec) now caps = (Inr g, caps')"
  using assms
  by (auto simp: control_decide_def split: sum.splits control_request.splits option.splits prod.splits)

text \<open>
  (\<open>serve_conn\<close> with \<open>Authority::Calls\<close>, then \<open>PushHost::send\<close>) Whatever line a service writes on
  the child socket, a push it gets through names a token that was minted for a call still running or
  ended within the grace, and the push service resolves its recipient to exactly that call's caller:
  no role, no other node.
\<close>

theorem child_socket_reaches_caller:
  assumes "caps_reach P S t caps" "t \<le> now" "hex_length_law P"
    and "control_decide P Calls line now caps = (Inr spec, caps')"
  shows "\<exists>tok g. S tok = Some g \<and> grant_live g now
    \<and> ph_recipients P (ps_to spec) secs st = (Inr [gr_caller g], st)"
proof -
  obtain tok g where g: "caps_check P tok (ps_to spec) now caps = (Inr g, caps')"
    using control_calls_Inr[OF assms(4)] by blast
  then have "S tok = Some g" "grant_live g now" "node_from_hex P (ps_to spec) = Inr (gr_caller g)"
    using caps_check_exact[OF assms(1,2), of tok "ps_to spec"] by (auto split: option.splits if_splits)
  then show ?thesis using node_recipients[OF assms(3)] by blast
qed

lemma undigits_length: "undigits s = Some b \<Longrightarrow> length s = 2 * length b"
  by (induction s arbitrary: b rule: undigits.induct) (auto split: option.splits)

lemma short_prims_hex_length: "hex_length_law (short_prims v)"
  by (auto simp: hex_length_law_def short_prims_def demo_prims_def dest: undigits_length)

definition demo_push_spec :: push_spec where
  "demo_push_spec = \<lparr> ps_to = hex_of demo_prims 7, ps_subject = ''ci'', ps_body = ''done'', ps_ttl_secs = None \<rparr>"

theorem child_socket_reaches_caller_witness:
  "\<exists>line. control_decide (short_prims (j_control_request (Caller_push (replicate 64 (CHR ''0'')) demo_push_spec))) Calls line 1000
       demo_caps = (Inr demo_push_spec, demo_caps)
     \<and> fst (ph_recipients (short_prims (j_control_request (Caller_push (replicate 64 (CHR ''0'')) demo_push_spec)))
          (ps_to demo_push_spec) 500 (from_state (demo_host demo_home))) = Inr [7]"
proof -
  let ?r = "Caller_push (replicate 64 (CHR ''0'')) demo_push_spec"
  let ?P = "short_prims (j_control_request ?r)"
  have "push_spec_ok demo_push_spec"
    by (simp add: push_spec_ok_def demo_push_spec_def is_ok_iff subject_new_Inr push_body_new_Inr max_subject_def
        max_push_body_def trim_plain char_between_def)
  then have "from_slice ?P d_control_request [] = Inr ?r"
    using control_request_json.decode_encode[of ?r] by (simp add: from_slice_def)
  moreover have "token_from_hex (replicate 64 (CHR ''0'')) = Some 0" by code_simp
  moreover have c: "caps_check ?P 0 (ps_to demo_push_spec) 1000 demo_caps = (Inr \<lparr> gr_caller = 7, gr_expires = None \<rparr>, demo_caps)"
  proof -
    have "hex_of demo_prims 7 = hex_of ?P 7" by (simp add: hex_of_def short_prims_def)
    then have "node_from_hex ?P (hex_of demo_prims 7) = Inr 7" by simp
    moreover have "caps_prune 1000 demo_caps = demo_caps" by code_simp
    moreover have "bm_get demo_caps 0 = Some \<lparr> gr_caller = 7, gr_expires = None \<rparr>" by code_simp
    ultimately show ?thesis by (simp add: caps_check_def demo_push_spec_def)
  qed
  ultimately have d: "control_decide ?P Calls [] 1000 demo_caps = (Inr demo_push_spec, demo_caps)"
    by (simp add: control_decide_def)
  have "\<exists>g. [0 \<mapsto> \<lparr> gr_caller = 7, gr_expires = None \<rparr>] x = Some g \<longrightarrow> gr_caller g = 7" for x :: push_token by auto
  with child_socket_reaches_caller[OF demo_caps_reach _ short_prims_hex_length d, of "500" "from_state (demo_host demo_home)"]
  have "fst (ph_recipients ?P (ps_to demo_push_spec) 500 (from_state (demo_host demo_home))) = Inr [7]"
    by (auto split: if_splits)
  with d show ?thesis by blast
qed

end
