(* ===== verification/Directory_Frames.thy ===== *)
theory Directory_Frames
  imports Framed_Json Policy_Store
begin

text \<open>
  \<open>library/directory/frames.rs\<close>: the frames of the directory's two protocols and their codec. All
  four frame types share one pair of functions there (\<open>encode_frame\<close>, \<open>decode_frame\<close>), and one
  interpretation of \<open>wire_json\<close> each gives the stream lemmas. Only the type of the frame and the cap
  on what is read differ.
\<close>

definition max_directory_frame :: nat where "max_directory_frame = 16 * 1024 * 1024"
definition max_small_directory_frame :: nat where "max_small_directory_frame = 16 * 1024"

section \<open>Frames\<close>

datatype directory_request =
    Rq_Open
  | Rq_Hello "id_token option"
  | Rq_Publish signed_head
  | Rq_Items "item list"
  | Rq_Policy state_version
  | Rq_View "string option"
  | Rq_Resolve service_name

datatype directory_answer =
    An_Proof host_proof
  | An_Published state_version hash256
  | An_Current fresh
  | An_Policy signed_policy fresh
  | An_View view fresh
  | An_Denied string

datatype sub_request =
    Sq_Hello "id_token option"
  | Sq_Subscribe state_version

datatype sub_frame =
    Sf_Policy signed_policy fresh
  | Sf_Fresh fresh
  | Sf_Denied string

text \<open>A field of the struct a tag names; \<open>deny_unknown_fields\<close> everywhere.\<close>

definition tagged :: "string \<Rightarrow> (string \<times> json option) list \<Rightarrow> json" where
  "tagged t fs = obj ((''type'', Some (JStr t)) # fs)"

fun j_request :: "prims \<Rightarrow> directory_request \<Rightarrow> json" where
  "j_request P Rq_Open = tagged ''open'' []"
| "j_request P (Rq_Hello t) = tagged ''hello'' [(''id_token'', map_option JStr t)]"
| "j_request P (Rq_Publish h) = tagged ''publish'' [(''head'', Some (j_signed_head P h))]"
| "j_request P (Rq_Items xs) = tagged ''items'' [(''items'', Some (j_list (j_item P) xs))]"
| "j_request P (Rq_Policy v) = tagged ''policy'' [(''have'', Some (j_u64 v))]"
| "j_request P (Rq_View q) = tagged ''view'' [(''query'', map_option JStr q)]"
| "j_request P (Rq_Resolve s) = tagged ''resolve'' [(''service'', Some (JStr s))]"

definition d_request :: "prims \<Rightarrow> json \<Rightarrow> directory_request option" where
  "d_request P j = do {
     (t, rest) \<leftarrow> tag_split ''type'' j;
     if t = ''open'' then map_option (\<lambda>_. Rq_Open) (struct_fields [] 0 True rest)
     else if t = ''hello'' then do {
       fs \<leftarrow> struct_fields [''id_token''] 0 True rest;
       map_option Rq_Hello (opt_field fs ''id_token'' d_str) }
     else if t = ''publish'' then do {
       fs \<leftarrow> struct_fields [''head''] 1 True rest;
       map_option Rq_Publish (req fs ''head'' (d_signed_head P)) }
     else if t = ''items'' then do {
       fs \<leftarrow> struct_fields [''items''] 1 True rest;
       map_option Rq_Items (req fs ''items'' (d_list (d_item P))) }
     else if t = ''policy'' then do {
       fs \<leftarrow> struct_fields [''have''] 1 True rest;
       map_option Rq_Policy (req fs ''have'' d_u64) }
     else if t = ''view'' then do {
       fs \<leftarrow> struct_fields [''query''] 0 True rest;
       map_option Rq_View (opt_field fs ''query'' d_str) }
     else if t = ''resolve'' then do {
       fs \<leftarrow> struct_fields [''service''] 1 True rest;
       map_option Rq_Resolve (req fs ''service'' d_service_name) }
     else None
   }"

fun j_answer :: "prims \<Rightarrow> directory_answer \<Rightarrow> json" where
  "j_answer P (An_Proof p) = tagged ''proof'' [(''proof'', Some (j_proof P p))]"
| "j_answer P (An_Published v h) = tagged ''published'' [(''version'', Some (j_u64 v)), (''head'', Some (j_id P h))]"
| "j_answer P (An_Current f) = tagged ''current'' [(''fresh'', Some (j_fresh P f))]"
| "j_answer P (An_Policy s f) = tagged ''policy'' [(''policy'', Some (j_signed_policy P s)), (''fresh'', Some (j_fresh P f))]"
| "j_answer P (An_View v f) = tagged ''view'' [(''view'', Some (j_view P v)), (''fresh'', Some (j_fresh P f))]"
| "j_answer P (An_Denied r) = tagged ''denied'' [(''reason'', Some (JStr r))]"

definition d_answer :: "prims \<Rightarrow> json \<Rightarrow> directory_answer option" where
  "d_answer P j = do {
     (t, rest) \<leftarrow> tag_split ''type'' j;
     if t = ''proof'' then do {
       fs \<leftarrow> struct_fields [''proof''] 1 True rest;
       map_option An_Proof (req fs ''proof'' (d_proof P)) }
     else if t = ''published'' then do {
       fs \<leftarrow> struct_fields [''version'', ''head''] 2 True rest;
       v \<leftarrow> req fs ''version'' d_u64;
       map_option (An_Published v) (req fs ''head'' (d_id P)) }
     else if t = ''current'' then do {
       fs \<leftarrow> struct_fields [''fresh''] 1 True rest;
       map_option An_Current (req fs ''fresh'' (d_fresh P)) }
     else if t = ''policy'' then do {
       fs \<leftarrow> struct_fields [''policy'', ''fresh''] 2 True rest;
       s \<leftarrow> req fs ''policy'' (d_signed_policy P);
       map_option (An_Policy s) (req fs ''fresh'' (d_fresh P)) }
     else if t = ''view'' then do {
       fs \<leftarrow> struct_fields [''view'', ''fresh''] 2 True rest;
       v \<leftarrow> req fs ''view'' (d_view P);
       map_option (An_View v) (req fs ''fresh'' (d_fresh P)) }
     else if t = ''denied'' then do {
       fs \<leftarrow> struct_fields [''reason''] 1 True rest;
       map_option An_Denied (req fs ''reason'' d_str) }
     else None
   }"

fun j_sub_request :: "prims \<Rightarrow> sub_request \<Rightarrow> json" where
  "j_sub_request P (Sq_Hello t) = tagged ''hello'' [(''id_token'', map_option JStr t)]"
| "j_sub_request P (Sq_Subscribe v) = tagged ''subscribe'' [(''have'', Some (j_u64 v))]"

definition d_sub_request :: "json \<Rightarrow> sub_request option" where
  "d_sub_request j = do {
     (t, rest) \<leftarrow> tag_split ''type'' j;
     if t = ''hello'' then do {
       fs \<leftarrow> struct_fields [''id_token''] 0 True rest;
       map_option Sq_Hello (opt_field fs ''id_token'' d_str) }
     else if t = ''subscribe'' then do {
       fs \<leftarrow> struct_fields [''have''] 1 True rest;
       map_option Sq_Subscribe (req fs ''have'' d_u64) }
     else None
   }"

fun j_sub_frame :: "prims \<Rightarrow> sub_frame \<Rightarrow> json" where
  "j_sub_frame P (Sf_Policy s f) = tagged ''policy'' [(''policy'', Some (j_signed_policy P s)), (''fresh'', Some (j_fresh P f))]"
| "j_sub_frame P (Sf_Fresh f) = tagged ''fresh'' [(''fresh'', Some (j_fresh P f))]"
| "j_sub_frame P (Sf_Denied r) = tagged ''denied'' [(''reason'', Some (JStr r))]"

definition d_sub_frame :: "prims \<Rightarrow> json \<Rightarrow> sub_frame option" where
  "d_sub_frame P j = do {
     (t, rest) \<leftarrow> tag_split ''type'' j;
     if t = ''policy'' then do {
       fs \<leftarrow> struct_fields [''policy'', ''fresh''] 2 True rest;
       s \<leftarrow> req fs ''policy'' (d_signed_policy P);
       map_option (Sf_Policy s) (req fs ''fresh'' (d_fresh P)) }
     else if t = ''fresh'' then do {
       fs \<leftarrow> struct_fields [''fresh''] 1 True rest;
       map_option Sf_Fresh (req fs ''fresh'' (d_fresh P)) }
     else if t = ''denied'' then do {
       fs \<leftarrow> struct_fields [''reason''] 1 True rest;
       map_option Sf_Denied (req fs ''reason'' d_str) }
     else None
   }"

section \<open>The codec\<close>

definition encode_frame :: "prims \<Rightarrow> ('f \<Rightarrow> json) \<Rightarrow> 'f \<Rightarrow> bytes res" where
  "encode_frame P j f =
     (let body = canonical_bytes P (j f) in
      if length body > max_directory_frame then Inl Bad_frame else length_prefixed body)"

definition decode_frame :: "prims \<Rightarrow> (json \<Rightarrow> 'f option) \<Rightarrow> nat \<Rightarrow> bytes \<Rightarrow> ('f \<times> nat) option res" where
  "decode_frame P d cap buf =
     (if (case prefix_len buf of None \<Rightarrow> False | Some len \<Rightarrow> len > cap) then Inl Bad_frame
      else case split_frame buf of
        None \<Rightarrow> Inr None
      | Some (body, stop) \<Rightarrow> and_then (from_slice P d body) (\<lambda>f. Inr (Some (f, stop))))"

definition request_encode :: "prims \<Rightarrow> directory_request \<Rightarrow> bytes res" where
  "request_encode P = encode_frame P (j_request P)"

definition request_decode :: "prims \<Rightarrow> bytes \<Rightarrow> (directory_request \<times> nat) option res" where
  "request_decode P = decode_frame P (d_request P) max_directory_frame"

definition answer_encode :: "prims \<Rightarrow> directory_answer \<Rightarrow> bytes res" where
  "answer_encode P = encode_frame P (j_answer P)"

definition answer_decode :: "prims \<Rightarrow> bytes \<Rightarrow> (directory_answer \<times> nat) option res" where
  "answer_decode P = decode_frame P (d_answer P) max_directory_frame"

definition sub_request_encode :: "prims \<Rightarrow> sub_request \<Rightarrow> bytes res" where
  "sub_request_encode P = encode_frame P (j_sub_request P)"

definition sub_request_decode :: "prims \<Rightarrow> bytes \<Rightarrow> (sub_request \<times> nat) option res" where
  "sub_request_decode P = decode_frame P d_sub_request max_small_directory_frame"

definition sub_frame_encode :: "prims \<Rightarrow> sub_frame \<Rightarrow> bytes res" where
  "sub_frame_encode P = encode_frame P (j_sub_frame P)"

definition sub_frame_decode :: "prims \<Rightarrow> bytes \<Rightarrow> (sub_frame \<times> nat) option res" where
  "sub_frame_decode P = decode_frame P (d_sub_frame P) max_directory_frame"

section \<open>Laws\<close>

text \<open>The frames whose parts satisfy the invariants of their Rust types.\<close>

fun request_ok :: "directory_request \<Rightarrow> bool" where
  "request_ok (Rq_Publish h) = head_ok (sh_head h)"
| "request_ok (Rq_Items xs) = (\<forall>i \<in> set xs. item_ok i)"
| "request_ok (Rq_Resolve s) = is_ok (service_name_new s)"
| "request_ok _ = True"

fun answer_ok :: "directory_answer \<Rightarrow> bool" where
  "answer_ok (An_Proof p) = proof_ok p"
| "answer_ok (An_Current f) = fresh_ok f"
| "answer_ok (An_Policy s f) = (sp_typed s \<and> fresh_ok f)"
| "answer_ok (An_View v f) = (view_ok v \<and> fresh_ok f)"
| "answer_ok _ = True"

fun sub_frame_ok :: "sub_frame \<Rightarrow> bool" where
  "sub_frame_ok (Sf_Policy s f) = (sp_typed s \<and> fresh_ok f)"
| "sub_frame_ok (Sf_Fresh f) = fresh_ok f"
| "sub_frame_ok _ = True"


interpretation request_json: json_type "j_request P" "d_request P" "\<lambda>f. hex_law P \<and> request_ok f"
  for P
proof
  fix f :: directory_request
  assume ok: "hex_law P \<and> request_ok f"
  note parts = signed_head_json.decode_encode[of P] item_json.list_decode[of _ P] u64_json.decode_encode
    service_name_json.decode_encode
  show "d_request P (j_request P f) = Some f"
  proof (cases f)
    case (Rq_Hello t)
    then show ?thesis by (cases t) (simp_all add: d_request_def tagged_def json_simps opt_field_def d_str_def)
  next
    case (Rq_View q)
    then show ?thesis by (cases q) (simp_all add: d_request_def tagged_def json_simps opt_field_def d_str_def)
  qed (use ok parts in \<open>simp_all add: d_request_def tagged_def json_simps req_def\<close>)
  show "json_ok (j_request P f)"
    using ok signed_head_json.encode_canonical[of P] item_json.list_canonical[of _ P] u64_json.encode_canonical
    by (cases f) (auto simp: tagged_def json_simps split: option.splits)
qed

interpretation answer_json: json_type "j_answer P" "d_answer P" "\<lambda>f. hex_law P \<and> answer_ok f"
  for P
proof
  fix f :: directory_answer
  assume ok: "hex_law P \<and> answer_ok f"
  note parts = proof_json.decode_encode[of P] u64_json.decode_encode id_json.decode_encode[of P]
    fresh_json.decode_encode[of P] signed_policy_json.decode_encode[of P] view_json.decode_encode[of P]
  show "d_answer P (j_answer P f) = Some f"
    by (cases f) (use ok parts in \<open>simp_all add: d_answer_def tagged_def json_simps req_def d_str_def\<close>)
  show "json_ok (j_answer P f)"
    using ok proof_json.encode_canonical[of P] u64_json.encode_canonical id_json.encode_canonical[of P]
      fresh_json.encode_canonical[of P] signed_policy_json.encode_canonical[of P] view_json.encode_canonical[of P]
    by (cases f) (auto simp: tagged_def json_simps)
qed

interpretation sub_request_json: json_type "j_sub_request P" d_sub_request "\<lambda>_. True"
  for P
proof
  fix f :: sub_request
  show "d_sub_request (j_sub_request P f) = Some f"
  proof (cases f)
    case (Sq_Hello t)
    then show ?thesis by (cases t) (simp_all add: d_sub_request_def tagged_def json_simps opt_field_def d_str_def)
  qed (use u64_json.decode_encode in \<open>simp add: d_sub_request_def tagged_def json_simps req_def\<close>)
  show "json_ok (j_sub_request P f)"
    using u64_json.encode_canonical by (cases f) (auto simp: tagged_def json_simps split: option.splits)
qed

interpretation sub_frame_json: json_type "j_sub_frame P" "d_sub_frame P" "\<lambda>f. hex_law P \<and> sub_frame_ok f"
  for P
proof
  fix f :: sub_frame
  assume ok: "hex_law P \<and> sub_frame_ok f"
  show "d_sub_frame P (j_sub_frame P f) = Some f"
    by (cases f) (use ok fresh_json.decode_encode[of P] signed_policy_json.decode_encode[of P] in
      \<open>simp_all add: d_sub_frame_def tagged_def json_simps req_def d_str_def\<close>)
  show "json_ok (j_sub_frame P f)"
    using ok fresh_json.encode_canonical[of P] signed_policy_json.encode_canonical[of P]
    by (cases f) (auto simp: tagged_def json_simps)
qed

text \<open>The shared pair of functions is the capped codec without a limit check.\<close>

lemma encode_frame_capped: "encode_frame P j = capped_encode P j (\<lambda>_. Inr ()) max_directory_frame Bad_frame"
  by (rule ext) (simp add: encode_frame_def capped_encode_def Let_def)

lemma decode_frame_capped: "decode_frame P d cap = capped_decode P d (\<lambda>_. Inr ()) cap Bad_frame"
  by (rule ext) (simp add: decode_frame_def capped_decode_def split_frame_def split: option.split)

lemma decode_frame_empty: "decode_frame P d cap [] = Inr None"
  by (simp add: decode_frame_capped capped_decode_def)

interpretation requests: wire_json "j_request P" "d_request P" "\<lambda>f. hex_law P \<and> request_ok f" P "\<lambda>_. Inr ()"
    max_directory_frame max_directory_frame Bad_frame Bad_frame
  for P ..

interpretation answers: wire_json "j_answer P" "d_answer P" "\<lambda>f. hex_law P \<and> answer_ok f" P "\<lambda>_. Inr ()"
    max_directory_frame max_directory_frame Bad_frame Bad_frame
  for P ..

interpretation sub_requests: wire_json "j_sub_request P" d_sub_request "\<lambda>_. True" P "\<lambda>_. Inr ()"
    max_directory_frame max_small_directory_frame Bad_frame Bad_frame
  for P ..

interpretation sub_frames: wire_json "j_sub_frame P" "d_sub_frame P" "\<lambda>f. hex_law P \<and> sub_frame_ok f" P
    "\<lambda>_. Inr ()" max_directory_frame max_directory_frame Bad_frame Bad_frame
  for P ..


section \<open>Properties\<close>

text \<open>
  The directory's four codecs lose nothing across arbitrary arrival: requests, answers,
  subscription requests (of at most 16 KiB, the most a directory reads of one) and subscription
  frames, encoded one after another and arriving in any two pieces, decode to a prefix of exactly
  those frames, and what is left with the rest of the stream is exactly the encoding of the others.
\<close>

theorem directory_streams:
  assumes "json_law P" "hex_law P"
  shows "streams (request_encode P) (request_decode P) request_ok
    \<and> streams (answer_encode P) (answer_decode P) answer_ok
    \<and> streams (sub_request_encode P) (sub_request_decode P)
        (\<lambda>f. \<exists>b. sub_request_encode P f = Inr b \<and> length b \<le> 4 + 16384)
    \<and> streams (sub_frame_encode P) (sub_frame_decode P) sub_frame_ok"
  unfolding request_encode_def request_decode_def answer_encode_def answer_decode_def sub_request_encode_def
    sub_request_decode_def sub_frame_encode_def sub_frame_decode_def encode_frame_capped decode_frame_capped
  using assms requests.capped_length[of P] answers.capped_length[of P] sub_frames.capped_length[of P]
  by (intro conjI requests.streams_small answers.streams_small sub_requests.streams_small sub_frames.streams_small)
    (auto simp: max_small_directory_frame_def)

lemma short_rq_open:
  "canonical_bytes (short_prims (j_request demo_prims Rq_Open)) (j_request P Rq_Open) = []"
  by (simp add: short_prims_def canonical_bytes_def)

theorem directory_streams_witness:
  "\<exists>m rest. drain (request_decode (short_prims (j_request demo_prims Rq_Open))) 2 [0, 0] = (take m [Rq_Open], rest, False)
     \<and> m \<le> length [Rq_Open] \<and> rest @ [0, 0] = concat (drop m [[0, 0, 0, 0]])"
proof -
  let ?P = "short_prims (j_request demo_prims Rq_Open)"
  have "request_encode ?P Rq_Open = Inr [0, 0, 0, 0]"
    using short_rq_open[of ?P]
    by (simp add: request_encode_def encode_frame_def length_prefixed_def be32_def del: j_request.simps)
  then have "list_all2 (\<lambda>f b. request_ok f \<and> request_encode ?P f = Inr b) [Rq_Open] [[0, 0, 0, 0]]"
    by simp
  moreover have "streams (request_encode ?P) (request_decode ?P) request_ok"
    using directory_streams[of ?P] by simp
  ultimately show ?thesis
    using streamsD[of _ _ request_ok "[Rq_Open]" "[[0, 0, 0, 0]]" "[0, 0]" "[0, 0]" 2] by simp
qed

end
