(* ===== verification/Decoded_Types.thy ===== *)
theory Decoded_Types
  imports Directory_Frames
begin

text \<open>
  What a decoder returns satisfies the invariants of its Rust type, whatever it was given: the
  side conditions that the encoders' laws need hold of everything a peer can make a node hold.
\<close>

lemma d_list_mem: "d_list d j = Some xs \<Longrightarrow> x \<in> set xs \<Longrightarrow> \<exists>y. d y = Some x"
proof -
  assume "d_list d j = Some xs" "x \<in> set xs"
  then obtain ys where "list_all2 (\<lambda>y x. d y = Some x) ys xs"
    by (auto simp: d_list_def all_some_Some_iff split: json.splits)
  then show ?thesis using \<open>x \<in> set xs\<close> by (auto simp: in_set_conv_nth list_all2_conv_all_nth)
qed

lemma d_list_all: "d_list d j = Some xs \<Longrightarrow> (\<And>y x. d y = Some x \<Longrightarrow> Q x) \<Longrightarrow> x \<in> set xs \<Longrightarrow> Q x"
  using d_list_mem by fastforce

lemma d_try_ok: "d_try d f j = Some r \<Longrightarrow> \<exists>x. f x = Inr r"
  by (auto simp: d_try_def bind_eq_Some_conv res_ok_Some_iff split: option.splits)

lemma req_Some: "req fs k d = Some x \<Longrightarrow> \<exists>j. d j = Some x"
  by (auto simp: req_def split: option.splits)

lemma d_role_name_ok: "d_role_name j = Some r \<Longrightarrow> is_ok (role_name_new r)"
  using d_try_ok[of d_str role_name_new j r] unfolding d_role_name_def by (auto simp: is_ok_iff role_name_new_Inr)

lemma d_service_name_ok: "d_service_name j = Some r \<Longrightarrow> is_ok (service_name_new r)"
  using d_try_ok[of d_str service_name_new j r] unfolding d_service_name_def
  by (auto simp: is_ok_iff dest: service_name_new_same)

lemma d_i64_ok: "d_i64 j = Some x \<Longrightarrow> in_i64 x"
  by (auto simp: d_i64_def d_int_def in_i64_def split: json.splits if_splits)

lemma opt_field_Some: "opt_field fs k d = Some (Some y) \<Longrightarrow> \<exists>j. d j = Some y"
  by (auto simp: opt_field_def split: option.splits json.splits)

lemma d_email_ok: "d_email j = Some p \<Longrightarrow> email_ok p"
  using d_try_ok[of d_str email_parse j p] unfolding d_email_def
  by (auto simp: d_try_def bind_eq_Some_conv res_ok_Some_iff intro: email_parse_ok split: option.splits)

lemma d_matcher_ok: "d_matcher j = Some m \<Longrightarrow> matcher_ok m"
  by (cases "mt_email m") (auto simp: d_matcher_def matcher_ok_def bind_eq_Some_conv dest!: opt_field_Some[where d = d_email] intro: d_email_ok)

lemmas d_list_oks = d_list_all[where Q = "\<lambda>r. is_ok (role_name_new r)", OF _ d_role_name_ok]
  d_list_all[where Q = matcher_ok, OF _ d_matcher_ok]

lemma d_service_ok: "d_service P j = Some s \<Longrightarrow> service_ok s"
  by (auto simp: d_service_def service_ok_def bind_eq_Some_conv dest!: req_Some intro: d_list_oks(1))

lemma d_entry_ok: "d_entry P j = Some e \<Longrightarrow> entry_ok e"
  by (auto simp: d_entry_def entry_ok_def bind_eq_Some_conv dest!: req_Some intro: d_service_name_ok d_service_ok)

lemma d_item_ok: "d_item P j = Some i \<Longrightarrow> item_ok i"
  by (auto simp: d_item_def bind_eq_Some_conv dest!: req_Some d_entry_ok
      intro: d_role_name_ok d_list_oks(2) split: if_splits)

lemmas d_items_ok = d_list_all[where Q = item_ok, OF _ d_item_ok]

lemma d_head_ok: "d_head P j = Some h \<Longrightarrow> head_ok h"
  by (auto simp: d_head_def head_ok_def bind_eq_Some_conv dest!: req_Some intro: d_i64_ok)

lemma d_signed_head_ok: "d_signed_head P j = Some h \<Longrightarrow> head_ok (sh_head h)"
  by (auto simp: d_signed_head_def bind_eq_Some_conv dest!: req_Some intro: d_head_ok)

lemma d_signed_policy_typed: "d_signed_policy P j = Some s \<Longrightarrow> sp_typed s"
  by (auto simp: d_signed_policy_def sp_typed_def bind_eq_Some_conv dest!: req_Some
      intro: d_signed_head_ok d_items_ok)

lemma d_request_ok: "d_request P j = Some f \<Longrightarrow> request_ok f"
  by (auto simp: d_request_def bind_eq_Some_conv dest!: req_Some
      intro: d_signed_head_ok d_items_ok d_service_name_ok split: if_splits)

end
