(* ===== verification/Directory_Wire.thy ===== *)
theory Directory_Wire
  imports Decoded_Types
begin

text \<open>
  \<open>wires/directory/wire.rs\<close>: reading the directory's frames off a stream, and the clients that ask a
  directory. A stream is the bytes a peer sends in time: a deadline that passes ends it. Reading
  returns what is left, so that a body that was refused is seen to be unread.
\<close>

definition max_proof_frame :: nat where "max_proof_frame = 64 * 1024"

section \<open>Reading one frame\<close>

datatype wire_error =
    Frame_too_long nat
  | Frame_truncated
  | Frame_bad error
  | Wire_ended
  | Not_items
  | Out_of_turn
  | Refused_open string

text \<open>\<open>read_exact\<close> on the prefix: a stream that ends within it is a stream that ended.\<close>

definition read_capped :: "nat \<Rightarrow> (bytes \<Rightarrow> ('f \<times> nat) option res) \<Rightarrow> bytes
    \<Rightarrow> (wire_error + 'f option) \<times> bytes" where
  "read_capped cap decode r = (case prefix_len r of
     None \<Rightarrow> (Inr None, [])
   | Some len \<Rightarrow>
       if len > cap then (Inl (Frame_too_long len), drop 4 r)
       else if length r < 4 + len then (Inl Frame_truncated, [])
       else ((case decode (take (4 + len) r) of
           Inl e \<Rightarrow> Inl (Frame_bad e)
         | Inr None \<Rightarrow> Inl Frame_truncated
         | Inr (Some (f, _)) \<Rightarrow> Inr (Some f)), drop (4 + len) r))"

text \<open>\<open>ok_or_else\<close>: an answer that never came is an error.\<close>

definition read_one :: "nat \<Rightarrow> (bytes \<Rightarrow> ('f \<times> nat) option res) \<Rightarrow> bytes \<Rightarrow> (wire_error + 'f) \<times> bytes" where
  "read_one cap decode r = (case read_capped cap decode r of
     (x, rest) \<Rightarrow> (and_then x (\<lambda>f. ok_or Wire_ended f), rest))"

definition read_request :: "prims \<Rightarrow> bytes \<Rightarrow> (wire_error + directory_request) \<times> bytes" where
  "read_request P = read_one max_small_directory_frame (request_decode P)"

definition read_hello :: "prims \<Rightarrow> bytes \<Rightarrow> (wire_error + directory_request) \<times> bytes" where
  "read_hello P = read_one max_small_directory_frame (request_decode P)"

definition read_items :: "prims \<Rightarrow> bytes \<Rightarrow> (wire_error + item list) \<times> bytes" where
  "read_items P r = (case read_one max_directory_frame (request_decode P) r of
     (Inr (Rq_Items xs), rest) \<Rightarrow> (Inr xs, rest)
   | (Inr _, rest) \<Rightarrow> (Inl Not_items, rest)
   | (Inl e, rest) \<Rightarrow> (Inl e, rest))"

definition read_answer :: "prims \<Rightarrow> bytes \<Rightarrow> (wire_error + directory_answer) \<times> bytes" where
  "read_answer P = read_one max_directory_frame (answer_decode P)"

definition read_sub_request :: "prims \<Rightarrow> bytes \<Rightarrow> (wire_error + sub_request) \<times> bytes" where
  "read_sub_request P = read_one max_small_directory_frame (sub_request_decode P)"

definition read_sub_frame :: "prims \<Rightarrow> bytes \<Rightarrow> (wire_error + sub_frame option) \<times> bytes" where
  "read_sub_frame P = read_capped max_directory_frame (sub_frame_decode P)"

section \<open>Asking\<close>

text \<open>What a client writes, given as the bytes, and what the answer to them is. A directory that
  cannot be dialed answers nothing.\<close>

type_synonym dialed = "bytes \<Rightarrow> bytes"

definition exchange :: "prims \<Rightarrow> dialed \<Rightarrow> id_token option \<Rightarrow> bytes list \<Rightarrow> wire_error + directory_answer" where
  "exchange P peer tok frames =
     and_then (map_err Frame_bad (request_encode P (Rq_Hello tok))) (\<lambda>hello.
       fst (read_answer P (peer (hello @ concat frames))))"

definition wire_ask :: "prims \<Rightarrow> dialed \<Rightarrow> directory_request \<Rightarrow> wire_error + directory_answer" where
  "wire_ask P peer request =
     and_then (map_err Frame_bad (request_encode P request)) (\<lambda>b. exchange P peer None [b])"

definition wire_publish :: "prims \<Rightarrow> dialed \<Rightarrow> signed_policy \<Rightarrow> wire_error + directory_answer" where
  "wire_publish P peer s =
     and_then (map_err Frame_bad (request_encode P (Rq_Publish (sp_head s)))) (\<lambda>h.
     and_then (map_err Frame_bad (request_encode P (Rq_Items (sp_items s)))) (\<lambda>i.
       exchange P peer None [h, i]))"

text \<open>\<open>open\<close> then \<open>Opened::ask\<close>: the proof is read before anything but \<open>open\<close> is written.\<close>

definition wire_open :: "prims \<Rightarrow> dialed \<Rightarrow> (wire_error + host_proof) \<times> bytes" where
  "wire_open P peer = (case map_err Frame_bad (request_encode P Rq_Open) of
     Inl e \<Rightarrow> (Inl e, [])
   | Inr b \<Rightarrow> (case read_one max_proof_frame (answer_decode P) (peer b) of
       (Inr (An_Proof pf), rest) \<Rightarrow> (Inr pf, rest)
     | (Inr (An_Denied reason), rest) \<Rightarrow> (Inl (Refused_open reason), rest)
     | (Inr _, rest) \<Rightarrow> (Inl Out_of_turn, rest)
     | (Inl e, rest) \<Rightarrow> (Inl e, rest)))"

definition opened_ask :: "prims \<Rightarrow> dialed \<Rightarrow> id_token option \<Rightarrow> directory_request
    \<Rightarrow> wire_error + directory_answer" where
  "opened_ask P peer tok request =
     and_then (map_err Frame_bad (request_encode P (Rq_Hello tok))) (\<lambda>h.
     and_then (map_err Frame_bad (request_encode P request)) (\<lambda>b.
       fst (read_answer P (peer (h @ b)))))"

section \<open>Laws\<close>

text \<open>A frame that was encoded is read back, and nothing after it is touched.\<close>

lemma read_capped_encoded:
  assumes "decode b = Inr (Some (f, length b))" "b = be32 n @ body" "length body = n" "n < 2 ^ 32" "n \<le> cap"
  shows "read_capped cap decode (b @ rest) = (Inr (Some f), rest)"
proof -
  have l: "length b = 4 + n" using assms(2,3) by (simp add: be32_def)
  have "prefix_len (b @ rest) = Some n" using assms(2,4) by simp
  then show ?thesis using assms(1,5) l by (simp add: read_capped_def)
qed

text \<open>A prefix over the cap is refused from the prefix alone.\<close>

lemma read_capped_over:
  assumes "prefix_len r = Some n" "n > cap"
  shows "read_capped cap decode r = (Inl (Frame_too_long n), drop 4 r)"
  using assms by (simp add: read_capped_def)

lemma read_one_encoded:
  assumes "decode b = Inr (Some (f, length b))" "b = be32 n @ body" "length body = n" "n < 2 ^ 32" "n \<le> cap"
  shows "read_one cap decode (b @ rest) = (Inr f, rest)"
  using read_capped_encoded[of decode b f n body cap, OF assms] by (simp add: read_one_def)

lemma request_bytes:
  assumes "json_law P" "hex_law P" "request_ok f" "request_encode P f = Inr b"
  shows "request_decode P b = Inr (Some (f, length b))" "length b \<le> 4 + max_directory_frame"
    "\<exists>body. b = be32 (length body) @ body \<and> length body < 2 ^ 32 \<and> length b = 4 + length body"
proof -
  have e: "capped_encode P (j_request P) (\<lambda>_. Inr ()) max_directory_frame Bad_frame f = Inr b"
    using assms(4) by (simp add: request_encode_def encode_frame_capped)
  have l: "length b = 4 + length (canonical_bytes P (j_request P f))"
    "length (canonical_bytes P (j_request P f)) \<le> max_directory_frame"
    using requests.capped_length[OF e] by auto
  have "requests.small P f" unfolding requests.small_def using assms l by simp
  from requests.frames.roundtrip[OF this e] show "request_decode P b = Inr (Some (f, length b))"
    by (simp add: request_decode_def decode_frame_capped)
  show "length b \<le> 4 + max_directory_frame" using l by simp
  show "\<exists>body. b = be32 (length body) @ body \<and> length body < 2 ^ 32 \<and> length b = 4 + length body"
    using e l by (auto simp: capped_encode_def Let_def length_prefixed_Inr split: if_splits)
qed

lemma read_request_encoded:
  assumes "json_law P" "hex_law P" "request_ok f" "request_encode P f = Inr b" "length b \<le> 4 + max_small_directory_frame"
  shows "read_request P (b @ rest) = (Inr f, rest)"
proof -
  obtain body where b: "b = be32 (length body) @ body" "length body < 2 ^ 32" "length b = 4 + length body"
    using request_bytes(3)[OF assms(1-4)] by blast
  show ?thesis
    unfolding read_request_def
    by (rule read_one_encoded[where decode = "request_decode P" and b = b and f = f and body = body])
      (use assms(5) b request_bytes(1)[OF assms(1-4)] in auto)
qed

lemma read_items_encoded:
  assumes "json_law P" "hex_law P" "\<forall>i \<in> set xs. item_ok i" "request_encode P (Rq_Items xs) = Inr b"
  shows "read_items P (b @ rest) = (Inr xs, rest)"
proof -
  have ok: "request_ok (Rq_Items xs)" using assms(3) by simp
  note w = request_bytes[OF assms(1,2) ok assms(4)]
  obtain body where b: "b = be32 (length body) @ body" "length body < 2 ^ 32" "length b = 4 + length body"
    using w(3) by blast
  have "read_one max_directory_frame (request_decode P) (b @ rest) = (Inr (Rq_Items xs), rest)"
    by (rule read_one_encoded[where decode = "request_decode P" and b = b and f = "Rq_Items xs" and body = body])
      (use w(1,2) b in auto)
  then show ?thesis by (simp add: read_items_def)
qed

text \<open>Whatever arrives, what was read is typed.\<close>

lemma read_one_request_ok: "read_one cap (request_decode P) r = (Inr f, rest) \<Longrightarrow> request_ok f"
  by (auto simp: read_one_def read_capped_def request_decode_def decode_frame_def from_slice_def
      and_then_Inr_iff ok_or_Inr_iff bind_eq_Some_conv intro: d_request_ok split: option.splits if_splits sum.splits prod.splits)

lemma read_request_ok: "read_request P r = (Inr f, rest) \<Longrightarrow> request_ok f"
  unfolding read_request_def by (rule read_one_request_ok)

lemma read_items_ok: "read_items P r = (Inr xs, rest) \<Longrightarrow> \<forall>i \<in> set xs. item_ok i"
  by (auto simp: read_items_def dest!: read_one_request_ok split: sum.splits prod.splits directory_request.splits)

end
