(* ===== verification/Session_Wire.thy ===== *)
theory Session_Wire
  imports Directory_Wire Push_Queue
begin

text \<open>
  The wire of a session (\<open>wires/host/transport.rs\<close>): reading one frame within a cap, cutting a
  denial's reason, the throttle on what strangers make the host trace, and what a service child is
  told about its caller.
\<close>

definition max_frame :: nat where "max_frame = 16 * 1024 * 1024"
definition max_hello_frame :: nat where "max_hello_frame = 64 * 1024"
definition max_invoke_frame :: nat where "max_invoke_frame = 8 * max_argv_bytes"
definition max_preauth_sessions :: nat where "max_preauth_sessions = 64"
definition max_reason :: nat where "max_reason = 512"
definition pump_buf :: nat where "pump_buf = 64 * 1024"

section \<open>Frames\<close>

definition read_frame_within :: "prims \<Rightarrow> nat \<Rightarrow> bytes \<Rightarrow> (wire_error + frame option) \<times> bytes" where
  "read_frame_within P cap r = read_capped cap (frame_decode P) r"

definition read_frame :: "prims \<Rightarrow> bytes \<Rightarrow> (wire_error + frame option) \<times> bytes" where
  "read_frame P = read_frame_within P max_frame"

section \<open>Reasons\<close>

text \<open>A byte that begins a character: not a UTF-8 continuation byte.\<close>

definition char_boundary :: "string \<Rightarrow> nat \<Rightarrow> bool" where
  "char_boundary s i \<longleftrightarrow> i = 0 \<or> i = length s
     \<or> (i < length s \<and> (of_char (s ! i) < (128 :: nat) \<or> of_char (s ! i) \<ge> (192 :: nat)))"

fun boundary_below :: "string \<Rightarrow> nat \<Rightarrow> nat" where
  "boundary_below s 0 = 0"
| "boundary_below s (Suc e) = (if char_boundary s (Suc e) then Suc e else boundary_below s e)"

definition truncate_reason :: "string \<Rightarrow> string" where
  "truncate_reason s = (if length s > max_reason then take (boundary_below s max_reason) s else s)"

section \<open>The throttle\<close>

text \<open>\<open>tick\<close> is two atomic steps: the count and the reading of the clock of the last line, then an
  exchange that another thread may win (\<open>lost\<close>). The count wraps, as \<open>fetch_add\<close> does.\<close>

record throttle =
  th_last_ms :: i64
  th_since :: u64

definition throttle_every_ms :: i64 where "throttle_every_ms = 10000"

definition throttle_new :: throttle where
  "throttle_new = \<lparr> th_last_ms = i64_min, th_since = 0 \<rparr>"

definition throttle_tick :: "bool \<Rightarrow> i64 \<Rightarrow> throttle \<Rightarrow> u64 option \<times> throttle" where
  "throttle_tick lost now t =
     (let t = t \<lparr> th_since := th_since t + 1 \<rparr> in
      if sat_sub now (th_last_ms t) < throttle_every_ms then (None, t)
      else if lost then (None, t)
      else (Some (th_since t), t \<lparr> th_last_ms := now, th_since := 0 \<rparr>))"

section \<open>What a service child is told\<close>

definition caller_json :: "prims \<Rightarrow> principal \<Rightarrow> string" where
  "caller_json P p = text_of (print_json P (j_principal p))"

definition child_inherits :: "string list" where "child_inherits = [''PATH'', ''LANG'']"

type_synonym environment = "(string, string) btree_map"

definition bm_extend :: "('k :: linorder \<times> 'v) list \<Rightarrow> ('k, 'v) btree_map \<Rightarrow> ('k, 'v) btree_map" where
  "bm_extend xs m = fold (\<lambda>(k, v). bm_put k v) xs m"

definition inherits :: "string \<Rightarrow> bool" where
  "inherits k \<longleftrightarrow> utf8_valid (as_bytes k) \<and> (k \<in> set child_inherits \<or> take 3 k = ''LC_'')"

definition child_env :: "(string \<times> string) list \<Rightarrow> environment \<Rightarrow> (string \<times> string) list \<Rightarrow> environment" where
  "child_env inherited service server =
     bm_extend server (bm_extend service (bm_from (filter (\<lambda>(k, _). inherits k) inherited)))"

section \<open>Laws\<close>

lemma read_capped_shrinks:
  "read_capped cap d r = (Inr (Some f), rest) \<Longrightarrow> length rest < length r"
  by (auto simp: read_capped_def split: option.splits if_splits sum.splits)

lemma boundary_below_le: "boundary_below s e \<le> e" "char_boundary s (boundary_below s e)"
  by (induction e) (auto simp: char_boundary_def)

lemma boundary_below_max: "i \<le> e \<Longrightarrow> char_boundary s i \<Longrightarrow> i \<le> boundary_below s e"
  by (induction e) (auto simp: le_Suc_eq)

text \<open>Later layers win; a variable of the host's own gets through only when it is inherited and no
  layer sets it.\<close>

lemma bm_extend_ok: "bm_ok m \<Longrightarrow> bm_ok (bm_extend xs m)"
  unfolding bm_extend_def by (induction xs arbitrary: m) auto

lemma bm_extend_get:
  "bm_ok m \<Longrightarrow> bm_get (bm_extend xs m) k = (case map_of (rev xs) k of Some v \<Rightarrow> Some v | None \<Rightarrow> bm_get m k)"
  unfolding bm_extend_def by (rule bm.get_fold_put)

lemma child_env_get:
  "bm_get (child_env inherited service server) k = (case map_of (rev server) k of
     Some v \<Rightarrow> Some v
   | None \<Rightarrow> (case map_of (rev service) k of
       Some v \<Rightarrow> Some v
     | None \<Rightarrow> if inherits k then map_of (rev inherited) k else None))"
proof -
  have f: "map_of (filter (\<lambda>(k, _). q k) xs) k = (if q k then map_of xs k else None)" for q and xs :: "(string \<times> string) list"
    by (induction xs) auto
  have "bm_ok (bm_from xs)" for xs :: "(string \<times> string) list" by simp
  then show ?thesis
    unfolding child_env_def
    by (simp add: bm_extend_get bm_extend_ok bm_from_def bm_extend_def[symmetric] rev_filter f split: option.split)
qed

end
