(* ===== verification/Host_Session.thy ===== *)
theory Host_Session
  imports Session_Wire Host_Gate Push_Capability
begin

text \<open>
  The host's side of a session: \<open>serve_session_permitted\<close> and \<open>bridge\<close> of \<open>wires/host/transport.rs\<close>,
  with \<open>call_trace.rs\<close> (one log line per call) and what \<open>service.rs\<close> and \<open>native.rs\<close> start. What the
  caller sends is a byte stream; what it hears is the list of frames written. The service itself is
  the argument \<open>child\<close>: what it writes and how it exits, given what it was started with and its stdin
  (\<open>None\<close>: it could not be spawned). A denial is a value that names what its text quotes.
\<close>

section \<open>What a session says, logs and starts\<close>

datatype session_refusal =
    Misconfigured
  | First_not_hello
  | Closed_before_hello
  | Unreadable_hello
  | Hello_timed_out
  | Invoke_required
  | Said_not_admitted string
  | Said_gate heard
  | Not_implemented service_name

datatype said = Said frame | Said_denied session_refusal

datatype log_line =
    Call_finished service_name node_id principal role_name "32 word" nat
  | Call_refused service_name node_id principal session_refusal

record native_call =
  nc_caller :: node_id
  nc_token :: id_token
  nc_principal :: principal
  nc_role :: role_name
  nc_service :: service_name
  nc_args :: argv
  nc_push :: "push_token option"

datatype launched =
    Launch_command string "string list" "string option" environment
  | Launch_native native_call

text \<open>Chunks in the order the writer task sends them; \<open>True\<close>: of stderr.\<close>

record child_run =
  cr_output :: "(bool \<times> bytes) list"
  cr_exit :: "32 word"

type_synonym child = "launched \<Rightarrow> bytes \<Rightarrow> child_run option"

datatype session_end = End_exited | End_refused session_refusal | End_failed

record session_result =
  sr_said :: "said list"
  sr_log :: "log_line list"
  sr_ran :: "launched option"
  sr_end :: session_end

text \<open>What a session finds around it: the clocks, whether its writes reach the caller, the random
  token of its capability, the host's own environment, and what other tasks do to the host while it
  waits. \<open>sw_push\<close> is the child socket when the host pushes, and whether its push service runs.\<close>

record session_world =
  sw_ring :: ring
  sw_web :: web
  sw_clock :: "nat \<Rightarrow> i64"
  sw_instant :: "nat \<Rightarrow> instant"
  sw_up :: "nat \<Rightarrow> bool"
  sw_closed :: bool
  sw_token :: push_token
  sw_inherited :: "(string \<times> string) list"
  sw_push :: "(string \<times> bool) option"
  sw_others :: "nat \<Rightarrow> services_host \<Rightarrow> services_host"

section \<open>Opening\<close>

text \<open>\<open>enter\<close>: a permit for one more undecided session.\<close>

definition session_enter :: "nat \<Rightarrow> nat option" where
  "session_enter preauth = (if preauth \<ge> max_preauth_sessions then None else Some (preauth + 1))"

text \<open>Within the deadline: bytes that end before a frame does are the caller closing, or the deadline.\<close>

datatype opening_read = Op_frame frame | Op_closed | Op_unreadable wire_error | Op_timed_out

definition read_opening_within :: "prims \<Rightarrow> bool \<Rightarrow> nat \<Rightarrow> bytes \<Rightarrow> opening_read \<times> bytes" where
  "read_opening_within P closed cap r = (case read_frame_within P cap r of
     (Inr (Some f), rest) \<Rightarrow> (Op_frame f, rest)
   | (Inr None, rest) \<Rightarrow> (if closed then Op_closed else Op_timed_out, rest)
   | (Inl Frame_truncated, rest) \<Rightarrow> (if closed then Op_unreadable Frame_truncated else Op_timed_out, rest)
   | (Inl e, rest) \<Rightarrow> (Op_unreadable e, rest))"

definition read_session_opening :: "prims \<Rightarrow> bool \<Rightarrow> bytes \<Rightarrow> opening_read \<times> bytes" where
  "read_session_opening P closed r = (case read_opening_within P closed max_hello_frame r of
     (Op_frame Open, r) \<Rightarrow> read_opening_within P closed max_hello_frame r
   | (first, r) \<Rightarrow> (first, r))"

definition read_hello_frame :: "opening_read \<Rightarrow> session_refusal + hello" where
  "read_hello_frame x = (case x of
     Op_frame (Hello h) \<Rightarrow> Inr h
   | Op_frame _ \<Rightarrow> Inl First_not_hello
   | Op_closed \<Rightarrow> Inl Closed_before_hello
   | Op_unreadable _ \<Rightarrow> Inl Unreadable_hello
   | Op_timed_out \<Rightarrow> Inl Hello_timed_out)"

definition read_invocation :: "prims \<Rightarrow> bool \<Rightarrow> bytes \<Rightarrow> (session_refusal + invocation) \<times> bytes" where
  "read_invocation P closed r = (case read_opening_within P closed max_invoke_frame r of
     (Op_frame (Invoke i), r) \<Rightarrow> (Inr i, r)
   | (_, r) \<Rightarrow> (Inl Invoke_required, r))"

section \<open>The bridge\<close>

function session_stdin :: "prims \<Rightarrow> bytes \<Rightarrow> bytes" where
  "session_stdin P r = (case read_frame P r of
     (Inr (Some f), rest) \<Rightarrow> (case f of Stdin c \<Rightarrow> c | _ \<Rightarrow> []) @ session_stdin P rest
   | _ \<Rightarrow> [])"
  by pat_completeness auto
termination
  by (relation "measure (\<lambda>(P, r). length r)")
    (auto simp: read_frame_def read_frame_within_def dest!: read_capped_shrinks[OF sym])

declare session_stdin.simps [simp del]

definition output_frame :: "bool \<times> bytes \<Rightarrow> frame" where
  "output_frame oc = (if fst oc then Stderr (snd oc) else Stdout (snd oc))"

definition bridge :: "child_run \<Rightarrow> frame list \<times> nat" where
  "bridge run = (map output_frame (cr_output run) @ [Exit (cr_exit run)],
     sum_list (map (\<lambda>oc. length (snd oc)) (cr_output run)))"

section \<open>Starting the service\<close>

definition server_env :: "prims \<Rightarrow> session_world \<Rightarrow> node_id \<Rightarrow> admitted \<Rightarrow> service_name \<Rightarrow> (string \<times> string) list" where
  "server_env P tw caller ad service =
     (let who = ad_caller ad in
      [(''WIRES_CALLER_NODE'', hex_of P caller), (''WIRES_ID_TOKEN'', vf_token who),
       (''WIRES_CALLER'', caller_json P (vf_principal who)), (''WIRES_SERVICE'', service),
       (''WIRES_ROLE'', ad_role ad)]
      @ (case pr_email (vf_principal who) of None \<Rightarrow> [] | Some e \<Rightarrow> [(''WIRES_CALLER_EMAIL'', e)])
      @ (case sw_push tw of None \<Rightarrow> [] | Some (socket, _) \<Rightarrow>
           [(''WIRES_PUSH_SOCKET'', socket), (''WIRES_PUSH_TOKEN'', token_hex (sw_token tw))]))"

text \<open>What is started, and whether it holds a capability; \<open>None\<close>: an empty command.\<close>

definition launch :: "prims \<Rightarrow> session_world \<Rightarrow> node_id \<Rightarrow> admitted \<Rightarrow> invocation \<Rightarrow> implementation
    \<Rightarrow> (launched \<times> bool) option" where
  "launch P tw caller ad asked impl = (case impl of
     Native _ \<Rightarrow>
       let granted = (case sw_push tw of Some (_, True) \<Rightarrow> True | _ \<Rightarrow> False) in
       Some (Launch_native \<lparr> nc_caller = caller, nc_token = vf_token (ad_caller ad),
         nc_principal = vf_principal (ad_caller ad), nc_role = ad_role ad, nc_service = iv_service asked,
         nc_args = iv_argv asked, nc_push = (if granted then Some (sw_token tw) else None) \<rparr>, granted)
   | Command svc \<Rightarrow> map_option (\<lambda>(program, args).
       (Launch_command program args (si_cwd svc)
          (child_env (sw_inherited tw) (si_env svc) (server_env P tw caller ad (iv_service asked))),
        sw_push tw \<noteq> None)) (si_argv svc (iv_argv asked)))"

text \<open>From the ack on: the call's log line is written whichever way it ends, and the capability of a
  call that ran starts its grace period.\<close>

definition run_session :: "prims \<Rightarrow> session_world \<Rightarrow> child \<Rightarrow> node_id \<Rightarrow> admitted \<Rightarrow> invocation \<Rightarrow> implementation
    \<Rightarrow> bytes \<Rightarrow> said list \<Rightarrow> capabilities \<Rightarrow> session_result \<times> capabilities" where
  "run_session P tw child caller ad asked impl r said caps =
     (let line = Call_finished (iv_service asked) caller (vf_principal (ad_caller ad)) (ad_role ad);
          never = \<lparr> sr_said = said, sr_log = [line (- 1) 0], sr_ran = None, sr_end = End_failed \<rparr>
      in case launch P tw caller ad asked impl of
        None \<Rightarrow> (never, caps)
      | Some (l, granted) \<Rightarrow>
          let caps = (if granted then caps_mint (sw_token tw) caller (sw_instant tw 0) caps else caps);
              done = (if granted then caps_finish (sw_token tw) (sw_instant tw 1) caps else caps)
          in case child l (session_stdin P r) of
            None \<Rightarrow> (never, done)
          | Some run \<Rightarrow> (case bridge run of (frames, n) \<Rightarrow>
              (\<lparr> sr_said = said @ map Said frames, sr_log = [line (cr_exit run) n], sr_ran = Some l,
                 sr_end = End_exited \<rparr>, done)))"

section \<open>A session\<close>

definition refuse_session :: "said list \<Rightarrow> log_line list \<Rightarrow> session_refusal \<Rightarrow> session_result" where
  "refuse_session said log why =
     \<lparr> sr_said = said @ [Said_denied why], sr_log = log, sr_ran = None, sr_end = End_refused why \<rparr>"

definition session_ack :: "held \<Rightarrow> hello \<Rightarrow> service_name \<Rightarrow> state_version \<Rightarrow> frame" where
  "session_ack state hello service version =
     (let news = he_state_version hello < version in
      Hello_Ack \<lparr> ha_state_version = version,
        ha_head = (if news then Some (sp_head (hd_signed state)) else None),
        ha_entry = (if news then List.find (\<lambda>e. se_name e = service) (sp_entries (hd_signed state)) else None) \<rparr>)"

definition writes :: "prims \<Rightarrow> session_world \<Rightarrow> nat \<Rightarrow> frame \<Rightarrow> bool" where
  "writes P tw i f \<longleftrightarrow> sw_up tw i \<and> is_ok (frame_encode P f)"

text \<open>Admission first, then the gate, then whether this host implements the service.\<close>

definition decide_session :: "prims \<Rightarrow> session_world \<Rightarrow> child \<Rightarrow> node_id \<Rightarrow> held \<Rightarrow> hello \<Rightarrow> invocation
    \<Rightarrow> bytes \<Rightarrow> said list \<Rightarrow> services_host \<times> capabilities \<Rightarrow> session_result \<times> services_host \<times> capabilities" where
  "decide_session P tw child caller state hello asked r said = (\<lambda>(h, caps).
     let service = iv_service asked; now = sw_clock tw 1 in
     case admit_caller P (sw_ring tw) (sw_web tw) state caller (he_id_token hello) now h of
       (Inl refused, h) \<Rightarrow> (refuse_session said [] (Said_not_admitted (na_said refused)), h, caps)
     | (Inr v, h) \<Rightarrow>
         let refuse = (\<lambda>why. (refuse_session said [Call_refused service caller (vf_principal v) why] why, h, caps))
         in case gate_decide state (gh_config h) (gh_me h) caller v service now of
           Inl why \<Rightarrow> refuse (Said_gate why)
         | Inr ad \<Rightarrow> (case host_implementation h service of
             None \<Rightarrow> refuse (Not_implemented service)
           | Some impl \<Rightarrow>
               let ack = session_ack state hello service (ad_version ad) in
               if \<not> writes P tw 1 ack
               then (\<lparr> sr_said = said, sr_log = [Call_finished service caller (vf_principal v) (ad_role ad) (- 1) 0],
                       sr_ran = None, sr_end = End_failed \<rparr>, h, caps)
               else (case run_session P tw child caller ad asked impl r (said @ [Said ack]) caps of
                   (res, caps) \<Rightarrow> (res, h, caps))))"

definition serve_session :: "prims \<Rightarrow> session_world \<Rightarrow> child \<Rightarrow> node_id \<Rightarrow> bytes
    \<Rightarrow> services_host \<times> capabilities \<Rightarrow> session_result \<times> services_host \<times> capabilities" where
  "serve_session P tw child caller r = (\<lambda>(h, caps).
     case host_policy P h of
       (Inl _, h) \<Rightarrow> (refuse_session [] [] Misconfigured, h, caps)
     | (Inr state, h) \<Rightarrow>
         let proof = Proof (fresh_proof P (gh_freshness h) (sp_head (hd_signed state)) (sw_clock tw 0)) in
         if \<not> writes P tw 0 proof
         then (\<lparr> sr_said = [], sr_log = [], sr_ran = None, sr_end = End_failed \<rparr>, h, caps)
         else let said = [Said proof]; h = sw_others tw 0 h in
           case read_session_opening P (sw_closed tw) r of
             (first, r) \<Rightarrow> (case read_hello_frame first of
                 Inl why \<Rightarrow> (refuse_session said [] why, h, caps)
               | Inr hello \<Rightarrow> (case read_invocation P (sw_closed tw) r of
                   (Inl why, r) \<Rightarrow> (refuse_session said [] why, h, caps)
                 | (Inr asked, r) \<Rightarrow> decide_session P tw child caller state hello asked r said (h, caps))))"

end
