(* ===== verification/Network_String.thy ===== *)
theory Network_String
  imports Session_Frames
begin

text \<open>
  \<open>library/network/network.rs\<close>: the network string every node joins with.
\<close>

definition network_v1 :: "8 word" where "network_v1 = 1"
definition network_max_directories :: nat where "network_max_directories = 2"

record login_settings =
  ls_issuer :: issuer
  ls_client_id :: audience
  ls_secret :: "string option"

record network =
  nw_format :: "8 word"
  nw_root :: node_id
  nw_directories :: "node_id list"
  nw_login :: login_settings

definition network_new :: "node_id \<Rightarrow> node_id list \<Rightarrow> login_settings \<Rightarrow> network" where
  "network_new root dirs login =
     \<lparr> nw_format = network_v1, nw_root = root,
       nw_directories = take network_max_directories dirs, nw_login = login \<rparr>"

definition j_login :: "login_settings \<Rightarrow> json" where
  "j_login l = obj [(''issuer'', Some (JStr (ls_issuer l))), (''client_id'', Some (JStr (ls_client_id l))),
     (''public_client_secret'', map_option JStr (ls_secret l))]"

definition d_login :: "json \<Rightarrow> login_settings option" where
  "d_login j = do {
     fs \<leftarrow> struct_fields [''issuer'', ''client_id'', ''public_client_secret''] 2 True j;
     i \<leftarrow> req fs ''issuer'' d_str;
     c \<leftarrow> req fs ''client_id'' d_str;
     s \<leftarrow> opt_field fs ''public_client_secret'' d_str;
     Some \<lparr> ls_issuer = i, ls_client_id = c, ls_secret = s \<rparr>
   }"

definition j_network :: "prims \<Rightarrow> network \<Rightarrow> json" where
  "j_network P n = obj [(''format'', Some (j_u8 (nw_format n))), (''root'', Some (j_id P (nw_root n))),
     (''directories'', Some (j_list (j_id P) (nw_directories n))), (''login'', Some (j_login (nw_login n)))]"

definition d_network :: "prims \<Rightarrow> json \<Rightarrow> network option" where
  "d_network P j = do {
     fs \<leftarrow> struct_fields [''format'', ''root'', ''directories'', ''login''] 4 True j;
     f \<leftarrow> req fs ''format'' d_u8;
     r \<leftarrow> req fs ''root'' (d_id P);
     d \<leftarrow> req fs ''directories'' (d_list (d_id P));
     l \<leftarrow> req fs ''login'' d_login;
     Some \<lparr> nw_format = f, nw_root = r, nw_directories = d, nw_login = l \<rparr>
   }"

definition network_encode :: "prims \<Rightarrow> network \<Rightarrow> string res" where
  "network_encode P n = Inr (b64_enc P (canonical_bytes P (j_network P n)))"

definition network_decode :: "prims \<Rightarrow> string \<Rightarrow> network res" where
  "network_decode P text =
     and_then (ok_or Token_decode (b64_dec P (trim text))) (\<lambda>bytes.
     and_then (from_slice P (d_network P) bytes) (\<lambda>n.
       if nw_format n \<noteq> network_v1 then Inl Unsupported_version
       else if length (nw_directories n) > network_max_directories then bad Too_many_directories
       else Inr n))"

section \<open>Laws\<close>

interpretation login_json: json_type j_login d_login "\<lambda>_. True"
proof
  fix l :: login_settings
  show "d_login (j_login l) = Some l"
    by (cases l; cases "ls_secret l")
      (simp_all add: d_login_def j_login_def json_simps req_def opt_field_def d_str_def)
  show "json_ok (j_login l)"
    by (simp add: j_login_def json_simps split: option.splits)
qed

interpretation network_json: json_type "j_network P" "d_network P" "\<lambda>_. hex_law P" for P
proof
  fix n :: network
  assume "hex_law P"
  then show "d_network P (j_network P n) = Some n"
    using id_json.decode_encode id_json.list_decode login_json.decode_encode u8_json.decode_encode
    by (cases n) (simp add: d_network_def j_network_def json_simps req_def)
  show "json_ok (j_network P n)"
    using \<open>hex_law P\<close> id_json.encode_canonical id_json.list_canonical login_json.encode_canonical
      u8_json.encode_canonical
    by (simp add: j_network_def json_simps)
qed

section \<open>Properties\<close>

text \<open>
  the network string carries what it was made of, and nothing past its limits. The encoding of
  \<open>Network::new\<close> decodes to the same network, with the first two directories in the admin's order;
  and whatever decodes is of format 1 and names at most two directories.
\<close>

theorem network_roundtrip:
  assumes "json_law P" "hex_law P" "b64_law P"
  shows "(\<exists>t. network_encode P (network_new root dirs login) = Inr t
      \<and> network_decode P t = Inr (network_new root dirs login))
    \<and> (\<forall>text n. network_decode P text = Inr n \<longrightarrow>
        nw_format n = 1 \<and> length (nw_directories n) \<le> 2)"
proof -
  let ?n = "network_new root dirs login"
  have "from_slice P (d_network P) (canonical_bytes P (j_network P ?n)) = Inr ?n"
    using assms by (simp add: network_json.from_slice_canonical)
  moreover have "b64_dec P (trim (b64_enc P b)) = Some b" for b
    using assms(3) by (simp add: b64_law_def)
  ultimately show ?thesis
    by (auto simp: network_encode_def network_decode_def network_new_def network_v1_def
        network_max_directories_def and_then_Inr_iff split: if_splits)
qed

theorem network_roundtrip_witness:
  "\<exists>t. network_encode demo_prims (network_new 1 [2, 3, 4] \<lparr> ls_issuer = ''https://idp'',
        ls_client_id = ''cli'', ls_secret = None \<rparr>) = Inr t
     \<and> map_err (\<lambda>_. ()) (and_then (network_decode demo_prims t) (\<lambda>n. Inr (nw_directories n))) = Inr [2, 3]"
  using network_roundtrip[OF demo_prims_laws(1,3,4), of 1 "[2, 3, 4]"
      "\<lparr> ls_issuer = ''https://idp'', ls_client_id = ''cli'', ls_secret = None \<rparr>"]
  by (auto simp: network_new_def network_max_directories_def)

end
