(* ===== verification/Caller_View.thy ===== *)
theory Caller_View
  imports Directory_Wire Network_String Host_Gate
begin

text \<open>
  The caller's view (\<open>wires/caller/view.rs\<close>): the stored view and its freshness words, and asking the
  directories, each of which is told the caller's token only once its proof checks out. A caller's
  home is a record; every operation that writes it returns it. Failures are values that name what
  their texts quote.
\<close>

definition view_max_age_secs :: i64 where "view_max_age_secs = 24 * 60 * 60"

section \<open>The held view\<close>

record held_view =
  hv_view :: view
  hv_fresh :: fresh_set
  hv_checked :: i64
  hv_seen :: state_version

definition j_held_view :: "prims \<Rightarrow> held_view \<Rightarrow> json" where
  "j_held_view P h = obj [(''view'', Some (j_view P (hv_view h))),
     (''fresh'', if hv_fresh h = [] then None else Some (j_list (j_fresh P) (hv_fresh h))),
     (''checked'', Some (JInt (hv_checked h))), (''seen'', Some (j_u64 (hv_seen h)))]"

text \<open>\<open>StoredView\<close> and \<open>From\<close>: the words that verify for the view's head are kept.\<close>

definition d_held_view :: "prims \<Rightarrow> json \<Rightarrow> held_view option" where
  "d_held_view P j = do {
     fs \<leftarrow> struct_fields [''view'', ''fresh'', ''checked'', ''seen''] 4 True j;
     v \<leftarrow> req fs ''view'' (d_view P);
     words \<leftarrow> default_field fs ''fresh'' [] (d_list (d_fresh P));
     checked \<leftarrow> req fs ''checked'' d_i64;
     seen \<leftarrow> req fs ''seen'' d_u64;
     Some \<lparr> hv_view = v, hv_fresh = fs_from_unverified P words (vw_head v), hv_checked = checked, hv_seen = seen \<rparr>
   }"

definition hv_learn :: "prims \<Rightarrow> i64 \<Rightarrow> fresh \<Rightarrow> held_view \<Rightarrow> held_view" where
  "hv_learn P now f h = (case fresh_verified P f (vw_head (hv_view h)) of
     Inl _ \<Rightarrow> h
   | Inr v \<Rightarrow> h \<lparr> hv_fresh := snd (fs_insert v now (hv_fresh h)) \<rparr>)"

definition hv_learn_all :: "prims \<Rightarrow> fresh list \<Rightarrow> i64 \<Rightarrow> held_view \<Rightarrow> held_view" where
  "hv_learn_all P words now h = fold (hv_learn P now) words h"

definition hv_fetched :: "prims \<Rightarrow> view \<Rightarrow> fresh option \<Rightarrow> i64 \<Rightarrow> held_view" where
  "hv_fetched P v fresh now =
     (let set = (case fresh of None \<Rightarrow> [] | Some f \<Rightarrow> (case fresh_verified P f (vw_head v) of
          Inl _ \<Rightarrow> [] | Inr f \<Rightarrow> snd (fs_insert f now [])))
      in \<lparr> hv_view = v, hv_fresh = set, hv_checked = now, hv_seen = 0 \<rparr>)"

definition hv_keeping :: "prims \<Rightarrow> held_view option \<Rightarrow> i64 \<Rightarrow> held_view \<Rightarrow> held_view" where
  "hv_keeping P old now h = hv_learn_all P (case old of None \<Rightarrow> [] | Some o' \<Rightarrow> hv_fresh o') now h"

definition hv_version :: "held_view \<Rightarrow> state_version" where
  "hv_version h = h_version (sh_head (vw_head (hv_view h)))"

definition hv_directories :: "held_view \<Rightarrow> node_id list" where
  "hv_directories h = h_directories (sh_head (vw_head (hv_view h)))"

definition hv_is_stale :: "held_view \<Rightarrow> i64 \<Rightarrow> bool" where
  "hv_is_stale h now \<longleftrightarrow> sat_sub now (hv_checked h) > view_max_age_secs
     \<or> \<not> is_ok (head_check_fresh (vw_head (hv_view h)) now) \<or> hv_seen h > hv_version h"

definition hv_entry :: "held_view \<Rightarrow> service_name \<Rightarrow> signed_entry option" where
  "hv_entry h service = view_entry (hv_view h) service"

section \<open>A caller's home\<close>

record caller_home =
  ch_home :: home
  ch_view :: disk_file
  ch_network :: "network option"
  ch_writable :: bool

datatype view_error =
    View_unreadable
  | View_parsing
  | View_unverified error
  | View_store_unverified error
  | View_io

definition view_read :: "prims \<Rightarrow> node_id \<Rightarrow> caller_home \<Rightarrow> view_error + held_view option" where
  "view_read P root ks = (case ch_view ks of
     Absent \<Rightarrow> Inr None
   | Unreadable \<Rightarrow> Inl View_unreadable
   | Text text \<Rightarrow>
       and_then (map_err (\<lambda>_. View_parsing) (from_str P (d_held_view P) (trim text))) (\<lambda>h.
       and_then (map_err View_unverified (view_verify P (hv_view h) root)) (\<lambda>_. Inr (Some h))))"

definition view_write :: "prims \<Rightarrow> node_id \<Rightarrow> held_view \<Rightarrow> caller_home \<Rightarrow> (view_error + unit) \<times> caller_home" where
  "view_write P root h ks = (case view_verify P (hv_view h) root of
     Inl e \<Rightarrow> (Inl (View_store_unverified e), ks)
   | Inr _ \<Rightarrow>
       if \<not> ch_writable ks then (Inl View_io, ks)
       else (Inr (), ks \<lparr> ch_view := Text (json_text P (j_held_view P h) @ newline) \<rparr>))"

text \<open>Best effort: a view that cannot be read or written is left as it is.\<close>

definition note_view :: "prims \<Rightarrow> node_id \<Rightarrow> (held_view \<Rightarrow> held_view option) \<Rightarrow> caller_home \<Rightarrow> caller_home" where
  "note_view P root f ks = (case view_read P root ks of
     Inr (Some h) \<Rightarrow> (case f h of None \<Rightarrow> ks | Some h \<Rightarrow> snd (view_write P root h ks))
   | _ \<Rightarrow> ks)"

definition note_seen :: "prims \<Rightarrow> node_id \<Rightarrow> state_version \<Rightarrow> caller_home \<Rightarrow> caller_home" where
  "note_seen P root version = note_view P root (\<lambda>h.
     if version > hv_seen h \<and> version > hv_version h then Some (h \<lparr> hv_seen := version \<rparr>) else None)"

definition note_fresh :: "prims \<Rightarrow> node_id \<Rightarrow> fresh \<Rightarrow> i64 \<Rightarrow> caller_home \<Rightarrow> caller_home" where
  "note_fresh P root f now = note_view P root (\<lambda>h.
     case fresh_verified P f (vw_head (hv_view h)) of
       Inl _ \<Rightarrow> None
     | Inr v \<Rightarrow> (case fs_insert v now (hv_fresh h) of
         (True, s) \<Rightarrow> Some (h \<lparr> hv_fresh := s \<rparr>) | (False, _) \<Rightarrow> None))"

definition note_refused :: "prims \<Rightarrow> node_id \<Rightarrow> caller_home \<Rightarrow> caller_home" where
  "note_refused P root = note_view P root (\<lambda>h. Some (h \<lparr> hv_checked := 0 \<rparr>))"

definition joined_directories :: "caller_home \<Rightarrow> node_id list" where
  "joined_directories ks = (case ch_network ks of None \<Rightarrow> [] | Some n \<Rightarrow> nw_directories n)"

definition add_missing :: "node_id list \<Rightarrow> node_id list \<Rightarrow> node_id list" where
  "add_missing extra dirs = fold (\<lambda>d ds. if d \<in> set ds then ds else ds @ [d]) extra dirs"

definition view_directories :: "prims \<Rightarrow> node_id \<Rightarrow> node_id \<Rightarrow> caller_home \<Rightarrow> node_id list" where
  "view_directories P root me ks =
     (let dirs = (case view_read P root ks of Inr (Some h) \<Rightarrow> hv_directories h | _ \<Rightarrow> [])
      in filter (\<lambda>d. d \<noteq> me) (add_missing (joined_directories ks) dirs))"

section \<open>Which directory may be told the token\<close>

datatype dir_unvouched =
    Not_listed_there state_version
  | Dir_error error
  | Vouched_alone

definition directory_vouched :: "prims \<Rightarrow> host_proof \<Rightarrow> fresh_set \<Rightarrow> node_id \<Rightarrow> signed_head option
    \<Rightarrow> node_id list \<Rightarrow> node_id \<Rightarrow> i64 \<Rightarrow> dir_unvouched + unit" where
  "directory_vouched P pf pool root held known dir now =
     (let head = hp_head pf in
      if dir \<notin> set (h_directories (sh_head head)) then Inl (Not_listed_there (h_version (sh_head head)))
      else and_then (map_err Dir_error (head_verify P root head)) (\<lambda>_.
        let set = fold (\<lambda>f s. case fresh_verified P f head of Inl _ \<Rightarrow> s | Inr v \<Rightarrow> snd (fs_insert v now s))
                    (take max_fresh_set (hp_fresh pf)) pool;
            combined = \<lparr> hp_head = head, hp_fresh = fs_current_for P set head now \<rparr>
        in and_then (map_err Dir_error (case held of
               Some h \<Rightarrow> and_then (proof_check P combined root h dir now) (\<lambda>_. Inr ())
             | None \<Rightarrow> and_then (head_verify P root head) (\<lambda>_.
                 and_then (head_check_fresh head now) (\<lambda>_.
                 and_then (proof_vouching P combined dir now) (\<lambda>_. Inr ()))))) (\<lambda>_.
           if list_ex (\<lambda>f. is_ok (fresh_vouches P f head dir now)
                \<and> (fr_directory f \<noteq> dir \<or> list_all (\<lambda>d. d = dir) known)) (hp_fresh combined)
           then Inr () else Inl Vouched_alone)))"

definition pool_words :: "prims \<Rightarrow> host_proof \<Rightarrow> node_id \<Rightarrow> signed_head option \<Rightarrow> i64 \<Rightarrow> verified_fresh list" where
  "pool_words P pf root held now =
     (let head = hp_head pf in
      if is_ok (head_verify P root head) \<and> is_ok (head_check_fresh head now)
         \<and> (case held of None \<Rightarrow> True | Some h \<Rightarrow> h_version (sh_head head) \<ge> h_version (sh_head h))
      then List.map_filter (\<lambda>f. res_ok (fresh_verified P f head)) (take max_fresh_set (hp_fresh pf))
      else [])"

section \<open>Asking\<close>

text \<open>How asking one directory failed, and what a round came to.\<close>

datatype ask_failure =
    Ask_open wire_error
  | Ask_refused string
  | Ask_wire wire_error
  | Ask_answer
  | Ask_other_head
  | Ask_view_unverified error
  | Ask_fresh_unverified error
  | Ask_older state_version
  | Ask_other_service
  | Ask_unvouched "dir_unvouched option"

record unanswered =
  un_failures :: "(node_id \<times> ask_failure) list"
  un_not_admitted :: bool

text \<open>A directory that opened: the proof it showed, and what it answers to what it is then sent.
  \<open>told\<close> collects what each directory was sent beyond \<open>open\<close>.\<close>

record opened =
  op_proof :: host_proof
  op_peer :: dialed

type_synonym told = "(node_id \<times> id_token option \<times> directory_request) list"

type_synonym 'a taker = "signed_head \<Rightarrow> directory_answer \<Rightarrow> fresh_set \<Rightarrow> ask_failure + 'a"

text \<open>One pass over the waiting directories: each that the pool now vouches for is asked, in turn, until
  an answer is taken. \<open>clock dir\<close> is the time at which \<open>dir\<close> is looked at.\<close>

fun ask_waiting :: "prims \<Rightarrow> node_id \<Rightarrow> node_id list \<Rightarrow> held_view option \<Rightarrow> id_token option \<Rightarrow> directory_request
    \<Rightarrow> 'a taker \<Rightarrow> fresh_set \<Rightarrow> (node_id \<Rightarrow> i64) \<Rightarrow> (node_id \<times> opened) list
    \<Rightarrow> 'a option \<times> (node_id \<times> opened) list \<times> unanswered \<times> told" where
  "ask_waiting P root known held tok request taker pool clock [] = (None, [], \<lparr> un_failures = [], un_not_admitted = False \<rparr>, [])"
| "ask_waiting P root known held tok request taker pool clock ((dir, o') # waiting) =
     (if \<not> is_ok (directory_vouched P (op_proof o') pool root (map_option (\<lambda>h. vw_head (hv_view h)) held) known dir (clock dir))
      then (case ask_waiting P root known held tok request taker pool clock waiting of
          (t, left, out, told) \<Rightarrow> (t, (dir, o') # left, out, told))
      else
        let taken = (case opened_ask P (op_peer o') tok request of
            Inr (An_Denied reason) \<Rightarrow> Inl (Ask_refused reason)
          | Inr answer \<Rightarrow> taker (hp_head (op_proof o')) answer pool
          | Inl e \<Rightarrow> Inl (Ask_wire e))
        in case taken of
          Inr t \<Rightarrow> (Some t, waiting, \<lparr> un_failures = [], un_not_admitted = False \<rparr>, [(dir, tok, request)])
        | Inl e \<Rightarrow> (case ask_waiting P root known held tok request taker pool clock waiting of
            (t, left, out, told) \<Rightarrow> (t, left,
               \<lparr> un_failures = (dir, e) # un_failures out,
                 un_not_admitted = (e = Ask_refused not_admitted_text \<or> un_not_admitted out) \<rparr>,
               (dir, tok, request) # told)))"

text \<open>What arrives: each directory's proof, or why it gave none, at a time of its own, in any order.\<close>

record arrival =
  ar_dir :: node_id
  ar_opened :: "wire_error + opened"
  ar_at :: i64
  ar_clock :: "node_id \<Rightarrow> i64"

definition pool_insert_all :: "verified_fresh list \<Rightarrow> i64 \<Rightarrow> fresh_set \<Rightarrow> fresh_set" where
  "pool_insert_all words now pool = fold (\<lambda>v s. snd (fs_insert v now s)) words pool"

fun ask_arrivals :: "prims \<Rightarrow> node_id \<Rightarrow> node_id list \<Rightarrow> held_view option \<Rightarrow> id_token option \<Rightarrow> directory_request
    \<Rightarrow> 'a taker \<Rightarrow> fresh_set \<Rightarrow> (node_id \<times> opened) list \<Rightarrow> arrival list
    \<Rightarrow> 'a option \<times> (node_id \<times> opened) list \<times> fresh_set \<times> unanswered \<times> told" where
  "ask_arrivals P root known held tok request taker pool waiting [] =
     (None, waiting, pool, \<lparr> un_failures = [], un_not_admitted = False \<rparr>, [])"
| "ask_arrivals P root known held tok request taker pool waiting (a # as) =
     (let (pool, waiting, failed) = (case ar_opened a of
          Inr o' \<Rightarrow> (pool_insert_all (pool_words P (op_proof o') root (map_option (\<lambda>h. vw_head (hv_view h)) held) (ar_at a))
                      (ar_at a) pool, waiting @ [(ar_dir a, o')], [])
        | Inl e \<Rightarrow> (pool, waiting, [(ar_dir a, Ask_open e)]))
      in case ask_waiting P root known held tok request taker pool (ar_clock a) waiting of
        (Some t, waiting, out, told) \<Rightarrow>
          (Some t, waiting, pool, out \<lparr> un_failures := failed @ un_failures out \<rparr>, told)
      | (None, waiting, out, told) \<Rightarrow>
          (case ask_arrivals P root known held tok request taker pool waiting as of
             (t, waiting, pool, out', told') \<Rightarrow> (t, waiting, pool,
                \<lparr> un_failures = failed @ un_failures out @ un_failures out',
                  un_not_admitted = (un_not_admitted out \<or> un_not_admitted out') \<rparr>, told @ told')))"

definition ask_proven :: "prims \<Rightarrow> node_id \<Rightarrow> node_id list \<Rightarrow> held_view option \<Rightarrow> id_token option
    \<Rightarrow> directory_request \<Rightarrow> 'a taker \<Rightarrow> arrival list \<Rightarrow> i64 \<Rightarrow> (unanswered + 'a) \<times> told" where
  "ask_proven P root known held tok request taker as end_at =
     (case ask_arrivals P root known held tok request taker
             (case held of None \<Rightarrow> [] | Some h \<Rightarrow> hv_fresh h) [] as of
        (Some t, waiting, pool, out, told) \<Rightarrow> (Inr t, told)
      | (None, waiting, pool, out, told) \<Rightarrow>
          (Inl (out \<lparr> un_failures := un_failures out @ map (\<lambda>(dir, o'). (dir, Ask_unvouched
             (case directory_vouched P (op_proof o') pool root (map_option (\<lambda>h. vw_head (hv_view h)) held) known dir end_at of
                Inl e \<Rightarrow> Some e | Inr _ \<Rightarrow> None))) waiting \<rparr>), told))"

section \<open>Fetching, refreshing, resolving\<close>

text \<open>What makes an answer to \<open>view\<close> the caller's new view.\<close>

definition take_view :: "prims \<Rightarrow> node_id \<Rightarrow> held_view option \<Rightarrow> i64 \<Rightarrow> held_view taker" where
  "take_view P root held now proved answer pool = (case answer of
     An_View v fresh \<Rightarrow>
       if vw_head v \<noteq> proved then Inl Ask_other_head
       else and_then (map_err Ask_view_unverified (view_verify P v root)) (\<lambda>_.
         and_then (map_err Ask_fresh_unverified (fresh_verify P fresh (vw_head v))) (\<lambda>_.
         if (case held of None \<Rightarrow> False | Some old \<Rightarrow> h_version (sh_head (vw_head v)) < hv_version old)
         then Inl (Ask_older (h_version (sh_head (vw_head v))))
         else Inr (hv_learn_all P pool now (hv_keeping P held now (hv_fetched P v (Some fresh) now)))))
   | _ \<Rightarrow> Inl Ask_answer)"

definition view_fetch :: "prims \<Rightarrow> node_id \<Rightarrow> node_id list \<Rightarrow> held_view option \<Rightarrow> id_token option
    \<Rightarrow> i64 \<Rightarrow> arrival list \<Rightarrow> i64 \<Rightarrow> (unanswered + held_view) \<times> told" where
  "view_fetch P root known held tok now as end_at =
     ask_proven P root known held tok (Rq_View None) (take_view P root held now) as end_at"

datatype refresh_error =
    Refresh_store store_error
  | Refresh_view view_error
  | No_directory
  | Refresh_unanswered unanswered
  | Refresh_timed_out

text \<open>\<open>refresh\<close>: \<open>me_principal\<close> is what the node's own stored identity verifies as (only a node holding the
  whole policy uses it); \<open>as\<close> is how the directories answer, given the list asked.\<close>

definition view_refresh :: "prims \<Rightarrow> node_id \<Rightarrow> node_id \<Rightarrow> principal option \<Rightarrow> id_token option \<Rightarrow> bool \<Rightarrow> i64
    \<Rightarrow> (node_id list \<Rightarrow> arrival list) \<Rightarrow> i64 \<Rightarrow> caller_home \<Rightarrow> (refresh_error + held_view) \<times> caller_home \<times> told" where
  "view_refresh P root me who tok forget now as end_at ks =
     (case store_read P (ch_home ks) root of
        Inl e \<Rightarrow> (Inl (Refresh_store e), ks, [])
      | Inr (Some whole) \<Rightarrow>
          let held = hv_fetched P (view_for (hd_signed whole) me who None) None now in
          (case view_write P root held ks of
             (Inl e, ks) \<Rightarrow> (Inl (Refresh_view e), ks, []) | (Inr _, ks) \<Rightarrow> (Inr held, ks, []))
      | Inr None \<Rightarrow>
          (case (if forget then Inr None else view_read P root ks) of
             Inl e \<Rightarrow> (Inl (Refresh_view e), ks, [])
           | Inr held \<Rightarrow>
               let dirs = view_directories P root me ks in
               if dirs = [] then ((case held of None \<Rightarrow> Inl No_directory | Some h \<Rightarrow> Inr h), ks, [])
               else (case view_fetch P root (joined_directories ks) held tok now (as dirs) end_at of
                   (Inl out, told) \<Rightarrow> (Inl (Refresh_unanswered out), ks, told)
                 | (Inr fetched, told) \<Rightarrow> (case view_write P root fetched ks of
                     (Inl e, ks) \<Rightarrow> (Inl (Refresh_view e), ks, told)
                   | (Inr _, ks) \<Rightarrow> (Inr fetched, ks, told)))))"

text \<open>\<open>usable_with\<close>: the stored view as it is while it is not stale, else what a refresh gives; a failed
  refresh leaves one whose head has not expired.\<close>

datatype usable_error = Usable_view view_error | View_expired state_version | Usable_not_admitted | No_view

definition usable_with :: "prims \<Rightarrow> node_id \<Rightarrow> i64
    \<Rightarrow> (caller_home \<Rightarrow> (refresh_error + held_view) \<times> caller_home) \<Rightarrow> caller_home
    \<Rightarrow> (usable_error + held_view) \<times> caller_home" where
  "usable_with P root now refresh ks = (case view_read P root ks of
     Inl e \<Rightarrow> (Inl (Usable_view e), ks)
   | Inr held \<Rightarrow>
       let held = Option.bind held (\<lambda>h. if is_ok (head_check_fresh (vw_head (hv_view h)) now) then Some h else None) in
       case held of
         Some h \<Rightarrow>
           if \<not> hv_is_stale h now then (Inr h, ks)
           else (case refresh ks of
               (Inr r, ks) \<Rightarrow> (if is_ok (head_check_fresh (vw_head (hv_view r)) now) then Inr r
                              else Inl (View_expired (hv_version r)), ks)
             | (Inl _, ks) \<Rightarrow> (Inr h, ks))
       | None \<Rightarrow> (case refresh ks of
             (Inr r, ks) \<Rightarrow> (if is_ok (head_check_fresh (vw_head (hv_view r)) now) then Inr r
                            else Inl (View_expired (hv_version r)), ks)
           | (Inl (Refresh_unanswered out), ks) \<Rightarrow>
               (Inl (if un_not_admitted out then Usable_not_admitted else No_view), ks)
           | (Inl _, ks) \<Rightarrow> (Inl No_view, ks)))"

definition take_resolved :: "prims \<Rightarrow> node_id \<Rightarrow> service_name \<Rightarrow> (view \<times> fresh) taker" where
  "take_resolved P root service proved answer pool = (case answer of
     An_View v fresh \<Rightarrow>
       if vw_head v \<noteq> proved then Inl Ask_other_head
       else and_then (map_err Ask_view_unverified (view_verify P v root)) (\<lambda>_.
         and_then (map_err Ask_fresh_unverified (fresh_verify P fresh (vw_head v))) (\<lambda>_.
         if list_ex (\<lambda>e. se_name e \<noteq> service) (vw_entries v) then Inl Ask_other_service
         else Inr (v, fresh)))
   | _ \<Rightarrow> Inl Ask_answer)"

definition view_resolve :: "prims \<Rightarrow> node_id \<Rightarrow> node_id \<Rightarrow> id_token option \<Rightarrow> service_name \<Rightarrow> i64
    \<Rightarrow> (node_id list \<Rightarrow> arrival list) \<Rightarrow> i64 \<Rightarrow> caller_home
    \<Rightarrow> (unanswered + held_view option) \<times> caller_home \<times> told" where
  "view_resolve P root me tok service now as end_at ks =
     (let dirs = view_directories P root me ks in
      if dirs = [] then (Inr None, ks, [])
      else let held = (case view_read P root ks of Inr h \<Rightarrow> h | Inl _ \<Rightarrow> None) in
        case ask_proven P root (joined_directories ks) held tok (Rq_Resolve service)
               (take_resolved P root service) (as dirs) end_at of
          (Inl out, told) \<Rightarrow> (Inl out, ks, told)
        | (Inr (v, fresh), told) \<Rightarrow>
            (Inr (if vw_entries v = [] then None else Some (hv_fetched P v (Some fresh) now)),
             note_seen P root (h_version (sh_head (vw_head v))) ks, told))"

text \<open>One round of \<open>poll\<close>: what it keeps and sends on.\<close>

definition poll_directories :: "node_id list \<Rightarrow> node_id \<Rightarrow> held_view option \<Rightarrow> node_id list" where
  "poll_directories fallback me held =
     filter (\<lambda>d. d \<noteq> me) (add_missing fallback (case held of None \<Rightarrow> [] | Some h \<Rightarrow> hv_directories h))"

definition poll_round :: "prims \<Rightarrow> node_id \<Rightarrow> node_id \<Rightarrow> node_id list \<Rightarrow> bool \<Rightarrow> id_token option \<Rightarrow> i64
    \<Rightarrow> (node_id list \<Rightarrow> arrival list) \<Rightarrow> i64 \<Rightarrow> held_view option \<times> caller_home
    \<Rightarrow> (held_view option \<times> caller_home) \<times> told" where
  "poll_round P root me fallback persist tok now as end_at = (\<lambda>(held, ks).
     case view_fetch P root fallback held tok now (as (poll_directories fallback me held)) end_at of
       (Inl _, told) \<Rightarrow> ((held, ks), told)
     | (Inr next, told) \<Rightarrow>
         let next = next \<lparr> hv_seen := (case held of None \<Rightarrow> 0 | Some h \<Rightarrow> hv_seen h) \<rparr> in
         ((Some next, if persist then snd (view_write P root next ks) else ks), told))"

end
