(* ===== verification/Caller_Vouch.thy ===== *)
theory Caller_Vouch
  imports Caller_View "HOL-Library.Option_ord"
begin

text \<open>
  The caller's check of a host before it tells the host anything (\<open>wires/caller/vouch.rs\<close>), and in
  which order it tries a service's hosts (\<open>wires/caller/pick.rs\<close>).
\<close>

section \<open>Vouching\<close>

datatype scope = Scope_service service_name | Any_service

datatype sink = Sink_keystore | Sink_shared | Sink_nowhere

text \<open>What a caller keeps: its home, and the set of words the gateway shares among its users.\<close>

record caller_state =
  cs_home :: caller_home
  cs_shared :: fresh_set

type_synonym refresher = "caller_state \<Rightarrow> (refresh_error + held_view) \<times> caller_state"

record vouching =
  vo_root :: node_id
  vo_held :: held_view
  vo_scope :: scope
  vo_refresher :: "refresher option"
  vo_sink :: sink
  vo_known :: "node_id list"

definition vouching_new :: "node_id \<Rightarrow> held_view \<Rightarrow> scope \<Rightarrow> vouching" where
  "vouching_new root held scope = \<lparr> vo_root = root, vo_held = held, vo_scope = scope, vo_refresher = None,
     vo_sink = Sink_nowhere, vo_known = [] \<rparr>"

definition vouch_knowing :: "node_id list \<Rightarrow> vouching \<Rightarrow> vouching" where
  "vouch_knowing dirs v = v \<lparr> vo_known := dirs \<rparr>"

definition vouch_refreshing :: "refresher \<Rightarrow> vouching \<Rightarrow> vouching" where
  "vouch_refreshing r v = v \<lparr> vo_refresher := Some r \<rparr>"

definition vouch_keeping_in :: "prims \<Rightarrow> sink \<Rightarrow> i64 \<Rightarrow> caller_state \<Rightarrow> vouching \<Rightarrow> vouching" where
  "vouch_keeping_in P sink now st v =
     (let v = (case sink of Sink_shared \<Rightarrow> v \<lparr> vo_held := hv_learn_all P (cs_shared st) now (vo_held v) \<rparr> | _ \<Rightarrow> v)
      in v \<lparr> vo_sink := sink \<rparr>)"

definition vouch_takes :: "vouching \<Rightarrow> fresh \<Rightarrow> node_id \<Rightarrow> bool" where
  "vouch_takes v f host \<longleftrightarrow> fr_directory f \<noteq> host \<or> list_all (\<lambda>d. d = host) (vo_known v)"

definition vouch_version :: "vouching \<Rightarrow> state_version" where
  "vouch_version v = hv_version (vo_held v)"

definition vouch_serves :: "vouching \<Rightarrow> node_id \<Rightarrow> bool" where
  "vouch_serves v host \<longleftrightarrow> (case vo_scope v of
     Scope_service name \<Rightarrow> (case hv_entry (vo_held v) name of
         None \<Rightarrow> False | Some e \<Rightarrow> host \<in> set (sv_hosts (se_service e)))
   | Any_service \<Rightarrow> list_ex (\<lambda>e. host \<in> set (sv_hosts (se_service e))) (vw_entries (hv_view (vo_held v))))"

definition vouch_ready :: "prims \<Rightarrow> vouching \<Rightarrow> node_id \<Rightarrow> i64 \<Rightarrow> bool" where
  "vouch_ready P v host now \<longleftrightarrow> vouch_serves v host
     \<and> (case fs_vouching P (hv_fresh (vo_held v)) (vw_head (hv_view (vo_held v))) host now of
          None \<Rightarrow> False | Some f \<Rightarrow> vouch_takes v f host)"

section \<open>The check\<close>

text \<open>Why a host was told nothing (a dial failure), or why a call was stopped after speaking.\<close>

datatype unvouched_why =
    Uv_error error
  | Uv_no_refresher state_version
  | Uv_refresh refresh_error
  | Uv_behind state_version state_version
  | Uv_still_older
  | Uv_alone
  | Uv_not_served state_version
  | Uv_open_unsent
  | Uv_refused string
  | Uv_no_proof "wire_error option"

fun uv_lapsed :: "unvouched_why \<Rightarrow> bool" where
  "uv_lapsed (Uv_error e) = (e \<in> {Unvouched, Fresh_lapsed, Self_vouched})"
| "uv_lapsed Uv_alone = True"
| "uv_lapsed _ = False"

datatype check_failure =
    Host_unvouched unvouched_why
  | Newer_unverified error
  | Stopped_unvouched error

definition vouch_note_newer :: "prims \<Rightarrow> vouching \<Rightarrow> state_version \<Rightarrow> caller_state \<Rightarrow> caller_state" where
  "vouch_note_newer P v ver st = (case vo_sink v of
     Sink_keystore \<Rightarrow> st \<lparr> cs_home := note_seen P (vo_root v) ver (cs_home st) \<rparr> | _ \<Rightarrow> st)"

definition vouch_learn :: "prims \<Rightarrow> fresh \<Rightarrow> signed_head \<Rightarrow> i64 \<Rightarrow> vouching \<times> caller_state \<Rightarrow> vouching \<times> caller_state" where
  "vouch_learn P f head now = (\<lambda>(v, st).
     (v \<lparr> vo_held := hv_learn_all P [f] now (vo_held v) \<rparr>,
      case vo_sink v of
        Sink_keystore \<Rightarrow> st \<lparr> cs_home := note_fresh P (vo_root v) f now (cs_home st) \<rparr>
      | Sink_shared \<Rightarrow> (case fresh_verified P f head of
          Inl _ \<Rightarrow> st | Inr w \<Rightarrow> st \<lparr> cs_shared := snd (fs_insert w now (cs_shared st)) \<rparr>)
      | Sink_nowhere \<Rightarrow> st))"

definition vouch_refresh_to :: "prims \<Rightarrow> state_version \<Rightarrow> vouching \<times> caller_state
    \<Rightarrow> (unvouched_why + unit) \<times> vouching \<times> caller_state" where
  "vouch_refresh_to P ver = (\<lambda>(v, st).
     let st = vouch_note_newer P v ver st in
     case vo_refresher v of
       None \<Rightarrow> (Inl (Uv_no_refresher ver), v, st)
     | Some r \<Rightarrow> (case r st of
         (Inl e, st) \<Rightarrow> (Inl (Uv_refresh e), v, st)
       | (Inr held, st) \<Rightarrow> (Inr (), v \<lparr> vo_held := held \<rparr>, st)))"

text \<open>The end of the check, with the proof (or the combined one) already standing.\<close>

definition vouch_settle :: "prims \<Rightarrow> node_id \<Rightarrow> host_proof \<Rightarrow> i64 \<Rightarrow> bool \<Rightarrow> vouching \<times> caller_state
    \<Rightarrow> (check_failure + unit) \<times> vouching \<times> caller_state" where
  "vouch_settle P host pf now before = (\<lambda>(v, st).
     if before \<and> (case proof_vouching P pf host now of Inr f \<Rightarrow> \<not> vouch_takes v f host | Inl _ \<Rightarrow> False)
     then (Inl (Host_unvouched Uv_alone), v, st)
     else if before \<and> \<not> vouch_serves v host
     then (Inl (Host_unvouched (Uv_not_served (vouch_version v))), v, st)
     else (Inr (), case proof_vouching P pf host now of
         Inr f \<Rightarrow> vouch_learn P f (hp_head pf) now (v, st) | Inl _ \<Rightarrow> (v, st)))"

definition vouch_check :: "prims \<Rightarrow> node_id \<Rightarrow> host_proof \<Rightarrow> i64 \<Rightarrow> bool \<Rightarrow> vouching \<times> caller_state
    \<Rightarrow> (check_failure + unit) \<times> vouching \<times> caller_state" where
  "vouch_check P host pf now before = (\<lambda>(v, st).
     if \<not> before \<and> h_version (sh_head (hp_head pf)) > vouch_version v
     then (case head_verify P (vo_root v) (hp_head pf) of
         Inl e \<Rightarrow> (Inl (Newer_unverified e), v, st)
       | Inr _ \<Rightarrow> (Inr (), v, vouch_note_newer P v (h_version (sh_head (hp_head pf))) st))
     else
       let pf = (if before then pf else pf \<lparr> hp_fresh := take max_fresh_set
                   (hp_fresh pf @ fs_current_for P (hv_fresh (vo_held v)) (hp_head pf) now) \<rparr>)
       in case proof_check P pf (vo_root v) (vw_head (hv_view (vo_held v))) host now of
         Inl e \<Rightarrow> (Inl (if before then Host_unvouched (Uv_error e) else Stopped_unvouched e), v, st)
       | Inr Same \<Rightarrow> vouch_settle P host pf now before (v, st)
       | Inr (Newer ver) \<Rightarrow>
           if \<not> before then (Inr (), v, vouch_note_newer P v ver st)
           else (case vouch_refresh_to P ver (v, st) of
               (Inl why, v, st) \<Rightarrow> (Inl (Host_unvouched why), v, st)
             | (Inr _, v, st) \<Rightarrow>
                 if vouch_version v < ver then (Inl (Host_unvouched (Uv_behind ver (vouch_version v))), v, st)
                 else (case proof_check P pf (vo_root v) (vw_head (hv_view (vo_held v))) host now of
                     Inr Same \<Rightarrow> vouch_settle P host pf now before (v, st)
                   | Inr (Newer _) \<Rightarrow> (Inl (Host_unvouched Uv_still_older), v, st)
                   | Inl e \<Rightarrow> (Inl (Host_unvouched (Uv_error e)), v, st))))"

section \<open>Which host is tried first (pick.rs)\<close>

definition demote_secs :: i64 where "demote_secs = 60"

type_synonym unanswered_hosts = "(node_id, i64) btree_map"

definition failed_recently :: "unanswered_hosts \<Rightarrow> i64 \<Rightarrow> node_id \<Rightarrow> i64 option" where
  "failed_recently u now host = (case bm_get u host of
     None \<Rightarrow> None | Some at \<Rightarrow> if sat_sub now at < demote_secs then Some at else None)"

text \<open>\<open>shuffle\<close> is the random order; \<open>sort_by_key\<close> is stable.\<close>

definition candidates :: "(node_id list \<Rightarrow> node_id list) \<Rightarrow> service \<Rightarrow> unanswered_hosts \<Rightarrow> i64 \<Rightarrow> node_id list" where
  "candidates shuffle svc u now = sort_key (failed_recently u now) (shuffle (sv_hosts svc))"

definition unanswered_note :: "node_id list \<Rightarrow> node_id \<Rightarrow> i64 \<Rightarrow> unanswered_hosts \<Rightarrow> unanswered_hosts" where
  "unanswered_note tried answered now u =
     bm_retain (\<lambda>_ at. sat_sub now at < demote_secs)
       (bm_del answered (fold (\<lambda>h. bm_put h now) (takeWhile (\<lambda>h. h \<noteq> answered) tried) u))"

text \<open>The file is a hint: a missing or unreadable one is empty, and saving is best effort.\<close>

definition unanswered_record :: "bool \<Rightarrow> node_id list \<Rightarrow> node_id \<Rightarrow> i64 \<Rightarrow> unanswered_hosts option
    \<Rightarrow> unanswered_hosts option" where
  "unanswered_record writable tried answered now file =
     (let before = (case file of None \<Rightarrow> [] | Some u \<Rightarrow> u); me = unanswered_note tried answered now before
      in if me = before then file else if writable then Some me else file)"

definition hosts_of :: "view \<Rightarrow> service_name list \<Rightarrow> node_id list" where
  "hosts_of v names = fold (\<lambda>name out. add_missing
     (case view_entry v name of None \<Rightarrow> [] | Some e \<Rightarrow> sv_hosts (se_service e)) out) names []"

end
