(* ===== verification/Caller_Session.thy ===== *)
theory Caller_Session
  imports Caller_Vouch Session_Wire
begin

text \<open>
  The caller's side of a session (\<open>speak\<close>, \<open>converse\<close> and \<open>call_service_on\<close> of
  \<open>wires/host/transport.rs\<close>) and the calls over it (\<open>wires/caller/call.rs\<close>). A host is what it has said
  once it has been sent some bytes, and whether the caller has closed its side.
\<close>

section \<open>Speaking\<close>

record host_link =
  hl_says :: "bytes \<Rightarrow> bool \<Rightarrow> bytes"
  hl_up :: "nat \<Rightarrow> bool"
  hl_clock :: "nat \<Rightarrow> i64"

definition frames_bytes :: "prims \<Rightarrow> frame list \<Rightarrow> bytes" where
  "frames_bytes P fs = concat (map (\<lambda>f. case frame_encode P f of Inr b \<Rightarrow> b | Inl _ \<Rightarrow> []) fs)"

definition link_writes :: "prims \<Rightarrow> host_link \<Rightarrow> nat \<Rightarrow> frame \<Rightarrow> bool" where
  "link_writes P l i f \<longleftrightarrow> hl_up l i \<and> is_ok (frame_encode P f)"

text \<open>\<open>write_frame\<close>s in turn, up to the first that fails; \<open>i\<close> counts the writes of the session.\<close>

fun link_send :: "prims \<Rightarrow> host_link \<Rightarrow> nat \<Rightarrow> frame list \<Rightarrow> frame list \<times> bool" where
  "link_send P l i [] = ([], True)"
| "link_send P l i (f # fs) = (if link_writes P l i f
     then (case link_send P l (Suc i) fs of (sent, ok) \<Rightarrow> (f # sent, ok)) else ([], False))"

datatype speak_error =
    Sp_unvouched unvouched_why
  | Sp_unsent
  | Sp_no_proof "wire_error option"
  | Sp_check check_failure

text \<open>What is sent, how much of the host's stream was read, and whether the caller may go on.\<close>

definition speak :: "prims \<Rightarrow> node_id \<Rightarrow> id_token \<Rightarrow> invocation \<Rightarrow> host_link \<Rightarrow> vouching \<times> caller_state
    \<Rightarrow> (speak_error + unit) \<times> frame list \<times> nat \<times> vouching \<times> caller_state" where
  "speak P host tok asked l = (\<lambda>(v, st).
     let hello = (\<lambda>v. [Hello \<lparr> he_state_version = vouch_version v, he_id_token = tok \<rparr>, Invoke asked]);
         at_once = vouch_ready P v host (hl_clock l 0)
     in case link_send P l 0 (if at_once then hello v else [Open]) of
       (sent, False) \<Rightarrow> (Inl (if at_once then Sp_unsent else Sp_unvouched Uv_open_unsent), sent, 0, v, st)
     | (sent, True) \<Rightarrow>
         let heard = hl_says l (frames_bytes P sent) False;
             failed = (\<lambda>e. if at_once then Sp_no_proof e else Sp_unvouched (Uv_no_proof e))
         in case read_frame_within P max_hello_frame heard of
           (Inr (Some (Proof pf)), rest) \<Rightarrow>
             let read = length heard - length rest in
             (case vouch_check P host pf (hl_clock l 1) (\<not> at_once) (v, st) of
                (Inl (Host_unvouched why), v, st) \<Rightarrow> (Inl (Sp_unvouched why), sent, read, v, st)
              | (Inl e, v, st) \<Rightarrow> (Inl (Sp_check e), sent, read, v, st)
              | (Inr _, v, st) \<Rightarrow>
                  if at_once then (Inr (), sent, read, v, st)
                  else (case link_send P l 1 (hello v) of
                      (sent', ok) \<Rightarrow> (if ok then Inr () else Inl Sp_unsent, sent @ sent', read, v, st)))
         | (Inr (Some (Denied reason)), rest) \<Rightarrow> (Inl (Sp_unvouched (Uv_refused reason)), sent, 0, v, st)
         | (Inr _, rest) \<Rightarrow> (Inl (failed None), sent, 0, v, st)
         | (Inl e, rest) \<Rightarrow> (Inl (failed (Some e)), sent, 0, v, st))"

section \<open>The rest of the session\<close>

datatype ack_failure = Ack_not_assigned state_version | Ack_unverified error

definition accept_ack :: "prims \<Rightarrow> node_id \<Rightarrow> state_version \<Rightarrow> service_name \<Rightarrow> node_id \<Rightarrow> hello_ack
    \<Rightarrow> ack_failure + unit" where
  "accept_ack P root held service host ack = (case ack_assigns P ack root held service host of
     Inr True \<Rightarrow> Inr ()
   | Inr False \<Rightarrow> Inl (Ack_not_assigned (ha_state_version ack))
   | Inl e \<Rightarrow> Inl (Ack_unverified e))"

datatype converse_error =
    Cv_denied string
  | Cv_not_ack
  | Cv_closed
  | Cv_wire wire_error
  | Cv_ack ack_failure
  | Cv_no_exit

text \<open>The frames after the ack: what goes to stdout and stderr, and the exit code.\<close>

function session_output :: "prims \<Rightarrow> bytes \<Rightarrow> (converse_error + 32 word) \<times> bytes \<times> bytes" where
  "session_output P r = (case read_frame P r of
     (Inr (Some f), rest) \<Rightarrow> (case f of
         Exit c \<Rightarrow> (Inr c, [], [])
       | _ \<Rightarrow> (case session_output P rest of (x, out, err) \<Rightarrow>
           (x, (case f of Stdout c \<Rightarrow> c | _ \<Rightarrow> []) @ out, (case f of Stderr c \<Rightarrow> c | _ \<Rightarrow> []) @ err)))
   | (Inr None, rest) \<Rightarrow> (Inl Cv_no_exit, [], [])
   | (Inl e, rest) \<Rightarrow> (Inl (Cv_wire e), [], []))"
  by pat_completeness auto
termination
  by (relation "measure (\<lambda>(P, r). length r)")
    (auto simp: read_frame_def read_frame_within_def dest!: read_capped_shrinks[OF sym])

declare session_output.simps [simp del]

text \<open>\<open>sent\<close> is what was sent so far, \<open>n\<close> how much of the host's stream was read; \<open>chunks\<close> is the local
  stdin as it is read. Frames of stdin are sent only once the ack is accepted.\<close>

definition converse :: "prims \<Rightarrow> (hello_ack \<Rightarrow> ack_failure + unit) \<Rightarrow> chunk list \<Rightarrow> host_link \<Rightarrow> frame list \<Rightarrow> nat
    \<Rightarrow> (converse_error + hello_ack \<times> 32 word) \<times> frame list \<times> bytes \<times> bytes" where
  "converse P on_ack chunks l sent n =
     (let heard = drop n (hl_says l (frames_bytes P sent) False) in
      case read_frame P heard of
        (Inr (Some (Hello_Ack ack)), rest) \<Rightarrow> (case on_ack ack of
            Inl e \<Rightarrow> (Inl (Cv_ack e), [], [], [])
          | Inr _ \<Rightarrow>
              let stdin = map Stdin chunks; m = n + (length heard - length rest) in
              (case session_output P (drop m (hl_says l (frames_bytes P (sent @ stdin)) True)) of
                 (x, out, err) \<Rightarrow> (map_sum id (Pair ack) x, stdin, out, err)))
      | (Inr (Some (Denied reason)), rest) \<Rightarrow> (Inl (Cv_denied reason), [], [], [])
      | (Inr (Some _), rest) \<Rightarrow> (Inl Cv_not_ack, [], [], [])
      | (Inr None, rest) \<Rightarrow> (Inl Cv_closed, [], [], [])
      | (Inl e, rest) \<Rightarrow> (Inl (Cv_wire e), [], [], []))"

section \<open>Trying a service's hosts\<close>

datatype dial = No_answer | Connected host_link

datatype call_failure =
    Cf_no_host
  | Cf_all_unvouched "(node_id \<times> unvouched_why option) list"
  | Cf_no_answer "(node_id \<times> unvouched_why option) list"
  | Cf_speak speak_error
  | Cf_converse converse_error

record call_done =
  cd_host :: node_id
  cd_exit :: "32 word"
  cd_stdout :: bytes
  cd_stderr :: bytes
  cd_ack :: hello_ack
  cd_held :: state_version

text \<open>\<open>cd_ack\<close> and \<open>cd_held\<close> are what \<open>on_ack\<close> was given. Everything each host was sent, in order.\<close>

type_synonym told_hosts = "(node_id \<times> frame list) list"

fun call_service_on :: "prims \<Rightarrow> (node_id \<Rightarrow> dial) \<Rightarrow> id_token \<Rightarrow> invocation
    \<Rightarrow> (node_id \<Rightarrow> state_version \<Rightarrow> hello_ack \<Rightarrow> ack_failure + unit) \<Rightarrow> chunk list
    \<Rightarrow> (node_id \<times> unvouched_why option) list \<Rightarrow> node_id list \<Rightarrow> vouching \<times> caller_state
    \<Rightarrow> (call_failure + call_done) \<times> told_hosts \<times> vouching \<times> caller_state" where
  "call_service_on P dials tok asked on_ack chunks failures [] (v, st) =
     (Inl (if failures = [] then Cf_no_host
           else if list_all (\<lambda>(_, why). case why of Some w \<Rightarrow> uv_lapsed w | None \<Rightarrow> False) failures
           then Cf_all_unvouched failures else Cf_no_answer failures), [], v, st)"
| "call_service_on P dials tok asked on_ack chunks failures (host # hosts) (v, st) = (case dials host of
     No_answer \<Rightarrow> call_service_on P dials tok asked on_ack chunks (failures @ [(host, None)]) hosts (v, st)
   | Connected l \<Rightarrow> (case speak P host tok asked l (v, st) of
       (Inl (Sp_unvouched why), sent, n, v, st) \<Rightarrow>
         (case call_service_on P dials tok asked on_ack chunks (failures @ [(host, Some why)]) hosts (v, st) of
            (x, told, v, st) \<Rightarrow> (x, (host, sent) # told, v, st))
     | (Inl e, sent, n, v, st) \<Rightarrow> (Inl (Cf_speak e), [(host, sent)], v, st)
     | (Inr _, sent, n, v, st) \<Rightarrow> (case converse P (on_ack host (vouch_version v)) chunks l sent n of
         (Inl e, stdin, out, err) \<Rightarrow> (Inl (Cf_converse e), [(host, sent @ stdin)], v, st)
       | (Inr (ack, code), stdin, out, err) \<Rightarrow>
           (Inr \<lparr> cd_host = host, cd_exit = code, cd_stdout = out, cd_stderr = err,
              cd_ack = ack, cd_held = vouch_version v \<rparr>,
            [(host, sent @ stdin)], v, st))))"

end
