(* ===== verification/Directory_Node.thy ===== *)
theory Directory_Node
  imports Directory_Wire Host_Gate
begin

text \<open>
  A directory: what it holds and the answer to each request (\<open>wires/directory/node.rs\<close>), a connection
  and a subscription as it serves them (\<open>wires/directory/serve.rs\<close>, \<open>sub_policy.rs\<close>). A denial is a
  value that names what its text quotes. The clock is read, and other tasks run, at the points where
  the handlers wait; both are inputs of the handlers. The writer lock makes \<open>accept\<close> and \<open>beat\<close> atomic.
\<close>

definition max_undecided :: nat where "max_undecided = 16"
definition max_admitted :: nat where "max_admitted = 64"

section \<open>State\<close>

text \<open>What it holds now, and the two subscription frames, each encoded once.\<close>

record current =
  cu_held :: held
  cu_fresh :: "fresh option"
  cu_policy_frame :: "bytes option"
  cu_fresh_frame :: "bytes option"

definition current_new :: "held \<Rightarrow> fresh option \<Rightarrow> current" where
  "current_new h f = \<lparr> cu_held = h, cu_fresh = f, cu_policy_frame = None, cu_fresh_frame = None \<rparr>"

definition current_frame :: "prims \<Rightarrow> bool \<Rightarrow> current \<Rightarrow> (error + bytes option) \<times> current" where
  "current_frame P whole c = (case cu_fresh c of
     None \<Rightarrow> (Inr None, c)
   | Some fresh \<Rightarrow>
       let (cell, frame) = (if whole then (cu_policy_frame c, Sf_Policy (hd_signed (cu_held c)) fresh)
                            else (cu_fresh_frame c, Sf_Fresh fresh))
       in case cell of
         Some b \<Rightarrow> (Inr (Some b), c)
       | None \<Rightarrow> (case sub_frame_encode P frame of
           Inl e \<Rightarrow> (Inl e, c)
         | Inr b \<Rightarrow> (Inr (Some b),
             if whole then c \<lparr> cu_policy_frame := Some b \<rparr> else c \<lparr> cu_fresh_frame := Some b \<rparr>)))"

text \<open>The counts are the permits taken of each semaphore.\<close>

record directory =
  dr_key :: node_identity
  dr_root :: node_id
  dr_home :: home
  dr_host_fresh :: "fresh_set option"
  dr_current :: "current option"
  dr_max_subscribers :: nat
  dr_subscribers :: nat
  dr_undecided :: nat
  dr_admitted :: nat
  dr_accepts :: u64
  dr_fetcher :: key_fetcher

text \<open>What a peer that is refused hears.\<close>

datatype accept_error = Accept_unverified error | Accept_expired error | Accept_store store_error

datatype dir_denied =
    D_not_admitted
  | D_empty
  | D_busy
  | D_expired state_version
  | D_not_listed state_version
  | D_view_not_policy
  | D_second_hello
  | D_publish_order
  | D_head_unverified error
  | D_head_expired error
  | D_publish_refused accept_error
  | D_subscriber_cap nat
  | D_no_longer_directory

type_synonym dir_answered = "dir_denied + directory_answer"

record peer =
  pe_node :: node_id
  pe_named :: bool
  pe_principal :: "principal option"

definition peer_admitted :: "peer \<Rightarrow> bool" where
  "peer_admitted p \<longleftrightarrow> pe_named p \<or> pe_principal p \<noteq> None"

section \<open>Holding and vouching\<close>

definition dir_version :: "directory \<Rightarrow> state_version" where
  "dir_version d = (case dr_current d of None \<Rightarrow> 0 | Some c \<Rightarrow> held_version (cu_held c))"

definition dir_sign_fresh :: "prims \<Rightarrow> directory \<Rightarrow> held \<Rightarrow> i64 \<Rightarrow> fresh option" where
  "dir_sign_fresh P d held now = (case held_check_fresh held now of
     Inl _ \<Rightarrow> None
   | Inr _ \<Rightarrow> res_ok (fresh_sign P (dr_key d) (sp_head (hd_signed held)) now
       (sat_add now (uint (st_fresh_secs (po_settings (hd_policy held)))))))"

definition dir_beat :: "prims \<Rightarrow> i64 \<Rightarrow> directory \<Rightarrow> directory" where
  "dir_beat P now d = (case dr_current d of
     None \<Rightarrow> d
   | Some c \<Rightarrow> d \<lparr> dr_current := Some (current_new (cu_held c) (dir_sign_fresh P d (cu_held c) now)) \<rparr>)"

definition dir_open :: "prims \<Rightarrow> node_identity \<Rightarrow> node_id \<Rightarrow> home \<Rightarrow> nat \<Rightarrow> i64 \<Rightarrow> store_error + directory" where
  "dir_open P me root ks max_subscribers now =
     and_then (store_read P ks root) (\<lambda>held. Inr (dir_beat P now
       \<lparr> dr_key = me, dr_root = root, dr_home = ks, dr_host_fresh = None,
         dr_current = map_option (\<lambda>h. current_new h None) held, dr_max_subscribers = max_subscribers,
         dr_subscribers = 0, dr_undecided = 0, dr_admitted = 0, dr_accepts = 0, dr_fetcher = kf_new None \<rparr>))"

definition dir_accept :: "prims \<Rightarrow> signed_policy \<Rightarrow> i64 \<Rightarrow> directory \<Rightarrow> (accept_error + bool) \<times> directory" where
  "dir_accept P candidate now d = (case held_verify P candidate (dr_root d) of
     Inl e \<Rightarrow> (Inl (Accept_unverified e), d)
   | Inr held \<Rightarrow> (case held_check_fresh held now of
       Inl e \<Rightarrow> (Inl (Accept_expired e), d)
     | Inr _ \<Rightarrow>
         if held_version held \<le> dir_version d then (Inr False, d)
         else (case adopt_if_newer P candidate (dr_root d) now (dr_home d) of
             (Inl e, ks) \<Rightarrow> (Inl (Accept_store e), d \<lparr> dr_home := ks \<rparr>)
           | (Inr _, ks) \<Rightarrow>
               let d = d \<lparr> dr_home := ks \<rparr> in
               (case store_read P ks (dr_root d) of
                  Inl e \<Rightarrow> (Inl (Accept_store e), d)
                | Inr None \<Rightarrow> (Inr False, d)
                | Inr (Some h) \<Rightarrow>
                    if held_version h > dir_version d
                    then (Inr True, d \<lparr> dr_accepts := dr_accepts d + 1,
                                       dr_current := Some (current_new h (dir_sign_fresh P d h now)) \<rparr>)
                    else (Inr False, d)))))"

section \<open>Who is asking\<close>

definition dir_holds_whole :: "directory \<Rightarrow> node_id \<Rightarrow> bool" where
  "dir_holds_whole d node = (case dr_current d of
     None \<Rightarrow> False
   | Some c \<Rightarrow> let p = hd_policy (cu_held c) in
       \<not> bans_node p node \<and> (is_host p node \<or> node \<in> set (held_directories (cu_held c))))"

definition dir_principal :: "prims \<Rightarrow> ring \<Rightarrow> web \<Rightarrow> node_id \<Rightarrow> id_token \<Rightarrow> policy \<Rightarrow> i64 \<Rightarrow> key_fetcher
    \<Rightarrow> principal option \<times> key_fetcher" where
  "dir_principal P R W caller token p now f =
     (let trust = map (\<lambda>(iss, cfg). (iss, ic_audiences cfg)) (po_issuers p);
          claim = \<lparr> ic_node = caller, ic_token = token \<rparr>
      in case kf_verify P R W claim (trust_issuers trust) (audiences_for_claim P trust claim) now f of
        (r, f) \<Rightarrow> (res_ok r, f))"

definition dir_admit :: "prims \<Rightarrow> ring \<Rightarrow> web \<Rightarrow> node_id \<Rightarrow> id_token option \<Rightarrow> i64 \<Rightarrow> directory
    \<Rightarrow> peer \<times> directory" where
  "dir_admit P R W caller tok now d =
     (let held = Option.bind (dr_current d) (\<lambda>c.
            if is_ok (held_check_fresh (cu_held c) now) then Some c else None);
          named = dir_holds_whole d caller
      in case (held, tok) of
        (Some c, Some t) \<Rightarrow> (case dir_principal P R W caller t (hd_policy (cu_held c)) now (dr_fetcher d) of
          (who, f) \<Rightarrow>
            (\<lparr> pe_node = caller, pe_named = named, pe_principal = Option.bind who (\<lambda>p.
                if is_ok (check_admitted (hd_policy (cu_held c)) caller p) then Some p else None) \<rparr>,
             d \<lparr> dr_fetcher := f \<rparr>))
      | _ \<Rightarrow> (\<lparr> pe_node = caller, pe_named = named, pe_principal = None \<rparr>, d))"

section \<open>Answers\<close>

definition current_with_fresh :: "i64 \<Rightarrow> directory \<Rightarrow> dir_denied + (current \<times> fresh)" where
  "current_with_fresh now d = (case dr_current d of
     None \<Rightarrow> Inl D_empty
   | Some c \<Rightarrow>
       if \<not> is_ok (held_check_fresh (cu_held c) now) then Inl (D_expired (held_version (cu_held c)))
       else (case cu_fresh c of
           None \<Rightarrow> Inl (D_not_listed (held_version (cu_held c)))
         | Some f \<Rightarrow> Inr (c, f)))"

definition dir_proof :: "prims \<Rightarrow> i64 \<Rightarrow> directory \<Rightarrow> dir_denied + host_proof" where
  "dir_proof P now d = and_then (current_with_fresh now d) (\<lambda>(c, own).
     let head = sp_head (hd_signed (cu_held c));
         host = (case dr_host_fresh d of None \<Rightarrow> [] | Some h \<Rightarrow> hp_fresh (fresh_proof P h head now));
         set = fold (\<lambda>f s. case fresh_verified P f head of
                 Inr v \<Rightarrow> snd (fs_insert v now s) | Inl _ \<Rightarrow> s) (own # host) []
     in Inr \<lparr> hp_head = head, hp_fresh = fs_current_for P set head now \<rparr>)"

definition dir_answer :: "peer \<Rightarrow> directory_request \<Rightarrow> i64 \<Rightarrow> directory \<Rightarrow> dir_answered" where
  "dir_answer peer request now d =
     (if \<not> peer_admitted peer then Inl D_not_admitted
      else and_then (current_with_fresh now d) (\<lambda>(c, fresh).
        let signed = hd_signed (cu_held c) in
        case request of
          Rq_Policy have \<Rightarrow>
            if \<not> pe_named peer then Inl D_view_not_policy
            else if have \<ge> held_version (cu_held c) then Inr (An_Current fresh)
            else Inr (An_Policy signed fresh)
        | Rq_View query \<Rightarrow> Inr (An_View (view_for signed (pe_node peer) (pe_principal peer) query) fresh)
        | Rq_Resolve service \<Rightarrow>
            let v = view_for signed (pe_node peer) (pe_principal peer) None in
            Inr (An_View (v \<lparr> vw_entries := filter (\<lambda>e. se_name e = service) (vw_entries v) \<rparr>) fresh)
        | Rq_Hello _ \<Rightarrow> Inl D_second_hello
        | Rq_Open \<Rightarrow> Inl D_second_hello
        | Rq_Publish _ \<Rightarrow> Inl D_publish_order
        | Rq_Items _ \<Rightarrow> Inl D_publish_order))"

section \<open>Publishing\<close>

datatype head_check = Wanted | Head_held state_version hash256 | Head_refused dir_denied

definition dir_check_head :: "prims \<Rightarrow> signed_head \<Rightarrow> i64 \<Rightarrow> directory \<Rightarrow> head_check" where
  "dir_check_head P head now d = (case head_verify P (dr_root d) head of
     Inl e \<Rightarrow> Head_refused (D_head_unverified e)
   | Inr _ \<Rightarrow> (case head_check_fresh head now of
       Inl e \<Rightarrow> Head_refused (D_head_expired e)
     | Inr _ \<Rightarrow> (case dr_current d of
         None \<Rightarrow> Wanted
       | Some c \<Rightarrow>
           if h_version (sh_head head) \<le> held_version (cu_held c)
           then Head_held (held_version (cu_held c)) (head_hash P (sp_head (hd_signed (cu_held c))))
           else Wanted)))"

definition dir_publish :: "prims \<Rightarrow> signed_head \<Rightarrow> item list \<Rightarrow> i64 \<Rightarrow> directory \<Rightarrow> dir_answered \<times> directory" where
  "dir_publish P head xs now d = (case dir_accept P \<lparr> sp_head = head, sp_items = xs \<rparr> now d of
     (Inl e, d) \<Rightarrow> (Inl (D_publish_refused e), d)
   | (Inr _, d) \<Rightarrow> ((case dr_current d of
         None \<Rightarrow> Inl D_empty
       | Some c \<Rightarrow> Inr (An_Published (held_version (cu_held c)) (head_hash P (sp_head (hd_signed (cu_held c)))))), d))"

end
