(* ===== verification/Directory_Serve.thy ===== *)
theory Directory_Serve
  imports Directory_Node Network_String
begin

text \<open>
  A connection and a subscription as a directory serves them (\<open>wires/directory/serve.rs\<close>,
  \<open>wires/directory/sub_policy.rs\<close>). What a peer sends is a byte stream; what it hears is a list of
  answers. \<open>clock i\<close> is what the \<open>i\<close>-th reading of the clock says, and \<open>others i\<close> what other tasks do
  to the directory while the handler waits for the \<open>i\<close>-th time.
\<close>

record turns =
  tu_clock :: "nat \<Rightarrow> i64"
  tu_others :: "nat \<Rightarrow> directory \<Rightarrow> directory"

section \<open>Slots\<close>

text \<open>A permit is held until it is dropped, by whichever way the handler ends.\<close>

datatype slot = Undecided_slot | Admitted_slot

definition slot_drop :: "slot \<Rightarrow> directory \<Rightarrow> directory" where
  "slot_drop s d = (case s of
     Undecided_slot \<Rightarrow> d \<lparr> dr_undecided := dr_undecided d - 1 \<rparr>
   | Admitted_slot \<Rightarrow> d \<lparr> dr_admitted := dr_admitted d - 1 \<rparr>)"

definition undecided_take :: "directory \<Rightarrow> directory option" where
  "undecided_take d = (if dr_undecided d \<ge> max_undecided then None
     else Some (d \<lparr> dr_undecided := dr_undecided d + 1 \<rparr>))"

text \<open>\<open>admitted\<close>: the undecided slot goes either way.\<close>

definition slot_trade :: "directory \<Rightarrow> bool \<times> directory" where
  "slot_trade d = (let d = slot_drop Undecided_slot d in
     if dr_admitted d \<ge> max_admitted then (False, d) else (True, d \<lparr> dr_admitted := dr_admitted d + 1 \<rparr>))"

section \<open>One request\<close>

text \<open>An answer that does not encode (a policy of more than 16 MiB) ends the stream unsent.\<close>

definition write_answer :: "prims \<Rightarrow> dir_answered \<Rightarrow> dir_answered list" where
  "write_answer P a = (case a of
     Inl _ \<Rightarrow> [a]
   | Inr x \<Rightarrow> if is_ok (answer_encode P x) then [a] else [])"

text \<open>The items of a head that checked out: read only under an admitted slot.\<close>

definition take_items :: "prims \<Rightarrow> turns \<Rightarrow> signed_head \<Rightarrow> bytes \<Rightarrow> directory \<Rightarrow> dir_answered list \<times> directory" where
  "take_items P tu head r d = (case fst (read_items P r) of
     Inl _ \<Rightarrow> ([], slot_drop Admitted_slot (tu_others tu 4 d))
   | Inr xs \<Rightarrow> (case dir_publish P head xs (tu_clock tu 3) (tu_others tu 4 d) of
       (a, d) \<Rightarrow> (write_answer P a, slot_drop Admitted_slot d)))"

definition take_publish :: "prims \<Rightarrow> turns \<Rightarrow> slot \<Rightarrow> signed_head \<Rightarrow> bytes \<Rightarrow> directory
    \<Rightarrow> dir_answered list \<times> directory" where
  "take_publish P tu s head r d = (case dir_check_head P head (tu_clock tu 2) d of
     Head_held v h \<Rightarrow> (write_answer P (Inr (An_Published v h)), slot_drop s d)
   | Head_refused why \<Rightarrow> (write_answer P (Inl why), slot_drop s d)
   | Wanted \<Rightarrow> (case s of
       Admitted_slot \<Rightarrow> take_items P tu head r d
     | Undecided_slot \<Rightarrow> (case slot_trade d of
         (False, d) \<Rightarrow> (write_answer P (Inl D_busy), d)
       | (True, d) \<Rightarrow> take_items P tu head r d)))"

definition take_request :: "prims \<Rightarrow> turns \<Rightarrow> slot \<Rightarrow> peer \<Rightarrow> bytes \<Rightarrow> directory \<Rightarrow> dir_answered list \<times> directory" where
  "take_request P tu s peer r d = (case read_request P r of
     (asked, r) \<Rightarrow> let d = tu_others tu 3 d in
       case asked of
         Inl _ \<Rightarrow> ([], slot_drop s d)
       | Inr (Rq_Publish head) \<Rightarrow> take_publish P tu s head r d
       | Inr request \<Rightarrow> (write_answer P (case s of
             Admitted_slot \<Rightarrow> dir_answer peer request (tu_clock tu 2) d
           | Undecided_slot \<Rightarrow> Inl (if dr_current d = None then D_empty else D_not_admitted)),
           slot_drop s d))"

definition take_hello :: "prims \<Rightarrow> ring \<Rightarrow> web \<Rightarrow> turns \<Rightarrow> node_id \<Rightarrow> wire_error + directory_request \<Rightarrow> bytes
    \<Rightarrow> directory \<Rightarrow> dir_answered list \<times> directory" where
  "take_hello P R W tu caller hello r d = (case hello of
     Inr (Rq_Hello tok) \<Rightarrow> (case dir_admit P R W caller tok (tu_clock tu 1) d of
       (peer, d) \<Rightarrow> let d = tu_others tu 2 d in
         if peer_admitted peer then (case slot_trade d of
             (False, d) \<Rightarrow> (write_answer P (Inl D_busy), d)
           | (True, d) \<Rightarrow> take_request P tu Admitted_slot peer r d)
         else take_request P tu Undecided_slot peer r d)
   | _ \<Rightarrow> (write_answer P (Inl D_not_admitted), slot_drop Undecided_slot d))"

definition one_request :: "prims \<Rightarrow> ring \<Rightarrow> web \<Rightarrow> turns \<Rightarrow> node_id \<Rightarrow> bytes \<Rightarrow> directory
    \<Rightarrow> dir_answered list \<times> directory" where
  "one_request P R W tu caller r d = (case read_hello P r of
     (hello, r) \<Rightarrow> let d = tu_others tu 0 d in
       if hello = Inr Rq_Open then
         (case dir_proof P (tu_clock tu 0) d of
            Inl why \<Rightarrow> (write_answer P (Inl why), slot_drop Undecided_slot d)
          | Inr pf \<Rightarrow>
              if \<not> is_ok (answer_encode P (An_Proof pf)) then ([], slot_drop Undecided_slot d)
              else (case read_hello P r of
                (hello, r) \<Rightarrow> (case take_hello P R W tu caller hello r (tu_others tu 1 d) of
                  (answers, d) \<Rightarrow> (Inr (An_Proof pf) # answers, d))))
       else take_hello P R W tu caller hello r d)"

text \<open>\<open>DirectoryProtocol::accept\<close>; \<open>None\<close>: no stream came in time.\<close>

definition dir_connection :: "prims \<Rightarrow> ring \<Rightarrow> web \<Rightarrow> turns \<Rightarrow> node_id \<Rightarrow> bytes option \<Rightarrow> directory
    \<Rightarrow> dir_answered list \<times> directory" where
  "dir_connection P R W tu caller stream d = (case undecided_take d of
     None \<Rightarrow> ([], d)
   | Some d \<Rightarrow> (case stream of
       None \<Rightarrow> ([], slot_drop Undecided_slot d)
     | Some r \<Rightarrow> one_request P R W tu caller r d))"

section \<open>A subscription\<close>

definition next_frame :: "prims \<Rightarrow> current \<Rightarrow> state_version \<Rightarrow> error + (bytes \<times> state_version) option" where
  "next_frame P c sent =
     (let version = held_version (cu_held c); whole = version > sent in
      and_then (fst (current_frame P whole c)) (\<lambda>b.
        Inr (map_option (\<lambda>bytes. (bytes, if whole then version else sent)) b)))"

text \<open>What the loop finds each time it wakes: what the watch channel holds, and the directory, which
  may have moved on since. A frame is shown with what it was made from.\<close>

record wake =
  wk_snapshot :: "current option"
  wk_dir :: directory

datatype sub_said = Sub_sent current bytes state_version | Sub_denied dir_denied

fun sub_serve :: "prims \<Rightarrow> node_id \<Rightarrow> state_version \<Rightarrow> wake list \<Rightarrow> sub_said list" where
  "sub_serve P caller sent [] = []"
| "sub_serve P caller sent (w # ws) = (case wk_snapshot w of
     None \<Rightarrow> sub_serve P caller sent ws
   | Some c \<Rightarrow>
       if cu_fresh c = None then [Sub_denied D_no_longer_directory]
       else if bans_node (hd_policy (cu_held c)) caller then [Sub_denied D_not_admitted]
       else if \<not> dir_holds_whole (wk_dir w) caller then [Sub_denied D_view_not_policy]
       else (case next_frame P c sent of
           Inl _ \<Rightarrow> []
         | Inr None \<Rightarrow> sub_serve P caller sent ws
         | Inr (Some (bytes, to)) \<Rightarrow> Sub_sent c bytes to # sub_serve P caller to ws))"

definition subscriber_take :: "directory \<Rightarrow> directory option" where
  "subscriber_take d = (if dr_subscribers d \<ge> dr_max_subscribers d then None
     else Some (d \<lparr> dr_subscribers := dr_subscribers d + 1 \<rparr>))"

definition subscriber_drop :: "directory \<Rightarrow> directory" where
  "subscriber_drop d = d \<lparr> dr_subscribers := dr_subscribers d - 1 \<rparr>"

text \<open>\<open>subscription\<close> up to its loop: a denial, nothing (the stream failed), or the version the
  subscriber has, with its slot taken.\<close>

definition sub_open :: "prims \<Rightarrow> ring \<Rightarrow> web \<Rightarrow> turns \<Rightarrow> node_id \<Rightarrow> bytes option \<Rightarrow> directory
    \<Rightarrow> (dir_denied option + state_version) \<times> directory" where
  "sub_open P R W tu caller stream d = (case undecided_take d of
     None \<Rightarrow> (Inl None, d)
   | Some d \<Rightarrow> (case stream of
       None \<Rightarrow> (Inl None, slot_drop Undecided_slot d)
     | Some r \<Rightarrow> (case read_sub_request P r of
         (Inr (Sq_Hello tok), r) \<Rightarrow>
           (case dir_admit P R W caller tok (tu_clock tu 0) (tu_others tu 0 d) of
              (peer, d) \<Rightarrow> let d = tu_others tu 1 d in
                if \<not> peer_admitted peer
                then (Inl (Some (if dr_current d = None then D_empty else D_not_admitted)),
                      slot_drop Undecided_slot d)
                else (case slot_trade d of
                    (False, d) \<Rightarrow> (Inl (Some D_busy), d)
                  | (True, d) \<Rightarrow>
                      let d = slot_drop Admitted_slot (tu_others tu 2 d) in
                      (case fst (read_sub_request P r) of
                         Inl _ \<Rightarrow> (Inl None, d)
                       | Inr (Sq_Hello _) \<Rightarrow> (Inl (Some D_second_hello), d)
                       | Inr (Sq_Subscribe have) \<Rightarrow>
                           if \<not> pe_named peer then (Inl (Some D_view_not_policy), d)
                           else (case subscriber_take d of
                               None \<Rightarrow> (Inl (Some (D_subscriber_cap (dr_max_subscribers d))), d)
                             | Some d \<Rightarrow> (Inr have, d)))))
       | (_, r) \<Rightarrow> (Inl (Some D_not_admitted), slot_drop Undecided_slot (tu_others tu 0 d)))))"

section \<open>Starting\<close>

text \<open>\<open>listed\<close> and \<open>open_standalone\<close>, given what the keystore's other files hold.\<close>

datatype serve_error =
    Serve_store store_error
  | Serve_admin_home
  | Serve_not_joined
  | Serve_not_listed

definition dir_listed :: "prims \<Rightarrow> home \<Rightarrow> node_id \<Rightarrow> network option \<Rightarrow> node_id \<Rightarrow> store_error + bool" where
  "dir_listed P ks root net me = and_then (store_read P ks root) (\<lambda>held. Inr (case held of
     Some h \<Rightarrow> me \<in> set (held_directories h)
   | None \<Rightarrow> (case net of None \<Rightarrow> False | Some n \<Rightarrow> me \<in> set (nw_directories n))))"

definition open_standalone :: "prims \<Rightarrow> bool \<Rightarrow> node_identity \<Rightarrow> network option \<Rightarrow> home \<Rightarrow> nat \<Rightarrow> i64
    \<Rightarrow> serve_error + directory" where
  "open_standalone P has_root_seed me net ks max_subscribers now =
     (if has_root_seed then Inl Serve_admin_home
      else case net of
        None \<Rightarrow> Inl Serve_not_joined
      | Some n \<Rightarrow> and_then (map_err Serve_store (dir_listed P ks (nw_root n) net (node_id P me))) (\<lambda>listed.
          if \<not> listed then Inl Serve_not_listed
          else map_err Serve_store (dir_open P me (nw_root n) ks max_subscribers now)))"

end
