(* ===== verification/Directory_Rules.thy ===== *)
theory Directory_Rules
  imports Directory_Serve Host_Decisions
begin

text \<open>
  What a directory guarantees: what it serves is signed by the root and never rolls back, whoever
  connects and however the handlers interleave; what it tells whom; and that its slots are bounded.
\<close>

section \<open>The invariant\<close>

definition frames_ok :: "prims \<Rightarrow> current \<Rightarrow> bool" where
  "frames_ok P c \<longleftrightarrow> (\<forall>f b. cu_fresh c = Some f \<longrightarrow>
     (cu_policy_frame c = Some b \<longrightarrow> sub_frame_encode P (Sf_Policy (hd_signed (cu_held c)) f) = Inr b)
     \<and> (cu_fresh_frame c = Some b \<longrightarrow> sub_frame_encode P (Sf_Fresh f) = Inr b))"

text \<open>What it holds verifies under the root, its word is its own for that head, and its file holds a
  policy at least as new.\<close>

definition current_ok :: "prims \<Rightarrow> directory \<Rightarrow> current \<Rightarrow> bool" where
  "current_ok P d c \<longleftrightarrow> held_verify P (hd_signed (cu_held c)) (dr_root d) = Inr (cu_held c)
     \<and> frames_ok P c
     \<and> (\<forall>f. cu_fresh c = Some f \<longrightarrow> fresh_verify P f (sp_head (hd_signed (cu_held c))) = Inr ()
          \<and> fr_directory f = node_id P (dr_key d))
     \<and> (\<exists>h. store_read P (dr_home d) (dr_root d) = Inr (Some h) \<and> held_version (cu_held c) \<le> held_version h)"

definition dir_ok :: "prims \<Rightarrow> directory \<Rightarrow> bool" where
  "dir_ok P d \<longleftrightarrow> (\<forall>c. dr_current d = Some c \<longrightarrow> current_ok P d c)"

definition dir_ahead :: "directory \<Rightarrow> directory \<Rightarrow> bool" where
  "dir_ahead d d' \<longleftrightarrow> dr_root d' = dr_root d \<and> dr_key d' = dr_key d
     \<and> (\<forall>c. dr_current d = Some c \<longrightarrow> (\<exists>c'. dr_current d' = Some c'
          \<and> held_version (cu_held c) \<le> held_version (cu_held c')
          \<and> (held_version (cu_held c) = held_version (cu_held c') \<longrightarrow> cu_held c' = cu_held c)))"

text \<open>A piece of a handler keeps the invariant and never goes back.\<close>

definition dir_moves :: "prims \<Rightarrow> directory \<Rightarrow> directory \<Rightarrow> bool" where
  "dir_moves P d d' \<longleftrightarrow> (dir_ok P d \<longrightarrow> dir_ok P d' \<and> dir_ahead d d')"

lemma dir_ahead_refl [simp]: "dir_ahead d d"
  by (simp add: dir_ahead_def)

lemma dir_ahead_trans:
  assumes "dir_ahead a b" "dir_ahead b c"
  shows "dir_ahead a c"
  unfolding dir_ahead_def
proof (intro conjI allI impI)
  show "dr_root c = dr_root a" "dr_key c = dr_key a" using assms by (simp_all add: dir_ahead_def)
  fix x assume "dr_current a = Some x"
  then obtain y where y: "dr_current b = Some y" "held_version (cu_held x) \<le> held_version (cu_held y)"
    "held_version (cu_held x) = held_version (cu_held y) \<longrightarrow> cu_held y = cu_held x"
    using assms(1) unfolding dir_ahead_def by blast
  then obtain z where z: "dr_current c = Some z" "held_version (cu_held y) \<le> held_version (cu_held z)"
    "held_version (cu_held y) = held_version (cu_held z) \<longrightarrow> cu_held z = cu_held y"
    using assms(2) unfolding dir_ahead_def by blast
  have "held_version (cu_held x) \<le> held_version (cu_held z)" using y(2) z(2) by (rule order_trans)
  moreover have "cu_held z = cu_held x" if "held_version (cu_held x) = held_version (cu_held z)"
  proof -
    have e: "held_version (cu_held x) = held_version (cu_held y)"
      using y(2) z(2)[folded that] by (rule order_antisym)
    then have "cu_held y = cu_held x" using y(3) by (rule rev_mp)
    moreover have "cu_held z = cu_held y" using z(3) that e by argo
    ultimately show ?thesis by (rule trans[rotated])
  qed
  ultimately show "\<exists>c'. dr_current c = Some c' \<and> held_version (cu_held x) \<le> held_version (cu_held c')
      \<and> (held_version (cu_held x) = held_version (cu_held c') \<longrightarrow> cu_held c' = cu_held x)"
    using z(1) by blast
qed

lemma dir_moves_refl [simp]: "dir_moves P d d"
  by (simp add: dir_moves_def)

lemma dir_moves_trans [trans]: "dir_moves P a b \<Longrightarrow> dir_moves P b c \<Longrightarrow> dir_moves P a c"
  unfolding dir_moves_def using dir_ahead_trans by blast

text \<open>Only the key, the root, the file and what is held matter.\<close>

lemma dir_moves_same:
  assumes "dr_key d' = dr_key d" "dr_root d' = dr_root d" "dr_home d' = dr_home d" "dr_current d' = dr_current d"
  shows "dir_moves P d d'"
  using assms by (auto simp: dir_moves_def dir_ok_def dir_ahead_def current_ok_def)

lemma slot_drop_moves [simp]: "dir_moves P d (slot_drop s d)"
  by (rule dir_moves_same) (simp_all add: slot_drop_def split: slot.split)

lemma slot_trade_moves: "slot_trade d = (b, d') \<Longrightarrow> dir_moves P d d'"
  by (rule dir_moves_same) (auto simp: slot_trade_def slot_drop_def Let_def split: if_splits)

lemma undecided_take_moves: "undecided_take d = Some d' \<Longrightarrow> dir_moves P d d'"
  by (rule dir_moves_same) (auto simp: undecided_take_def split: if_splits)

lemma dir_admit_moves: "dir_admit P R W caller tok now d = (peer, d') \<Longrightarrow> dir_moves Q d d'"
  by (rule dir_moves_same) (auto simp: dir_admit_def Let_def split: option.splits prod.splits)

section \<open>Beats and publishes\<close>

lemma signed_word:
  assumes "ed25519_law P" "fresh_sign P d head at until = Inr f"
  shows "fresh_verify P f head = Inr ()" "fr_directory f = node_id P d" "fr_at f = at" "fr_until f = until"
proof -
  note fields = fresh_sign_Inr[OF assms(2)]
  have "ed_verify P (node_id P d) (fresh_signed_bytes P f) (sign_bytes P d (fresh_signed_bytes P f))"
    using verify_signed[OF assms(1)] by (simp add: verify_sig_Inr)
  then show "fresh_verify P f head = Inr ()" using fields by (simp add: fresh_verify_Inr)
  show "fr_directory f = node_id P d" "fr_at f = at" "fr_until f = until" using fields by simp_all
qed

lemma dir_sign_fresh_Some:
  assumes "ed25519_law P" "dir_sign_fresh P d h now = Some f"
  shows "fresh_verify P f (sp_head (hd_signed h)) = Inr ()" "fr_directory f = node_id P (dr_key d)" "fr_at f = now"
    "held_check_fresh h now = Inr ()"
  using assms(2) signed_word[OF assms(1)] by (auto simp: dir_sign_fresh_def res_ok_Some_iff split: sum.splits)

lemma store_read_verified: "store_read P ks root = Inr (Some h) \<Longrightarrow> held_verify P (hd_signed h) root = Inr h"
  by (auto simp: store_read_def and_then_Inr_iff map_err_Inr_iff held_verify_Inr split: disk_file.splits)

lemma current_new_ok:
  assumes "ed25519_law P" "held_verify P (hd_signed h) (dr_root d) = Inr h"
    "store_read P (dr_home d) (dr_root d) = Inr (Some h')" "held_version h \<le> held_version h'"
    "dr_key d' = dr_key d"
  shows "current_ok P d (current_new h (dir_sign_fresh P d' h now))"
  using assms dir_sign_fresh_Some[OF assms(1), of d' h now]
  by (auto simp: current_ok_def current_new_def frames_ok_def)

lemma dir_beat_moves:
  assumes "ed25519_law P"
  shows "dir_moves P d (dir_beat P now d)"
proof (cases "dr_current d")
  case None
  then show ?thesis by (simp add: dir_beat_def)
next
  case (Some c)
  let ?c = "current_new (cu_held c) (dir_sign_fresh P d (cu_held c) now)"
  have "dir_ok P d \<Longrightarrow> current_ok P d ?c"
    using Some current_new_ok[OF assms, of "cu_held c" d _ d now] by (auto simp: dir_ok_def current_ok_def)
  then have "dir_ok P d \<Longrightarrow> dir_ok P (dir_beat P now d)"
    by (auto simp: dir_ok_def dir_beat_def Some current_ok_def)
  moreover have "dir_ahead d (dir_beat P now d)" by (auto simp: dir_ahead_def dir_beat_def Some current_new_def)
  ultimately show ?thesis by (simp add: dir_moves_def)
qed

text \<open>A writer of the file that never goes back: this directory's own adoption, or another part of the
  node.\<close>

lemma dir_store_moves:
  assumes "store_ahead P (dr_root d) (dr_home d) ks"
  shows "dir_moves P d (d \<lparr> dr_home := ks \<rparr>)"
proof -
  have "current_ok P (d \<lparr> dr_home := ks \<rparr>) c" if c: "current_ok P d c" for c
  proof -
    obtain h where h: "store_read P (dr_home d) (dr_root d) = Inr (Some h)" "held_version (cu_held c) \<le> held_version h"
      using c unfolding current_ok_def by blast
    then obtain h' where "store_read P ks (dr_root d) = Inr (Some h')" "held_version h \<le> held_version h'"
      using assms unfolding store_ahead_def by blast
    with h c show ?thesis by (auto simp: current_ok_def intro: order_trans)
  qed
  then show ?thesis by (auto simp: dir_moves_def dir_ok_def dir_ahead_def)
qed

lemma adopt_store_ahead:
  assumes "json_law P" "hex_law P" "compact_law P" "sp_typed c" "adopt_if_newer P c root now ks = (r, ks')"
  shows "store_ahead P root ks ks'"
  using policy_file.step_ahead[of "(c, now)" P root ks] assms by (simp add: adopt_step_def)

lemma dir_accept_moves:
  assumes "json_law P" "hex_law P" "compact_law P" "ed25519_law P" "sp_typed s"
  shows "dir_moves P d (snd (dir_accept P s now d))"
proof (cases "snd (dir_accept P s now d) = d")
  case False
  obtain r ks where a: "adopt_if_newer P s (dr_root d) now (dr_home d) = (r, ks)" by fastforce
  let ?d = "d \<lparr> dr_home := ks \<rparr>"
  have m: "dir_moves P d ?d" by (rule dir_store_moves) (rule adopt_store_ahead[OF assms(1-3,5) a])
  from False consider "snd (dir_accept P s now d) = ?d"
    | h where "store_read P ks (dr_root d) = Inr (Some h)" "held_version h > dir_version ?d"
        "snd (dir_accept P s now d) = ?d \<lparr> dr_accepts := dr_accepts ?d + 1,
           dr_current := Some (current_new h (dir_sign_fresh P ?d h now)) \<rparr>"
    by (auto simp: dir_accept_def a Let_def split: sum.splits option.splits if_splits)
  then show ?thesis
  proof cases
    case 2
    let ?d' = "?d \<lparr> dr_accepts := dr_accepts ?d + 1, dr_current := Some (current_new h (dir_sign_fresh P ?d h now)) \<rparr>"
    have "current_ok P ?d (current_new h (dir_sign_fresh P ?d h now))"
      using 2(1) store_read_verified[OF 2(1)] by (intro current_new_ok[OF assms(4), where h' = h]) simp_all
    then have "dir_ok P ?d'" by (auto simp: dir_ok_def current_ok_def)
    moreover have "dir_ahead ?d ?d'"
      using 2(2) by (auto simp: dir_ahead_def current_new_def dir_version_def split: option.splits)
    ultimately have "dir_moves P ?d ?d'" by (simp add: dir_moves_def)
    with m show ?thesis unfolding 2(3) by (rule dir_moves_trans)
  qed (use m in simp)
qed simp

section \<open>Handlers\<close>

definition turns_ok :: "prims \<Rightarrow> turns \<Rightarrow> bool" where
  "turns_ok P tu \<longleftrightarrow> (\<forall>i d. dir_moves P d (tu_others tu i d))"

definition dir_laws :: "prims \<Rightarrow> bool" where
  "dir_laws P \<longleftrightarrow> json_law P \<and> hex_law P \<and> compact_law P \<and> ed25519_law P"

lemma others_moves: "turns_ok P tu \<Longrightarrow> dir_moves P d (tu_others tu i d)"
  by (simp add: turns_ok_def)

lemma dir_publish_moves:
  assumes "dir_laws P" "head_ok (sh_head head)" "\<forall>i \<in> set xs. item_ok i" "dir_publish P head xs now d = (a, d')"
  shows "dir_moves P d d'"
proof -
  have "dir_moves P d (snd (dir_accept P \<lparr> sp_head = head, sp_items = xs \<rparr> now d))"
    using assms(1-3) by (intro dir_accept_moves) (simp_all add: dir_laws_def sp_typed_def)
  then show ?thesis using assms(4) by (auto simp: dir_publish_def split: prod.splits sum.splits)
qed

lemma take_items_moves:
  assumes "dir_laws P" "turns_ok P tu" "head_ok (sh_head head)" "take_items P tu head r d = (as, d')"
  shows "dir_moves P d d'"
proof (cases "read_items P r")
  case (Pair x rest)
  note o = others_moves[OF assms(2), of d 4]
  show ?thesis
  proof (cases x)
    case (Inl e)
    then have "d' = slot_drop Admitted_slot (tu_others tu 4 d)" using assms(4) Pair by (simp add: take_items_def)
    then show ?thesis using dir_moves_trans[OF o slot_drop_moves] by simp
  next
    case (Inr xs)
    obtain a d1 where p: "dir_publish P head xs (tu_clock tu 3) (tu_others tu 4 d) = (a, d1)" by fastforce
    have "dir_moves P (tu_others tu 4 d) d1"
      using dir_publish_moves[OF assms(1,3) _ p] read_items_ok Pair Inr by blast
    from dir_moves_trans[OF o this] have "dir_moves P d d1" .
    moreover have "d' = slot_drop Admitted_slot d1" using assms(4) Pair Inr p by (simp add: take_items_def)
    ultimately show ?thesis using dir_moves_trans[OF _ slot_drop_moves] by simp
  qed
qed

lemma take_publish_moves:
  assumes "dir_laws P" "turns_ok P tu" "head_ok (sh_head head)" "take_publish P tu s head r d = (as, d')"
  shows "dir_moves P d d'"
proof (cases "dir_check_head P head (tu_clock tu 2) d")
  case Wanted
  show ?thesis
  proof (cases s)
    case Undecided_slot
    obtain b d1 where t: "slot_trade d = (b, d1)" by fastforce
    have "dir_moves P d d1" using slot_trade_moves[OF t] .
    moreover have "dir_moves P d1 d'"
      using assms(4) Wanted Undecided_slot t take_items_moves[OF assms(1-3)]
      by (cases b) (auto simp: take_publish_def)
    ultimately show ?thesis by (rule dir_moves_trans)
  next
    case Admitted_slot
    then show ?thesis using assms(4) Wanted take_items_moves[OF assms(1-3)] by (simp add: take_publish_def)
  qed
qed (use assms(4) in \<open>auto simp: take_publish_def\<close>)

lemma take_request_moves:
  assumes "dir_laws P" "turns_ok P tu" "take_request P tu s peer r d = (as, d')"
  shows "dir_moves P d d'"
proof -
  obtain x rest where x: "read_request P r = (x, rest)" by fastforce
  let ?d = "tu_others tu 3 d"
  have "dir_moves P ?d d'"
  proof (cases "\<exists>head. x = Inr (Rq_Publish head)")
    case True
    then obtain head where h: "x = Inr (Rq_Publish head)" by blast
    then have "head_ok (sh_head head)" using read_request_ok x by fastforce
    then show ?thesis
      using take_publish_moves[OF assms(1,2)] assms(3) x h by (simp add: take_request_def Let_def)
  next
    case False
    then show ?thesis
      using assms(3) x by (auto simp: take_request_def Let_def split: sum.splits directory_request.splits)
  qed
  with others_moves[OF assms(2)] show ?thesis by (rule dir_moves_trans)
qed

lemma take_hello_moves:
  assumes "dir_laws P" "turns_ok P tu" "take_hello P R W tu caller hello r d = (as, d')"
  shows "dir_moves P d d'"
proof (cases "\<exists>tok. hello = Inr (Rq_Hello tok)")
  case True
  then obtain tok where h: "hello = Inr (Rq_Hello tok)" by blast
  obtain peer d1 where a: "dir_admit P R W caller tok (tu_clock tu 1) d = (peer, d1)" by fastforce
  let ?d = "tu_others tu 2 d1"
  obtain b d2 where t: "slot_trade ?d = (b, d2)" by fastforce
  have "dir_moves P d d1" using dir_admit_moves[OF a] .
  then have m: "dir_moves P d ?d" using others_moves[OF assms(2)] by (rule dir_moves_trans)
  have "dir_moves P ?d d'"
  proof (cases "peer_admitted peer")
    case True
    have "dir_moves P d2 d'"
      using assms(3) h a t True take_request_moves[OF assms(1,2)] by (cases b) (auto simp: take_hello_def Let_def)
    with slot_trade_moves[OF t] show ?thesis by (rule dir_moves_trans)
  next
    case False
    then show ?thesis
      using assms(3) h a take_request_moves[OF assms(1,2)] by (auto simp: take_hello_def Let_def)
  qed
  with m show ?thesis by (rule dir_moves_trans)
next
  case False
  then show ?thesis using assms(3) by (auto simp: take_hello_def split: sum.splits directory_request.splits)
qed

lemma one_request_moves:
  assumes "dir_laws P" "turns_ok P tu" "one_request P R W tu caller r d = (as, d')"
  shows "dir_moves P d d'"
proof -
  obtain hello rest where x: "read_hello P r = (hello, rest)" by fastforce
  let ?d = "tu_others tu 0 d"
  obtain hello2 rest2 where y: "read_hello P rest = (hello2, rest2)" by fastforce
  obtain as2 d2 where z: "take_hello P R W tu caller hello2 rest2 (tu_others tu 1 ?d) = (as2, d2)" by fastforce
  have "dir_moves P ?d d2"
    using others_moves[OF assms(2)] take_hello_moves[OF assms(1,2) z] by (rule dir_moves_trans)
  moreover have "d' = d2 \<or> d' = slot_drop Undecided_slot ?d \<or> take_hello P R W tu caller hello rest ?d = (as, d')"
    using assms(3) x y z by (auto simp: one_request_def Let_def split: if_splits sum.splits)
  ultimately have "dir_moves P ?d d'" using take_hello_moves[OF assms(1,2)] slot_drop_moves by metis
  with others_moves[OF assms(2)] show ?thesis by (rule dir_moves_trans)
qed

lemma dir_connection_moves:
  assumes "dir_laws P" "turns_ok P tu" "dir_connection P R W tu caller stream d = (as, d')"
  shows "dir_moves P d d'"
proof (cases "undecided_take d")
  case None
  then show ?thesis using assms(3) by (simp add: dir_connection_def)
next
  case (Some d1)
  then have "dir_moves P d1 d'"
    using assms(3) one_request_moves[OF assms(1,2)] by (cases stream) (auto simp: dir_connection_def)
  with undecided_take_moves[OF Some] show ?thesis by (rule dir_moves_trans)
qed

lemma subscriber_moves: "subscriber_take d = Some d' \<Longrightarrow> dir_moves P d d'" "dir_moves P d (subscriber_drop d)"
  by (rule dir_moves_same; auto simp: subscriber_take_def subscriber_drop_def split: if_splits)+

lemma sub_open_moves:
  assumes "turns_ok P tu" "sub_open P R W tu caller stream d = (res, d')"
  shows "dir_moves P d d'"
proof (cases "undecided_take d")
  case None
  then show ?thesis using assms(2) by (simp add: sub_open_def)
next
  case (Some d1)
  note m1 = undecided_take_moves[OF Some, of P]
  let ?d = "tu_others tu 0 d1"
  note m2 = dir_moves_trans[OF m1 others_moves[OF assms(1), of d1 0]]
  note drop = dir_moves_trans[OF _ slot_drop_moves]
  show ?thesis
  proof (cases "\<exists>r tok rest. stream = Some r \<and> read_sub_request P r = (Inr (Sq_Hello tok), rest)")
    case False
    then have "d' = slot_drop Undecided_slot d1 \<or> d' = slot_drop Undecided_slot ?d"
      using assms(2) Some
      by (auto simp: sub_open_def split: option.splits prod.splits sum.splits sub_request.splits)
    then show ?thesis using drop[OF m1] drop[OF m2] by auto
  next
    case True
    then obtain r tok rest where r: "stream = Some r" "read_sub_request P r = (Inr (Sq_Hello tok), rest)" by blast
    obtain peer d2 where a: "dir_admit P R W caller tok (tu_clock tu 0) ?d = (peer, d2)" by fastforce
    let ?d3 = "tu_others tu 1 d2"
    obtain b d4 where t: "slot_trade ?d3 = (b, d4)" by fastforce
    let ?d5 = "slot_drop Admitted_slot (tu_others tu 2 d4)"
    note m3 = dir_moves_trans[OF dir_moves_trans[OF m2 dir_admit_moves[OF a]] others_moves[OF assms(1), of d2 1]]
    note m4 = dir_moves_trans[OF m3 slot_trade_moves[OF t]]
    note m5 = drop[OF dir_moves_trans[OF m4 others_moves[OF assms(1), of d4 2]]]
    have "d' \<in> {slot_drop Undecided_slot ?d3, d4, ?d5} \<or> subscriber_take ?d5 = Some d'"
      using assms(2) Some r a t
      by (auto simp: sub_open_def Let_def split: bool.splits sum.splits sub_request.splits if_splits option.splits)
    then show ?thesis
      using drop[OF m3] m4 m5 dir_moves_trans[OF m5 subscriber_moves(1)] by blast
  qed
qed

end
