(* ===== verification/Caller_Rules.thy ===== *)
theory Caller_Rules
  imports Caller_Session Directory_Rules
begin

text \<open>
  Laws of the caller's operations: what learning words, checking a host and asking directories change,
  and what each lets through.
\<close>

section \<open>Learning words\<close>

lemma hv_learn_view: "hv_view (hv_learn P now f h) = hv_view h"
  by (simp add: hv_learn_def split: sum.split)

lemma hv_learn_all_view: "hv_view (hv_learn_all P ws now h) = hv_view h"
  unfolding hv_learn_all_def by (induction ws arbitrary: h) (simp_all add: hv_learn_view)

section \<open>A vouching whose views are the root's\<close>

definition refresher_ok :: "prims \<Rightarrow> node_id \<Rightarrow> refresher \<Rightarrow> bool" where
  "refresher_ok P root r \<longleftrightarrow> (\<forall>st h st'. r st = (Inr h, st') \<longrightarrow> view_verify P (hv_view h) root = Inr ())"

definition vouch_ok :: "prims \<Rightarrow> vouching \<Rightarrow> bool" where
  "vouch_ok P v \<longleftrightarrow> view_verify P (hv_view (vo_held v)) (vo_root v) = Inr ()
     \<and> (case vo_refresher v of None \<Rightarrow> True | Some r \<Rightarrow> refresher_ok P (vo_root v) r)"

definition same_vouching :: "vouching \<Rightarrow> vouching \<Rightarrow> bool" where
  "same_vouching v v' \<longleftrightarrow> vo_root v' = vo_root v \<and> vo_scope v' = vo_scope v \<and> vo_refresher v' = vo_refresher v
     \<and> vo_known v' = vo_known v"

lemma same_vouching_trans: "same_vouching a b \<Longrightarrow> same_vouching b c \<Longrightarrow> same_vouching a c"
  by (simp add: same_vouching_def)

lemma vouch_learn_same:
  "same_vouching v (fst (vouch_learn P f h now (v, st))) \<and> hv_view (vo_held (fst (vouch_learn P f h now (v, st)))) = hv_view (vo_held v)"
  by (simp add: vouch_learn_def same_vouching_def hv_learn_all_view)

lemma vouch_settle_same:
  assumes "vouch_settle P host pf now b (v, st) = (r, v', st')"
  shows "same_vouching v v' \<and> hv_view (vo_held v') = hv_view (vo_held v)"
proof -
  have "v' = v \<or> (\<exists>f. v' = fst (vouch_learn P f (hp_head pf) now (v, st)))"
    using assms by (auto simp: vouch_settle_def split: if_splits sum.splits) (metis fst_conv)+
  then show ?thesis using vouch_learn_same by (auto simp: same_vouching_def)
qed

lemma vouch_settle_Inr:
  assumes "vouch_settle P host pf now True (v, st) = (Inr (), v', st')"
  shows "vouch_serves v host \<and> (\<forall>f. proof_vouching P pf host now = Inr f \<longrightarrow> vouch_takes v f host)"
  using assms by (auto simp: vouch_settle_def split: if_splits sum.splits)

lemma vouch_refresh_same:
  assumes "vouch_refresh_to P ver (v, st) = (r, v', st')"
  shows "same_vouching v v' \<and> (vouch_ok P v \<longrightarrow> vouch_ok P v')"
proof (cases "vo_refresher v")
  case None
  then show ?thesis using assms by (auto simp: vouch_refresh_to_def Let_def same_vouching_def)
next
  case (Some rf)
  then obtain q st1 where q: "rf (vouch_note_newer P v ver st) = (q, st1)" by fastforce
  then have "view_verify P (hv_view h) (vo_root v) = Inr ()" if "q = Inr h" "refresher_ok P (vo_root v) rf" for h
    using that by (auto simp: refresher_ok_def)
  then show ?thesis
    using assms Some q by (cases q) (auto simp: vouch_refresh_to_def Let_def same_vouching_def vouch_ok_def)
qed

lemma vouch_ok_same:
  "same_vouching v v' \<Longrightarrow> hv_view (vo_held v') = hv_view (vo_held v) \<Longrightarrow> vouch_ok P v \<Longrightarrow> vouch_ok P v'"
  by (auto simp: vouch_ok_def same_vouching_def split: option.splits)

lemma vouch_check_same:
  assumes "vouch_check P host pf now b (v, st) = (r, v', st')"
  shows "same_vouching v v' \<and> (vouch_ok P v \<longrightarrow> vouch_ok P v')"
proof -
  have s: "same_vouching w v' \<and> (vouch_ok P w \<longrightarrow> vouch_ok P v')"
    if "vouch_settle P host pf' now b' (w, t) = (r, v', st')" for pf' w t b'
    using vouch_settle_same[OF that] vouch_ok_same by blast
  have refl: "same_vouching v v" by (simp add: same_vouching_def)
  have w: "same_vouching v w \<and> (vouch_ok P v \<longrightarrow> vouch_ok P w)" if "vouch_refresh_to P ver (v, st) = (x, w, t)" for ver x w t
    using vouch_refresh_same[OF that] .
  show ?thesis
    using assms refl unfolding vouch_check_def Let_def
    by (auto split: if_splits sum.splits standing.splits prod.splits dest!: s w intro: same_vouching_trans)
qed

text \<open>What the check stands on when it lets the caller speak.\<close>

definition host_vouched :: "prims \<Rightarrow> vouching \<Rightarrow> signed_head \<Rightarrow> fresh \<Rightarrow> node_id \<Rightarrow> i64 \<Rightarrow> bool" where
  "host_vouched P v head f host now \<longleftrightarrow> vouch_serves v host \<and> h_version (sh_head head) = vouch_version v
     \<and> head_hash P head = head_hash P (vw_head (hv_view (vo_held v)))
     \<and> fresh_vouches P f head host now = Inr () \<and> vouch_takes v f host"

lemma vouch_ready_vouched:
  assumes "vouch_ready P v host now"
  shows "\<exists>f. host_vouched P v (vw_head (hv_view (vo_held v))) f host now"
  using assms by (auto simp: vouch_ready_def host_vouched_def vouch_version_def hv_version_def fs_vouching_def find_Some_iff is_ok_iff
      split: option.splits)

lemma proof_vouching_vouches: "proof_vouching P pf host now = Inr f \<Longrightarrow> fresh_vouches P f (hp_head pf) host now = Inr ()"
  by (auto simp: proof_vouching_def vouching_from_Inr find_Some_iff is_ok_iff)

lemma settled_vouched:
  assumes "proof_check P pf (vo_root v) (vw_head (hv_view (vo_held v))) host now = Inr Same"
    "vouch_settle P host pf now True (v, st) = (Inr (), v', st')"
  shows "head_verify P (vo_root v') (hp_head pf) = Inr () \<and> (\<exists>f. host_vouched P v' (hp_head pf) f host now)"
proof -
  note s = vouch_settle_same[OF assms(2)]
  note c = assms(1)[unfolded proof_check_Inr]
  obtain f where f: "proof_vouching P pf host now = Inr f" using c proof_vouching_Inr by blast
  have "vouch_serves v' host" "vouch_takes v' f host"
    using vouch_settle_Inr[OF assms(2)] f s
    by (auto simp: vouch_serves_def vouch_takes_def same_vouching_def hv_entry_def split: scope.splits option.splits)
  then show ?thesis
    using c s proof_vouching_vouches[OF f]
    by (auto simp: host_vouched_def vouch_version_def hv_version_def same_vouching_def split: if_splits)
qed

lemma vouch_check_vouched:
  assumes "vouch_check P host pf now True (v, st) = (Inr (), v', st')"
  shows "head_verify P (vo_root v') (hp_head pf) = Inr () \<and> (\<exists>f. host_vouched P v' (hp_head pf) f host now)"
  using assms settled_vouched unfolding vouch_check_def Let_def
  by (auto split: sum.splits standing.splits prod.splits if_splits)

section \<open>Speaking\<close>

lemma link_send_sent: "link_send P l i fs = (sent, ok) \<Longrightarrow> \<forall>f \<in> set sent. f \<in> set fs"
  by (induction fs arbitrary: i sent ok) (fastforce split: if_splits prod.splits)+

lemma speak_at_once:
  assumes "speak P host tok asked l (v, st) = (r, sent, n, v', st')" "vouch_ready P v host (hl_clock l 0)"
  shows "same_vouching v v' \<and> (vouch_ok P v \<longrightarrow> vouch_ok P v') \<and> (\<forall>f \<in> set sent. \<exists>h. f = Hello h \<or> f = Invoke asked)"
proof -
  obtain fs ok where s: "link_send P l 0 [Hello \<lparr> he_state_version = vouch_version v, he_id_token = tok \<rparr>, Invoke asked] = (fs, ok)"
    by fastforce
  have fs: "\<forall>f \<in> set fs. \<exists>h. f = Hello h \<or> f = Invoke asked" using link_send_sent[OF s] by auto
  have refl: "same_vouching v v" by (simp add: same_vouching_def)
  show ?thesis
    using assms(1) fs refl unfolding speak_def Let_def
    by (auto simp: assms(2) s simp del: link_send.simps split: bool.splits sum.splits option.splits frame.splits prod.splits
        check_failure.splits dest!: vouch_check_same)
qed

lemma speak_after:
  assumes "speak P host tok asked l (v, st) = (r, sent, n, v', st')" "\<not> vouch_ready P v host (hl_clock l 0)"
  shows "same_vouching v v' \<and> (vouch_ok P v \<longrightarrow> vouch_ok P v') \<and> (\<forall>f \<in> set sent. \<exists>h. f = Open \<or> f = Hello h \<or> f = Invoke asked)
    \<and> (set sent \<subseteq> {Open} \<and> r \<noteq> Inr () \<or> (\<exists>pf. vouch_check P host pf (hl_clock l 1) True (v, st) = (Inr (), v', st')))"
proof -
  obtain fs ok where s: "link_send P l 0 [Open] = (fs, ok)" by fastforce
  have fs: "\<forall>f \<in> set fs. f = Open" using link_send_sent[OF s] by simp
  have refl: "same_vouching v v" by (simp add: same_vouching_def)
  have sent: "\<forall>f \<in> set fs. (\<exists>h. f = Hello h) \<or> f = Invoke asked" if "link_send P l i [Hello h, Invoke asked] = (fs, ok)" for h i fs ok
    using link_send_sent[OF that] by auto
  show ?thesis
    using assms(1) fs refl unfolding speak_def Let_def
    by (auto simp: assms(2) s simp del: link_send.simps split: bool.splits sum.splits option.splits frame.splits prod.splits
        check_failure.splits dest: vouch_check_same dest!: sent)
qed

lemma converse_sent:
  assumes "converse P on_ack chunks l sent n = (x, stdin, out, err)"
  shows "(\<forall>f \<in> set stdin. \<exists>c. f = Stdin c) \<and> (stdin \<noteq> [] \<longrightarrow> (\<exists>ack. on_ack ack = Inr ()))"
  using assms by (auto simp: converse_def Let_def split: sum.splits option.splits frame.splits prod.splits)

text \<open>As the call left the vouching, or with words learned and a view fetched since.\<close>

definition told_rightly :: "prims \<Rightarrow> vouching \<Rightarrow> node_id \<Rightarrow> bool" where
  "told_rightly P v host \<longleftrightarrow>
     (\<exists>u head w now. same_vouching v u \<and> vouch_ok P u \<and> host_vouched P u head w host now)"

lemma speak_told:
  assumes "speak P host tok asked l (v, st) = (r, sent, n, v', st')"
  shows "same_vouching v v'" "vouch_ok P v \<Longrightarrow> vouch_ok P v'"
    "f \<in> set sent \<Longrightarrow> f \<noteq> Stdin c"
    "f \<in> set sent \<Longrightarrow> f \<noteq> Open \<Longrightarrow> vouch_ok P v \<Longrightarrow>
       told_rightly P v host"
    "r = Inr () \<Longrightarrow> vouch_ok P v \<Longrightarrow> told_rightly P v host"
proof -
  consider (ready) "vouch_ready P v host (hl_clock l 0)" | (after) "\<not> vouch_ready P v host (hl_clock l 0)" by blast
  note cs = this
  show "same_vouching v v'" "vouch_ok P v \<Longrightarrow> vouch_ok P v'" "f \<in> set sent \<Longrightarrow> f \<noteq> Stdin c"
    using speak_at_once[OF assms] speak_after[OF assms] by fastforce+
  have "told_rightly P v host" if spoke: "f \<in> set sent \<and> f \<noteq> Open \<or> r = Inr ()" "vouch_ok P v"
  proof (cases rule: cs)
    case ready
    then show ?thesis using vouch_ready_vouched spoke(2) by (force simp: same_vouching_def told_rightly_def)
  next
    case after
    then obtain pf where chk: "vouch_check P host pf (hl_clock l 1) True (v, st) = (Inr (), v', st')"
      using speak_after[OF assms after] spoke(1) by blast
    obtain w where "host_vouched P v' (hp_head pf) w host (hl_clock l 1)" using vouch_check_vouched[OF chk] by blast
    then show ?thesis using vouch_check_same[OF chk] spoke(2) unfolding told_rightly_def by blast
  qed
  then show "f \<in> set sent \<Longrightarrow> f \<noteq> Open \<Longrightarrow> vouch_ok P v \<Longrightarrow> told_rightly P v host"
    "r = Inr () \<Longrightarrow> vouch_ok P v \<Longrightarrow> told_rightly P v host" by blast+
qed

lemma told_rightly_same: "same_vouching a b \<Longrightarrow> told_rightly P b h \<Longrightarrow> told_rightly P a h"
  unfolding told_rightly_def using same_vouching_trans by blast

lemma call_told:
  assumes "call_service_on P dials tok asked on_ack chunks fails hosts (vo, st) = (x, told, vo', st')" "vouch_ok P vo"
    "(host, sent) \<in> set told"
  shows "host \<in> set hosts
    \<and> (\<forall>f \<in> set sent. f \<noteq> Open \<longrightarrow> told_rightly P vo host)
    \<and> (\<forall>c. Stdin c \<in> set sent \<longrightarrow> (\<exists>held ack. on_ack host held ack = Inr ()))"
  using assms
proof (induction hosts arbitrary: fails vo st x told vo' st')
  case (Cons h hosts)
  show ?case
  proof (cases "dials h")
    case No_answer
    then show ?thesis using Cons.IH[of _ vo st] Cons.prems by auto
  next
    case (Connected l)
    obtain r fs n v1 st1 where s: "speak P h tok asked l (vo, st) = (r, fs, n, v1, st1)" by (metis surj_pair)
    note t = speak_told[OF s]
    have first: "(\<forall>f \<in> set fs. f \<noteq> Open \<longrightarrow> told_rightly P vo h)"
      using t(4) Cons.prems(2) by blast
    have std: "Stdin c \<notin> set fs" for c using t(3) by blast
    obtain y stdin out err where c: "converse P (on_ack h (vouch_version v1)) chunks l fs n = (y, stdin, out, err)" by (metis surj_pair)
    note cv = converse_sent[OF c]
    show ?thesis
    proof (cases "\<exists>why. r = Inl (Sp_unvouched why)")
      case True
      then obtain why where r: "r = Inl (Sp_unvouched why)" by blast
      obtain x1 told1 vo1 st1' where rec: "call_service_on P dials tok asked on_ack chunks (fails @ [(h, Some why)]) hosts (v1, st1)
          = (x1, told1, vo1, st1')" by (metis surj_pair)
      then have told: "told = (h, fs) # told1" using Cons.prems(1) Connected s r by simp
      show ?thesis
      proof (cases "(host, sent) \<in> set told1")
        case True
        from Cons.IH[OF rec t(2)[OF Cons.prems(2)] True] show ?thesis
          using told_rightly_same[OF t(1)] by auto
      next
        case False
        then have "host = h" "sent = fs" using told Cons.prems(3) by auto
        then show ?thesis using first std by auto
      qed
    next
      case False
      then have one: "told = [(h, fs)] \<or> (told = [(h, fs @ stdin)] \<and> r = Inr ())"
        using Cons.prems(1) Connected s c by (auto split: sum.splits speak_error.splits)
      show ?thesis
      proof (cases "sent = fs")
        case True
        then show ?thesis using one Cons.prems(3) first std by auto
      next
        case False
        then have e: "host = h" "sent = fs @ stdin" "r = Inr ()" using one Cons.prems(3) by auto
        have ok: "told_rightly P vo h"
          using t(5)[OF e(3) Cons.prems(2)] .
        then show ?thesis using e cv std by fastforce
      qed
    qed
  qed
qed simp

lemma vouch_serves_entry:
  assumes "vouch_serves v host"
  shows "\<exists>e \<in> set (vw_entries (hv_view (vo_held v))). host \<in> set (sv_hosts (se_service e))
    \<and> (vo_scope v = Any_service \<or> vo_scope v = Scope_service (se_name e))"
  using assms
  by (auto simp: vouch_serves_def hv_entry_def view_entry_def find_Some_iff list_ex_iff split: scope.splits option.splits)

end
