(* ===== verification/Session_Rules.thy ===== *)
theory Session_Rules
  imports Host_Session Caller_Rules
begin

text \<open>
  Laws of a session: what its frames read back as, on either side, and what a session that ran a
  service, or that said anything at all, must have gone through.
\<close>

section \<open>Frames that are sent are read\<close>

definition frame_fits :: "prims \<Rightarrow> nat \<Rightarrow> frame \<Rightarrow> bool" where
  "frame_fits P cap f \<longleftrightarrow> frame_ok f \<and> length (frame_payload P f) \<le> cap"

lemma frame_fits_mono: "frame_fits P a f \<Longrightarrow> a \<le> b \<Longrightarrow> frame_fits P b f"
  by (simp add: frame_fits_def)

lemma frames_bytes_simps [simp]:
  "frames_bytes P [] = []" "frames_bytes P (fs @ gs) = frames_bytes P fs @ frames_bytes P gs"
  by (simp_all add: frames_bytes_def)

lemma frame_fits_encodes:
  assumes "frame_fits P cap f" "cap \<le> max_frame"
  shows "frame_encode P f = Inr (be32 (length (frame_payload P f)) @ frame_payload P f)"
proof -
  have "length (frame_payload P f) < 2 ^ 32" using assms by (simp add: frame_fits_def max_frame_def)
  then show ?thesis by (simp add: frame_encode_def length_prefixed_def)
qed

lemma read_frames_bytes:
  assumes "json_law P" "hex_law P" "frame_fits P cap f" "cap \<le> max_frame"
  shows "read_frame_within P cap (frames_bytes P (f # fs) @ rest) = (Inr (Some f), frames_bytes P fs @ rest)"
proof -
  let ?b = "be32 (length (frame_payload P f)) @ frame_payload P f"
  have e: "frame_encode P f = Inr ?b" by (rule frame_fits_encodes[OF assms(3,4)])
  have "frame_ok f" using assms(3) by (simp add: frame_fits_def)
  from session.roundtrip[of P f, OF _ e] this assms(1,2)
  have d: "frame_decode P ?b = Inr (Some (f, length ?b))" by simp
  have n: "length (frame_payload P f) < 2 ^ 32" "length (frame_payload P f) \<le> cap"
    using assms(3,4) by (auto simp: frame_fits_def max_frame_def)
  have "read_capped cap (frame_decode P) (?b @ frames_bytes P fs @ rest) = (Inr (Some f), frames_bytes P fs @ rest)"
    using read_capped_encoded[where decode = "frame_decode P" and f = f and b = ?b and body = "frame_payload P f", OF d refl refl n] by simp
  moreover have "frames_bytes P (f # fs) = ?b @ frames_bytes P fs" by (simp add: frames_bytes_def e)
  ultimately show ?thesis by (simp add: read_frame_within_def)
qed

lemma read_nothing: "read_frame_within P cap [] = (Inr None, [])"
  by (simp add: read_frame_within_def read_capped_def)

lemma session_stdin_frames:
  assumes "json_law P" "hex_law P" "\<forall>c \<in> set cs. length c < max_frame"
  shows "session_stdin P (frames_bytes P (map Stdin cs)) = concat cs"
  using assms(3)
proof (induction cs)
  case Nil
  then show ?case by (subst session_stdin.simps) (simp add: read_frame_def read_nothing)
next
  case (Cons c cs)
  have "frame_fits P max_frame (Stdin c)" using Cons.prems by (simp add: frame_fits_def frame_payload_def)
  from read_frames_bytes[OF assms(1,2) this, of "map Stdin cs" "[]"]
  have "read_frame P (frames_bytes P (map Stdin (c # cs))) = (Inr (Some (Stdin c)), frames_bytes P (map Stdin cs))"
    by (simp add: read_frame_def)
  then show ?case using Cons by (subst session_stdin.simps) simp
qed

lemma output_frame_simps [simp]:
  "output_frame (e, c) = (if e then Stderr c else Stdout c)"
  by (simp add: output_frame_def)

definition out_of :: "(bool \<times> bytes) list \<Rightarrow> bool \<Rightarrow> bytes" where
  "out_of ocs e = concat (map snd (filter (\<lambda>oc. fst oc = e) ocs))"

lemma session_output_frames:
  assumes "json_law P" "hex_law P" "\<forall>oc \<in> set ocs. length (snd oc) < max_frame"
  shows "session_output P (frames_bytes P (map output_frame ocs @ [Exit c])) = (Inr c, out_of ocs False, out_of ocs True)"
  using assms(3)
proof (induction ocs)
  case Nil
  have "frame_fits P max_frame (Exit c)" by (simp add: frame_fits_def frame_payload_def be32_def max_frame_def)
  from read_frames_bytes[OF assms(1,2) this, of "[]" "[]"]
  have "read_frame P (frames_bytes P [Exit c]) = (Inr (Some (Exit c)), [])" by (simp add: read_frame_def)
  then show ?case by (subst session_output.simps) (simp add: out_of_def)
next
  case (Cons oc ocs)
  have "frame_fits P max_frame (output_frame oc)"
    using Cons.prems by (simp add: frame_fits_def frame_payload_def output_frame_def)
  from read_frames_bytes[OF assms(1,2) this, of "map output_frame ocs @ [Exit c]" "[]"]
  have "read_frame P (frames_bytes P (map output_frame (oc # ocs) @ [Exit c]))
      = (Inr (Some (output_frame oc)), frames_bytes P (map output_frame ocs @ [Exit c]))"
    by (simp add: read_frame_def)
  then show ?case using Cons by (subst session_output.simps) (cases oc; simp add: out_of_def del: frames_bytes_simps)
qed

section \<open>A session that ran\<close>

definition session_decided :: "prims \<Rightarrow> session_world \<Rightarrow> node_id \<Rightarrow> held \<Rightarrow> services_host \<Rightarrow> hello \<Rightarrow> invocation
    \<Rightarrow> services_host \<Rightarrow> verified \<Rightarrow> admitted \<Rightarrow> implementation \<Rightarrow> bool" where
  "session_decided P tw caller state h1 hello asked h2 v ad impl \<longleftrightarrow>
     admit_caller P (sw_ring tw) (sw_web tw) state caller (he_id_token hello) (sw_clock tw 1) h1 = (Inr v, h2)
     \<and> gate_admit state (gh_config h2) (gh_me h2) caller v (iv_service asked) (sw_clock tw 1) = Inr ad
     \<and> host_implementation h2 (iv_service asked) = Some impl"

lemma decide_session_ran:
  assumes "decide_session P tw child caller state hello asked r said (h, caps) = (res, h', caps')"
    "sr_ran res = Some l"
  shows "\<exists>v ad impl run g. session_decided P tw caller state h hello asked h' v ad impl
     \<and> launch P tw caller ad asked impl = Some (l, g) \<and> child l (session_stdin P r) = Some run
     \<and> writes P tw 1 (session_ack state hello (iv_service asked) (ad_version ad))
     \<and> sr_said res = said @ Said (session_ack state hello (iv_service asked) (ad_version ad))
          # map Said (map output_frame (cr_output run) @ [Exit (cr_exit run)])
     \<and> sr_log res = [Call_finished (iv_service asked) caller (vf_principal (ad_caller ad)) (ad_role ad) (cr_exit run)
          (sum_list (map (\<lambda>oc. length (snd oc)) (cr_output run)))]"
  using assms unfolding decide_session_def session_decided_def run_session_def refuse_session_def gate_decide_def bridge_def
  by (auto simp: Let_def map_err_Inr_iff map_err_def split: prod.splits sum.splits option.splits if_splits)

definition session_opened :: "prims \<Rightarrow> session_world \<Rightarrow> bytes \<Rightarrow> hello \<Rightarrow> invocation \<Rightarrow> bytes \<Rightarrow> bool" where
  "session_opened P tw r hello asked rest \<longleftrightarrow> (\<exists>r1.
     read_session_opening P (sw_closed tw) r = (Op_frame (Hello hello), r1)
     \<and> read_invocation P (sw_closed tw) r1 = (Inr asked, rest))"

definition opening_proof :: "prims \<Rightarrow> session_world \<Rightarrow> held \<Rightarrow> services_host \<Rightarrow> frame" where
  "opening_proof P tw state h = Proof (fresh_proof P (gh_freshness h) (sp_head (hd_signed state)) (sw_clock tw 0))"

lemma serve_session_opened:
  assumes "host_policy P h = (Inr state, h0)" "writes P tw 0 (opening_proof P tw state h0)"
    "session_opened P tw r hello asked rest"
  shows "serve_session P tw child caller r (h, caps)
    = decide_session P tw child caller state hello asked rest [Said (opening_proof P tw state h0)] (sw_others tw 0 h0, caps)"
  using assms by (auto simp: serve_session_def session_opened_def opening_proof_def Let_def read_hello_frame_def)

text \<open>How a session can go: not before a policy, not before its proof, not without both opening
  frames, or as it is decided.\<close>

lemma serve_session_cases:
  assumes "serve_session P tw child caller r (h, caps) = (res, h', caps')"
  obtains
    (misconfigured) e where "host_policy P h = (Inl e, h')" "res = refuse_session [] [] Misconfigured" "caps' = caps"
  | (unsent) state where "host_policy P h = (Inr state, h')" "\<not> writes P tw 0 (opening_proof P tw state h')"
      "res = \<lparr> sr_said = [], sr_log = [], sr_ran = None, sr_end = End_failed \<rparr>" "caps' = caps"
  | (unopened) state h0 why where "host_policy P h = (Inr state, h0)" "h' = sw_others tw 0 h0"
      "why \<in> {First_not_hello, Closed_before_hello, Unreadable_hello, Hello_timed_out, Invoke_required}"
      "\<And>hello asked rest. \<not> session_opened P tw r hello asked rest"
      "res = refuse_session [Said (opening_proof P tw state h0)] [] why" "caps' = caps"
  | (opened) state h0 hello asked rest where "host_policy P h = (Inr state, h0)"
      "writes P tw 0 (opening_proof P tw state h0)" "session_opened P tw r hello asked rest"
      "decide_session P tw child caller state hello asked rest [Said (opening_proof P tw state h0)]
         (sw_others tw 0 h0, caps) = (res, h', caps')"
proof (cases "host_policy P h")
  case (Pair a h0)
  show thesis
  proof (cases a)
    case (Inl e)
    then show thesis using misconfigured assms Pair by (simp add: serve_session_def)
  next
    case (Inr state)
    show thesis
    proof (cases "writes P tw 0 (opening_proof P tw state h0)")
      case False
      then show thesis using unsent assms Pair Inr by (simp add: serve_session_def opening_proof_def Let_def)
    next
      case True
      obtain first r1 where o: "read_session_opening P (sw_closed tw) r = (first, r1)" by fastforce
      show thesis
      proof (cases "read_hello_frame first")
        case (Inl why)
        then have "why \<in> {First_not_hello, Closed_before_hello, Unreadable_hello, Hello_timed_out, Invoke_required}"
          by (auto simp: read_hello_frame_def split: opening_read.splits frame.splits)
        moreover have "\<not> session_opened P tw r hello asked rest" for hello asked rest
          using o Inl by (auto simp: session_opened_def read_hello_frame_def)
        ultimately show thesis
          using unopened[of state h0 why] assms Pair \<open>a = Inr state\<close> True o Inl by (simp add: serve_session_def opening_proof_def Let_def)
      next
        case (Inr hello)
        then have first: "first = Op_frame (Hello hello)"
          by (auto simp: read_hello_frame_def split: opening_read.splits frame.splits)
        obtain i rest where i: "read_invocation P (sw_closed tw) r1 = (i, rest)" by fastforce
        show thesis
        proof (cases i)
          case (Inl why)
          then have "why = Invoke_required"
            using i by (auto simp: read_invocation_def split: prod.splits opening_read.splits frame.splits)
          moreover have "\<not> session_opened P tw r hello asked rest" for hello asked rest
            using o i Inl by (auto simp: session_opened_def)
          ultimately show thesis
            using unopened[of state h0 why] assms Pair \<open>a = Inr state\<close> True o Inr Inl i first
            by (simp add: serve_session_def opening_proof_def Let_def)
        next
          case (Inr asked)
          then have op: "session_opened P tw r hello asked rest" using o i first by (simp add: session_opened_def)
          have pol: "host_policy P h = (Inr state, h0)" using Pair \<open>a = Inr state\<close> by simp
          show thesis
            using opened[OF pol True op] serve_session_opened[OF pol True op, of child caller caps] assms by simp
        qed
      qed
    qed
  qed
qed

lemma serve_session_ran:
  assumes "serve_session P tw child caller r (h, caps) = (res, h', caps')" "sr_ran res = Some l"
  obtains state h0 hello asked rest v ad impl run g where
    "host_policy P h = (Inr state, h0)" "session_opened P tw r hello asked rest"
    "session_decided P tw caller state (sw_others tw 0 h0) hello asked h' v ad impl"
    "launch P tw caller ad asked impl = Some (l, g)" "child l (session_stdin P rest) = Some run"
    "sr_said res = Said (opening_proof P tw state h0)
        # Said (session_ack state hello (iv_service asked) (ad_version ad))
        # map Said (map output_frame (cr_output run) @ [Exit (cr_exit run)])"
    "sr_log res = [Call_finished (iv_service asked) caller (vf_principal (ad_caller ad)) (ad_role ad) (cr_exit run)
        (sum_list (map (\<lambda>oc. length (snd oc)) (cr_output run)))]"
  using assms(1)
proof (cases rule: serve_session_cases)
  case (opened state h0 hello asked rest)
  from decide_session_ran[OF opened(4) assms(2)] opened(1,3) that show thesis by auto
qed (use assms(2) in \<open>simp_all add: refuse_session_def\<close>)

section \<open>Opening frames\<close>

lemma read_opening_frame:
  assumes "json_law P" "hex_law P" "frame_fits P cap f" "cap \<le> max_frame"
  shows "read_opening_within P c cap (frames_bytes P (f # fs)) = (Op_frame f, frames_bytes P fs)"
  using read_frames_bytes[OF assms, of fs "[]"] by (simp add: read_opening_within_def)

lemma opening_caps: "max_hello_frame \<le> max_frame" "max_invoke_frame \<le> max_frame"
  by (simp_all add: max_hello_frame_def max_frame_def max_invoke_frame_def max_argv_bytes_def)

lemma session_opens:
  assumes "json_law P" "hex_law P" "frame_fits P max_hello_frame (Hello hello)" "frame_fits P max_invoke_frame (Invoke asked)"
  shows "session_opened P tw (frames_bytes P ((if b then [Open] else []) @ [Hello hello, Invoke asked] @ fs)) hello asked
    (frames_bytes P fs)"
proof -
  note rd = read_opening_frame[OF assms(1,2)]
  have o: "frame_fits P max_hello_frame Open" by (simp add: frame_fits_def frame_payload_def max_hello_frame_def)
  define r where "r = frames_bytes P ([Hello hello, Invoke asked] @ fs)"
  have h: "read_opening_within P c max_hello_frame r = (Op_frame (Hello hello), frames_bytes P (Invoke asked # fs))" for c
    unfolding r_def using rd[OF assms(3) opening_caps(1)] by simp
  have "frames_bytes P ((if b then [Open] else []) @ [Hello hello, Invoke asked] @ fs)
      = (if b then frames_bytes P (Open # ([Hello hello, Invoke asked] @ fs)) else r)"
    by (simp add: r_def frames_bytes_def)
  moreover have "read_opening_within P c max_hello_frame (frames_bytes P (Open # ([Hello hello, Invoke asked] @ fs))) = (Op_frame Open, r)" for c
    unfolding r_def using rd[OF o opening_caps(1)] .
  ultimately have "read_session_opening P c (frames_bytes P ((if b then [Open] else []) @ [Hello hello, Invoke asked] @ fs))
      = (Op_frame (Hello hello), frames_bytes P (Invoke asked # fs))" for c
    by (simp only: read_session_opening_def h prod.case opening_read.case frame.case if_True if_False split: if_split) simp
  moreover have "read_invocation P c (frames_bytes P (Invoke asked # fs)) = (Inr asked, frames_bytes P fs)" for c
    unfolding read_invocation_def rd[OF assms(4) opening_caps(2)] by simp
  ultimately show ?thesis by (simp only: session_opened_def) blast
qed

end
