(* ===== verification/Demo_Primitives.thy ===== *)
theory Demo_Primitives
  imports Directory_Rules
begin

text \<open>
  Primitives for the witnesses that need frames short enough to be sent: those of \<open>demo_idp\<close> with a
  table of values that print as one byte each, and hashes that do not depend on what is printed.
\<close>

definition table_prims :: "json list \<Rightarrow> prims" where
  "table_prims vs = demo_idp \<lparr>
     blake3 := (\<lambda>_. 0), blake3_derive := (\<lambda>c b. if c = oidc_nonce_context then word_of_nat (nat_be b) else 0),
     print_json := (\<lambda>v. case position (\<lambda>w. w = v) (take 8 vs) of
         Some i \<Rightarrow> [word_of_nat (16 + i)] | None \<Rightarrow> print_json demo_idp v),
     parse_json := (\<lambda>b. case b of
         [w] \<Rightarrow> if 16 \<le> unat w \<and> unat w - 16 < length (take 8 vs) then Some (take 8 vs ! (unat w - 16)) else parse_json demo_idp b
       | _ \<Rightarrow> parse_json demo_idp b) \<rparr>"

lemma table_byte: "i < 8 \<Longrightarrow> unat (word_of_nat (16 + i) :: 8 word) = 16 + i"
  by (simp add: unsigned_of_nat take_bit_nat_eq_self del: of_nat_add of_nat_numeral)

lemma demo_idp_prints: "print_json demo_idp v = replicate (to_nat v) 0"
  by (simp add: demo_idp_def demo_prims_def)

lemma table_simps [simp]:
  "hex_dec (table_prims vs) = hex_dec demo_idp" "hex_enc (table_prims vs) = hex_enc demo_idp"
  "b64_dec (table_prims vs) = undigits" "ed_pub (table_prims vs) = ed_pub demo_idp"
  "ed_sign (table_prims vs) = ed_sign demo_idp" "ed_verify (table_prims vs) = ed_verify demo_idp"
  "blake3 (table_prims vs) b = 0"
  by (simp_all add: table_prims_def)

lemma table_prims_laws [simp]:
  "json_law (table_prims vs)" "hex_law (table_prims vs)" "ed25519_law (table_prims vs)"
  "node_id (table_prims vs) k = k" "compact_law (table_prims vs)"
proof -
  show "hex_law (table_prims vs)" "ed25519_law (table_prims vs)" "node_id (table_prims vs) k = k"
    using demo_idp_laws(2-4) by (simp_all add: hex_law_def ed25519_law_def node_id_def)
  let ?vs = "take 8 vs"
  have print: "print_json (table_prims vs) v = (case position (\<lambda>w. w = v) ?vs of
         Some i \<Rightarrow> [word_of_nat (16 + i)] | None \<Rightarrow> replicate (to_nat v) 0)" for v
    by (simp add: table_prims_def demo_idp_prints split: option.split)
  show "json_law (table_prims vs)"
    unfolding json_law_def
  proof (intro allI impI)
    fix v assume ok: "json_ok v"
    show "parse_json (table_prims vs) (print_json (table_prims vs) v) = Some v"
    proof (cases "position (\<lambda>w. w = v) ?vs")
      case (Some i)
      then have i: "i < length ?vs" "?vs ! i = v" by (simp_all add: position_Some_iff)
      then have "i < 8" by simp
      note b = table_byte[OF this]
      show ?thesis using Some i b by (simp only: print option.case) (simp add: table_prims_def)
    next
      case None
      have "parse_json (table_prims vs) (replicate n 0) = parse_json demo_idp (replicate n 0)" for n
        by (cases n rule: nat.exhaust) (auto simp: table_prims_def split: list.split)
      then show ?thesis using None demo_idp_laws(1) ok by (simp add: print json_law_def demo_idp_prints)
    qed
  qed
  show "compact_law (table_prims vs)"
    unfolding compact_law_def
  proof (intro allI impI)
    fix v assume ok: "json_ok v"
    show "CHR 0x0A \<notin> set (text_of (print_json (table_prims vs) v))
      \<and> as_bytes (text_of (print_json (table_prims vs) v)) = print_json (table_prims vs) v
      \<and> trim (text_of (print_json (table_prims vs) v) @ newline) = text_of (print_json (table_prims vs) v)"
    proof (cases "position (\<lambda>w. w = v) ?vs")
      case (Some i)
      then have "i < 8" by (simp add: position_Some_iff)
      note b = table_byte[OF this]
      have t: "text_of (print_json (table_prims vs) v) = [char_of (16 + i)]"
        using Some b by (simp add: print text_of_def)
      have "list_all (\<lambda>w. list_all (\<lambda>c. of_char c < (16 :: nat) \<or> of_char c > (23 :: nat)) w) white_space"
        by (simp add: white_space_def)
      moreover have "of_char (char_of (16 + i) :: char) = 16 + i" using \<open>i < 8\<close> by simp
      ultimately have n: "char_of (16 + i) \<notin> set (concat white_space)"
        using \<open>i < 8\<close> by (fastforce simp: list_all_iff)
      moreover have "CHR 0x0A \<in> set (concat white_space)"
        by (simp add: white_space_def char_of_tab_newline)
      ultimately have "char_of (16 + i) \<noteq> CHR 0x0A" by metis
      moreover have "trim ([char_of (16 + i)] @ newline) = [char_of (16 + i)]"
        by (rule trim_clean_newline) (use n in auto)
      moreover have "as_bytes (text_of (print_json (table_prims vs) v)) = print_json (table_prims vs) v" by simp
      ultimately show ?thesis unfolding t by simp
    next
      case None
      then have "print_json (table_prims vs) v = print_json demo_idp v" by (simp add: print demo_idp_prints)
      then show ?thesis using demo_idp_compact ok by (simp add: compact_law_def)
    qed
  qed
qed

text \<open>Nothing that is signed or hashed depends on the table.\<close>

lemma table_hash: "head_hash (table_prims vs) h = 0"
  by (simp add: head_hash_def)

lemma table_sign: "sign_bytes (table_prims vs) k m = ucast k"
  by (simp add: sign_bytes_def demo_idp_def demo_prims_def)

text \<open>The demonstration token verifies as before.\<close>

lemma table_parses [simp]: "parse_json (table_prims vs) [1] = parse_json demo_idp [1]"
  "parse_json (table_prims vs) [2] = parse_json demo_idp [2]"
  by (simp_all add: table_prims_def)

lemma table_nonce [simp]: "nonce_for (table_prims vs) n = nonce_for demo_idp n"
  by (simp add: nonce_for_def table_prims_def demo_idp_def demo_prims_def)

lemma table_jws [simp]: "jws_parse (table_prims vs) ''01.02.09'' = jws_parse demo_idp ''01.02.09''"
  by (simp add: jws_parse_def decode_header_def decode_payload_def from_slice_def demo_segments demo_idp_b64
      cong: if_cong del: undigits.simps)

lemma table_token [simp]:
  "unverified_issuer (table_prims vs) ''01.02.09'' = unverified_issuer demo_idp ''01.02.09''"
  "unverified_kid (table_prims vs) ''01.02.09'' = unverified_kid demo_idp ''01.02.09''"
  by (simp_all add: unverified_issuer_def unverified_kid_def)

lemma table_verify_with: "verify_with (table_prims vs) = verify_with demo_idp"
  by (intro ext) (simp add: verify_with_def jwk_field_def split: alg.split)

lemma table_verify [simp]: "jws_verify (table_prims vs) R w ks = jws_verify demo_idp R w ks"
  by (simp add: jws_verify_def table_verify_with Let_def)

lemma table_claim [simp]:
  "verify_claim (table_prims vs) R demo_claim iss ks auds now = verify_claim demo_idp R demo_claim iss ks auds now"
  by (simp add: verify_claim_def demo_claim_def Let_def cong: option.case_cong if_cong)

lemma table_claims:
  "verify_claim (table_prims vs) demo_ring demo_claim = verify_claim demo_idp demo_ring demo_claim"
  by (intro ext) simp

lemma table_kf_verify:
  "kf_verify (table_prims vs) demo_ring demo_web demo_claim [''https://idp''] [''cli''] 500 demo_fetcher =
     (Inr demo_who, demo_fetcher)"
proof -
  from kf_verify_Inr[OF demo_kf_verify] obtain iss kid where i: "unverified_issuer demo_idp ''01.02.09'' = Inr iss"
    "iss \<in> set [''https://idp'']" "unverified_kid demo_idp ''01.02.09'' = Inr kid"
    by (auto simp: demo_claim_def)
  have k: "kf_keys_for (table_prims vs) demo_web ''https://idp'' kid 500 demo_fetcher
      = kf_keys_for demo_idp demo_web ''https://idp'' kid 500 demo_fetcher"
    if "kid = Some ''k1''" for kid
    by (simp add: that kf_keys_for_def kf_cached_def demo_fetcher_def has_kid_def demo_keys_def)
  have "kid = Some ''k1''"
  proof -
    obtain w where w: "jws_parse demo_idp ''01.02.09'' = Inr w" "jh_kid (jw_header w) = kid"
      using i(3) by (auto simp: unverified_kid_def and_then_Inr_iff)
    then have "jw_header w = \<lparr> jh_alg = ''RS256'', jh_kid = Some ''k1'', jh_crit = None \<rparr>"
      unfolding jws_parse_Inr by (auto simp: demo_header)
    with w show ?thesis by simp
  qed
  have "ic_token demo_claim = ''01.02.09''" by (simp add: demo_claim_def)
  then have "kf_verify (table_prims vs) demo_ring demo_web demo_claim [''https://idp''] [''cli''] 500 demo_fetcher =
      kf_verify demo_idp demo_ring demo_web demo_claim [''https://idp''] [''cli''] 500 demo_fetcher"
    unfolding kf_verify_def table_claims using k[OF \<open>kid = _\<close>] i by simp
  then show ?thesis by (simp add: demo_kf_verify demo_who_def)
qed

text \<open>Frames, policies and words do not depend on the table either, so a frame of an answer can be put into it.\<close>

lemma table_id [simp]: "hex_of (table_prims vs) = hex_of demo_idp" "sig_hex (table_prims vs) = sig_hex demo_idp"
  by (auto simp: fun_eq_iff hex_of_def sig_hex_def)

lemma table_values [simp]:
  "j_id (table_prims vs) = j_id demo_idp" "j_sig (table_prims vs) = j_sig demo_idp"
  by (auto simp: fun_eq_iff j_id_def j_sig_def)

lemma table_service [simp]: "j_service (table_prims vs) = j_service demo_idp"
  by (auto simp: fun_eq_iff j_service_def)

lemma table_fields [simp]:
  "entry_fields (table_prims vs) = entry_fields demo_idp" "j_head (table_prims vs) = j_head demo_idp"
  "fresh_body_fields (table_prims vs) = fresh_body_fields demo_idp"
  by (auto simp: fun_eq_iff entry_fields_def entry_body_fields_def j_head_def fresh_body_fields_def)

lemma table_entry [simp]:
  "j_entry (table_prims vs) = j_entry demo_idp" "j_signed_head (table_prims vs) = j_signed_head demo_idp"
  "j_fresh (table_prims vs) = j_fresh demo_idp"
  by (auto simp: fun_eq_iff j_entry_def j_signed_head_def j_fresh_def)

lemma table_item [simp]: "j_item (table_prims vs) = j_item demo_idp"
  by (rule ext) (case_tac x; simp)

lemma table_frames [simp]:
  "j_request (table_prims vs) x = j_request demo_idp x" "j_answer (table_prims vs) y = j_answer demo_idp y"
  by (cases x; simp) (cases y; simp add: j_proof_def j_view_def j_signed_policy_def)

lemma table_entry_sign: "entry_sign (table_prims vs) = entry_sign (table_prims [])"
  by (simp add: fun_eq_iff entry_sign_def table_sign Let_def)

lemma table_policy_entry:
  "policy_entry (table_prims vs) p root kept = policy_entry (table_prims []) p root kept"
  by (simp only: policy_entry_def table_entry_sign[of vs])

lemma table_sign_with: "sign_with (table_prims vs) p root prev = sign_with (table_prims []) p root prev"
  by (simp add: sign_with_def items_def head_sign_def table_policy_entry[of vs] head_of_def
     items_hash_of_def table_sign)

lemma table_fresh: "fresh_sign (table_prims vs) k h at until = fresh_sign (table_prims []) k h at until"
  by (simp add: fresh_sign_def table_hash table_sign Let_def)

lemma table_encode:
  assumes "v \<in> set (take 8 vs)"
  shows "length (print_json (table_prims vs) v) = 1"
proof -
  obtain i where "position (\<lambda>w. w = v) (take 8 vs) = Some i"
    using assms position_None_iff[of "\<lambda>w. w = v" "take 8 vs"] by auto
  then show ?thesis by (simp add: table_prims_def)
qed

definition table_answers :: "directory_answer \<Rightarrow> prims" where
  "table_answers a = table_prims [j_request demo_idp (Rq_Hello (Some ''01.02.09'')), j_request demo_idp (Rq_View None),
     j_answer demo_idp a]"

lemma table_read:
  assumes "x = Rq_Hello (Some ''01.02.09'') \<or> x = Rq_View None"
  shows "\<exists>b. \<forall>rest. read_request (table_answers a) (b @ rest) = (Inr x, rest)"
proof -
  let ?P = "table_answers a"
  have l: "length (print_json ?P (j_request ?P x)) = 1"
    using assms unfolding table_answers_def table_frames by (intro table_encode) auto
  have laws: "json_law ?P" "hex_law ?P" by (simp_all add: table_answers_def)
  obtain b where b: "request_encode ?P x = Inr b"
    using l by (simp add: request_encode_def encode_frame_def canonical_bytes_def Let_def length_prefixed_def
        max_directory_frame_def)
  then have "length b = 5"
    using l by (auto simp: request_encode_def encode_frame_def canonical_bytes_def Let_def length_prefixed_Inr
        split: if_splits)
  moreover have "request_ok x" using assms by auto
  ultimately show ?thesis
    using read_request_encoded[OF laws _ b] by (auto simp: max_small_directory_frame_def)
qed

lemma table_answered: "is_ok (answer_encode (table_answers a) a)"
proof -
  have "length (print_json (table_answers a) (j_answer demo_idp a)) = 1"
    unfolding table_answers_def by (intro table_encode) auto
  then show ?thesis
    by (simp add: answer_encode_def encode_frame_def canonical_bytes_def Let_def length_prefixed_def
        max_directory_frame_def table_answers_def)
qed

lemma table_principal:
  "dir_principal (table_prims vs) demo_ring demo_web 7 ''01.02.09'' demo_policy 500 demo_fetcher = (Some demo_who, demo_fetcher)"
proof -
  have c: "demo_claim = \<lparr> ic_node = 7, ic_token = ''01.02.09'' \<rparr>" by (simp add: demo_claim_def)
  obtain iss where i: "unverified_issuer demo_idp ''01.02.09'' = Inr iss" "iss \<in> set [''https://idp'']"
    using kf_verify_Inr[OF demo_kf_verify] by (auto simp: demo_claim_def)
  then show ?thesis
    using table_kf_verify[of vs]
    by (simp add: dir_principal_def demo_policy_def policy_new_def Let_def trust_issuers_def audiences_for_claim_def
        audiences_for_def c)
qed

end
