(* ===== verification/Directory_Claims.thy ===== *)
theory Directory_Claims
  imports Demo_Primitives
begin

text \<open>
  The properties of a directory, over whole histories: connections, subscriptions, beats, publishes
  and other writers of its policy file, in any order and interleaving.
\<close>

section \<open>Histories\<close>

datatype dir_event =
    Dv_beat i64
  | Dv_accept signed_policy i64
  | Dv_adopt signed_policy i64
  | Dv_host_fresh "fresh_set option"
  | Dv_connection ring web turns node_id "bytes option"
  | Dv_sub_open ring web turns node_id "bytes option"
  | Dv_sub_end

text \<open>\<open>Dv_accept\<close> comes from the following of a host on the same node, \<open>Dv_adopt\<close> from any other part of
  the node that keeps its policy file.\<close>

fun dir_event_step :: "prims \<Rightarrow> dir_event \<Rightarrow> directory \<Rightarrow> directory" where
  "dir_event_step P (Dv_beat now) d = dir_beat P now d"
| "dir_event_step P (Dv_accept s now) d = snd (dir_accept P s now d)"
| "dir_event_step P (Dv_adopt s now) d = d \<lparr> dr_home := snd (adopt_if_newer P s (dr_root d) now (dr_home d)) \<rparr>"
| "dir_event_step P (Dv_host_fresh h) d = d \<lparr> dr_host_fresh := h \<rparr>"
| "dir_event_step P (Dv_connection R W tu caller stream) d = snd (dir_connection P R W tu caller stream d)"
| "dir_event_step P (Dv_sub_open R W tu caller stream) d = snd (sub_open P R W tu caller stream d)"
| "dir_event_step P Dv_sub_end d = subscriber_drop d"

fun dir_event_ok :: "prims \<Rightarrow> dir_event \<Rightarrow> bool" where
  "dir_event_ok P (Dv_accept s now) = sp_typed s"
| "dir_event_ok P (Dv_adopt s now) = sp_typed s"
| "dir_event_ok P (Dv_connection R W tu caller stream) = turns_ok P tu"
| "dir_event_ok P (Dv_sub_open R W tu caller stream) = turns_ok P tu"
| "dir_event_ok P _ = True"

lemma dir_event_moves:
  assumes "dir_laws P" "dir_event_ok P ev"
  shows "dir_moves P d (dir_event_step P ev d)"
proof (cases ev)
  case (Dv_beat now)
  then show ?thesis using assms(1) dir_beat_moves by (simp add: dir_laws_def)
next
  case (Dv_accept s now)
  then show ?thesis using assms dir_accept_moves by (simp add: dir_laws_def)
next
  case (Dv_adopt s now)
  obtain r ks where a: "adopt_if_newer P s (dr_root d) now (dr_home d) = (r, ks)" by fastforce
  have "dir_moves P d (d \<lparr> dr_home := ks \<rparr>)"
    using assms Dv_adopt by (intro dir_store_moves adopt_store_ahead[OF _ _ _ _ a]) (simp_all add: dir_laws_def)
  then show ?thesis by (simp add: Dv_adopt a)
next
  case (Dv_host_fresh h)
  then show ?thesis by (auto intro: dir_moves_same)
next
  case (Dv_connection R W tu caller stream)
  obtain as d' where "dir_connection P R W tu caller stream d = (as, d')" by fastforce
  with dir_connection_moves[OF assms(1) _ this] assms(2) Dv_connection show ?thesis by simp
next
  case (Dv_sub_open R W tu caller stream)
  obtain r d' where "sub_open P R W tu caller stream d = (r, d')" by fastforce
  with sub_open_moves[OF _ this] assms(2) Dv_sub_open show ?thesis by simp
next
  case Dv_sub_end
  then show ?thesis using subscriber_moves(2) by simp
qed

interpretation served: ratchet "dir_event_step P" dir_ahead "dir_event_ok P" "\<lambda>d. dir_laws P \<and> dir_ok P d"
  for P
proof
  show "dir_ahead s t \<Longrightarrow> dir_ahead t u \<Longrightarrow> dir_ahead s u" for s t u by (rule dir_ahead_trans)
  show "dir_ahead s s" for s by simp
  show "dir_event_ok P ev \<Longrightarrow> dir_laws P \<and> dir_ok P d \<Longrightarrow> dir_laws P \<and> dir_ok P (dir_event_step P ev d)" for ev d
    using dir_event_moves[of P ev d] by (simp add: dir_moves_def)
  show "dir_event_ok P ev \<Longrightarrow> dir_laws P \<and> dir_ok P d \<Longrightarrow> dir_ahead d (dir_event_step P ev d)" for ev d
    using dir_event_moves[of P ev d] by (simp add: dir_moves_def)
qed

text \<open>
  C16: a directory never serves an older policy, nor one the root did not sign. Whoever connects,
  subscribes or publishes, whatever bytes they send, with any interleaving of handlers, beats and
  other writers of its file, once it serves a policy it goes on serving one: always one that
  verifies under the root, at a version no lower (at the same version, the very same policy), with a
  word of its own that verifies for exactly that head; and its file then holds a policy at least as
  new, so a restart does not go back either.
\<close>

theorem directory_never_rolls_back:
  assumes "json_law P" "hex_law P" "compact_law P" "ed25519_law P"
    and "\<forall>ev \<in> set evs. dir_event_ok P ev" "dir_ok P d"
    and "dr_current (fold (dir_event_step P) (take i evs) d) = Some c"
  shows "\<exists>c'. dr_current (fold (dir_event_step P) evs d) = Some c'
    \<and> sp_verify P (hd_signed (cu_held c')) (dr_root d) = Inr ()
    \<and> held_version (cu_held c) \<le> held_version (cu_held c')
    \<and> (held_version (cu_held c) = held_version (cu_held c') \<longrightarrow> cu_held c' = cu_held c)
    \<and> (\<forall>f. cu_fresh c' = Some f \<longrightarrow> fresh_verify P f (sp_head (hd_signed (cu_held c'))) = Inr ()
         \<and> fr_directory f = node_id P (dr_key d))
    \<and> (\<exists>h. store_read P (dr_home (fold (dir_event_step P) evs d)) (dr_root d) = Inr (Some h)
         \<and> held_version (cu_held c') \<le> held_version h)"
proof -
  let ?d = "fold (dir_event_step P) evs d"
  have laws: "dir_laws P \<and> dir_ok P d" using assms by (simp add: dir_laws_def)
  have "dir_ahead (fold (dir_event_step P) (take i evs) d) ?d" using served.run_between[OF assms(5) laws] .
  then obtain c' where c': "dr_current ?d = Some c'" "held_version (cu_held c) \<le> held_version (cu_held c')"
    "held_version (cu_held c) = held_version (cu_held c') \<longrightarrow> cu_held c' = cu_held c"
    using assms(7) unfolding dir_ahead_def by blast
  have "dir_ok P ?d" using served.run_inv[OF assms(5) laws] by blast
  then have ok: "current_ok P ?d c'" using c'(1) by (simp add: dir_ok_def)
  have same: "dr_root ?d = dr_root d" "dr_key ?d = dr_key d"
    using served.run_ahead[OF assms(5) laws] by (auto simp: dir_ahead_def)
  have "sp_verify P (hd_signed (cu_held c')) (dr_root d) = Inr ()"
    using ok by (auto simp: current_ok_def same held_verify_Inr)
  with c' ok same show ?thesis by (auto simp: current_ok_def)
qed

section \<open>A demonstration directory\<close>

definition demo_directory :: "home \<Rightarrow> directory" where
  "demo_directory ks = \<lparr> dr_key = 9, dr_root = 1, dr_home = ks, dr_host_fresh = None, dr_current = None,
     dr_max_subscribers = 2, dr_subscribers = 0, dr_undecided = 0, dr_admitted = 0, dr_accepts = 0,
     dr_fetcher = demo_fetcher \<rparr>"

lemma demo_directory_ok [simp]: "dir_ok P (demo_directory ks)"
  by (simp add: dir_ok_def demo_directory_def)

text \<open>A directory that has just taken the demonstration policy, under any primitives with the laws.\<close>

lemma demo_directory_takes:
  assumes "json_law P" "hex_law P" "compact_law P" "ed25519_law P" "node_id P 1 = 1" "node_id P 9 = 9"
  shows "\<exists>s f ks. sign_with P demo_policy 1 None = Inr s \<and> sp_typed s \<and> sp_version s = 1 \<and> to_policy s = Inr demo_policy \<and> sp_verify P s 1 = Inr ()
    \<and> head_check_fresh (sp_head s) 500 = Inr ()
    \<and> h_directories (sh_head (sp_head s)) = [9]
    \<and> dir_accept P s 500 (demo_directory demo_home) = (Inr True, (demo_directory ks) \<lparr> dr_accepts := 1,
         dr_current := Some (current_new \<lparr> hd_signed = s, hd_policy = demo_policy \<rparr> (Some f)) \<rparr>)
    \<and> fresh_sign P 9 (sp_head s) 500 1400 = Inr f
    \<and> store_read P ks 1 = Inr (Some \<lparr> hd_signed = s, hd_policy = demo_policy \<rparr>)"
proof -
  obtain s where s: "sign_with P demo_policy 1 None = Inr s" "sp_typed s" "sp_verify P s 1 = Inr ()"
    "to_policy s = Inr demo_policy" "head_check_fresh (sp_head s) 500 = Inr ()" "sp_version s = 1"
    using demo_laws_offered[OF assms(4,5)] by blast
  have d: "h_directories (sh_head (sp_head s)) = [9]" "h_fresh_secs (sh_head (sp_head s)) = 900"
    using s(1) by (auto simp: sign_with_Inr head_sign_Inr head_of_def demo_policy_def policy_new_def
        settings_default_def default_fresh_secs_def)
  obtain f where f: "fresh_sign P 9 (sp_head s) 500 1400 = Inr f"
    using fresh_sign_ok_iff[of P 9 "sp_head s" 500 1400] d assms(6) by (auto simp: is_ok_iff)
  obtain r ks where a: "adopt_if_newer P s 1 500 demo_home = (r, ks)" by fastforce
  have "r = Inr True"
    using adopt_yes[OF from_str_text(2)[OF assms(1-3) s(2)], of 1 500 demo_home] s a
    by (simp add: demo_home_def store_read_def)
  with adopt_effect[OF assms(1-3) s(2) a] obtain p where p: "store_read P ks 1 = Inr (Some \<lparr> hd_signed = s, hd_policy = p \<rparr>)"
    by auto
  then have "p = demo_policy"
    using s(4) by (auto dest!: store_read_verified simp: held_verify_Inr)
  note rd = p[unfolded this]
  let ?h = "\<lparr> hd_signed = s, hd_policy = demo_policy \<rparr>"
  have hv: "held_verify P s 1 = Inr ?h" using s by (simp add: held_verify_Inr)
  have fr: "held_check_fresh ?h 500 = Inr ()" "held_version ?h = 1" using s by (simp_all add: held_check_fresh_def held_version_def)
  have sa: "sat_add 500 (uint (st_fresh_secs (po_settings demo_policy))) = 1400"
    by (simp add: demo_policy_def policy_new_def settings_default_def default_fresh_secs_def sat_add_def clamp_i64_def
        i64_min_def i64_max_def)
  have sf: "dir_sign_fresh P d0 ?h 500 = Some f" if "dr_key d0 = 9" for d0
    using f fr sa that by (simp add: dir_sign_fresh_def)
  have "dir_accept P s 500 (demo_directory demo_home) = (Inr True, (demo_directory ks) \<lparr> dr_accepts := 1,
         dr_current := Some (current_new ?h (Some f)) \<rparr>)"
    using hv fr a rd \<open>r = Inr True\<close> sf
    by (simp add: dir_accept_def demo_directory_def dir_version_def Let_def)
  with s d f rd show ?thesis by blast
qed

theorem directory_never_rolls_back_witness:
  "\<exists>s c'. dr_current (fold (dir_event_step demo_prims) [Dv_accept s 500, Dv_beat 600] (demo_directory demo_home)) = Some c'
     \<and> sp_verify demo_prims (hd_signed (cu_held c')) 1 = Inr () \<and> 1 \<le> held_version (cu_held c')"
proof -
  obtain s f ks where s: "sp_typed s" "sp_version s = 1"
    "dir_accept demo_prims s 500 (demo_directory demo_home) = (Inr True, (demo_directory ks) \<lparr> dr_accepts := 1,
         dr_current := Some (current_new \<lparr> hd_signed = s, hd_policy = demo_policy \<rparr> (Some f)) \<rparr>)"
    using demo_directory_takes[OF demo_prims_laws(1,3) demo_compact demo_prims_laws(2) demo_prims_node demo_prims_node]
    by blast
  let ?evs = "[Dv_accept s 500, Dv_beat 600]"
  let ?c = "current_new \<lparr> hd_signed = s, hd_policy = demo_policy \<rparr> (Some f)"
  have "dr_current (fold (dir_event_step demo_prims) (take 1 ?evs) (demo_directory demo_home)) = Some ?c"
    by (simp add: s)
  with directory_never_rolls_back[of demo_prims ?evs "demo_directory demo_home" 1 ?c] s(1) obtain c' where
    "dr_current (fold (dir_event_step demo_prims) ?evs (demo_directory demo_home)) = Some c'"
    "sp_verify demo_prims (hd_signed (cu_held c')) (dr_root (demo_directory demo_home)) = Inr ()"
    "held_version (cu_held ?c) \<le> held_version (cu_held c')" by auto
  moreover have "held_version (cu_held ?c) = 1" by (simp add: current_new_def held_version_def s(2))
  moreover have "dr_root (demo_directory demo_home) = 1" by (simp add: demo_directory_def)
  ultimately show ?thesis by (metis (no_types))
qed

section \<open>What it tells whom\<close>

definition tells :: "directory_answer \<Rightarrow> bool" where
  "tells a \<longleftrightarrow> (case a of An_Policy _ _ \<Rightarrow> True | An_View _ _ \<Rightarrow> True | An_Current _ \<Rightarrow> True | _ \<Rightarrow> False)"

lemma write_answer_mem: "Inr a \<in> set (write_answer P x) \<Longrightarrow> x = Inr a"
  by (cases x; simp add: write_answer_def split: if_splits)

lemma dir_publish_tells: "dir_publish P head xs now d = (Inr a, d') \<Longrightarrow> \<exists>v h. a = An_Published v h"
  by (auto simp: dir_publish_def split: sum.splits prod.splits option.splits)

lemma take_items_tells:
  assumes "take_items P tu head r d = (as, d')" "Inr a \<in> set as"
  shows "\<not> tells a"
proof -
  obtain xs where x: "fst (read_items P r) = Inr xs" using assms by (auto simp: take_items_def split: sum.splits)
  obtain b d1 where b: "dir_publish P head xs (tu_clock tu 3) (tu_others tu 4 d) = (b, d1)" by fastforce
  have "b = Inr a" using assms x b write_answer_mem by (fastforce simp: take_items_def)
  then show ?thesis using b dir_publish_tells by (fastforce simp: tells_def)
qed

lemma take_publish_tells:
  assumes "take_publish P tu s head r d = (as, d')" "Inr a \<in> set as"
  shows "\<not> tells a"
proof (cases "\<exists>v h. a = An_Published v h")
  case True
  then show ?thesis by (auto simp: tells_def)
next
  case False
  then have "\<exists>d1 d2. take_items P tu head r d1 = (as, d2)"
    using assms by (auto simp: take_publish_def split: head_check.splits slot.splits prod.splits bool.splits
        dest!: write_answer_mem)
  then show ?thesis using take_items_tells assms(2) by blast
qed

lemma take_request_tells:
  assumes "take_request P tu s peer r d = (as, d')" "Inr a \<in> set as" "tells a"
  shows "\<exists>q. dir_answer peer q (tu_clock tu 2) (tu_others tu 3 d) = Inr a"
proof -
  obtain x rest where x: "read_request P r = (x, rest)" by fastforce
  show ?thesis
  proof (cases "\<exists>head. x = Inr (Rq_Publish head)")
    case True
    then show ?thesis using assms x take_publish_tells by (fastforce simp: take_request_def Let_def)
  next
    case False
    then obtain q where "x = Inr q" using assms(1,2) x by (cases x) (auto simp: take_request_def Let_def)
    then have "as = write_answer P (case s of Admitted_slot \<Rightarrow> dir_answer peer q (tu_clock tu 2) (tu_others tu 3 d)
           | Undecided_slot \<Rightarrow> Inl (if dr_current (tu_others tu 3 d) = None then D_empty else D_not_admitted))"
      using assms(1) x False by (cases q) (auto simp: take_request_def Let_def)
    then show ?thesis using assms(2) write_answer_mem by (cases s) fastforce+
  qed
qed

lemma take_hello_tells:
  assumes "turns_ok P tu" "take_hello P R W tu caller hello r d = (as, d')" "Inr a \<in> set as" "tells a"
  shows "\<exists>tok peer d1 d2 q. hello = Inr (Rq_Hello tok) \<and> dir_admit P R W caller tok (tu_clock tu 1) d = (peer, d1)
    \<and> dir_moves P d d2 \<and> dir_answer peer q (tu_clock tu 2) d2 = Inr a"
proof -
  obtain tok where h: "hello = Inr (Rq_Hello tok)"
    using assms(2,3) by (auto simp: take_hello_def split: sum.splits directory_request.splits dest!: write_answer_mem)
  obtain peer d1 where ad: "dir_admit P R W caller tok (tu_clock tu 1) d = (peer, d1)" by fastforce
  let ?d = "tu_others tu 2 d1"
  have m: "dir_moves P d ?d" using dir_admit_moves[OF ad] others_moves[OF assms(1)] by (rule dir_moves_trans)
  obtain b d3 where t: "slot_trade ?d = (b, d3)" by fastforce
  have "\<exists>s d4. dir_moves P ?d d4 \<and> take_request P tu s peer r d4 = (as, d')"
  proof (cases "peer_admitted peer")
    case True
    have "b" using assms(2,3) h ad t True
      by (cases b) (auto simp: take_hello_def Let_def dest!: write_answer_mem)
    then show ?thesis using assms(2) h ad t True slot_trade_moves[OF t]
      by (intro exI[of _ Admitted_slot] exI[of _ d3]) (simp add: take_hello_def Let_def)
  next
    case False
    then show ?thesis using assms(2) h ad
      by (intro exI[of _ Undecided_slot] exI[of _ ?d]) (simp add: take_hello_def Let_def)
  qed
  then obtain s d4 where d4: "dir_moves P ?d d4" "take_request P tu s peer r d4 = (as, d')" by blast
  then obtain q where "dir_answer peer q (tu_clock tu 2) (tu_others tu 3 d4) = Inr a"
    using take_request_tells[OF _ assms(3,4)] by blast
  moreover have "dir_moves P d (tu_others tu 3 d4)"
    using dir_moves_trans[OF dir_moves_trans[OF m d4(1)] others_moves[OF assms(1)]] .
  ultimately show ?thesis using h ad by blast
qed

lemma dir_connection_tells:
  assumes "turns_ok P tu" "dir_connection P R W tu caller stream d = (as, d')" "Inr a \<in> set as" "tells a"
  shows "\<exists>tok peer d0 d1 d2 q. dir_moves P d d0 \<and> dir_admit P R W caller tok (tu_clock tu 1) d0 = (peer, d1)
    \<and> dir_moves P d0 d2 \<and> dir_answer peer q (tu_clock tu 2) d2 = Inr a"
proof -
  obtain r d1 where r: "stream = Some r" "undecided_take d = Some d1" "one_request P R W tu caller r d1 = (as, d')"
    using assms(2,3) by (auto simp: dir_connection_def split: option.splits)
  obtain hello rest where x: "read_hello P r = (hello, rest)" by fastforce
  let ?d = "tu_others tu 0 d1"
  have m: "dir_moves P d ?d" using undecided_take_moves[OF r(2)] others_moves[OF assms(1)] by (rule dir_moves_trans)
  obtain hello2 rest2 where y: "read_hello P rest = (hello2, rest2)" by fastforce
  have "(\<exists>bs. take_hello P R W tu caller hello2 rest2 (tu_others tu 1 ?d) = (bs, d') \<and> Inr a \<in> set bs)
      \<or> take_hello P R W tu caller hello rest ?d = (as, d')"
    using r(3) x y assms(3,4)
    by (auto simp: one_request_def Let_def tells_def split: if_splits sum.splits prod.splits dest!: write_answer_mem)
  then show ?thesis
    using take_hello_tells[OF assms(1) _ _ assms(4)] assms(3) m dir_moves_trans[OF m others_moves[OF assms(1)]] by metis
qed

lemma dir_admit_who:
  assumes "dir_admit P R W caller tok now d = (peer, d')"
  shows "pe_node peer = caller" "pe_named peer = dir_holds_whole d caller"
    "pe_principal peer = Some who \<Longrightarrow> \<exists>c t iss ks auds. dr_current d = Some c \<and> tok = Some t
       \<and> iss \<in> fst ` set (po_issuers (hd_policy (cu_held c)))
       \<and> verify_claim P R \<lparr> ic_node = caller, ic_token = t \<rparr> iss ks auds now = Inr who
       \<and> check_admitted (hd_policy (cu_held c)) caller who = Inr ()"
proof -
  show "pe_node peer = caller" "pe_named peer = dir_holds_whole d caller"
    using assms by (auto simp: dir_admit_def Let_def split: option.splits prod.splits)
  assume w: "pe_principal peer = Some who"
  then obtain c t where c: "dr_current d = Some c" "tok = Some t"
    using assms by (auto simp: dir_admit_def Let_def bind_eq_Some_conv split: option.splits prod.splits if_splits)
  obtain who' f where p: "dir_principal P R W caller t (hd_policy (cu_held c)) now (dr_fetcher d) = (who', f)" by fastforce
  have "who' = Some who" "check_admitted (hd_policy (cu_held c)) caller who = Inr ()"
    using assms w c p
    by (auto simp: dir_admit_def Let_def bind_eq_Some_conv is_ok_iff split: option.splits prod.splits if_splits)
  with p have p: "dir_principal P R W caller t (hd_policy (cu_held c)) now (dr_fetcher d) = (Some who, f)" by simp
  let ?trust = "map (\<lambda>(iss, cfg). (iss, ic_audiences cfg)) (po_issuers (hd_policy (cu_held c)))"
  let ?claim = "\<lparr> ic_node = caller, ic_token = t \<rparr>"
  have "kf_verify P R W ?claim (trust_issuers ?trust) (audiences_for_claim P ?trust ?claim) now (dr_fetcher d) = (Inr who, f)"
    using p by (auto simp: dir_principal_def Let_def res_ok_Some_iff split: prod.splits)
  from kf_verify_Inr[OF this] obtain iss ks where
    "iss \<in> set (trust_issuers ?trust)" "verify_claim P R ?claim iss ks (audiences_for_claim P ?trust ?claim) now = Inr who"
    by blast
  moreover have "set (trust_issuers ?trust) = fst ` set (po_issuers (hd_policy (cu_held c)))"
    by (auto simp: trust_issuers_def image_image case_prod_beta)
  ultimately show "\<exists>c t iss ks auds. dr_current d = Some c \<and> tok = Some t
       \<and> iss \<in> fst ` set (po_issuers (hd_policy (cu_held c)))
       \<and> verify_claim P R \<lparr> ic_node = caller, ic_token = t \<rparr> iss ks auds now = Inr who
       \<and> check_admitted (hd_policy (cu_held c)) caller who = Inr ()"
    using c \<open>check_admitted (hd_policy (cu_held c)) caller who = Inr ()\<close>
    by (intro exI[of _ c] exI[of _ t] exI[of _ iss] exI[of _ ks]
        exI[of _ "audiences_for_claim P ?trust ?claim"]) simp
qed

lemma dir_answer_Inr:
  assumes "dir_answer peer q now d = Inr a"
  shows "\<exists>c f. dr_current d = Some c \<and> cu_fresh c = Some f \<and> held_check_fresh (cu_held c) now = Inr ()
    \<and> (\<forall>s g. a = An_Policy s g \<longrightarrow> pe_named peer \<and> s = hd_signed (cu_held c) \<and> g = f)
    \<and> (\<forall>v g. a = An_View v g \<longrightarrow> g = f \<and> vw_head v = sp_head (hd_signed (cu_held c))
         \<and> (\<exists>query. set (vw_entries v) \<subseteq>
               set (vw_entries (view_for (hd_signed (cu_held c)) (pe_node peer) (pe_principal peer) query))))"
proof -
  obtain c f where c: "current_with_fresh now d = Inr (c, f)"
    using assms by (auto simp: dir_answer_def and_then_Inr_iff split: if_splits)
  then have h: "dr_current d = Some c" "cu_fresh c = Some f" "held_check_fresh (cu_held c) now = Inr ()"
    by (auto simp: current_with_fresh_def is_ok_iff split: option.splits if_splits)
  have "(\<forall>s g. a = An_Policy s g \<longrightarrow> pe_named peer \<and> s = hd_signed (cu_held c) \<and> g = f)"
    using assms c by (cases q) (auto simp: dir_answer_def Let_def split: if_splits)
  moreover have "(\<forall>v g. a = An_View v g \<longrightarrow> g = f \<and> vw_head v = sp_head (hd_signed (cu_held c))
         \<and> (\<exists>query. set (vw_entries v) \<subseteq>
               set (vw_entries (view_for (hd_signed (cu_held c)) (pe_node peer) (pe_principal peer) query))))"
    using assms c by (cases q) (auto simp: dir_answer_def Let_def view_for_head split: if_splits)
  ultimately show ?thesis using h by blast
qed

lemma no_view_unnamed: "authorize p c None n = Inr r \<Longrightarrow> False"
  by (auto simp: authorize_Inr role_admits_Some dest!: find_SomeD)


definition quiet :: turns where
  "quiet = \<lparr> tu_clock = (\<lambda>_. 500), tu_others = (\<lambda>_ d. d) \<rparr>"

lemma quiet_ok: "turns_ok P quiet"
  by (simp add: turns_ok_def quiet_def dir_moves_same)

lemma admitted_demo_who: "check_admitted demo_policy 7 demo_who = Inr ()"
  using demo_admitted[of "\<lparr> hd_signed = undefined, hd_policy = demo_policy \<rparr>" "undefined \<lparr> gh_identities := demo_identities \<rparr>"] by simp

lemma demo_who_authorized: "authorize demo_policy 7 (Some demo_who) ''status'' = Inr ''staff''"
  by (simp add: authorize_def bans_node_def bans_person_def demo_policy_def policy_new_def role_admits_def
      admits_def matches_def matcher_new_def demo_who_def)


end
