(* ===== verification/Session_Demo.thy ===== *)
theory Session_Demo
  imports Session_Rules Directory_Claims
begin

text \<open>
  A session for the witnesses: a host of the demonstration network, one caller with its token, and
  primitives under which every frame between the two is short.
\<close>

definition demo_hello :: hello where
  "demo_hello = \<lparr> he_state_version = 1, he_id_token = ''01.02.09'' \<rparr>"

definition demo_asked :: invocation where
  "demo_asked = \<lparr> iv_service = ''status'', iv_argv = [''-p''] \<rparr>"

definition demo_ack :: hello_ack where
  "demo_ack = \<lparr> ha_state_version = 1, ha_head = None, ha_entry = None \<rparr>"

definition demo_world :: session_world where
  "demo_world = \<lparr> sw_ring = demo_ring, sw_web = demo_web, sw_clock = (\<lambda>_. 500), sw_instant = (\<lambda>_. 0),
     sw_up = (\<lambda>_. True), sw_closed = True, sw_token = 0, sw_inherited = [(''PATH'', ''/bin''), (''HOME'', ''/root'')],
     sw_push = None, sw_others = (\<lambda>_ h. h) \<rparr>"

definition demo_run :: child_run where
  "demo_run = \<lparr> cr_output = [(False, [7]), (True, [8])], cr_exit = 3 \<rparr>"

definition demo_child :: child where
  "demo_child l input = Some demo_run"

definition demo_serving :: "home \<Rightarrow> fresh \<Rightarrow> services_host" where
  "demo_serving ks f = (demo_host ks) \<lparr> gh_freshness := [f] \<rparr>"

definition demo_ad :: admitted where
  "demo_ad = \<lparr> ad_role = ''staff'', ad_version = 1, ad_caller = \<lparr> vf_token = ''01.02.09'', vf_principal = demo_who \<rparr> \<rparr>"

definition session_table :: "host_proof \<Rightarrow> prims" where
  "session_table pf = table_prims [j_hello demo_hello, j_invocation demo_asked, j_proof demo_idp pf, j_hello_ack demo_idp demo_ack]"

lemma table_session [simp]:
  "j_proof (table_prims vs) = j_proof demo_idp" "j_hello_ack (table_prims vs) = j_hello_ack demo_idp"
  by (auto simp: fun_eq_iff j_proof_def j_hello_ack_def)

lemma session_table_fits:
  assumes "proof_ok pf" "8 \<le> cap"
  shows "frame_fits (session_table pf) cap (Hello demo_hello)" "frame_fits (session_table pf) cap (Invoke demo_asked)"
    "frame_fits (session_table pf) cap (Proof pf)" "frame_fits (session_table pf) cap (Hello_Ack demo_ack)"
proof -
  have n: "is_ok (service_name_new ''status'')" "is_ok (argv_new [''-p''])"
    by code_simp (simp add: argv_new_def max_args_def max_argv_bytes_def)
  have l: "length (canonical_bytes (session_table pf) v) = 1"
    if "v \<in> {j_hello demo_hello, j_invocation demo_asked, j_proof demo_idp pf, j_hello_ack demo_idp demo_ack}" for v
    unfolding session_table_def canonical_bytes_def by (rule table_encode) (use that in auto)
  have j: "j_proof (session_table pf) = j_proof demo_idp" "j_hello_ack (session_table pf) = j_hello_ack demo_idp"
    by (simp_all add: session_table_def)
  show "frame_fits (session_table pf) cap (Hello demo_hello)" "frame_fits (session_table pf) cap (Invoke demo_asked)"
    "frame_fits (session_table pf) cap (Proof pf)" "frame_fits (session_table pf) cap (Hello_Ack demo_ack)"
    using l n assms
    by (simp_all add: frame_fits_def frame_payload_def j invocation_ok_def demo_asked_def[symmetric])
      (simp_all add: demo_asked_def demo_ack_def hello_ack_ok_def)
qed

lemma demo_serves:
  obtains s f ks pf P where "P = session_table pf" "pf = \<lparr> hp_head = sp_head s, hp_fresh = [f] \<rparr>"
    "json_law P" "hex_law P" "ed25519_law P" "node_id P 1 = 1" "node_id P 9 = 9" "proof_ok pf"
    "sp_version s = 1" "sign_with P demo_policy 1 None = Inr s" "fresh_sign P 9 (sp_head s) 500 1400 = Inr f"
    "h_directories (sh_head (sp_head s)) = [9]" "head_check_fresh (sp_head s) 500 = Inr ()"
    "host_policy P (demo_serving ks f) = (Inr \<lparr> hd_signed = s, hd_policy = demo_policy \<rparr>, (demo_serving ks f) \<lparr> gh_high_water := 1 \<rparr>)"
    "opening_proof P demo_world \<lparr> hd_signed = s, hd_policy = demo_policy \<rparr> ((demo_serving ks f) \<lparr> gh_high_water := 1 \<rparr>) = Proof pf"
proof -
  obtain s f where s: "sign_with (table_prims []) demo_policy 1 None = Inr s" "sp_typed s" "sp_version s = 1"
    "fresh_sign (table_prims []) 9 (sp_head s) 500 1400 = Inr f" "head_check_fresh (sp_head s) 500 = Inr ()"
    "h_directories (sh_head (sp_head s)) = [9]" "to_policy s = Inr demo_policy"
    using demo_directory_takes[of "table_prims []"] by auto
  define pf where "pf = \<lparr> hp_head = sp_head s, hp_fresh = [f] \<rparr>"
  define P where "P = session_table pf"
  have laws: "json_law P" "hex_law P" "compact_law P" "ed25519_law P" "node_id P 1 = 1" "node_id P 9 = 9"
    by (simp_all add: P_def session_table_def)
  have p: "sign_with P demo_policy 1 None = Inr s" "fresh_sign P 9 (sp_head s) 500 1400 = Inr f"
    using s(1,4) unfolding P_def session_table_def table_sign_with[of "_ # _"] table_fresh[of "_ # _"] by simp_all
  obtain ks where ks: "store_read P ks 1 = Inr (Some \<lparr> hd_signed = s, hd_policy = demo_policy \<rparr>)"
    using demo_directory_takes[OF laws] p by auto
  have "hc_trust demo_config demo_policy = [(''https://idp'', [''cli''])]" by code_simp
  then have trust: "set_trust (hc_trust demo_config demo_policy) demo_identities = demo_identities"
    by (simp add: set_trust_def demo_identities_def)
  have pol: "host_policy P (demo_serving ks f)
      = (Inr \<lparr> hd_signed = s, hd_policy = demo_policy \<rparr>, (demo_serving ks f) \<lparr> gh_high_water := 1 \<rparr>)"
    unfolding host_policy_Inr using ks s(3) trust by (simp add: demo_host_def demo_serving_def held_version_def)
  have "proof_ok pf" using s(2) fresh_sign_Inr[OF p(2)]
    by (simp add: pf_def proof_ok_def sp_typed_def fresh_ok_def in_i64_def i64_min_def i64_max_def)
  moreover have "fresh_verify P f (sp_head s) = Inr ()" "fresh_is_current f 500"
    using signed_word[OF laws(4) p(2)] fresh_sign_Inr[OF p(2)]
    by (simp_all add: fresh_is_current_def clock_skew_secs_def sat_sub_def clamp_i64_def i64_min_def i64_max_def)
  then have "opening_proof P demo_world \<lparr> hd_signed = s, hd_policy = demo_policy \<rparr> ((demo_serving ks f) \<lparr> gh_high_water := 1 \<rparr>) = Proof pf"
    by (simp add: opening_proof_def fresh_proof_def fs_current_for_def demo_serving_def demo_world_def pf_def max_fresh_set_def)
  ultimately show thesis
    using that[OF P_def pf_def] laws s(3,5,6) p pol by simp
qed

lemma table_verify_token:
  "verify_token (table_prims vs) demo_ring demo_web 7 ''01.02.09'' 500 demo_identities = (Inr demo_who, demo_identities)"
proof -
  have c: "demo_claim = \<lparr> ic_node = 7, ic_token = ''01.02.09'' \<rparr>" by (simp add: demo_claim_def)
  obtain iss where i: "unverified_issuer demo_idp ''01.02.09'' = Inr iss" "iss \<in> set [''https://idp'']"
    using kf_verify_Inr[OF demo_kf_verify] by (auto simp: demo_claim_def)
  then show ?thesis
    using table_kf_verify[of vs]
    by (simp add: verify_token_def demo_identities_def Let_def trust_issuers_def audiences_for_claim_def
        audiences_for_def c)
qed

definition demo_status :: service_impl where
  "demo_status = \<lparr> si_command = [''uptime''], si_cwd = None, si_env = [(''LC_ALL'', ''C'')],
     si_also_require = [''staff''], si_end_of_options = True \<rparr>"

lemma demo_decides:
  fixes h :: services_host
  assumes "sp_version s = 1" "head_check_fresh (sp_head s) 500 = Inr ()"
    "gh_identities h = demo_identities" "gh_config h = demo_config" "gh_me h = 2" "gh_native h = []"
  shows "\<exists>h2. session_decided (session_table pf) demo_world 7 \<lparr> hd_signed = s, hd_policy = demo_policy \<rparr> h demo_hello
      demo_asked h2 (ad_caller demo_ad) demo_ad (Command demo_status)
    \<and> id_fetcher (gh_identities h2) = demo_fetcher \<and> gh_me h2 = 2"
    "\<exists>l. launch (session_table pf) demo_world 7 demo_ad demo_asked (Command demo_status) = Some (l, False)"
proof -
  let ?st = "\<lparr> hd_signed = s, hd_policy = demo_policy \<rparr>"
  let ?h2 = "h \<lparr> gh_identities := id_record 7 (Inr demo_who) demo_identities \<rparr>"
  have adm: "check_admitted demo_policy 7 demo_who = Inr ()"
    using demo_admitted[of demo_held "demo_host demo_home"] by (simp add: demo_held_def demo_host_def)
  have a: "admit_caller (session_table pf) demo_ring demo_web ?st 7 ''01.02.09'' 500 h = (Inr (ad_caller demo_ad), ?h2)"
    by (simp add: admit_caller_def Let_def assms(3) session_table_def table_verify_token adm demo_ad_def)
  have g: "gate_admit ?st demo_config 2 7 (ad_caller demo_ad) ''status'' 500 = Inr demo_ad"
    using demo_who_gate[OF assms(2,1)] by (simp add: demo_ad_def)
  have i: "host_implementation ?h2 ''status'' = Some (Command demo_status)"
    using assms(4,6) by (simp add: host_implementation_def demo_config_def demo_status_def)
  show "\<exists>h2. session_decided (session_table pf) demo_world 7 ?st h demo_hello demo_asked h2 (ad_caller demo_ad) demo_ad
      (Command demo_status) \<and> id_fetcher (gh_identities h2) = demo_fetcher \<and> gh_me h2 = 2"
    using a g i assms(4,5)
    by (intro exI[of _ ?h2])
      (simp add: session_decided_def demo_world_def demo_hello_def demo_asked_def id_record_def demo_identities_def)
  show "\<exists>l. launch (session_table pf) demo_world 7 demo_ad demo_asked (Command demo_status) = Some (l, False)"
    by (simp add: launch_def demo_status_def si_argv_def demo_world_def demo_asked_def)
qed

lemma demo_session:
  obtains P ks f s res l h2 where "kf_ok 500 demo_fetcher"
    "serve_session P demo_world demo_child 7 (frames_bytes P [Open, Hello demo_hello, Invoke demo_asked, Stdin [1]])
       (demo_serving ks f, []) = (res, h2, [])" "sr_ran res = Some l" "sr_end res = End_exited"
    "host_policy P (demo_serving ks f) = (Inr \<lparr> hd_signed = s, hd_policy = demo_policy \<rparr>, (demo_serving ks f) \<lparr> gh_high_water := 1 \<rparr>)"
    "gh_me h2 = 2" "gh_root (demo_serving ks f) = 1"
    "session_opened P demo_world (frames_bytes P [Open, Hello demo_hello, Invoke demo_asked, Stdin [1]]) demo_hello demo_asked
       (frames_bytes P [Stdin [1]])"
    "admit_caller P demo_ring demo_web \<lparr> hd_signed = s, hd_policy = demo_policy \<rparr> 7 ''01.02.09'' 500
       ((demo_serving ks f) \<lparr> gh_high_water := 1 \<rparr>) = (Inr (ad_caller demo_ad), h2)"
proof (rule demo_serves)
  fix s f ks pf P
  assume d: "P = session_table pf" "pf = \<lparr> hp_head = sp_head s, hp_fresh = [f] \<rparr>"
    "json_law P" "hex_law P" "proof_ok pf" "sp_version s = 1" "head_check_fresh (sp_head s) 500 = Inr ()"
    and pol: "host_policy P (demo_serving ks f) = (Inr \<lparr> hd_signed = s, hd_policy = demo_policy \<rparr>, (demo_serving ks f) \<lparr> gh_high_water := 1 \<rparr>)"
    and pf: "opening_proof P demo_world \<lparr> hd_signed = s, hd_policy = demo_policy \<rparr> ((demo_serving ks f) \<lparr> gh_high_water := 1 \<rparr>) = Proof pf"
  let ?st = "\<lparr> hd_signed = s, hd_policy = demo_policy \<rparr>" and ?h = "(demo_serving ks f) \<lparr> gh_high_water := 1 \<rparr>"
  let ?r = "frames_bytes P [Open, Hello demo_hello, Invoke demo_asked, Stdin [1]]"
  have caps: "8 \<le> max_hello_frame" "8 \<le> max_invoke_frame" "8 \<le> max_frame"
    by (simp_all add: max_hello_frame_def max_invoke_frame_def max_argv_bytes_def max_frame_def)
  have op: "session_opened P demo_world ?r demo_hello demo_asked (frames_bytes P [Stdin [1]])"
    using session_opens[of P demo_hello demo_asked demo_world True "[Stdin [1]]"] d(3,4)
      session_table_fits(1)[OF d(5) caps(1)] session_table_fits(2)[OF d(5) caps(2)]
    by (simp add: d(1)[symmetric] del: frames_bytes_simps)
  have w: "writes P demo_world i (Proof pf)" "writes P demo_world i (Hello_Ack demo_ack)" for i
    using frame_fits_encodes[OF session_table_fits(3)[OF d(5) caps(3)]] frame_fits_encodes[OF session_table_fits(4)[OF d(5) caps(3)]]
    by (simp_all add: writes_def d(1) demo_world_def)
  have h: "gh_identities ?h = demo_identities" "gh_config ?h = demo_config" "gh_me ?h = 2" "gh_native ?h = []"
    by (simp_all add: demo_serving_def demo_host_def)
  obtain h2 where dec: "session_decided P demo_world 7 ?st ?h demo_hello demo_asked h2 (ad_caller demo_ad) demo_ad (Command demo_status)"
      "id_fetcher (gh_identities h2) = demo_fetcher" "gh_me h2 = 2"
    using demo_decides(1)[OF d(6,7) h] d(1) by blast
  obtain l where l: "launch P demo_world 7 demo_ad demo_asked (Command demo_status) = Some (l, False)"
    using demo_decides(2)[OF d(6,7) h] d(1) by blast
  have ack: "session_ack ?st demo_hello ''status'' 1 = Hello_Ack demo_ack"
    by (simp add: session_ack_def demo_hello_def demo_ack_def)
  have "\<exists>res. serve_session P demo_world demo_child 7 ?r (demo_serving ks f, []) = (res, h2, []) \<and> sr_ran res = Some l
      \<and> sr_end res = End_exited"
    using serve_session_opened[OF pol _ op, of demo_child 7 "[]"] w pf dec(1) l ack
    by (simp add: decide_session_def session_decided_def Let_def gate_decide_def map_err_def run_session_def
        demo_child_def bridge_def demo_asked_def demo_ad_def demo_world_def)
  moreover have "kf_ok 500 demo_fetcher" by (simp add: kf_ok_def demo_fetcher_def kf_new_def max_ttl_def)
  moreover have "admit_caller P demo_ring demo_web ?st 7 ''01.02.09'' 500 ?h = (Inr (ad_caller demo_ad), h2)"
    using dec(1) by (simp add: session_decided_def demo_world_def demo_hello_def)
  ultimately show thesis
    using that[where P = P and ks = ks and f = f and s = s and l = l and ?h2.0 = h2, OF _ _ _ _ pol dec(3) _ op]
    by (force simp: demo_serving_def demo_host_def)
qed

end
