(* ===== verification/Session_Claims.thy ===== *)
theory Session_Claims
  imports Session_Demo
begin

text \<open>
  What a host promises about a session: what must hold before any service runs, and exactly what a
  session says and logs.
\<close>

section \<open>What is started\<close>

text \<open>\<open>fits_launch\<close>: what was started is the service asked for, with the caller's arguments last and in
  order, and told who calls in variables that nothing else can set.\<close>

definition fits_launch :: "prims \<Rightarrow> services_host \<Rightarrow> session_world \<Rightarrow> node_id \<Rightarrow> id_token \<Rightarrow> principal \<Rightarrow> role_name
    \<Rightarrow> invocation \<Rightarrow> launched \<Rightarrow> bool" where
  "fits_launch P h tw caller tok who role asked l \<longleftrightarrow> (case l of
     Launch_native n \<Rightarrow> iv_service asked \<in> set (gh_native h)
       \<and> nc_caller n = caller \<and> nc_token n = tok \<and> nc_principal n = who \<and> nc_role n = role
       \<and> nc_service n = iv_service asked \<and> nc_args n = iv_argv asked
   | Launch_command program args cwd env \<Rightarrow>
       (\<exists>svc fixed. bm_get (hc_services (gh_config h)) (iv_service asked) = Some svc \<and> cwd = si_cwd svc
         \<and> si_command svc = program # fixed
         \<and> args = fixed @ (if si_end_of_options svc then [''--''] else []) @ iv_argv asked
         \<and> (\<forall>k. k \<notin> fst ` set (server_env P tw caller
                 \<lparr> ad_role = role, ad_version = 0, ad_caller = \<lparr> vf_token = tok, vf_principal = who \<rparr> \<rparr> (iv_service asked)) \<longrightarrow>
               bm_get env k = (case map_of (rev (si_env svc)) k of Some v \<Rightarrow> Some v
                 | None \<Rightarrow> if inherits k then map_of (rev (sw_inherited tw)) k else None)))
       \<and> bm_get env ''WIRES_CALLER_NODE'' = Some (hex_of P caller)
       \<and> bm_get env ''WIRES_ID_TOKEN'' = Some tok
       \<and> bm_get env ''WIRES_CALLER'' = Some (caller_json P who)
       \<and> bm_get env ''WIRES_SERVICE'' = Some (iv_service asked)
       \<and> bm_get env ''WIRES_ROLE'' = Some role
       \<and> (\<forall>e. pr_email who = Some e \<longrightarrow> bm_get env ''WIRES_CALLER_EMAIL'' = Some e))"

lemma server_env_version:
  "server_env P tw caller \<lparr> ad_role = r, ad_version = a, ad_caller = v \<rparr> s
    = server_env P tw caller \<lparr> ad_role = r, ad_version = b, ad_caller = v \<rparr> s"
  by (simp add: server_env_def)

lemma server_env_get:
  "map_of (rev (server_env P tw caller ad s)) ''WIRES_CALLER_NODE'' = Some (hex_of P caller)"
  "map_of (rev (server_env P tw caller ad s)) ''WIRES_ID_TOKEN'' = Some (vf_token (ad_caller ad))"
  "map_of (rev (server_env P tw caller ad s)) ''WIRES_CALLER'' = Some (caller_json P (vf_principal (ad_caller ad)))"
  "map_of (rev (server_env P tw caller ad s)) ''WIRES_SERVICE'' = Some s"
  "map_of (rev (server_env P tw caller ad s)) ''WIRES_ROLE'' = Some (ad_role ad)"
  "pr_email (vf_principal (ad_caller ad)) = Some e \<Longrightarrow>
     map_of (rev (server_env P tw caller ad s)) ''WIRES_CALLER_EMAIL'' = Some e"
  by (auto simp: server_env_def Let_def split: option.split prod.split)

lemma map_of_rev_None: "k \<notin> fst ` set xs \<Longrightarrow> map_of (rev xs) k = None"
  by (simp add: map_of_eq_None_iff)

lemma launch_fits:
  assumes "launch P tw caller ad asked impl = Some (l, g)" "host_implementation h (iv_service asked) = Some impl"
    "ad_caller ad = \<lparr> vf_token = tok, vf_principal = who \<rparr>"
  shows "fits_launch P h tw caller tok who (ad_role ad) asked l"
proof (cases impl)
  case (Native s)
  then show ?thesis
    using assms by (auto simp: launch_def Let_def fits_launch_def host_implementation_def split: if_splits option.splits)
next
  case (Command svc)
  have svc: "bm_get (hc_services (gh_config h)) (iv_service asked) = Some svc"
    using assms(2) Command by (auto simp: host_implementation_def split: if_splits option.splits)
  obtain program fixed where c: "si_command svc = program # fixed"
    and l: "l = Launch_command program (fixed @ (if si_end_of_options svc then [''--''] else []) @ iv_argv asked) (si_cwd svc)
      (child_env (sw_inherited tw) (si_env svc) (server_env P tw caller ad (iv_service asked)))"
    using assms(1) Command by (auto simp: launch_def si_argv_def split: list.splits)
  obtain a where ad: "ad = \<lparr> ad_role = ad_role ad, ad_version = a, ad_caller = \<lparr> vf_token = tok, vf_principal = who \<rparr> \<rparr>"
    using assms(3) by (cases ad) auto
  note env = server_env_version[of P tw caller "ad_role ad" a "\<lparr> vf_token = tok, vf_principal = who \<rparr>"
      "iv_service asked" 0, folded ad]
  show ?thesis
    using svc c l server_env_get[where P = P and tw = tw and caller = caller and ad = ad and s = "iv_service asked"] assms(3)
    by (auto simp: fits_launch_def child_env_get map_of_rev_None env[symmetric])
qed

section \<open>Properties\<close>

text \<open>
  C3: whatever a stranger sends, a service runs only for a person the network lets in. When a
  session started a service: the policy read at its start verifies under the root, was not rolled
  back and has not expired; the caller sent a hello and an invocation within the caps; the token in
  the hello is signed by a live key of a trusted issuer and is bound to the key that connected; that
  person is admitted and authorized for exactly the service invoked, which the policy assigns to
  this host; what was started is that service, with the caller's arguments after the command's own,
  and told the verified person, not what the caller claims; and one line is logged about it.
\<close>

theorem session_runs_only_admitted:
  assumes "serve_session P tw child caller r (h, caps) = (res, h', caps')" "sr_ran res = Some l"
    and "kf_ok (sw_clock tw 1) (id_fetcher (gh_identities (sw_others tw 0 (snd (host_policy P h)))))"
  shows "\<exists>st hello asked rest who role iss ca code n.
     store_read P (gh_home h) (gh_root h) = Inr (Some st) \<and> sp_verify P (hd_signed st) (gh_root h) = Inr ()
     \<and> gh_high_water h \<le> held_version st \<and> sw_clock tw 1 \<le> h_not_after (sh_head (sp_head (hd_signed st)))
     \<and> session_opened P tw r hello asked rest
     \<and> iss \<in> set (trust_issuers (id_trust (gh_identities (sw_others tw 0 (snd (host_policy P h))))))
     \<and> kf_keys (id_fetcher (gh_identities h')) iss = Some ca \<and> sw_clock tw 1 < ca_expires_at ca
     \<and> verify_claim P (sw_ring tw) \<lparr> ic_node = caller, ic_token = he_id_token hello \<rparr> iss (ca_jwks ca)
         (audiences_for (id_trust (gh_identities (sw_others tw 0 (snd (host_policy P h))))) iss) (sw_clock tw 1) = Inr who
     \<and> authorize (hd_policy st) caller (Some who) (iv_service asked) = Inr role
     \<and> assigns (hd_policy st) (iv_service asked) (gh_me h')
     \<and> fits_launch P h' tw caller (he_id_token hello) who role asked l
     \<and> sr_log res = [Call_finished (iv_service asked) caller who role code n]"
proof (rule serve_session_ran[OF assms(1,2)])
  fix state h0 hello asked rest v ad impl run g
  assume s: "host_policy P h = (Inr state, h0)" "session_opened P tw r hello asked rest"
      "session_decided P tw caller state (sw_others tw 0 h0) hello asked h' v ad impl"
      "launch P tw caller ad asked impl = Some (l, g)"
    and log: "sr_log res = [Call_finished (iv_service asked) caller (vf_principal (ad_caller ad)) (ad_role ad) (cr_exit run)
        (sum_list (map (\<lambda>oc. length (snd oc)) (cr_output run)))]"
  have read: "store_read P (gh_home h) (gh_root h) = Inr (Some state)" "gh_high_water h \<le> held_version state"
    using s(1) by (simp_all add: host_policy_Inr)
  obtain who ids where v: "v = \<lparr> vf_token = he_id_token hello, vf_principal = who \<rparr>"
      "verify_token P (sw_ring tw) (sw_web tw) caller (he_id_token hello) (sw_clock tw 1)
         (gh_identities (sw_others tw 0 h0)) = (Inr who, ids)"
      "id_fetcher (gh_identities h') = id_fetcher ids"
    using s(3) admit_caller_effect[of P "sw_ring tw" "sw_web tw" state caller "he_id_token hello" "sw_clock tw 1"
        "sw_others tw 0 h0" "Inr v" h']
    by (auto simp: session_decided_def id_record_def split: option.splits)
  have kf: "kf_ok (sw_clock tw 1) (id_fetcher (gh_identities (sw_others tw 0 h0)))" using assms(3) s(1) by simp
  obtain iss ca where c: "iss \<in> set (trust_issuers (id_trust (gh_identities (sw_others tw 0 h0))))"
      "kf_keys (id_fetcher ids) iss = Some ca" "sw_clock tw 1 < ca_expires_at ca"
      "verify_claim P (sw_ring tw) \<lparr> ic_node = caller, ic_token = he_id_token hello \<rparr> iss (ca_jwks ca)
         (audiences_for (id_trust (gh_identities (sw_others tw 0 h0))) iss) (sw_clock tw 1) = Inr who"
    using verify_token_Inr[OF v(2) kf] by blast
  have gate: "sw_clock tw 1 \<le> h_not_after (sh_head (sp_head (hd_signed state)))"
      "authorize (hd_policy state) caller (Some who) (iv_service asked) = Inr (ad_role ad)"
      "assigns (hd_policy state) (iv_service asked) (gh_me h')" "ad_caller ad = v"
    using s(3) v(1)
    by (auto simp: session_decided_def gate_admit_Inr held_check_fresh_def head_check_fresh_def split: if_splits)
  have "fits_launch P h' tw caller (he_id_token hello) who (ad_role ad) asked l"
    using launch_fits[OF s(4)] s(3) gate(4) v(1) by (simp add: session_decided_def)
  moreover have "sp_verify P (hd_signed state) (gh_root h) = Inr ()" using held_of_read[OF read(1)] by simp
  moreover have "snd (host_policy P h) = h0" using s(1) by simp
  ultimately show ?thesis
    using read gate(1-3) s(2) c log unfolding gate(4) v(1) v(3)[symmetric] verified.simps by blast
qed

theorem session_runs_only_admitted_witness:
  "\<exists>P r h res l who role. fst (serve_session P demo_world demo_child 7 r (h, [])) = res \<and> sr_ran res = Some l
     \<and> (\<exists>h'. fits_launch P h' demo_world 7 ''01.02.09'' who role demo_asked l)
     \<and> (\<exists>code n. sr_log res = [Call_finished ''status'' 7 who role code n])"
proof (rule demo_session)
  fix P ks f s res l h2
  assume d: "kf_ok 500 demo_fetcher"
    "serve_session P demo_world demo_child 7 (frames_bytes P [Open, Hello demo_hello, Invoke demo_asked, Stdin [1]])
       (demo_serving ks f, []) = (res, h2, [])" "sr_ran res = Some l"
    and pol: "host_policy P (demo_serving ks f) = (Inr \<lparr> hd_signed = s, hd_policy = demo_policy \<rparr>, (demo_serving ks f) \<lparr> gh_high_water := 1 \<rparr>)"
    and op: "session_opened P demo_world (frames_bytes P [Open, Hello demo_hello, Invoke demo_asked, Stdin [1]]) demo_hello demo_asked
       (frames_bytes P [Stdin [1]])"
  let ?r = "frames_bytes P [Open, Hello demo_hello, Invoke demo_asked, Stdin [1]]"
  have kf: "kf_ok (sw_clock demo_world 1)
      (id_fetcher (gh_identities (sw_others demo_world 0 (snd (host_policy P (demo_serving ks f))))))"
    using d(1) pol by (simp add: demo_world_def demo_serving_def demo_host_def demo_identities_def)
  obtain hello asked who role code n rest where c: "session_opened P demo_world ?r hello asked rest"
      "fits_launch P h2 demo_world 7 (he_id_token hello) who role asked l"
      "sr_log res = [Call_finished (iv_service asked) 7 who role code n]"
    using session_runs_only_admitted[OF d(2,3) kf] by blast
  have "hello = demo_hello" "asked = demo_asked" using op c(1) by (auto simp: session_opened_def)
  then have "fits_launch P h2 demo_world 7 ''01.02.09'' who role demo_asked l"
    "sr_log res = [Call_finished ''status'' 7 who role code n]"
    using c(2,3) by (simp_all add: demo_hello_def demo_asked_def)
  moreover have "fst (serve_session P demo_world demo_child 7 ?r (demo_serving ks f, [])) = res" using d(2) by simp
  ultimately show ?thesis using d(3) by blast
qed

text \<open>The caller that this session admits, and what it asked for.\<close>

definition session_admits :: "prims \<Rightarrow> session_world \<Rightarrow> node_id \<Rightarrow> bytes \<Rightarrow> services_host \<Rightarrow> verified \<Rightarrow> invocation \<Rightarrow> bool" where
  "session_admits P tw caller r h v asked \<longleftrightarrow> (\<exists>state h0 h2 hello rest. host_policy P h = (Inr state, h0)
     \<and> writes P tw 0 (opening_proof P tw state h0) \<and> session_opened P tw r hello asked rest
     \<and> admit_caller P (sw_ring tw) (sw_web tw) state caller (he_id_token hello) (sw_clock tw 1) (sw_others tw 0 h0) = (Inr v, h2))"

definition is_answer :: "said \<Rightarrow> bool" where
  "is_answer x \<longleftrightarrow> (case x of Said (Stdout _) \<Rightarrow> True | Said (Stderr _) \<Rightarrow> True | Said (Exit _) \<Rightarrow> True | _ \<Rightarrow> False)"

fun is_ack :: "frame \<Rightarrow> bool" where
  "is_ack (Hello_Ack _) = True"
| "is_ack _ = False"

lemma run_session_says:
  assumes "run_session P tw child caller ad asked impl r said caps = (res, caps')"
  shows "\<exists>code n xs. sr_log res = [Call_finished (iv_service asked) caller (vf_principal (ad_caller ad)) (ad_role ad) code n]
     \<and> sr_said res = said @ xs \<and> list_all is_answer xs"
proof -
  have o: "list_all is_answer (map (Said \<circ> output_frame) ocs)" for ocs
    by (induction ocs) (auto simp: is_answer_def output_frame_def)
  have e: "is_answer (Said (Exit c))" for c by (simp add: is_answer_def)
  show ?thesis
    using assms o e by (auto simp: run_session_def Let_def bridge_def split: option.splits prod.splits)
qed

lemma decide_admitted:
  assumes "decide_session P tw child caller state hello asked r said (h, caps) = (res, h', caps')"
    "admit_caller P (sw_ring tw) (sw_web tw) state caller (he_id_token hello) (sw_clock tw 1) h = (Inr v, h2)"
  shows "(\<exists>why. sr_log res = [Call_refused (iv_service asked) caller (vf_principal v) why]
        \<and> sr_said res = said @ [Said_denied why] \<and> sr_ran res = None)
    \<or> (\<exists>role code n rest. sr_log res = [Call_finished (iv_service asked) caller (vf_principal v) role code n]
        \<and> sr_said res = said @ rest
        \<and> (rest = [] \<or> (\<exists>ack xs. rest = Said (Hello_Ack ack) # xs \<and> list_all is_answer xs)))"
proof -
  show ?thesis
  proof (cases "gate_admit state (gh_config h2) (gh_me h2) caller v (iv_service asked) (sw_clock tw 1)")
    case (Inl e)
    then show ?thesis
      using assms by (auto simp: decide_session_def Let_def gate_decide_def map_err_def refuse_session_def)
  next
    case (Inr ad)
    then have c: "ad_caller ad = v" by (simp add: gate_admit_Inr)
    note d = assms(1)[unfolded decide_session_def Let_def gate_decide_def map_err_def split_conv assms(2) Inr prod.case sum.case]
    show ?thesis
    proof (cases "host_implementation h2 (iv_service asked)")
      case None
      then show ?thesis using d by (auto simp: refuse_session_def)
    next
      case (Some impl)
      let ?ack = "session_ack state hello (iv_service asked) (ad_version ad)"
      have "is_ack ?ack" by (simp add: session_ack_def Let_def)
      then obtain a where a: "?ack = Hello_Ack a" by (cases ?ack) auto
      show ?thesis
      proof (cases "writes P tw 1 ?ack")
        case False
        then show ?thesis using d Some by auto
      next
        case True
        obtain rs cs where r: "run_session P tw child caller ad asked impl r (said @ [Said ?ack]) caps = (rs, cs)" by fastforce
        then have "rs = res" using d Some True by auto
        moreover have "\<exists>code n xs. sr_log rs = [Call_finished (iv_service asked) caller (vf_principal v) (ad_role ad) code n]
            \<and> sr_said rs = (said @ [Said ?ack]) @ xs \<and> list_all is_answer xs"
          using run_session_says[OF r] c by simp
        ultimately show ?thesis using a by fastforce
      qed
    qed
  qed
qed

lemma decide_stranger:
  assumes "decide_session P tw child caller state hello asked r said (h, caps) = (res, h', caps')"
    "admit_caller P (sw_ring tw) (sw_web tw) state caller (he_id_token hello) (sw_clock tw 1) h = (Inl e, h2)"
  shows "sr_log res = [] \<and> sr_ran res = None \<and> caps' = caps \<and> sr_said res = said @ [Said_denied (Said_not_admitted (na_said e))]
    \<and> na_said e \<in> {sign_in_expired_text, idp_unreachable_text, not_admitted_text}"
proof -
  have "na_said e \<in> {sign_in_expired_text, idp_unreachable_text, not_admitted_text}"
    using assms(2) by (auto simp: admit_caller_def Let_def split: prod.splits sum.splits verify_error.splits)
  then show ?thesis using assms by (auto simp: decide_session_def refuse_session_def Let_def)
qed

text \<open>
  C9: what a session says and logs, exactly. A caller that is not admitted is told at most the
  host's proof and one denial out of a fixed list, whatever it asked for: no service is started, no
  capability is made and no line is logged. For an admitted caller one line is logged, naming the
  key, the verified person and the service asked for, and it says what happened: either the call was
  refused and the denial is all that follows the proof, or the line tells how it ended, and only
  output and an exit code follow the one acknowledgement.
\<close>

theorem session_says_and_logs:
  assumes "serve_session P tw child caller r (h, caps) = (res, h', caps')"
  shows "((\<forall>v asked. \<not> session_admits P tw caller r h v asked) \<longrightarrow>
      sr_log res = [] \<and> sr_ran res = None \<and> caps' = caps
      \<and> (sr_said res = [] \<or> sr_said res = [Said_denied Misconfigured] \<or> (\<exists>pf why. sr_said res = [Said (Proof pf), Said_denied why]
          \<and> why \<in> {First_not_hello, Closed_before_hello, Unreadable_hello, Hello_timed_out, Invoke_required,
              Said_not_admitted sign_in_expired_text, Said_not_admitted idp_unreachable_text,
              Said_not_admitted not_admitted_text})))
    \<and> (\<forall>v asked. session_admits P tw caller r h v asked \<longrightarrow> (\<exists>pf.
        (\<exists>why. sr_log res = [Call_refused (iv_service asked) caller (vf_principal v) why]
            \<and> sr_said res = [Said (Proof pf), Said_denied why] \<and> sr_ran res = None)
        \<or> (\<exists>role code n rest. sr_log res = [Call_finished (iv_service asked) caller (vf_principal v) role code n]
            \<and> sr_said res = Said (Proof pf) # rest
            \<and> (rest = [] \<or> (\<exists>ack xs. rest = Said (Hello_Ack ack) # xs \<and> list_all is_answer xs)))))"
  using assms
proof (cases rule: serve_session_cases)
  case (misconfigured e)
  then show ?thesis by (simp add: session_admits_def refuse_session_def)
next
  case (unsent state)
  then have "\<not> session_admits P tw caller r h v asked" for v asked by (auto simp: session_admits_def)
  then show ?thesis using unsent by simp
next
  case (unopened state h0 why)
  then have "\<not> session_admits P tw caller r h v asked" for v asked by (auto simp: session_admits_def)
  then show ?thesis using unopened by (auto simp: refuse_session_def opening_proof_def)
next
  case (opened state h0 hello asked rest)
  obtain x h2 where a: "admit_caller P (sw_ring tw) (sw_web tw) state caller (he_id_token hello) (sw_clock tw 1)
      (sw_others tw 0 h0) = (x, h2)" by fastforce
  obtain pf where pf: "opening_proof P tw state h0 = Proof pf" by (simp add: opening_proof_def)
  show ?thesis
  proof (cases x)
    case (Inl e)
    have "\<not> session_admits P tw caller r h v asked'" for v asked'
      using opened a Inl by (auto simp: session_admits_def session_opened_def)
    then show ?thesis using decide_stranger[OF opened(4)] a Inl pf by auto
  next
    case (Inr v)
    have "session_admits P tw caller r h v' asked' \<longleftrightarrow> v' = v \<and> asked' = asked" for v' asked'
      using opened a Inr by (auto simp: session_admits_def session_opened_def)
    then show ?thesis using decide_admitted[OF opened(4)] a Inr pf by fastforce
  qed
qed

theorem session_says_and_logs_witness:
  "\<exists>P r h res pf ack xs role code n. fst (serve_session P demo_world demo_child 7 r (h, [])) = res
     \<and> sr_said res = Said (Proof pf) # Said (Hello_Ack ack) # xs \<and> list_all is_answer xs
     \<and> sr_log res = [Call_finished ''status'' 7 demo_who role code n]"
proof (rule demo_session)
  fix P ks f s res l h2
  let ?r = "frames_bytes P [Open, Hello demo_hello, Invoke demo_asked, Stdin [1]]"
  assume d: "serve_session P demo_world demo_child 7 ?r (demo_serving ks f, []) = (res, h2, [])"
    "sr_ran res = Some l" "sr_end res = End_exited"
    and pol: "host_policy P (demo_serving ks f) = (Inr \<lparr> hd_signed = s, hd_policy = demo_policy \<rparr>, (demo_serving ks f) \<lparr> gh_high_water := 1 \<rparr>)"
    and op: "session_opened P demo_world ?r demo_hello demo_asked (frames_bytes P [Stdin [1]])"
    and adm: "admit_caller P demo_ring demo_web \<lparr> hd_signed = s, hd_policy = demo_policy \<rparr> 7 ''01.02.09'' 500
       ((demo_serving ks f) \<lparr> gh_high_water := 1 \<rparr>) = (Inr (ad_caller demo_ad), h2)"
  have "sr_said res \<noteq> []" using serve_session_ran[OF d(1,2)] by (metis list.distinct(1))
  then have w: "writes P demo_world 0 (opening_proof P demo_world \<lparr> hd_signed = s, hd_policy = demo_policy \<rparr>
      ((demo_serving ks f) \<lparr> gh_high_water := 1 \<rparr>))"
    by (cases rule: serve_session_cases[OF d(1)]) (use pol op d(2) in \<open>simp_all add: refuse_session_def\<close>)
  have "session_admits P demo_world 7 ?r (demo_serving ks f) (ad_caller demo_ad) demo_asked"
  proof -
    have "admit_caller P (sw_ring demo_world) (sw_web demo_world) \<lparr> hd_signed = s, hd_policy = demo_policy \<rparr> 7
        (he_id_token demo_hello) (sw_clock demo_world 1) (sw_others demo_world 0 ((demo_serving ks f) \<lparr> gh_high_water := 1 \<rparr>))
        = (Inr (ad_caller demo_ad), h2)"
      using adm by (simp add: demo_world_def demo_hello_def)
    then show ?thesis unfolding session_admits_def using pol w op by blast
  qed
  then obtain pf rest role code n where r: "sr_said res = Said (Proof pf) # rest"
      "sr_log res = [Call_finished ''status'' 7 demo_who role code n]"
      "rest = [] \<or> (\<exists>ack xs. rest = Said (Hello_Ack ack) # xs \<and> list_all is_answer xs)"
    using session_says_and_logs[OF d(1)] d(2) by (fastforce simp: demo_ad_def demo_asked_def)
  moreover have "length (sr_said res) \<ge> 2" using serve_session_ran[OF d(1,2)] by (metis le_add1 length_Cons numeral_2_eq_2 Suc_le_mono add_0)
  ultimately obtain ack xs where "sr_said res = Said (Proof pf) # Said (Hello_Ack ack) # xs" "list_all is_answer xs" by auto
  moreover have "fst (serve_session P demo_world demo_child 7 ?r (demo_serving ks f, [])) = res" using d(1) by simp
  ultimately show ?thesis using r(2) by blast
qed

end
