(* ===== verification/Session_Calls.thy ===== *)
theory Session_Calls
  imports Session_Claims
begin

text \<open>
  Both sides of a session together: a caller's call over the bytes a host's session writes.
\<close>

section \<open>A host as the caller finds it\<close>

definition said_bytes :: "prims \<Rightarrow> (session_refusal \<Rightarrow> string) \<Rightarrow> said list \<Rightarrow> bytes" where
  "said_bytes P texts xs = frames_bytes P (map (\<lambda>x. case x of Said f \<Rightarrow> f | Said_denied why \<Rightarrow> Denied (texts why)) xs)"

text \<open>While the caller may still send, the host has said what it says before it waits: up to the ack,
  and no denial for what has not arrived yet.\<close>

fun so_far :: "said list \<Rightarrow> said list" where
  "so_far [] = []"
| "so_far (Said f # xs) = Said f # (if is_ack f then [] else so_far xs)"
| "so_far (Said_denied why # xs) = (if why \<in> {Hello_timed_out, Invoke_required} then [] else [Said_denied why])"

definition session_link :: "prims \<Rightarrow> (session_refusal \<Rightarrow> string) \<Rightarrow> session_world \<Rightarrow> child \<Rightarrow> node_id
    \<Rightarrow> services_host \<times> capabilities \<Rightarrow> (nat \<Rightarrow> bool) \<Rightarrow> (nat \<Rightarrow> i64) \<Rightarrow> host_link" where
  "session_link P texts tw child caller hc up clock = \<lparr>
     hl_says = (\<lambda>sent closed.
       let xs = sr_said (fst (serve_session P (tw \<lparr> sw_closed := closed \<rparr>) child caller sent hc))
       in said_bytes P texts (if closed then xs else so_far xs)),
     hl_up = up, hl_clock = clock \<rparr>"

lemma world_closed [simp]:
  "writes P (tw \<lparr> sw_closed := c \<rparr>) = writes P tw" "launch P (tw \<lparr> sw_closed := c \<rparr>) = launch P tw"
  "session_decided P (tw \<lparr> sw_closed := c \<rparr>) = session_decided P tw"
  "opening_proof P (tw \<lparr> sw_closed := c \<rparr>) = opening_proof P tw"
proof -
  have "server_env P (tw \<lparr> sw_closed := c \<rparr>) = server_env P tw"
    by (auto simp: fun_eq_iff server_env_def Let_def split: option.split)
  then show "launch P (tw \<lparr> sw_closed := c \<rparr>) = launch P tw"
    by (auto simp: fun_eq_iff launch_def Let_def split: implementation.split option.split)
qed (auto simp: fun_eq_iff writes_def session_decided_def opening_proof_def)

section \<open>What the host hears and says\<close>

text \<open>A decision that lets a call through, on one that can reach the caller.\<close>

definition session_answers :: "prims \<Rightarrow> session_world \<Rightarrow> child \<Rightarrow> node_id \<Rightarrow> services_host \<Rightarrow> hello \<Rightarrow> invocation \<Rightarrow> bytes
    \<Rightarrow> frame \<Rightarrow> frame \<Rightarrow> child_run \<Rightarrow> bool" where
  "session_answers P tw child caller h hello asked input pf ack run \<longleftrightarrow>
     (\<exists>state h0 h2 v ad impl l g. host_policy P h = (Inr state, h0) \<and> pf = opening_proof P tw state h0
       \<and> session_decided P tw caller state (sw_others tw 0 h0) hello asked h2 v ad impl
       \<and> ack = session_ack state hello (iv_service asked) (ad_version ad)
       \<and> launch P tw caller ad asked impl = Some (l, g) \<and> child l input = Some run
       \<and> sw_up tw 0 \<and> sw_up tw 1)"

lemma session_says:
  fixes fs :: "frame list" and b :: bool
  assumes "json_law P" "hex_law P" "frame_fits P max_hello_frame (Hello hello)" "frame_fits P max_invoke_frame (Invoke asked)"
    "frame_fits P max_frame pf" "frame_fits P max_frame ack"
    "session_answers P tw child caller h hello asked input pf ack run"
  defines "opening \<equiv> frames_bytes P ((if b then [Open] else []) @ [Hello hello, Invoke asked] @ fs)"
  shows "so_far (sr_said (fst (serve_session P (tw \<lparr> sw_closed := False \<rparr>) child caller opening (h, caps)))) = [Said pf, Said ack]"
    "session_stdin P (frames_bytes P fs) = input \<Longrightarrow>
      sr_said (fst (serve_session P (tw \<lparr> sw_closed := True \<rparr>) child caller opening (h, caps)))
        = Said pf # Said ack # map Said (map output_frame (cr_output run) @ [Exit (cr_exit run)])"
proof -
  obtain state h0 h2 v ad impl l g where s: "host_policy P h = (Inr state, h0)" "pf = opening_proof P tw state h0"
      "session_decided P tw caller state (sw_others tw 0 h0) hello asked h2 v ad impl"
      "ack = session_ack state hello (iv_service asked) (ad_version ad)"
      "launch P tw caller ad asked impl = Some (l, g)" "child l input = Some run" "sw_up tw 0" "sw_up tw 1"
    using assms(7) by (auto simp: session_answers_def)
  have w: "writes P tw 0 pf" "writes P tw 1 ack"
    using frame_fits_encodes[OF assms(5)] frame_fits_encodes[OF assms(6)] s(7,8) by (simp_all add: writes_def)
  have op: "session_opened P (tw \<lparr> sw_closed := c \<rparr>) opening hello asked (frames_bytes P fs)" for c
    unfolding opening_def by (rule session_opens[OF assms(1-4)])
  have run: "serve_session P (tw \<lparr> sw_closed := c \<rparr>) child caller opening (h, caps) = (fst q, h2, snd q)"
    if "q = run_session P (tw \<lparr> sw_closed := c \<rparr>) child caller ad asked impl (frames_bytes P fs) [Said pf, Said ack] caps" for q c
    using serve_session_opened[OF s(1) _ op, of c child caller caps] w s(2-4) that
    by (auto simp: decide_session_def session_decided_def Let_def gate_decide_def map_err_def split: prod.splits)
  have nf: "\<not> is_ack pf" "is_ack ack" using s(2,4) by (simp_all add: opening_proof_def session_ack_def Let_def)
  obtain res cs where r: "run_session P (tw \<lparr> sw_closed := False \<rparr>) child caller ad asked impl (frames_bytes P fs)
      [Said pf, Said ack] caps = (res, cs)" by fastforce
  from run_session_says[OF r] run[OF r[symmetric]] nf
  show "so_far (sr_said (fst (serve_session P (tw \<lparr> sw_closed := False \<rparr>) child caller opening (h, caps)))) = [Said pf, Said ack]"
    by auto
  assume "session_stdin P (frames_bytes P fs) = input"
  then show "sr_said (fst (serve_session P (tw \<lparr> sw_closed := True \<rparr>) child caller opening (h, caps)))
        = Said pf # Said ack # map Said (map output_frame (cr_output run) @ [Exit (cr_exit run)])"
    using run[OF refl, of True] s(5,6) by (simp add: run_session_def Let_def bridge_def)
qed

lemma session_says_open:
  assumes "json_law P" "hex_law P" "frame_fits P max_frame pf"
    "session_answers P tw child caller h hello asked input pf ack run"
  shows "so_far (sr_said (fst (serve_session P (tw \<lparr> sw_closed := False \<rparr>) child caller (frames_bytes P [Open]) (h, caps)))) = [Said pf]"
proof -
  obtain state h0 where s: "host_policy P h = (Inr state, h0)" "pf = opening_proof P tw state h0" "sw_up tw 0"
    using assms(4) by (auto simp: session_answers_def)
  have w: "writes P tw 0 pf" using frame_fits_encodes[OF assms(3)] s(3) by (simp add: writes_def)
  have o: "frame_fits P max_hello_frame Open" by (simp add: frame_fits_def frame_payload_def max_hello_frame_def)
  have "read_session_opening P False (frames_bytes P [Open]) = (Op_timed_out, [])"
    using read_opening_frame[OF assms(1,2) o opening_caps(1), of False "[]"]
    by (simp add: read_session_opening_def read_opening_within_def read_nothing)
  then have "serve_session P (tw \<lparr> sw_closed := False \<rparr>) child caller (frames_bytes P [Open]) (h, caps)
      = (refuse_session [Said pf] [] Hello_timed_out, sw_others tw 0 h0, caps)"
    using s w by (simp add: serve_session_def Let_def opening_proof_def read_hello_frame_def)
  then show ?thesis using s(2) by (simp add: refuse_session_def opening_proof_def)
qed

section \<open>A call\<close>

lemma link_send_all:
  "(\<And>i. hl_up l i) \<Longrightarrow> (\<And>f. f \<in> set fs \<Longrightarrow> is_ok (frame_encode P f)) \<Longrightarrow> link_send P l i fs = (fs, True)"
  by (induction fs arbitrary: i) (simp_all add: link_writes_def)

lemma frame_fits_ok: "frame_fits P cap f \<Longrightarrow> cap \<le> max_frame \<Longrightarrow> is_ok (frame_encode P f)"
  by (simp add: frame_fits_encodes)

text \<open>What the caller is told, on a link to a host that lets it through.\<close>

definition opening_frames :: "bool \<Rightarrow> hello \<Rightarrow> invocation \<Rightarrow> frame list" where
  "opening_frames at_once hello asked = (if at_once then [] else [Open]) @ [Hello hello, Invoke asked]"

lemma speak_through:
  assumes "json_law P" "hex_law P" "\<And>i. hl_up l i"
    and fits: "frame_fits P max_hello_frame (Proof pf)" "frame_fits P max_hello_frame (Hello hello)"
      "frame_fits P max_invoke_frame (Invoke asked)"
    and says: "hl_says l (frames_bytes P (if at_once then opening_frames True hello asked else [Open])) False
      = frames_bytes P (Proof pf # extra)"
    and at_once: "vouch_ready P vo host (hl_clock l 0) = at_once"
    and check: "vouch_check P host pf (hl_clock l 1) (\<not> at_once) (vo, st) = (Inr (), vo', st')"
    and hello: "hello = \<lparr> he_state_version = vouch_version (if at_once then vo else vo'), he_id_token = tok \<rparr>"
  shows "speak P host tok asked l (vo, st)
    = (Inr (), opening_frames at_once hello asked, length (frames_bytes P [Proof pf]), vo', st')"
proof -
  have open_fits: "frame_fits P max_hello_frame Open"
    by (simp add: frame_fits_def frame_payload_def max_hello_frame_def)
  have ok: "is_ok (frame_encode P (Hello hello))" "is_ok (frame_encode P (Invoke asked))" "is_ok (frame_encode P Open)"
    using frame_fits_ok fits open_fits opening_caps by blast+
  have send: "link_send P l i [Hello hello, Invoke asked] = ([Hello hello, Invoke asked], True)"
    "link_send P l i [Open] = ([Open], True)" for i
    using ok assms(3) by (simp_all add: link_writes_def)
  have len: "length (frames_bytes P (Proof pf # extra)) - length (frames_bytes P extra) = length (frames_bytes P [Proof pf])"
    by (simp add: frames_bytes_def)
  have rd: "read_frame_within P max_hello_frame (frames_bytes P (Proof pf # extra)) = (Inr (Some (Proof pf)), frames_bytes P extra)"
    using read_frames_bytes[OF assms(1,2) fits(1) opening_caps(1), of extra "[]"] by simp
  show ?thesis
  proof (cases at_once)
    case True
    then have "hl_says l (frames_bytes P [Hello hello, Invoke asked]) False = frames_bytes P (Proof pf # extra)"
      using says by (simp add: opening_frames_def)
    then show ?thesis
      using True at_once check hello send(1)[of 0] rd len
      by (simp only: speak_def Let_def split_conv prod.case if_True not_True_eq_False sum.case option.case frame.case)
        (simp add: opening_frames_def)
  next
    case False
    then have "hl_says l (frames_bytes P [Open]) False = frames_bytes P (Proof pf # extra)" using says by simp
    then show ?thesis
      using False at_once check hello send(2)[of 0] send(1)[of 1] rd len
      by (simp only: speak_def Let_def split_conv prod.case if_False not_False_eq_True sum.case option.case frame.case)
        (simp add: opening_frames_def)
  qed
qed

lemma frames_bytes_Cons: "frames_bytes P (f # fs) = frames_bytes P [f] @ frames_bytes P fs"
  by (simp add: frames_bytes_def)

lemma drop_first: "drop (length (frames_bytes P [f])) (frames_bytes P (f # fs)) = frames_bytes P fs"
  by (subst frames_bytes_Cons) simp

lemma converse_through:
  assumes "json_law P" "hex_law P"
    and fits: "frame_fits P max_frame (Hello_Ack ack)" "\<forall>oc \<in> set (cr_output run). length (snd oc) < max_frame"
    and says: "hl_says l (frames_bytes P sent) False = frames_bytes P [pf, Hello_Ack ack]"
      "hl_says l (frames_bytes P (sent @ map Stdin chunks)) True
        = frames_bytes P (pf # Hello_Ack ack # map output_frame (cr_output run) @ [Exit (cr_exit run)])"
    and ok: "on_ack ack = Inr ()"
  shows "converse P on_ack chunks l sent (length (frames_bytes P [pf]))
    = (Inr (ack, cr_exit run), map Stdin chunks, out_of (cr_output run) False, out_of (cr_output run) True)"
proof -
  let ?a = "frames_bytes P [Hello_Ack ack]"
  let ?out = "map output_frame (cr_output run) @ [Exit (cr_exit run)]"
  have rd: "read_frame P ?a = (Inr (Some (Hello_Ack ack)), [])"
    using read_frames_bytes[OF assms(1,2) fits(1), of "[]" "[]"] by (simp add: read_frame_def)
  have "frames_bytes P (pf # Hello_Ack ack # ?out) = frames_bytes P [pf] @ ?a @ frames_bytes P ?out"
    by (simp add: frames_bytes_def)
  then have rest: "drop (length (frames_bytes P [pf]) + length ?a) (frames_bytes P (pf # Hello_Ack ack # ?out)) = frames_bytes P ?out"
    by simp
  show ?thesis
    unfolding converse_def says drop_first Let_def rd
    by (simp only: prod.case sum.case option.case frame.case ok list.size says(2) rest diff_zero map_sum.simps
        session_output_frames[OF assms(1,2) fits(2)])
qed

lemma call_through:
  assumes laws: "json_law P" "hex_law P"
    and served: "session_answers P tw child caller h hello asked (concat chunks) (Proof pf) (Hello_Ack ack) run"
    and dialed: "dials host = Connected (session_link P texts tw child caller (h, caps) (\<lambda>_. True) clock)"
    and at_once: "vouch_ready P vo host (clock 0) = at_once"
    and check: "vouch_check P host pf (clock 1) (\<not> at_once) (vo, st) = (Inr (), vo', st')"
    and hello: "hello = \<lparr> he_state_version = vouch_version (if at_once then vo else vo'), he_id_token = tok \<rparr>"
    and ack_ok: "on_ack host (vouch_version vo') ack = Inr ()"
    and fits: "frame_fits P max_hello_frame (Proof pf)" "frame_fits P max_hello_frame (Hello hello)"
      "frame_fits P max_invoke_frame (Invoke asked)" "frame_fits P max_frame (Hello_Ack ack)"
      "\<forall>c \<in> set chunks. length c < max_frame" "\<forall>oc \<in> set (cr_output run). length (snd oc) < max_frame"
  shows "call_service_on P dials tok asked on_ack chunks [] (host # hosts) (vo, st)
    = (Inr \<lparr> cd_host = host, cd_exit = cr_exit run, cd_stdout = out_of (cr_output run) False,
              cd_stderr = out_of (cr_output run) True, cd_ack = ack, cd_held = vouch_version vo' \<rparr>,
       [(host, opening_frames at_once hello asked @ map Stdin chunks)], vo', st')"
proof -
  let ?l = "session_link P texts tw child caller (h, caps) (\<lambda>_. True) clock"
  let ?o = "opening_frames at_once hello asked"
  have pf: "frame_fits P max_frame (Proof pf)" using frame_fits_mono[OF fits(1) opening_caps(1)] .
  note says = session_says[OF laws fits(2,3) pf fits(4) served, where b = "\<not> at_once" and caps = caps]
  have o: "(if \<not> at_once then [Open] else []) @ [Hello hello, Invoke asked] @ fs = ?o @ fs" for fs
    by (simp add: opening_frames_def)
  have full: "hl_says ?l (frames_bytes P (?o @ map Stdin chunks)) True
      = frames_bytes P (Proof pf # Hello_Ack ack # map output_frame (cr_output run) @ [Exit (cr_exit run)])"
    using says(2)[where fs = "map Stdin chunks", OF session_stdin_frames[OF laws fits(5)], unfolded o]
    by (simp add: session_link_def said_bytes_def o_def del: frames_bytes_simps)
  have half: "hl_says ?l (frames_bytes P ?o) False = frames_bytes P [Proof pf, Hello_Ack ack]"
    using says(1)[where fs = "[]", unfolded o, unfolded append_Nil2]
    by (simp add: session_link_def said_bytes_def del: frames_bytes_simps)
  have "hl_says ?l (frames_bytes P [Open]) False = frames_bytes P [Proof pf]"
    using session_says_open[OF laws pf served, of caps]
    by (simp add: session_link_def said_bytes_def del: frames_bytes_simps)
  with half have "hl_says ?l (frames_bytes P (if at_once then opening_frames True hello asked else [Open])) False
      = frames_bytes P (Proof pf # (if at_once then [Hello_Ack ack] else []))"
    by (cases at_once) auto
  from speak_through[OF laws _ fits(1-3) this] at_once check hello
  have sp: "speak P host tok asked ?l (vo, st) = (Inr (), ?o, length (frames_bytes P [Proof pf]), vo', st')"
    by (simp add: session_link_def)
  have cv: "converse P (on_ack host (vouch_version vo')) chunks ?l ?o (length (frames_bytes P [Proof pf]))
    = (Inr (ack, cr_exit run), map Stdin chunks, out_of (cr_output run) False, out_of (cr_output run) True)"
    by (rule converse_through[where on_ack = "on_ack host (vouch_version vo')" and ack = ack, OF laws fits(4,6) half full ack_ok])
  show ?thesis by (simp add: dialed sp cv)
qed

section \<open>Properties\<close>

definition demo_vouching :: "signed_policy \<Rightarrow> vouching" where
  "demo_vouching s = vouching_new 1 \<lparr> hv_view = view_for s 7 (Some demo_who) None, hv_fresh = [], hv_checked = 500, hv_seen = 0 \<rparr>
     (Scope_service ''status'')"

lemma demo_vouching_serves:
  assumes "sign_with P demo_policy 1 None = Inr s" "ed25519_law P" "node_id P 1 = 1"
  shows "vouch_serves (demo_vouching s) 2" "vouch_ok P (demo_vouching s)"
proof -
  have v: "sp_verify P s 1 = Inr ()" "to_policy s = Inr demo_policy"
    using sign_with_verifies[OF assms(2) _ assms(1)] assms(3) by simp_all
  then show "vouch_ok P (demo_vouching s)"
    using view_verifies by (simp add: vouch_ok_def demo_vouching_def vouching_new_def)
  have entries: "sp_entries s = map (policy_entry P demo_policy 1 (kept_entries None)) (po_services demo_policy)"
    using assms(1) by (intro sp_entries_items) (auto simp: sign_with_Inr)
  then obtain e where e: "sp_entries s = [e]" "se_name e = ''status''" by (auto simp: demo_policy_def)
  have "authorize demo_policy 7 (Some demo_who) ''status'' = Inr ''staff''"
    by (simp add: authorize_def bans_node_def bans_person_def demo_policy_def policy_new_def role_admits_def
        admits_def matches_def matcher_new_def demo_who_def policy_service_def)
  then have "vw_entries (view_for s 7 (Some demo_who) None) = [e]" using e by (simp add: view_for_entries[OF v(2)])
  moreover have "sv_hosts (se_service e) = [2]"
    using arg_cong[OF to_policy_service[OF v(2), of e, symmetric], of "\<lambda>x. sv_hosts (the x)"] e
    by (simp add: demo_policy_def)
  ultimately show "vouch_serves (demo_vouching s) 2"
    using e(2) by (simp add: vouch_serves_def demo_vouching_def vouching_new_def hv_entry_def view_entry_def)
qed

text \<open>A call of the demonstration: everything that both sides bring to it.\<close>

lemma demo_call:
  obtains P pf vo vo' st h and dials :: "node_id \<Rightarrow> dial" where "json_law P" "hex_law P" "vouch_ok P vo"
    "session_answers P demo_world demo_child 7 h demo_hello demo_asked (concat [[1]]) (Proof pf) (Hello_Ack demo_ack) demo_run"
    "dials 2 = Connected (session_link P (\<lambda>_. []) demo_world demo_child 7 (h, []) (\<lambda>_. True) (\<lambda>_. 500))"
    "vouch_ready P vo 2 ((\<lambda>_. 500) 0) = False"
    "vouch_check P 2 pf ((\<lambda>_. 500) 1) (\<not> False) (vo, st) = (Inr (), vo', st)"
    "demo_hello = \<lparr> he_state_version = vouch_version (if False then vo else vo'), he_id_token = ''01.02.09'' \<rparr>"
    "accept_ack P 1 (vouch_version vo') ''status'' 2 demo_ack = Inr ()"
    "frame_fits P max_hello_frame (Proof pf)" "frame_fits P max_hello_frame (Hello demo_hello)"
    "frame_fits P max_invoke_frame (Invoke demo_asked)" "frame_fits P max_frame (Hello_Ack demo_ack)"
    "\<forall>c \<in> set [[1]]. length (c :: bytes) < max_frame" "\<forall>oc \<in> set (cr_output demo_run). length (snd oc) < max_frame"
proof (rule demo_serves)
  fix s f ks pf P
  assume d: "P = session_table pf" "pf = \<lparr> hp_head = sp_head s, hp_fresh = [f] \<rparr>"
    "json_law P" "hex_law P" "proof_ok pf" "sp_version s = 1" "head_check_fresh (sp_head s) 500 = Inr ()"
    and crypt: "ed25519_law P" "node_id P 1 = 1" "node_id P 9 = 9" "sign_with P demo_policy 1 None = Inr s"
      "fresh_sign P 9 (sp_head s) 500 1400 = Inr f" "h_directories (sh_head (sp_head s)) = [9]"
    and pol: "host_policy P (demo_serving ks f) = (Inr \<lparr> hd_signed = s, hd_policy = demo_policy \<rparr>, (demo_serving ks f) \<lparr> gh_high_water := 1 \<rparr>)"
    and pf: "opening_proof P demo_world \<lparr> hd_signed = s, hd_policy = demo_policy \<rparr> ((demo_serving ks f) \<lparr> gh_high_water := 1 \<rparr>) = Proof pf"
  let ?h = "(demo_serving ks f) \<lparr> gh_high_water := 1 \<rparr>"
  have caps: "8 \<le> max_hello_frame" "8 \<le> max_invoke_frame" "8 \<le> max_frame"
    by (simp_all add: max_hello_frame_def max_invoke_frame_def max_argv_bytes_def max_frame_def)
  have h: "gh_identities ?h = demo_identities" "gh_config ?h = demo_config" "gh_me ?h = 2" "gh_native ?h = []"
    by (simp_all add: demo_serving_def demo_host_def)
  obtain h2 l where dec: "session_decided P demo_world 7 \<lparr> hd_signed = s, hd_policy = demo_policy \<rparr> ?h demo_hello demo_asked h2
       (ad_caller demo_ad) demo_ad (Command demo_status)"
      "launch P demo_world 7 demo_ad demo_asked (Command demo_status) = Some (l, False)"
    using demo_decides[OF d(6,7) h] d(1) by blast
  have ack: "session_ack \<lparr> hd_signed = s, hd_policy = demo_policy \<rparr> demo_hello ''status'' 1 = Hello_Ack demo_ack"
    by (simp add: session_ack_def demo_hello_def demo_ack_def)
  have served: "session_answers P demo_world demo_child 7 (demo_serving ks f) demo_hello demo_asked (concat [[1]])
      (Proof pf) (Hello_Ack demo_ack) demo_run"
    unfolding session_answers_def using pol pf dec ack
    by (intro exI[of _ "\<lparr> hd_signed = s, hd_policy = demo_policy \<rparr>"] exI[of _ ?h] exI[of _ h2] exI[of _ "ad_caller demo_ad"]
        exI[of _ demo_ad] exI[of _ "Command demo_status"] exI[of _ l] exI[of _ False])
      (simp add: demo_world_def demo_asked_def demo_ad_def demo_child_def)
  let ?vo = "demo_vouching s"
  have vo: "vouch_version ?vo = 1" "vo_root ?vo = 1" "vw_head (hv_view (vo_held ?vo)) = sp_head s" "vouch_serves ?vo 2" "vouch_ok P ?vo"
    "\<not> vouch_ready P ?vo 2 500" "vo_known ?vo = []" "vo_sink ?vo = Sink_nowhere"
    using d(6) demo_vouching_serves[OF crypt(4,1,2)]
    by (simp_all add: vouch_ready_def fs_vouching_def)
      (simp_all add: demo_vouching_def vouching_new_def vouch_version_def hv_version_def sp_version_def)
  have w: "fresh_vouches P f (sp_head s) 2 500 = Inr ()" "fr_directory f = 9"
    using signed_word[OF crypt(1,5)] crypt(3)
    by (simp_all add: fresh_vouches_Inr fresh_is_current_def clock_skew_secs_def sat_sub_def clamp_i64_def i64_min_def i64_max_def)
  have v: "proof_vouching P pf 2 500 = Inr f" using w(1) d(2) by (simp add: proof_vouching_def)
  have "head_verify P 1 (sp_head s) = Inr ()"
    using sign_with_verifies[OF crypt(1) _ crypt(4)] crypt(2) by (simp add: sp_verify_Inr)
  then have "proof_check P pf 1 (sp_head s) 2 500 = Inr Same"
    using d(2,7) w(1) by (auto simp: proof_check_Inr head_check_fresh_Inr max_fresh_set_def)
  then obtain vo' where chk: "vouch_check P 2 pf 500 True (?vo, st) = (Inr (), vo', st)" "vouch_version vo' = 1"
    if "True" for st
    using vo v w(2) by (auto simp: vouch_check_def Let_def vouch_settle_def vouch_takes_def vouch_learn_def vouch_version_def
        hv_version_def hv_learn_all_view)
  define dials where "dials = (\<lambda>_ :: node_id. Connected (session_link P (\<lambda>_. []) demo_world demo_child 7
    (demo_serving ks f, []) (\<lambda>_. True) (\<lambda>_. 500)))"
  let ?st = "undefined :: caller_state"
  have on: "accept_ack P 1 (vouch_version vo') ''status'' 2 demo_ack = Inr ()"
    using chk(2) by (simp add: accept_ack_def ack_assigns_def demo_ack_def)
  have hello: "demo_hello = \<lparr> he_state_version = vouch_version (if False then ?vo else vo'), he_id_token = ''01.02.09'' \<rparr>"
    using chk(2) by (simp add: demo_hello_def)
  note fits = session_table_fits[OF d(5), folded d(1)]
  have r: "dials 2 = Connected (session_link P (\<lambda>_. []) demo_world demo_child 7 (demo_serving ks f, []) (\<lambda>_. True) (\<lambda>_. 500))"
    "vouch_ready P ?vo 2 ((\<lambda>_. 500) 0) = False"
    "vouch_check P 2 pf ((\<lambda>_. 500) 1) (\<not> False) (?vo, ?st) = (Inr (), vo', ?st)"
    using vo(6) chk(1) by (simp_all add: dials_def)
  show thesis
    by (rule that[where P = P and pf = pf and vo = ?vo and vo' = vo' and st = ?st and h = "demo_serving ks f" and dials = dials,
          OF d(3,4) vo(5) served r hello on fits(3)[OF caps(1)] fits(1)[OF caps(1)] fits(2)[OF caps(2)]
          fits(4)[OF caps(3)]])
      (simp_all add: max_frame_def demo_run_def)
qed

text \<open>
  C4: a call does what the service does. When a host's session would let this caller's call through
  and start the service, and the caller accepts the host's proof, either at once (it may then speak
  first) or when it sees it, and accepts its acknowledgement, then the call ends with the service's
  exit code and with exactly what the service wrote to its two outputs, in order, when it is started
  with exactly the caller's input; and all the host was sent are the opening frames and that input.
\<close>

theorem call_returns_what_the_service_did:
  assumes laws: "json_law P" "hex_law P"
    and served: "session_answers P tw child caller h hello asked (concat chunks) (Proof pf) (Hello_Ack ack) run"
    and dialed: "dials host = Connected (session_link P texts tw child caller (h, caps) (\<lambda>_. True) clock)"
    and at_once: "vouch_ready P vo host (clock 0) = at_once"
    and check: "vouch_check P host pf (clock 1) (\<not> at_once) (vo, st) = (Inr (), vo', st')"
    and hello: "hello = \<lparr> he_state_version = vouch_version (if at_once then vo else vo'), he_id_token = tok \<rparr>"
    and ack_ok: "on_ack host (vouch_version vo') ack = Inr ()"
    and fits: "frame_fits P max_hello_frame (Proof pf)" "frame_fits P max_hello_frame (Hello hello)"
      "frame_fits P max_invoke_frame (Invoke asked)" "frame_fits P max_frame (Hello_Ack ack)"
      "\<forall>c \<in> set chunks. length c < max_frame" "\<forall>oc \<in> set (cr_output run). length (snd oc) < max_frame"
  shows "call_service_on P dials tok asked on_ack chunks [] (host # hosts) (vo, st)
    = (Inr \<lparr> cd_host = host, cd_exit = cr_exit run, cd_stdout = out_of (cr_output run) False,
              cd_stderr = out_of (cr_output run) True, cd_ack = ack, cd_held = vouch_version vo' \<rparr>,
       [(host, opening_frames at_once hello asked @ map Stdin chunks)], vo', st')"
  by (rule call_through) (use assms in auto)

theorem call_returns_what_the_service_did_witness:
  "\<exists>P dials vo st told vo' st'. call_service_on P dials ''01.02.09'' demo_asked
       (\<lambda>host held. accept_ack P 1 held ''status'' host) [[1]] [] [2] (vo, st)
     = (Inr \<lparr> cd_host = 2, cd_exit = 3, cd_stdout = [7], cd_stderr = [8], cd_ack = demo_ack, cd_held = 1 \<rparr>, told, vo', st')"
proof (rule demo_call)
  fix P pf vo vo' st h and dials :: "node_id \<Rightarrow> dial"
  assume a: "json_law P" "hex_law P"
    "session_answers P demo_world demo_child 7 h demo_hello demo_asked (concat [[1]]) (Proof pf) (Hello_Ack demo_ack) demo_run"
    "dials 2 = Connected (session_link P (\<lambda>_. []) demo_world demo_child 7 (h, []) (\<lambda>_. True) (\<lambda>_. 500))"
    "vouch_ready P vo 2 ((\<lambda>_. 500) 0) = False"
    "vouch_check P 2 pf ((\<lambda>_. 500) 1) (\<not> False) (vo, st) = (Inr (), vo', st)"
    "demo_hello = \<lparr> he_state_version = vouch_version (if False then vo else vo'), he_id_token = ''01.02.09'' \<rparr>"
    "accept_ack P 1 (vouch_version vo') ''status'' 2 demo_ack = Inr ()"
    "frame_fits P max_hello_frame (Proof pf)" "frame_fits P max_hello_frame (Hello demo_hello)"
    "frame_fits P max_invoke_frame (Invoke demo_asked)" "frame_fits P max_frame (Hello_Ack demo_ack)"
    "\<forall>c \<in> set [[1]]. length (c :: bytes) < max_frame" "\<forall>oc \<in> set (cr_output demo_run). length (snd oc) < max_frame"
  from a have "vouch_version vo' = 1" by (simp add: demo_hello_def)
  moreover note call_returns_what_the_service_did[where hosts = "[]" and P = P and dials = dials
        and host = 2 and clock = "\<lambda>_. 500" and chunks = "[[1]]" and vo = vo and vo' = vo' and st = st and st' = st
        and at_once = False and tok = "''01.02.09''" and hello = demo_hello
        and on_ack = "\<lambda>host held. accept_ack P 1 held ''status'' host", OF a]
  moreover have "out_of (cr_output demo_run) False = [7]" "out_of (cr_output demo_run) True = [8]" "cr_exit demo_run = 3"
    by (simp_all add: demo_run_def out_of_def)
  ultimately show ?thesis by metis
qed

end
