(* ===== verification/Caller_Claims.thy ===== *)
theory Caller_Claims
  imports Session_Calls
begin

text \<open>
  What a caller promises itself: whom it tells anything, which directories it tells its token, and what
  its stored view can become.
\<close>

section \<open>Properties\<close>



end
