(* ===== verification/Caller_Directories.thy ===== *)
theory Caller_Directories
  imports Caller_Claims
begin

text \<open>
  Which directories a caller tells its token, and what it takes from them.
\<close>

definition dir_stands :: "prims \<Rightarrow> node_id \<Rightarrow> node_id list \<Rightarrow> signed_head option \<Rightarrow> signed_head \<Rightarrow> node_id \<Rightarrow> i64 \<Rightarrow> bool" where
  "dir_stands P root known held head dir now \<longleftrightarrow> dir \<in> set (h_directories (sh_head head))
     \<and> head_verify P root head = Inr () \<and> now \<le> h_not_after (sh_head head)
     \<and> (\<forall>h. held = Some h \<longrightarrow> h_version (sh_head h) \<le> h_version (sh_head head)
          \<and> (h_version (sh_head h) = h_version (sh_head head) \<longrightarrow> head_hash P head = head_hash P h))
     \<and> (\<exists>w. fresh_verify P w head = Inr () \<and> fresh_is_current w now
          \<and> (fr_directory w \<noteq> dir \<or> h_directories (sh_head head) = [dir] \<and> (\<forall>d \<in> set known. d = dir)))"

lemma directory_vouched_stands:
  assumes "directory_vouched P pf pool root held known dir now = Inr ()"
  shows "dir_stands P root known held (hp_head pf) dir now"
proof -
  define combined where "combined = \<lparr> hp_head = hp_head pf, hp_fresh = fs_current_for P
    (fold (\<lambda>f s. case fresh_verified P f (hp_head pf) of Inl _ \<Rightarrow> s | Inr v \<Rightarrow> snd (fs_insert v now s))
      (take max_fresh_set (hp_fresh pf)) pool) (hp_head pf) now \<rparr>"
  have head: "hp_head combined = hp_head pf" by (simp add: combined_def)
  have a: "dir \<in> set (h_directories (sh_head (hp_head pf)))" "head_verify P root (hp_head pf) = Inr ()"
    and c: "case held of Some h \<Rightarrow> is_ok (proof_check P combined root h dir now)
       | None \<Rightarrow> is_ok (head_check_fresh (hp_head pf) now)"
    and w: "\<exists>w \<in> set (hp_fresh combined). is_ok (fresh_vouches P w (hp_head pf) dir now)
        \<and> (fr_directory w \<noteq> dir \<or> list_all (\<lambda>d. d = dir) known)"
    using assms unfolding directory_vouched_def Let_def combined_def[symmetric]
    by (auto simp: and_then_Inr_iff map_err_Inr_iff is_ok_iff list_ex_iff split: if_splits option.splits)
  from w obtain x where x: "fresh_verify P x (hp_head pf) = Inr ()" "fresh_is_current x now"
      "fr_directory x \<noteq> dir \<or> h_directories (sh_head (hp_head pf)) = [dir]"
      "fr_directory x \<noteq> dir \<or> (\<forall>d \<in> set known. d = dir)"
    by (auto simp: is_ok_iff fresh_vouches_Inr list_all_iff)
  have "now \<le> h_not_after (sh_head (hp_head pf))"
    "\<forall>h. held = Some h \<longrightarrow> h_version (sh_head h) \<le> h_version (sh_head (hp_head pf))
       \<and> (h_version (sh_head h) = h_version (sh_head (hp_head pf)) \<longrightarrow> head_hash P (hp_head pf) = head_hash P h)"
    using c by (auto simp: is_ok_iff proof_check_Inr head_check_fresh_Inr head split: option.splits)
  then show ?thesis using a x unfolding dir_stands_def by blast
qed

text \<open>The directories that have opened, by the proof they opened with.\<close>

lemma ask_waiting_told:
  assumes "ask_waiting P root known held tok request taker pool clock waiting = (t, left, out, told)"
  shows "set left \<subseteq> set waiting \<and> (\<forall>(dir, k, q) \<in> set told. k = tok \<and> q = request \<and> (\<exists>o' now. (dir, o') \<in> set waiting
    \<and> dir_stands P root known (map_option (\<lambda>h. vw_head (hv_view h)) held) (hp_head (op_proof o')) dir now))"
  using assms
proof (induction waiting arbitrary: t left out told)
  case (Cons d waiting)
  obtain dir o' where d: "d = (dir, o')" by fastforce
  obtain t1 left1 out1 told1 where r: "ask_waiting P root known held tok request taker pool clock waiting = (t1, left1, out1, told1)"
    by (metis surj_pair)
  note ih = Cons.IH[OF r]
  show ?case
  proof (cases "is_ok (directory_vouched P (op_proof o') pool root (map_option (\<lambda>h. vw_head (hv_view h)) held) known dir (clock dir))")
    case True
    then have "dir_stands P root known (map_option (\<lambda>h. vw_head (hv_view h)) held) (hp_head (op_proof o')) dir (clock dir)"
      by (intro directory_vouched_stands[where pool = pool]) (auto simp: is_ok_iff)
    moreover have "(told = [(dir, tok, request)] \<and> left = waiting) \<or> (told = (dir, tok, request) # told1 \<and> left = left1)"
      using Cons.prems True by (auto simp: d r Let_def split: sum.splits)
    ultimately show ?thesis using ih d by fastforce
  next
    case False
    then show ?thesis using Cons.prems ih by (auto simp: d r; blast)
  qed
qed simp

lemma ask_arrivals_told:
  assumes "ask_arrivals P root known held tok request taker pool waiting as = (t, left, pool', out, told)" "(dir, k, q) \<in> set told"
  shows "k = tok \<and> q = request \<and> (\<exists>o' now. ((dir, o') \<in> set waiting \<or> (\<exists>a \<in> set as. ar_dir a = dir \<and> ar_opened a = Inr o'))
    \<and> dir_stands P root known (map_option (\<lambda>h. vw_head (hv_view h)) held) (hp_head (op_proof o')) dir now)"
  using assms
proof (induction as arbitrary: pool waiting t left pool' out told)
  case (Cons a as)
  define waiting' where "waiting' = (case ar_opened a of Inr o' \<Rightarrow> waiting @ [(ar_dir a, o')] | Inl _ \<Rightarrow> waiting)"
  define pool1 where "pool1 = (case ar_opened a of
      Inr o' \<Rightarrow> pool_insert_all (pool_words P (op_proof o') root (map_option (\<lambda>h. vw_head (hv_view h)) held) (ar_at a)) (ar_at a) pool
    | Inl _ \<Rightarrow> pool)"
  obtain t1 left1 out1 told1 where w: "ask_waiting P root known held tok request taker pool1 (ar_clock a) waiting' = (t1, left1, out1, told1)"
    by (metis surj_pair)
  obtain t2 left2 pool2 out2 told2 where r: "ask_arrivals P root known held tok request taker pool1 left1 as = (t2, left2, pool2, out2, told2)"
    by (metis surj_pair)
  note wt = ask_waiting_told[OF w]
  have mem: "(dir, o') \<in> set waiting \<or> (\<exists>a \<in> set (a # as). ar_dir a = dir \<and> ar_opened a = Inr o')"
    if "(dir, o') \<in> set waiting'" for o'
    using that by (auto simp: waiting'_def split: sum.splits)
  have told: "told = told1 \<or> told = told1 @ told2"
    using Cons.prems(1) w r by (auto simp: waiting'_def pool1_def Let_def split: sum.splits option.splits)
  show ?case
  proof (cases "(dir, k, q) \<in> set told1")
    case True
    then show ?thesis using wt mem by blast
  next
    case False
    then have "(dir, k, q) \<in> set told2" using told Cons.prems(2) by auto
    from Cons.IH[OF r this] wt mem show ?thesis by (meson list.set_intros(2) subsetD)
  qed
qed simp

section \<open>Properties\<close>


lemma demo_directory_vouched:
  assumes "json_law P" "ed25519_law P" "node_id P 1 = 1" "node_id P 9 = 9" "sign_with P demo_policy 1 None = Inr s"
    "fresh_sign P 9 (sp_head s) 500 1400 = Inr f" "h_directories (sh_head (sp_head s)) = [9]"
    "head_check_fresh (sp_head s) 500 = Inr ()"
  shows "directory_vouched P \<lparr> hp_head = sp_head s, hp_fresh = [f] \<rparr> [] 1 None [] 9 500 = Inr ()"
proof -
  have w: "fresh_verify P f (sp_head s) = Inr ()" "fresh_is_current f 500" "fr_directory f = 9"
    using signed_word[OF assms(2,6)] assms(4)
    by (simp_all add: fresh_is_current_def clock_skew_secs_def sat_sub_def clamp_i64_def i64_min_def i64_max_def)
  have hv: "head_verify P 1 (sp_head s) = Inr ()"
    using sign_with_verifies[OF assms(2) _ assms(5)] assms(3) by (simp add: sp_verify_Inr)
  have v: "fresh_verified P f (sp_head s) = Inr f" using w(1) by (simp add: fresh_verified_def)
  have "position q [] = None" for q :: "fresh \<Rightarrow> bool" by (simp add: position_None_iff)
  then have set: "fold (\<lambda>f s'. case fresh_verified P f (sp_head s) of Inl _ \<Rightarrow> s' | Inr v \<Rightarrow> snd (fs_insert v 500 s'))
      (take max_fresh_set [f]) [] = [f]"
    by (simp add: v fs_insert_def max_fresh_set_def)
  have cur: "fs_current_for P [f] (sp_head s) 500 = [f]" using w by (simp add: fs_current_for_def max_fresh_set_def)
  have vo: "fresh_vouches P f (sp_head s) 9 500 = Inr ()" using w assms(7) by (simp add: fresh_vouches_Inr)
  then have "proof_vouching P \<lparr> hp_head = sp_head s, hp_fresh = [f] \<rparr> 9 500 = Inr f" by (simp add: proof_vouching_def)
  then show ?thesis
    using hv assms(7,8) vo by (simp add: directory_vouched_def Let_def set cur)
qed


end
