(* ===== verification/Caller_Shape.thy ===== *)
theory Caller_Shape
  imports Session_Wire
begin

text \<open>
  What a caller does with a finished call's output (\<open>wires/caller/shape.rs\<close>) and when it may send
  its stdin (\<open>wires/caller/lock.rs\<close>). The jq interpreter is the parameter \<open>jq\<close>: whether a program
  compiles, the values of an input, the outputs of a program on one value up to its first error, and
  how an output prints. A program whose outputs never end is outside the model.
\<close>

section \<open>jq\<close>

record 'v jq_world =
  jq_compiles :: "string \<Rightarrow> bool"
  jq_values :: "bytes \<Rightarrow> (string + 'v) list"
  jq_eval :: "string \<Rightarrow> 'v \<Rightarrow> (string + 'v) list"
  jq_string :: "'v \<Rightarrow> bytes option"
  jq_print :: "'v \<Rightarrow> bytes"

datatype shape_error = Shape_invalid string | Shape_not_json string | Shape_failed string

definition exit_shape :: "32 word" where "exit_shape = 2"

text \<open>\<open>render\<close>: a string raw, anything else as compact JSON, one per line.\<close>

definition jq_render :: "'v jq_world \<Rightarrow> 'v \<Rightarrow> bytes" where
  "jq_render J v = (case jq_string J v of Some b \<Rightarrow> b | None \<Rightarrow> jq_print J v) @ [10]"

fun jq_outputs :: "'v jq_world \<Rightarrow> (string + 'v) list \<Rightarrow> bytes \<times> shape_error option" where
  "jq_outputs J [] = ([], None)"
| "jq_outputs J (Inl e # rs) = ([], Some (Shape_failed e))"
| "jq_outputs J (Inr v # rs) = (case jq_outputs J rs of (out, e) \<Rightarrow> (jq_render J v @ out, e))"

fun jq_inputs :: "'v jq_world \<Rightarrow> string \<Rightarrow> (string + 'v) list \<Rightarrow> bytes \<times> shape_error option" where
  "jq_inputs J src [] = ([], None)"
| "jq_inputs J src (Inl e # vs) = ([], Some (Shape_not_json e))"
| "jq_inputs J src (Inr v # vs) = (case jq_outputs J (jq_eval J src v) of
     (out, Some e) \<Rightarrow> (out, Some e)
   | (out, None) \<Rightarrow> (case jq_inputs J src vs of (rest, e) \<Rightarrow> (out @ rest, e)))"

definition jq_run :: "'v jq_world \<Rightarrow> string \<Rightarrow> bytes \<Rightarrow> bytes \<times> shape_error option" where
  "jq_run J src input = (if jq_compiles J src then jq_inputs J src (jq_values J input)
     else ([], Some (Shape_invalid src)))"

section \<open>Shapes\<close>

record shape =
  so_jq :: "string option"
  so_head :: "nat option"
  so_max_bytes :: "nat option"

definition shape_new :: "'v jq_world \<Rightarrow> string option \<Rightarrow> nat option \<Rightarrow> nat option \<Rightarrow> shape_error + shape" where
  "shape_new J jq n bytes =
     (if (case jq of None \<Rightarrow> True | Some src \<Rightarrow> jq_compiles J src)
      then Inr \<lparr> so_jq = jq, so_head = n, so_max_bytes = bytes \<rparr>
      else Inl (Shape_invalid (case jq of None \<Rightarrow> [] | Some src \<Rightarrow> src)))"

definition shape_is_identity :: "shape \<Rightarrow> bool" where
  "shape_is_identity s \<longleftrightarrow> so_jq s = None \<and> so_head s = None \<and> so_max_bytes s = None"

text \<open>\<open>filter(..).nth(n - 1)\<close>: the place of the n-th newline.\<close>

fun nth_newline :: "nat \<Rightarrow> bytes \<Rightarrow> nat option" where
  "nth_newline k [] = None"
| "nth_newline k (b # bs) = (if b = 10
     then (case k of 0 \<Rightarrow> Some 0 | Suc k \<Rightarrow> map_option Suc (nth_newline k bs))
     else map_option Suc (nth_newline k bs))"

definition head_len :: "bytes \<Rightarrow> nat \<Rightarrow> nat" where
  "head_len b n = (if n = 0 then 0 else case nth_newline (n - 1) b of None \<Rightarrow> length b | Some i \<Rightarrow> i + 1)"

definition continuation :: "8 word \<Rightarrow> bool" where
  "continuation w \<longleftrightarrow> unat w div 64 = 2"

text \<open>The loop: at most three steps back, while the byte at the k continues a character.\<close>

fun floor_from :: "bytes \<Rightarrow> nat \<Rightarrow> nat \<Rightarrow> nat" where
  "floor_from b n 0 = 0"
| "floor_from b n (Suc k) = (if n - Suc k < 3 \<and> continuation (b ! Suc k) then floor_from b n k else Suc k)"

definition char_floor :: "bytes \<Rightarrow> nat \<Rightarrow> nat" where
  "char_floor b n = (if n \<ge> length b then length b
     else let k = floor_from b n n in if continuation (b ! k) then n else k)"

text \<open>The notes of \<open>--max-bytes\<close>: kept and total bytes.\<close>

record shaped =
  sd_stdout :: bytes
  sd_notes :: "(nat \<times> nat) list"
  sd_error :: "shape_error option"

definition shape_apply :: "'v jq_world \<Rightarrow> shape \<Rightarrow> bytes \<Rightarrow> shaped" where
  "shape_apply J s stdout =
     (let (bytes, err) = (case so_jq s of Some p \<Rightarrow> jq_run J p stdout | None \<Rightarrow> (stdout, None));
          bytes = (case so_head s of Some n \<Rightarrow> take (head_len bytes n) bytes | None \<Rightarrow> bytes)
      in case so_max_bytes s of
        Some n \<Rightarrow>
          if length bytes > n
          then let k = char_floor bytes n
            in \<lparr> sd_stdout = take k bytes, sd_notes = [(k, length bytes)], sd_error = err \<rparr>
          else \<lparr> sd_stdout = bytes, sd_notes = [], sd_error = err \<rparr>
      | None \<Rightarrow> \<lparr> sd_stdout = bytes, sd_notes = [], sd_error = err \<rparr>)"

definition exit_code :: "32 word \<Rightarrow> shaped \<Rightarrow> 32 word" where
  "exit_code remote s = (if remote = 0 \<and> sd_error s \<noteq> None then exit_shape else remote)"

section \<open>Locked mode (lock.rs)\<close>

definition exit_locked :: "32 word" where "exit_locked = 2"

definition is_locked :: "string option \<Rightarrow> bool" where
  "is_locked value = (case value of None \<Rightarrow> False
     | Some v \<Rightarrow> ascii_lower (trim v) \<notin> {'''', ''0'', ''false'', ''no'', ''off''})"

text \<open>Within the wait: what the first read of stdin gives, if anything.\<close>

definition check_stdin :: "bytes option \<Rightarrow> bool" where
  "check_stdin first = (case first of Some b \<Rightarrow> b = [] | None \<Rightarrow> True)"

definition check_process_stdin :: "bool \<Rightarrow> bytes option \<Rightarrow> bool" where
  "check_process_stdin terminal first = (terminal \<or> check_stdin first)"

section \<open>Laws\<close>

lemma continuation_tail: "continuation w \<longleftrightarrow> utf8_tail w"
  by (auto simp: continuation_def utf8_tail_def)

lemma nth_newline_bound: "nth_newline k b = Some i \<Longrightarrow> i < length b"
  by (induction k b arbitrary: i rule: nth_newline.induct) (auto split: if_splits nat.splits)

lemma head_len_le: "head_len b n \<le> length b"
  using nth_newline_bound by (fastforce simp: head_len_def Suc_le_eq split: option.split)

lemma newlines_before: "nth_newline k b = Some i \<Longrightarrow> count_list (take (Suc i) b) 10 = Suc k"
  by (induction k b arbitrary: i rule: nth_newline.induct) (auto split: if_splits nat.splits)

lemma few_newlines: "nth_newline k b = None \<Longrightarrow> count_list b 10 \<le> k"
  by (induction k b rule: nth_newline.induct) (auto split: if_splits nat.splits)

lemma head_lines: "count_list (take (head_len b n) b) 10 \<le> n"
proof (cases n)
  case (Suc k)
  then show ?thesis
    using newlines_before[of k b] few_newlines[of k b] by (auto simp: head_len_def split: option.split)
qed (simp add: head_len_def)

lemma floor_from_le: "floor_from b n k \<le> k"
  by (induction k) auto

lemma floor_from_char: "floor_from b n k = 0 \<or> n - floor_from b n k \<ge> 3 \<or> \<not> continuation (b ! floor_from b n k)"
  by (induction k) auto

text \<open>A valid text is characters of at most four bytes, the first of which continues none.\<close>

lemma utf8_char:
  assumes "utf8_valid (a # r)"
  shows "\<exists>ts r'. r = ts @ r' \<and> length ts \<le> 3 \<and> list_all utf8_tail ts \<and> \<not> utf8_tail a \<and> utf8_valid r'
    \<and> (\<forall>q. utf8_valid q \<longrightarrow> utf8_valid (a # ts @ q))"
proof -
  consider "unat a < 128" | "194 \<le> unat a" "unat a \<le> 223" | "224 \<le> unat a" "unat a \<le> 239" | "240 \<le> unat a" "unat a \<le> 244"
    using assms by (fastforce simp: Let_def split: if_splits)
  then show ?thesis
  proof cases
    case 1
    then show ?thesis using assms by (intro exI[of _ "[]"] exI[of _ r]) (simp add: utf8_tail_def)
  next
    case 2
    then obtain b r' where "r = b # r'" "utf8_tail b" "utf8_valid r'" using assms by (cases r) (auto simp: Let_def)
    then show ?thesis using 2 by (intro exI[of _ "[b]"] exI[of _ r']) (simp add: utf8_tail_def)
  next
    case 3
    then obtain b c r' where r: "r = b # c # r'" "utf8_tail b" "utf8_tail c" "utf8_valid r'"
        "(unat a = 224 \<longrightarrow> 160 \<le> unat b) \<and> (unat a = 237 \<longrightarrow> unat b \<le> 159)"
      using assms by (cases r; cases "tl r") (auto simp: Let_def)
    then show ?thesis using 3 by (intro exI[of _ "[b, c]"] exI[of _ r']) (simp add: utf8_tail_def)
  next
    case 4
    then obtain b c d r' where r: "r = b # c # d # r'" "utf8_tail b" "utf8_tail c" "utf8_tail d" "utf8_valid r'"
        "(unat a = 240 \<longrightarrow> 144 \<le> unat b) \<and> (unat a = 244 \<longrightarrow> unat b \<le> 143)"
      using assms by (cases r; cases "tl r"; cases "tl (tl r)") (auto simp: Let_def)
    then show ?thesis using 4 by (intro exI[of _ "[b, c, d]"] exI[of _ r']) (simp add: utf8_tail_def)
  qed
qed

lemma utf8_take:
  "utf8_valid b \<Longrightarrow> i \<le> length b \<Longrightarrow> (i < length b \<Longrightarrow> \<not> utf8_tail (b ! i)) \<Longrightarrow> utf8_valid (take i b)"
proof (induction "length b" arbitrary: b i rule: less_induct)
  case less
  show ?case
  proof (cases b)
    case (Cons a r)
    then obtain ts r' where t: "r = ts @ r'" "list_all utf8_tail ts" "utf8_valid r'" "\<And>q. utf8_valid q \<Longrightarrow> utf8_valid (a # ts @ q)"
      using utf8_char less.prems(1) by blast
    show ?thesis
    proof (cases "i \<le> length ts")
      case True
      have "i = 0"
      proof (rule ccontr)
        assume "i \<noteq> 0"
        then have "b ! i = ts ! (i - 1)" "i - 1 < length ts" using True Cons t(1) by (auto simp: nth_Cons' nth_append)
        then have "utf8_tail (b ! i)" using t(2) by (simp add: list_all_length)
        then show False using less.prems(2,3) True Cons t(1) by auto
      qed
      then show ?thesis by simp
    next
      case False
      define j where "j = i - Suc (length ts)"
      have i: "i = Suc (length ts + j)" using False by (simp add: j_def)
      have "utf8_valid (take j r')"
        using less.hyps[of r' j] less.prems(2,3) t(1,3) Cons i by (auto simp: nth_append)
      then show ?thesis using t(1,4) Cons i by simp
    qed
  qed simp
qed

lemma utf8_near:
  "utf8_valid b \<Longrightarrow> i < length b \<Longrightarrow> \<exists>k \<le> i. i - k \<le> 3 \<and> \<not> utf8_tail (b ! k)"
proof (induction "length b" arbitrary: b i rule: less_induct)
  case less
  then obtain a r where b: "b = a # r" by (cases b) auto
  then obtain ts r' where t: "r = ts @ r'" "length ts \<le> 3" "\<not> utf8_tail a" "utf8_valid r'"
    using utf8_char less.prems(1) by blast
  show ?case
  proof (cases "i \<le> length ts")
    case True
    then show ?thesis using t b by (intro exI[of _ 0]) simp
  next
    case False
    define j where "j = i - Suc (length ts)"
    have i: "i = Suc (length ts + j)" using False by (simp add: j_def)
    obtain k where "k \<le> j" "j - k \<le> 3" "\<not> utf8_tail (r' ! k)"
      using less.hyps[of r' j] less.prems(2) t(1,4) b i by auto
    then show ?thesis using i b t(1) by (intro exI[of _ "Suc (length ts + k)"]) (simp add: nth_append)
  qed
qed

lemma floor_from_reaches:
  "j \<le> k \<Longrightarrow> k \<le> n \<Longrightarrow> n - j \<le> 3 \<Longrightarrow> \<not> continuation (b ! j) \<Longrightarrow> \<not> continuation (b ! floor_from b n k)"
  by (induction k) (auto simp: le_Suc_eq)

text \<open>What is kept of a valid text is a valid text, of at most \<open>n\<close> bytes and at least \<open>n - 3\<close>.\<close>

lemma char_floor_valid:
  assumes "utf8_valid b"
  shows "utf8_valid (take (char_floor b n) b)"
proof (cases "n \<ge> length b")
  case False
  obtain k where k: "k \<le> n" "n - k \<le> 3" "\<not> continuation (b ! k)"
    using utf8_near[OF assms, of n] False by (auto simp: continuation_tail)
  have "\<not> continuation (b ! floor_from b n n)" using floor_from_reaches[OF k(1) order.refl k(2,3)] .
  then show ?thesis
    using False floor_from_le[of b n n] utf8_take[OF assms, of "floor_from b n n"]
    by (simp add: char_floor_def Let_def continuation_tail)
qed (simp add: char_floor_def assms)

lemma char_floor_le: "char_floor b n \<le> n \<or> n \<ge> length b" "char_floor b n \<le> length b" "n - 3 \<le> char_floor b n \<or> char_floor b n = length b"
proof -
  have l: "n - 3 \<le> floor_from b n k" if "k \<le> n" "n - 3 \<le> k" for k
    using that by (induction k) auto
  show "char_floor b n \<le> n \<or> n \<ge> length b" "char_floor b n \<le> length b" "n - 3 \<le> char_floor b n \<or> char_floor b n = length b"
    using floor_from_le[of b n n] l[of n] by (auto simp: char_floor_def Let_def)
qed

end
