(* ===== verification/Caller_Calls.thy ===== *)
theory Caller_Calls
  imports Caller_Session Caller_Shape
begin

text \<open>
  A call from the command line down to the hosts (\<open>wires/caller/call.rs\<close>): the service's entry, its
  hosts in order, the call, and what is remembered afterwards. Errors are values that name what their
  texts quote.
\<close>

section \<open>Results\<close>

definition exit_denied :: "32 word" where "exit_denied = 77"

datatype call_outcome = Exited "32 word" bytes bytes | Call_denied string

datatype resolve_failure =
    Resolved_older state_version state_version
  | Resolve_not_callable service_name
  | Resolve_unasked "unanswered option"

datatype call_error =
    Call_no_token
  | Call_resolve resolve_failure
  | Call_no_hosts service_name
  | Call_failed call_failure

fun call_denied :: "call_error \<Rightarrow> string option" where
  "call_denied (Call_failed (Cf_converse (Cv_denied reason))) = Some reason"
| "call_denied _ = None"

definition outcome :: "call_error + 32 word \<Rightarrow> bytes \<Rightarrow> bytes \<Rightarrow> call_error + call_outcome" where
  "outcome result out err = (case result of
     Inr code \<Rightarrow> Inr (Exited code out err)
   | Inl e \<Rightarrow> (case call_denied e of Some reason \<Rightarrow> Inr (Call_denied reason) | None \<Rightarrow> Inl e))"

text \<open>The code reported, and whether a note says that it differs.\<close>

definition own_exit :: "32 word \<Rightarrow> 32 word \<times> bool" where
  "own_exit remote = (if remote = exit_denied then (1, True) else (remote, False))"

section \<open>One call\<close>

text \<open>What surrounds a call: the clock, the random order of hosts, which keys can be dialed and what
  dialing each gives, how the directories answer a \<open>resolve\<close> and a refresh (each within its budget:
  \<open>None\<close>, it ran out), and whether the hints file of unanswered hosts can be written.\<close>

record call_world =
  cw_now :: i64
  cw_shuffle :: "node_id list \<Rightarrow> node_id list"
  cw_dialable :: "node_id \<Rightarrow> bool"
  cw_dials :: "node_id \<Rightarrow> dial"
  cw_resolve :: "service_name \<Rightarrow> caller_home \<Rightarrow> (unanswered option + held_view option) \<times> caller_home"
  cw_refresher :: refresher
  cw_refresh :: "caller_home \<Rightarrow> (refresh_error + held_view) \<times> caller_home"
  cw_notes_writable :: bool

record called =
  cl_done :: call_done
  cl_newer :: "state_version option"

definition call_entry :: "prims \<Rightarrow> call_world \<Rightarrow> node_id \<Rightarrow> id_token option \<Rightarrow> signed_entry \<Rightarrow> argv \<Rightarrow> chunk list
    \<Rightarrow> unanswered_hosts option \<Rightarrow> vouching \<times> caller_state
    \<Rightarrow> (call_error + called) \<times> told_hosts \<times> unanswered_hosts option \<times> vouching \<times> caller_state" where
  "call_entry P cw root tok entry args chunks notes = (\<lambda>(v, st).
     case tok of
       None \<Rightarrow> (Inl Call_no_token, [], notes, v, st)
     | Some tok \<Rightarrow>
         let service = se_name entry; now = cw_now cw;
             hosts = candidates (cw_shuffle cw) (se_service entry) (case notes of None \<Rightarrow> [] | Some u \<Rightarrow> u) now
         in if hosts = [] then (Inl (Call_no_hosts service), [], notes, v, st)
         else (case call_service_on P (cw_dials cw) tok \<lparr> iv_service = service, iv_argv = args \<rparr>
                 (\<lambda>host version ack. accept_ack P root version service host ack) chunks []
                 (filter (cw_dialable cw) hosts) (v, st) of
             (Inl e, told, v, st) \<Rightarrow> (Inl (Call_failed e), told, notes, v, st)
           | (Inr done, told, v, st) \<Rightarrow>
               (Inr \<lparr> cl_done = done, cl_newer = (if ha_state_version (cd_ack done) > cd_held done
                    then Some (ha_state_version (cd_ack done)) else None) \<rparr>,
                told, unanswered_record (cw_notes_writable cw) hosts (cd_host done) now notes, v, st)))"

text \<open>A view that a directory resolved is not used when it is older than what this node has seen.\<close>

definition resolve_entry :: "call_world \<Rightarrow> id_token option \<Rightarrow> held_view \<Rightarrow> service_name \<Rightarrow> caller_home
    \<Rightarrow> (call_error + held_view \<times> signed_entry) \<times> caller_home" where
  "resolve_entry cw tok held service ks = (case tok of
     None \<Rightarrow> (Inl Call_no_token, ks)
   | Some _ \<Rightarrow> (case cw_resolve cw service ks of
       (Inr (Some one), ks) \<Rightarrow>
         let floor = max (hv_version held) (hv_seen held) in
         (if hv_version one < floor then Inl (Call_resolve (Resolved_older (hv_version one) floor))
          else case hv_entry one service of
            None \<Rightarrow> Inl (Call_resolve (Resolve_not_callable service))
          | Some e \<Rightarrow> Inr (one, e), ks)
     | (Inr None, ks) \<Rightarrow> (Inl (Call_resolve (Resolve_not_callable service)), ks)
     | (Inl out, ks) \<Rightarrow> (Inl (Call_resolve (Resolve_unasked out)), ks)))"

record caller =
  ca_state :: caller_state
  ca_notes :: "unanswered_hosts option"

definition caller_home_map :: "(caller_home \<Rightarrow> caller_home) \<Rightarrow> caller_state \<Rightarrow> caller_state" where
  "caller_home_map f st = st \<lparr> cs_home := f (cs_home st) \<rparr>"

definition call_service_with :: "prims \<Rightarrow> call_world \<Rightarrow> node_id \<Rightarrow> id_token option \<Rightarrow> held_view \<Rightarrow> service_name \<Rightarrow> argv
    \<Rightarrow> chunk list \<Rightarrow> bool \<Rightarrow> caller \<Rightarrow> (call_error + call_done) \<times> told_hosts \<times> caller" where
  "call_service_with P cw root tok held service args chunks refresh_after c =
     (let st = ca_state c in
      case tok of
        None \<Rightarrow> (Inl Call_no_token, [], c)
      | Some _ \<Rightarrow> (case (case hv_entry held service of
            Some e \<Rightarrow> (Inr (held, e), cs_home st)
          | None \<Rightarrow> resolve_entry cw tok held service (cs_home st)) of
          (Inl e, ks) \<Rightarrow> (Inl e, [], c \<lparr> ca_state := st \<lparr> cs_home := ks \<rparr> \<rparr>)
        | (Inr (held, entry), ks) \<Rightarrow>
            let st = st \<lparr> cs_home := ks \<rparr>;
                v = vouch_keeping_in P Sink_keystore (cw_now cw) st (vouch_refreshing (cw_refresher cw)
                      (vouch_knowing (joined_directories ks) (vouching_new root held (Scope_service service))))
            in case call_entry P cw root tok entry args chunks (ca_notes c) (v, st) of
              (Inl e, told, notes, _, st) \<Rightarrow>
                let st = (if call_denied e = None then st else caller_home_map (note_refused P root) st)
                in (Inl e, told, \<lparr> ca_state = st, ca_notes = notes \<rparr>)
            | (Inr called, told, notes, _, st) \<Rightarrow>
                let st = (case cl_newer called of
                    None \<Rightarrow> st
                  | Some newer \<Rightarrow>
                      let st = caller_home_map (note_seen P root newer) st in
                      if refresh_after then caller_home_map (\<lambda>ks. snd (cw_refresh cw ks)) st else st)
                in (Inr (cl_done called), told, \<lparr> ca_state = st, ca_notes = notes \<rparr>)))"

section \<open>The command\<close>

datatype call_printed =
    Printed "32 word" bytes bytes "(nat \<times> nat) list"
  | Call_shape_error shape_error
  | Call_locked
  | Call_bad_name error
  | Call_bad_args error
  | Call_no_view usable_error
  | Call_error call_error

text \<open>\<open>usable_view\<close>: with no token it fails before any directory is asked.\<close>

definition usable_view :: "prims \<Rightarrow> call_world \<Rightarrow> node_id \<Rightarrow> id_token option \<Rightarrow> caller_home
    \<Rightarrow> (call_printed + held_view) \<times> caller_home" where
  "usable_view P cw root tok ks = (case tok of
     None \<Rightarrow> (Inl (Call_error Call_no_token), ks)
   | Some _ \<Rightarrow> (case usable_with P root (cw_now cw) (cw_refresh cw) ks of
       (Inl e, ks) \<Rightarrow> (Inl (Call_no_view e), ks)
     | (Inr h, ks) \<Rightarrow> (Inr h, ks)))"

definition write_shaped :: "'v jq_world \<Rightarrow> shape \<Rightarrow> 32 word \<Rightarrow> bytes \<Rightarrow> 32 word \<times> bytes \<times> (nat \<times> nat) list" where
  "write_shaped J s remote stdout =
     (let out = shape_apply J s stdout in (exit_code remote out, sd_stdout out, sd_notes out))"

record stdin_world =
  si_locked :: "string option"
  si_terminal :: bool
  si_first :: "bytes option"
  si_chunks :: "chunk list"

definition call_cmd :: "prims \<Rightarrow> 'v jq_world \<Rightarrow> call_world \<Rightarrow> stdin_world \<Rightarrow> node_id \<Rightarrow> id_token option
    \<Rightarrow> string option \<times> nat option \<times> nat option \<Rightarrow> string \<Rightarrow> string list \<Rightarrow> caller
    \<Rightarrow> call_printed \<times> told_hosts \<times> caller" where
  "call_cmd P J cw si root tok = (\<lambda>(jq, n, bytes) service args c.
     case shape_new J jq n bytes of
       Inl e \<Rightarrow> (Call_shape_error e, [], c)
     | Inr shape \<Rightarrow>
         if is_locked (si_locked si) \<and> \<not> check_process_stdin (si_terminal si) (si_first si) then (Call_locked, [], c)
         else let chunks = (if is_locked (si_locked si) then [] else si_chunks si) in
         case service_name_new service of
           Inl e \<Rightarrow> (Call_bad_name e, [], c)
         | Inr service \<Rightarrow> (case argv_new args of
             Inl e \<Rightarrow> (Call_bad_args e, [], c)
           | Inr args \<Rightarrow> (case usable_view P cw root tok (cs_home (ca_state c)) of
               (Inl e, ks) \<Rightarrow> (e, [], c \<lparr> ca_state := (ca_state c) \<lparr> cs_home := ks \<rparr> \<rparr>)
             | (Inr held, ks) \<Rightarrow>
                 (case call_service_with P cw root tok held service args chunks True
                         (c \<lparr> ca_state := (ca_state c) \<lparr> cs_home := ks \<rparr> \<rparr>) of
                    (Inl e, told, c) \<Rightarrow> (Call_error e, told, c)
                  | (Inr done, told, c) \<Rightarrow>
                      let code = fst (own_exit (cd_exit done)) in
                      if shape_is_identity shape then (Printed code (cd_stdout done) (cd_stderr done) [], told, c)
                      else (case write_shaped J shape code (cd_stdout done) of
                          (code, out, notes) \<Rightarrow> (Printed code out (cd_stderr done) notes, told, c))))))"

text \<open>The exit code of the process.\<close>

fun call_exit :: "call_printed \<Rightarrow> 32 word" where
  "call_exit (Printed code _ _ _) = code"
| "call_exit (Call_shape_error _) = exit_shape"
| "call_exit Call_locked = exit_locked"
| "call_exit (Call_error e) = (if call_denied e = None then 1 else exit_denied)"
| "call_exit _ = 1"

end
