(* ===== verification/Call_Claims.thy ===== *)
theory Call_Claims
  imports Caller_Calls Caller_Claims
begin

text \<open>
  What the exit code of \<open>wires call\<close> means, what its shaping flags leave of the output, and which views
  it dials from.
\<close>

section \<open>Refusals\<close>

lemma session_output_undenied: "session_output P r = (Inl e, out, err) \<Longrightarrow> e \<noteq> Cv_denied reason"
proof (induction P r arbitrary: e out err rule: session_output.induct)
  case (1 P r)
  obtain x rest where x: "read_frame P r = (x, rest)" by fastforce
  consider e where "x = Inl e" | "x = Inr None" | c where "x = Inr (Some (Exit c))"
    | f where "x = Inr (Some f)" "\<forall>c. f \<noteq> Exit c" by (metis sum.exhaust option.exhaust)
  then show ?case
  proof cases
    case 4
    obtain y o2 e2 where y: "session_output P rest = (y, o2, e2)" by (metis surj_pair)
    have "y = Inl e" using "1.prems" x y 4 by (simp add: session_output.simps[of P r] split: frame.splits)
    then have "session_output P rest = (Inl e, o2, e2)" using y by simp
    then show ?thesis using "1.IH"[of x rest "Some f" f, OF x[symmetric]] 4 by (cases f) (simp_all only:, fast+)
  qed (use "1.prems" x in \<open>auto simp: session_output.simps[of P r]\<close>)
qed

text \<open>The host was connected, was sent this, and the frame it answered with says no.\<close>

definition refused_by :: "prims \<Rightarrow> (node_id \<Rightarrow> dial) \<Rightarrow> string \<Rightarrow> node_id \<times> frame list \<Rightarrow> bool" where
  "refused_by P dials reason = (\<lambda>(host, sent). \<exists>l n. dials host = Connected l
     \<and> fst (read_frame P (drop n (hl_says l (frames_bytes P sent) False))) = Inr (Some (Denied reason))
     \<and> (\<forall>c. Stdin c \<notin> set sent))"

lemma converse_denied:
  assumes "converse P on_ack chunks l sent n = (Inl (Cv_denied reason), stdin, out, err)"
  shows "stdin = [] \<and> fst (read_frame P (drop n (hl_says l (frames_bytes P sent) False))) = Inr (Some (Denied reason))"
  using assms session_output_undenied
  by (auto simp: converse_def Let_def split: sum.splits option.splits frame.splits prod.splits)
    (metis id_apply map_sum.simps(1) old.sum.exhaust map_sum.simps(2) Inr_not_Inl sum.inject(1))

lemma call_on_denied:
  assumes "call_service_on P dials tok asked on_ack chunks fails hosts (vo, st) = (Inl e, told, vo', st')"
    "e = Cf_converse (Cv_denied reason)"
  shows "told \<noteq> [] \<and> refused_by P dials reason (last told)"
  using assms
proof (induction hosts arbitrary: fails vo st told)
  case (Cons h hosts)
  show ?case
  proof (cases "dials h")
    case No_answer
    then show ?thesis using Cons.IH Cons.prems by simp
  next
    case (Connected l)
    obtain r fs n v1 st1 where s: "speak P h tok asked l (vo, st) = (r, fs, n, v1, st1)" by (metis surj_pair)
    have std: "Stdin c \<notin> set fs" for c using speak_told(3)[OF s] by blast
    obtain y stdin out err where c: "converse P (on_ack h (vouch_version v1)) chunks l fs n = (y, stdin, out, err)" by (metis surj_pair)
    consider why where "r = Inl (Sp_unvouched why)" | "r = Inr ()" | se where "r = Inl se" "\<forall>why. se \<noteq> Sp_unvouched why"
      by (metis (full_types) old.sum.exhaust unit.exhaust)
    then show ?thesis
    proof cases
      case 1
      obtain x1 told1 vo1 st1' where rec: "call_service_on P dials tok asked on_ack chunks (fails @ [(h, Some why)]) hosts (v1, st1)
          = (x1, told1, vo1, st1')" by (metis surj_pair)
      then have "told = (h, fs) # told1" "x1 = Inl e" "vo1 = vo'" "st1' = st'" using Cons.prems(1) Connected s 1 by simp_all
      then show ?thesis using Cons.IH[of "fails @ [(h, Some why)]" v1 st1 told1] rec Cons.prems(2) by simp
    next
      case 2
      then have "y = Inl (Cv_denied reason)" "told = [(h, fs @ stdin)]"
        using Cons.prems Connected s c by (auto split: sum.splits prod.splits)
      then show ?thesis using converse_denied[of P "on_ack h (vouch_version v1)" chunks l fs n reason] c std Connected
        by (auto simp: refused_by_def)
    next
      case 3
      then show ?thesis using Cons.prems Connected s by (cases se) auto
    qed
  qed
qed (auto split: if_splits)

lemma call_denied_Some: "call_denied e = Some reason \<longleftrightarrow> e = Call_failed (Cf_converse (Cv_denied reason))"
  by (cases e rule: call_denied.cases) auto

lemma call_entry_denied:
  assumes "call_entry P cw root tok entry args chunks notes (v, st) = (Inl e, told, r)" "call_denied e = Some reason"
  shows "told \<noteq> [] \<and> refused_by P (cw_dials cw) reason (last told)"
  using assms call_on_denied unfolding call_denied_Some
  by (fastforce simp: call_entry_def Let_def split: option.splits if_splits sum.splits prod.splits)

lemma resolve_entry_undenied:
  "resolve_entry cw tok held service ks = (Inl e, ks') \<Longrightarrow> call_denied e = None"
  by (auto simp: resolve_entry_def Let_def split: option.splits if_splits sum.splits prod.splits)

lemma call_with_denied:
  assumes "call_service_with P cw root tok held service args chunks after c = (Inl e, told, c')" "call_denied e = Some reason"
  shows "told \<noteq> [] \<and> refused_by P (cw_dials cw) reason (last told)"
  using assms resolve_entry_undenied call_entry_denied
  by (fastforce simp: call_service_with_def Let_def split: option.splits sum.splits prod.splits)


section \<open>Shaping\<close>

lemma after_newline:
  "utf8_valid b \<Longrightarrow> Suc i < length b \<Longrightarrow> b ! i = 10 \<Longrightarrow> \<not> utf8_tail (b ! Suc i)"
proof (induction "length b" arbitrary: b i rule: less_induct)
  case less
  then obtain a r where b: "b = a # r" by (cases b) auto
  then obtain ts r' where t: "r = ts @ r'" "list_all utf8_tail ts" "utf8_valid r'"
    using utf8_char less.prems(1) by blast
  have first: "\<not> utf8_tail (r' ! 0)" if "r' \<noteq> []"
    using that t(3) utf8_char by (cases r') fastforce+
  show ?case
  proof (cases "i \<le> length ts")
    case True
    have "\<not> utf8_tail (10 :: 8 word)" by (simp add: utf8_tail_def)
    moreover have "utf8_tail (b ! i)" if "0 < i"
    proof -
      have "i - 1 < length ts" using that True by linarith
      then show ?thesis using that b t(1,2) by (simp add: nth_append list_all_length)
    qed
    ultimately have "i = 0" using less.prems(3) by force
    then have "utf8_valid r" using less.prems(1,3) b by simp
    moreover have "r \<noteq> []" using less.prems(2) b by auto
    ultimately show ?thesis using \<open>i = 0\<close> b utf8_char by (cases r) fastforce+
  next
    case False
    define j where "j = i - Suc (length ts)"
    have i: "i = Suc (length ts + j)" using False by (simp add: j_def)
    show ?thesis using less.hyps[of r' j] less.prems(2,3) t(1,3) b i by (simp add: nth_append)
  qed
qed

lemma nth_newline_at: "nth_newline k b = Some i \<Longrightarrow> b ! i = 10"
  by (induction k b arbitrary: i rule: nth_newline.induct) (auto split: if_splits nat.splits)

lemma head_valid:
  assumes "utf8_valid b"
  shows "utf8_valid (take (head_len b n) b)"
proof (rule utf8_take[OF assms head_len_le])
  assume l: "head_len b n < length b"
  show "\<not> utf8_tail (b ! head_len b n)"
  proof (cases "n = 0")
    case True
    then show ?thesis using l assms utf8_char by (cases b) (fastforce simp: head_len_def)+
  next
    case False
    then obtain i where "nth_newline (n - 1) b = Some i" "head_len b n = Suc i"
      using l by (auto simp: head_len_def split: option.splits)
    then show ?thesis using after_newline[OF assms] nth_newline_at l by auto
  qed
qed

lemma count_list_take: "count_list (take i b) x \<le> count_list b x"
  by (induction b arbitrary: i) (auto simp: take_Cons split: nat.split)

text \<open>What \<open>--jq\<close> leaves of a call's stdout.\<close>

definition filtered :: "'v jq_world \<Rightarrow> shape \<Rightarrow> bytes \<Rightarrow> bytes \<times> shape_error option" where
  "filtered J s b = (case so_jq s of Some p \<Rightarrow> jq_run J p b | None \<Rightarrow> (b, None))"

lemma shape_apply_filtered:
  "shape_apply J s b = (let h = (case so_head s of Some n \<Rightarrow> take (head_len (fst (filtered J s b)) n) (fst (filtered J s b))
       | None \<Rightarrow> fst (filtered J s b))
     in case so_max_bytes s of
       Some m \<Rightarrow> if length h > m then \<lparr> sd_stdout = take (char_floor h m) h, sd_notes = [(char_floor h m, length h)],
                    sd_error = snd (filtered J s b) \<rparr>
                 else \<lparr> sd_stdout = h, sd_notes = [], sd_error = snd (filtered J s b) \<rparr>
     | None \<Rightarrow> \<lparr> sd_stdout = h, sd_notes = [], sd_error = snd (filtered J s b) \<rparr>)"
  unfolding shape_apply_def filtered_def by (simp add: Let_def split: option.split prod.split)

definition headed :: "shape \<Rightarrow> bytes \<Rightarrow> bytes" where
  "headed s f = (case so_head s of Some n \<Rightarrow> take (head_len f n) f | None \<Rightarrow> f)"

lemma headed_laws:
  "take (length (headed s f)) f = headed s f" "utf8_valid f \<Longrightarrow> utf8_valid (headed s f)"
  "so_head s = Some n \<Longrightarrow> count_list (headed s f) 10 \<le> n"
  "(case so_head s of None \<Rightarrow> True | Some n \<Rightarrow> count_list f 10 < n) \<Longrightarrow> headed s f = f"
proof -
  have few: "nth_newline k b = None" if "count_list b 10 \<le> k" for k b
  proof (rule ccontr)
    assume "nth_newline k b \<noteq> None"
    then obtain i where "nth_newline k b = Some i" by blast
    then show False using newlines_before[of k b i] count_list_take[of "Suc i" b 10] that by simp
  qed
  show "take (length (headed s f)) f = headed s f" "utf8_valid f \<Longrightarrow> utf8_valid (headed s f)"
    "so_head s = Some n \<Longrightarrow> count_list (headed s f) 10 \<le> n"
    using head_len_le[of f] by (auto simp: headed_def head_valid head_lines split: option.split)
  assume "case so_head s of None \<Rightarrow> True | Some n \<Rightarrow> count_list f 10 < n"
  then show "headed s f = f" using few[of f] by (auto simp: headed_def head_len_def split: option.splits)
qed

lemma shape_apply_stdout:
  assumes "f = fst (filtered J s b)" "r = shape_apply J s b"
  shows "sd_error r = snd (filtered J s b)"
    "(sd_stdout r = headed s f \<and> sd_notes r = [] \<and> (case so_max_bytes s of None \<Rightarrow> True | Some m \<Rightarrow> length (headed s f) \<le> m))
     \<or> (\<exists>m. so_max_bytes s = Some m \<and> length (headed s f) > m \<and> sd_stdout r = take (char_floor (headed s f) m) (headed s f)
        \<and> sd_notes r = [(char_floor (headed s f) m, length (headed s f))])"
  unfolding assms by (auto simp: shape_apply_filtered headed_def Let_def split: option.split)


text \<open>Four lines of two-byte characters, cut in the middle of the second line's second one.\<close>

definition demo_jq :: "nat jq_world" where
  "demo_jq = \<lparr> jq_compiles = (\<lambda>_. False), jq_values = (\<lambda>_. []), jq_eval = (\<lambda>_ _. []), jq_string = (\<lambda>_. None),
     jq_print = (\<lambda>_. []) \<rparr>"


section \<open>Which hosts\<close>

lemma stdin_of_chunks: "converse P on_ack chunks l sent n = (x, stdin, out, err) \<Longrightarrow> Stdin c \<in> set stdin \<Longrightarrow> c \<in> set chunks"
  by (auto simp: converse_def Let_def split: sum.splits option.splits frame.splits prod.splits)

lemma call_on_stdin:
  assumes "call_service_on P dials tok asked on_ack chunks fails hosts (vo, st) = (x, told, vo', st')" "(host, sent) \<in> set told"
  shows "host \<in> set hosts \<and> (\<forall>c. Stdin c \<in> set sent \<longrightarrow> c \<in> set chunks)"
  using assms
proof (induction hosts arbitrary: fails vo st x told vo' st')
  case (Cons h hosts)
  show ?case
  proof (cases "dials h")
    case No_answer
    then show ?thesis using Cons by fastforce
  next
    case (Connected l)
    obtain r fs n v1 st1 where s: "speak P h tok asked l (vo, st) = (r, fs, n, v1, st1)" by (metis surj_pair)
    have std: "Stdin c \<notin> set fs" for c using speak_told(3)[OF s] by blast
    obtain y stdin out err where c: "converse P (on_ack h (vouch_version v1)) chunks l fs n = (y, stdin, out, err)" by (metis surj_pair)
    show ?thesis
    proof (cases "\<exists>why. r = Inl (Sp_unvouched why)")
      case True
      then obtain why where r: "r = Inl (Sp_unvouched why)" by blast
      obtain x1 told1 vo1 st1' where rec: "call_service_on P dials tok asked on_ack chunks (fails @ [(h, Some why)]) hosts (v1, st1)
          = (x1, told1, vo1, st1')" by (metis surj_pair)
      then have "told = (h, fs) # told1" using Cons.prems(1) Connected s r by simp
      then show ?thesis using Cons.IH[OF rec] Cons.prems(2) std by auto
    next
      case False
      then have "told = [(h, fs)] \<or> told = [(h, fs @ stdin)]"
        using Cons.prems(1) Connected s c by (auto split: sum.splits speak_error.splits prod.splits)
      then show ?thesis using Cons.prems(2) std stdin_of_chunks[OF c] by auto
    qed
  qed
qed simp

lemma candidates_listed: "(\<And>hs. set (shuffle hs) = set hs) \<Longrightarrow> set (candidates shuffle svc u now) = set (sv_hosts svc)"
  by (simp add: candidates_def)

lemma call_entry_hosts:
  assumes "call_entry P cw root tok entry args chunks notes (v, st) = (x, told, r)" "(host, sent) \<in> set told"
    "\<And>hs. set (cw_shuffle cw hs) = set hs"
  shows "host \<in> set (sv_hosts (se_service entry)) \<and> cw_dialable cw host \<and> (\<forall>c. Stdin c \<in> set sent \<longrightarrow> c \<in> set chunks)"
  using assms(1,2) candidates_listed[of "cw_shuffle cw", OF assms(3)]
  by (fastforce simp: call_entry_def Let_def split: option.splits if_splits sum.splits prod.splits dest!: call_on_stdin)

lemma resolve_entry_Inr:
  assumes "resolve_entry cw tok held service ks = (Inr (h, e), ks')"
  shows "max (hv_version held) (hv_seen held) \<le> hv_version h \<and> hv_entry h service = Some e"
  using assms by (auto simp: resolve_entry_def Let_def not_less split: option.splits if_splits sum.splits prod.splits)

lemma call_with_hosts:
  assumes "call_service_with P cw root tok held service args chunks after c = (x, told, c')" "(host, sent) \<in> set told"
    "\<And>hs. set (cw_shuffle cw hs) = set hs"
  shows "\<exists>h e. (h = held \<or> hv_entry held service = None \<and> max (hv_version held) (hv_seen held) \<le> hv_version h)
    \<and> hv_entry h service = Some e \<and> host \<in> set (sv_hosts (se_service e)) \<and> (\<forall>c. Stdin c \<in> set sent \<longrightarrow> c \<in> set chunks)"
proof -
  obtain t where t: "tok = Some t" using assms(1,2) by (cases tok) (auto simp: call_service_with_def)
  obtain q ks where q: "(case hv_entry held service of Some e \<Rightarrow> (Inr (held, e), cs_home (ca_state c))
          | None \<Rightarrow> resolve_entry cw tok held service (cs_home (ca_state c))) = (q, ks)" by fastforce
  obtain h e where he: "q = Inr (h, e)" using assms(1,2) t q by (cases q) (auto simp: call_service_with_def Let_def)
  have "\<exists>v st y r. call_entry P cw root tok e args chunks (ca_notes c) (v, st) = (y, told, r)"
    using assms(1) q unfolding t he
    by (auto simp: call_service_with_def Let_def split: prod.splits sum.splits option.splits) blast+
  then have "host \<in> set (sv_hosts (se_service e))" "\<forall>c. Stdin c \<in> set sent \<longrightarrow> c \<in> set chunks"
    using call_entry_hosts[OF _ assms(2,3)] by blast+
  moreover have "(h = held \<or> hv_entry held service = None \<and> max (hv_version held) (hv_seen held) \<le> hv_version h) \<and> hv_entry h service = Some e"
    using q resolve_entry_Inr unfolding he by (auto split: option.splits)
  ultimately show ?thesis by blast
qed

lemma usable_fresh:
  assumes "usable_with P root now refresh ks = (Inr h, ks')"
  shows "head_check_fresh (vw_head (hv_view h)) now = Inr ()"
proof -
  have "Option.bind held (\<lambda>h. if is_ok (head_check_fresh (vw_head (hv_view h)) now) then Some h else None) = Some v
      \<Longrightarrow> head_check_fresh (vw_head (hv_view v)) now = Inr ()" for held v
    by (auto simp: bind_eq_Some_conv is_ok_iff split: if_splits)
  then show ?thesis
    using assms by (auto simp: usable_with_def Let_def is_ok_iff
        split: sum.splits option.splits if_splits prod.splits refresh_error.splits)
qed


text \<open>A host that the demonstration's view lists and that says nothing.\<close>

definition silent_world :: "held_view \<Rightarrow> call_world" where
  "silent_world h = \<lparr> cw_now = 500, cw_shuffle = id, cw_dialable = (\<lambda>_. True),
     cw_dials = (\<lambda>_. Connected \<lparr> hl_says = (\<lambda>_ _. []), hl_up = (\<lambda>_. True), hl_clock = (\<lambda>_. 500) \<rparr>),
     cw_resolve = (\<lambda>_ ks. (Inr None, ks)), cw_refresher = (\<lambda>st. (Inl No_directory, st)),
     cw_refresh = (\<lambda>ks. (Inr h, ks)), cw_notes_writable = True \<rparr>"

definition silent_entry :: signed_entry where
  "silent_entry = \<lparr> se_format = 1, se_fabric = 1, se_version = 1, se_name = ''status'',
     se_service = \<lparr> sv_description = [], sv_allow = [''staff''], sv_hosts = [2] \<rparr>, se_alg = Ed25519, se_sig = 0 \<rparr>"

definition silent_view :: held_view where
  "silent_view = \<lparr> hv_view = \<lparr> vw_head = \<lparr> sh_head = \<lparr> h_format = 1, h_fabric = 1, h_version = 1, h_issued = 0,
        h_not_after = 1000, h_directories = [9], h_fresh_secs = 900, h_items_hash = 0 \<rparr>, sh_alg = Ed25519, sh_sig = 0 \<rparr>,
      vw_entries = [silent_entry] \<rparr>, hv_fresh = [], hv_checked = 500, hv_seen = 0 \<rparr>"

lemma silent_call:
  "call_service_on P (cw_dials (silent_world h)) tok asked on_ack chunks [] [2] (v, st)
     = (Inl (Cf_no_answer [(2, Some (Uv_no_proof None))]), [(2, [Open])], v, st)"
  if "hv_fresh (vo_held v) = []"
proof -
  have "is_ok (frame_encode P Open)"
    by (rule frame_fits_ok[OF _ opening_caps(1)]) (simp add: frame_fits_def frame_payload_def max_hello_frame_def)
  then show ?thesis
    using that by (simp add: silent_world_def speak_def link_writes_def vouch_ready_def fs_vouching_def read_nothing)
qed

definition silent_home :: caller where
  "silent_home = \<lparr> ca_state = \<lparr> cs_home = \<lparr> ch_home = undefined, ch_view = Absent, ch_network = None, ch_writable = True \<rparr>,
     cs_shared = [] \<rparr>, ca_notes = None \<rparr>"


end
