(* ===== verification/Policy_Fetch.thy ===== *)
theory Policy_Fetch
  imports Directory_Node Network_String
begin

text \<open>
  Moving the signed policy by key (\<open>wires/policy/fetch.rs\<close>): a host's fetch from the directories and
  the admin's publish to them, and what an edit's report makes of a publish
  (\<open>wires/admin/propagate.rs\<close>). How a directory answers, the clock and how long a round takes are
  inputs. A set of directories is the ordered list its tree iterates in.
\<close>

section \<open>Which network (admin/keystore.rs)\<close>

text \<open>The keystore's own files: the root's seed (an admin's) and the network joined.\<close>

record key_files =
  kf_root_seed :: disk_file
  kf_network :: disk_file

datatype fetch_error =
    Fe_unreadable
  | Fe_seed error
  | Fe_network error
  | Fe_no_network
  | Fe_no_policy
  | Fe_store store_error

definition read_file :: "(string \<Rightarrow> 'a res) \<Rightarrow> (error \<Rightarrow> fetch_error) \<Rightarrow> disk_file \<Rightarrow> fetch_error + 'a option" where
  "read_file parse err f = (case f of
     Absent \<Rightarrow> Inr None
   | Unreadable \<Rightarrow> Inl Fe_unreadable
   | Text t \<Rightarrow> and_then (map_err err (parse (trim t))) (\<lambda>x. Inr (Some x)))"

definition read_root_identity :: "prims \<Rightarrow> key_files \<Rightarrow> fetch_error + node_identity option" where
  "read_root_identity P k = read_file (from_seed_hex P) Fe_seed (kf_root_seed k)"

definition read_network :: "prims \<Rightarrow> key_files \<Rightarrow> fetch_error + network option" where
  "read_network P k = read_file (network_decode P) Fe_network (kf_network k)"

definition network_root :: "prims \<Rightarrow> key_files \<Rightarrow> fetch_error + node_id option" where
  "network_root P k = and_then (read_root_identity P k) (\<lambda>r. case r of
     Some root \<Rightarrow> Inr (Some (node_id P root))
   | None \<Rightarrow> and_then (read_network P k) (\<lambda>n. Inr (map_option nw_root n)))"

section \<open>Whom a node asks\<close>

definition directories_of :: "prims \<Rightarrow> key_files \<Rightarrow> home \<Rightarrow> node_id \<Rightarrow> fetch_error + node_id list" where
  "directories_of P k ks me = and_then (network_root P k) (\<lambda>root. case root of
     None \<Rightarrow> Inr []
   | Some root \<Rightarrow> and_then (map_err Fe_store (store_read P ks root)) (\<lambda>held.
       and_then (case held of
           Some h \<Rightarrow> Inr (held_directories h)
         | None \<Rightarrow> and_then (read_network P k) (\<lambda>n. Inr (case n of None \<Rightarrow> [] | Some n \<Rightarrow> nw_directories n))) (\<lambda>listed.
         Inr (filter (\<lambda>d. d \<noteq> me) listed))))"

section \<open>Fetching\<close>

text \<open>One directory after another; what else changes the file while one is asked is an input.\<close>

record fetch_world =
  fw_ask :: "nat \<Rightarrow> node_id \<Rightarrow> directory_request \<Rightarrow> wire_error + directory_answer"
  fw_clock :: "nat \<Rightarrow> i64"
  fw_others :: "nat \<Rightarrow> home \<Rightarrow> home"

fun fetch_from :: "prims \<Rightarrow> fetch_world \<Rightarrow> node_id \<Rightarrow> nat \<Rightarrow> node_id list \<Rightarrow> home
    \<Rightarrow> (fetch_error + signed_policy option) \<times> home" where
  "fetch_from P W root n [] ks = (Inr None, ks)"
| "fetch_from P W root n (dir # dirs) ks = (case store_read P ks root of
     Inl e \<Rightarrow> (Inl (Fe_store e), ks)
   | Inr held \<Rightarrow>
       let have = (case held of None \<Rightarrow> 0 | Some h \<Rightarrow> held_version h);
           ks = fw_others W n ks; now = fw_clock W n
       in case fw_ask W n dir (Rq_Policy have) of
         Inr (An_Policy policy fresh) \<Rightarrow>
           (case and_then (head_verify P root (sp_head policy)) (\<lambda>_. fresh_verify P fresh (sp_head policy)) of
              Inl e \<Rightarrow> fetch_from P W root (Suc n) dirs ks
            | Inr _ \<Rightarrow> (case adopt_if_newer P policy root now ks of
                (Inr True, ks) \<Rightarrow> (Inr (Some policy), ks)
              | (_, ks) \<Rightarrow> fetch_from P W root (Suc n) dirs ks))
       | Inr (An_Current fresh) \<Rightarrow>
           (case held of
              None \<Rightarrow> fetch_from P W root (Suc n) dirs ks
            | Some h \<Rightarrow>
                if is_ok (fresh_verify P fresh (sp_head (hd_signed h))) \<and> fresh_is_current fresh now
                then (Inr None, ks) else fetch_from P W root (Suc n) dirs ks)
       | _ \<Rightarrow> fetch_from P W root (Suc n) dirs ks)"

definition fetch :: "prims \<Rightarrow> fetch_world \<Rightarrow> key_files \<Rightarrow> node_id list \<Rightarrow> home
    \<Rightarrow> (fetch_error + signed_policy option) \<times> home" where
  "fetch P W k dirs ks = (case and_then (network_root P k) (\<lambda>r. ok_or Fe_no_network r) of
     Inl e \<Rightarrow> (Inl e, ks)
   | Inr root \<Rightarrow> fetch_from P W root 0 dirs ks)"

definition catch_up :: "prims \<Rightarrow> fetch_world \<Rightarrow> key_files \<Rightarrow> node_id \<Rightarrow> home
    \<Rightarrow> (fetch_error + signed_policy option) \<times> home" where
  "catch_up P W k me ks = (case directories_of P k ks me of
     Inl e \<Rightarrow> (Inl e, ks)
   | Inr dirs \<Rightarrow> if dirs = [] then (Inr None, ks) else fetch P W k dirs ks)"

section \<open>What one directory made of a publish\<close>

datatype took = Delivered | Missed | Refused | Newer state_version

definition busy_text :: string where
  "busy_text = ''this directory is busy; try again or ask another''"

definition took_of :: "prims \<Rightarrow> signed_policy \<Rightarrow> wire_error + directory_answer \<Rightarrow> took" where
  "took_of P policy answer = (case answer of
     Inr (An_Published version head) \<Rightarrow>
       if version > sp_version policy then Newer version
       else if version = sp_version policy
         then (if head = head_hash P (sp_head policy) then Delivered else Newer version)
       else Refused
   | Inr (An_Denied reason) \<Rightarrow> if reason = busy_text then Missed else Refused
   | Inr _ \<Rightarrow> Refused
   | Inl e \<Rightarrow> Missed)"

record publish_report =
  pr_delivered :: "node_id list"
  pr_missed :: "node_id list"
  pr_refused :: "node_id list"
  pr_dropped :: "node_id list"
  pr_newer :: "(node_id \<times> state_version) list"

definition report_empty :: publish_report where
  "report_empty = \<lparr> pr_delivered = [], pr_missed = [], pr_refused = [], pr_dropped = [], pr_newer = [] \<rparr>"

definition reached_none :: "publish_report \<Rightarrow> bool" where
  "reached_none r \<longleftrightarrow> pr_delivered r = [] \<and> list_ex (\<lambda>d. d \<notin> set (pr_dropped r)) (pr_missed r)"

definition missed_listed :: "publish_report \<Rightarrow> bool" where
  "missed_listed r \<longleftrightarrow> list_ex (\<lambda>d. d \<notin> set (pr_dropped r)) (pr_missed r)"

definition missed_running :: "publish_report \<Rightarrow> node_id btree_set \<Rightarrow> node_id list" where
  "missed_running r reached = filter (\<lambda>d. d \<notin> set (pr_dropped r) \<and> d \<in> set reached) (pr_missed r)"

text \<open>The derived order of pairs.\<close>

definition newer_key :: "node_id \<times> state_version \<Rightarrow> nat" where
  "newer_key nv = unat (fst nv) * 2 ^ 64 + unat (snd nv)"

definition report_sort :: "publish_report \<Rightarrow> publish_report" where
  "report_sort r = r \<lparr> pr_delivered := sort (pr_delivered r), pr_missed := sort (pr_missed r),
     pr_refused := sort (pr_refused r), pr_newer := sort_key newer_key (pr_newer r) \<rparr>"

text \<open>The exchanges run side by side; as they end, each is added, and the lists are sorted.\<close>

definition report_add :: "node_id \<times> took \<Rightarrow> publish_report \<Rightarrow> publish_report" where
  "report_add = (\<lambda>(target, took) r. case took of
     Delivered \<Rightarrow> r \<lparr> pr_delivered := pr_delivered r @ [target] \<rparr>
   | Missed \<Rightarrow> r \<lparr> pr_missed := pr_missed r @ [target] \<rparr>
   | Refused \<Rightarrow> r \<lparr> pr_missed := pr_missed r @ [target], pr_refused := pr_refused r @ [target] \<rparr>
   | Newer v \<Rightarrow> r \<lparr> pr_newer := pr_newer r @ [(target, v)] \<rparr>)"

definition publish_all :: "prims \<Rightarrow> (node_id \<Rightarrow> wire_error + directory_answer) \<Rightarrow> signed_policy \<Rightarrow> node_id list
    \<Rightarrow> publish_report" where
  "publish_all P says policy targets =
     report_sort (fold report_add (map (\<lambda>t. (t, took_of P policy (says t))) targets) report_empty)"

definition report_again :: "node_id btree_set \<Rightarrow> publish_report \<Rightarrow> node_id list" where
  "report_again patient r = filter (\<lambda>d. d \<in> set patient \<and> d \<notin> set (pr_refused r)) (pr_missed r)"

definition report_round :: "node_id list \<Rightarrow> publish_report \<Rightarrow> publish_report \<Rightarrow> publish_report" where
  "report_round again got r = report_sort (r \<lparr>
     pr_missed := filter (\<lambda>d. d \<notin> set again) (pr_missed r) @ pr_missed got,
     pr_delivered := pr_delivered r @ pr_delivered got,
     pr_refused := pr_refused r @ pr_refused got,
     pr_newer := pr_newer r @ pr_newer got \<rparr>)"

section \<open>Trying again\<close>

definition publish_budget_ms :: nat where "publish_budget_ms = 15000"
definition retry_pause_ms :: nat where "retry_pause_ms = 1000"

text \<open>What the directories answer in each round, and the time of each check, from the first try.\<close>

record publish_world =
  pw_says :: "nat \<Rightarrow> node_id \<Rightarrow> wire_error + directory_answer"
  pw_elapsed :: "nat \<Rightarrow> nat"

partial_function (option) publish_rounds :: "prims \<Rightarrow> publish_world \<Rightarrow> signed_policy \<Rightarrow> node_id btree_set \<Rightarrow> nat \<Rightarrow> nat
    \<Rightarrow> publish_report \<Rightarrow> publish_report option" where
  "publish_rounds P W policy patient budget n r =
     (let again = report_again patient r in
      if again = [] \<or> budget - pw_elapsed W n \<le> retry_pause_ms then Some r
      else publish_rounds P W policy patient budget (Suc n)
             (report_round again (publish_all P (pw_says W (Suc n)) policy again) r))"

definition publish_retrying :: "prims \<Rightarrow> publish_world \<Rightarrow> signed_policy \<Rightarrow> node_id list \<Rightarrow> node_id btree_set \<Rightarrow> nat
    \<Rightarrow> publish_report option" where
  "publish_retrying P W policy targets patient budget =
     publish_rounds P W policy patient budget 0 (publish_all P (pw_says W 0) policy targets)"

definition publish_targets :: "held \<Rightarrow> node_id btree_set \<Rightarrow> node_id \<Rightarrow> node_id list" where
  "publish_targets h earlier me = bs_from (filter (\<lambda>d. d \<noteq> me) (held_directories h @ earlier))"

datatype retry = Retry_reached | Retry_every

text \<open>The admin's copy, and the record of the directories that took a publish before.\<close>

record admin_home =
  ah_keys :: key_files
  ah_home :: home
  ah_reached :: disk_file

definition reached :: "prims \<Rightarrow> admin_home \<Rightarrow> node_id btree_set" where
  "reached P a = (case ah_reached a of
     Text t \<Rightarrow> (case from_str P (d_list (d_id P)) t of Inr ds \<Rightarrow> bs_from ds | Inl _ \<Rightarrow> [])
   | _ \<Rightarrow> [])"

definition note_reached :: "prims \<Rightarrow> node_id list \<Rightarrow> admin_home \<Rightarrow> admin_home" where
  "note_reached P delivered a =
     (let all = reached P a in
      if list_all (\<lambda>d. d \<in> set all) delivered \<or> \<not> ho_writable (ah_home a) then a
      else a \<lparr> ah_reached := Text (json_text P (j_list (j_id P) (fold bs_put delivered all)) @ newline) \<rparr>)"

definition stored :: "prims \<Rightarrow> admin_home \<Rightarrow> fetch_error + held" where
  "stored P a = and_then (and_then (network_root P (ah_keys a)) (\<lambda>r. ok_or Fe_no_network r)) (\<lambda>root.
     and_then (map_err Fe_store (store_read P (ah_home a) root)) (\<lambda>h. ok_or Fe_no_policy h))"

definition earlier_directories :: "prims \<Rightarrow> admin_home \<Rightarrow> fetch_error + node_id btree_set" where
  "earlier_directories P a = and_then (network_root P (ah_keys a)) (\<lambda>root. case root of
     None \<Rightarrow> Inr []
   | Some root \<Rightarrow> and_then (map_err Fe_store (store_read P (ah_home a) root)) (\<lambda>h.
       Inr (case h of None \<Rightarrow> [] | Some h \<Rightarrow> bs_from (held_directories h))))"

definition publish_patient :: "prims \<Rightarrow> admin_home \<Rightarrow> held \<Rightarrow> node_id list \<Rightarrow> retry \<Rightarrow> node_id btree_set" where
  "publish_patient P a h targets retry =
     filter (\<lambda>d. d \<in> set (held_directories h)) (case retry of Retry_reached \<Rightarrow> reached P a | Retry_every \<Rightarrow> bs_from targets)"

definition publish_current_on :: "prims \<Rightarrow> publish_world \<Rightarrow> admin_home \<Rightarrow> node_id \<Rightarrow> node_id btree_set \<Rightarrow> retry
    \<Rightarrow> (fetch_error + publish_report) option" where
  "publish_current_on P W a me earlier retry = (case stored P a of
     Inl e \<Rightarrow> Some (Inl e)
   | Inr h \<Rightarrow>
       let targets = publish_targets h earlier me in
       map_option (\<lambda>r. Inr (r \<lparr> pr_dropped := filter (\<lambda>d. d \<notin> set (held_directories h)) targets \<rparr>))
         (publish_retrying P W (hd_signed h) targets (publish_patient P a h targets retry) publish_budget_ms))"

definition publish_current :: "prims \<Rightarrow> publish_world \<Rightarrow> admin_home \<Rightarrow> node_id \<Rightarrow> node_id btree_set \<Rightarrow> retry
    \<Rightarrow> (fetch_error + state_version \<times> publish_report) option" where
  "publish_current P W a me earlier retry = (case stored P a of
     Inl e \<Rightarrow> Some (Inl e)
   | Inr h \<Rightarrow>
       if publish_targets h earlier me = [] then Some (Inr (held_version h, report_empty))
       else map_option (\<lambda>r. and_then r (\<lambda>r. Inr (held_version h, r))) (publish_current_on P W a me earlier retry))"

section \<open>What the edit reports (admin/propagate.rs)\<close>

datatype publish_note = Note_line state_version publish_report | Note_first_run state_version | Note_unpublished fetch_error

datatype publish_failure =
    Copy_stale node_id state_version bool
  | Reached_nobody state_version nat
  | Missed_by state_version nat "node_id list"
  | Not_published

record propagation =
  pg_note :: publish_note
  pg_failure :: "publish_failure option"

definition from_publish :: "fetch_error + state_version \<times> publish_report \<Rightarrow> node_id list \<Rightarrow> propagation" where
  "from_publish result running = (case result of
     Inl e \<Rightarrow> \<lparr> pg_note = Note_unpublished e, pg_failure = Some Not_published \<rparr>
   | Inr (version, r) \<Rightarrow> (case pr_newer r of
       (dir, theirs) # _ \<Rightarrow>
         \<lparr> pg_note = Note_line version r, pg_failure = Some (Copy_stale dir theirs (theirs = version)) \<rparr>
     | [] \<Rightarrow>
         if reached_none r \<and> running = [] then \<lparr> pg_note = Note_first_run version, pg_failure = None \<rparr>
         else if running = [] then \<lparr> pg_note = Note_line version r, pg_failure = None \<rparr>
         else if reached_none r then
           \<lparr> pg_note = Note_line version r, pg_failure = Some (Reached_nobody version (length (pr_missed r))) \<rparr>
         else \<lparr> pg_note = Note_line version r,
                pg_failure = Some (Missed_by version (length (pr_delivered r)) running) \<rparr>))"

definition settle :: "prims \<Rightarrow> fetch_error + state_version \<times> publish_report \<Rightarrow> admin_home \<Rightarrow> propagation \<times> admin_home" where
  "settle P result a =
     (let running = (case result of Inr (_, r) \<Rightarrow> missed_running r (reached P a) | Inl _ \<Rightarrow> []);
          a = (case result of Inr (_, r) \<Rightarrow> note_reached P (pr_delivered r) a | Inl _ \<Rightarrow> a)
      in (from_publish result running, a))"

definition propagate :: "prims \<Rightarrow> publish_world \<Rightarrow> node_id \<Rightarrow> node_id btree_set \<Rightarrow> retry \<Rightarrow> admin_home
    \<Rightarrow> (propagation \<times> admin_home) option" where
  "propagate P W me earlier retry a = map_option (\<lambda>r. settle P r a) (publish_current P W a me earlier retry)"

section \<open>A seed for the witnesses\<close>

lemma seed_one_plain: "list_all (char_between 33 126) (expose_seed_hex 1)"
  by code_simp

end
