(* ===== verification/Host_Follow.thy ===== *)
theory Host_Follow
  imports Policy_Fetch Directory_Serve Session_Wire
begin

text \<open>
  A host's subscription to the policy (\<open>wires/host/follow.rs\<close>): what it makes of each frame, a
  subscription over the bytes a directory streams, a round over the directories, and the host that is
  also a directory. The clock, how long each frame takes to come and what the node's other tasks do
  while it waits are inputs. The follower, its own directory and every other task of the node share
  one copy of the policy, so a directory's file here is the node's.
\<close>

section \<open>State\<close>

record follow_stats =
  fs_frames :: u64
  fs_bytes :: u64
  fs_wholes :: u64
  fs_beats :: u64
  fs_denials :: u64
  fs_behind :: u64

record following =
  fo_home :: home
  fo_fresh :: fresh_set
  fo_directory :: "directory option"
  fo_stats :: follow_stats

datatype follow_error =
    Fo_refused string
  | Fo_head_unverified error
  | Fo_word_unverified error
  | Fo_beat_unverified error
  | Fo_foreign_beat
  | Fo_behind state_version state_version
  | Fo_unaccepted accept_error
  | Fo_store store_error

definition follow_version :: "prims \<Rightarrow> node_id \<Rightarrow> home \<Rightarrow> state_version" where
  "follow_version P root ks = (case store_read P ks root of Inr (Some h) \<Rightarrow> held_version h | _ \<Rightarrow> 0)"

definition follow_beat_secs :: "prims \<Rightarrow> node_id \<Rightarrow> home \<Rightarrow> nat" where
  "follow_beat_secs P root ks = max 1 (unat (case store_read P ks root of
     Inr (Some h) \<Rightarrow> st_beat_secs (po_settings (hd_policy h)) | _ \<Rightarrow> default_beat_secs))"

definition follow_silence :: "prims \<Rightarrow> node_id \<Rightarrow> home \<Rightarrow> nat" where
  "follow_silence P root ks = 2 * follow_beat_secs P root ks + 10"

section \<open>One frame\<close>

definition follow_count :: "prims \<Rightarrow> sub_frame \<Rightarrow> following \<Rightarrow> following" where
  "follow_count P frame s =
     (let st = fo_stats s;
          st = st \<lparr> fs_frames := fs_frames st + 1, fs_bytes := fs_bytes st +
                 of_nat (case sub_frame_encode P frame of Inr b \<Rightarrow> length b | Inl _ \<Rightarrow> 0) \<rparr>
      in s \<lparr> fo_stats := (case frame of
           Sf_Policy _ _ \<Rightarrow> st \<lparr> fs_wholes := fs_wholes st + 1 \<rparr>
         | Sf_Fresh _ \<Rightarrow> st \<lparr> fs_beats := fs_beats st + 1 \<rparr>
         | Sf_Denied _ \<Rightarrow> st \<lparr> fs_denials := fs_denials st + 1 \<rparr>) \<rparr>)"

text \<open>\<open>adopt\<close>: through this host's own directory, when it runs one.\<close>

definition follow_adopt :: "prims \<Rightarrow> node_id \<Rightarrow> signed_policy \<Rightarrow> i64 \<Rightarrow> following
    \<Rightarrow> (follow_error + unit) \<times> following" where
  "follow_adopt P root policy now s = (case fo_directory s of
     Some d \<Rightarrow> (case dir_accept P policy now (d \<lparr> dr_home := fo_home s \<rparr>) of
         (r, d) \<Rightarrow> (and_then (map_err Fo_unaccepted r) (\<lambda>_. Inr ()),
                    s \<lparr> fo_home := dr_home d, fo_directory := Some d \<rparr>))
   | None \<Rightarrow> (case adopt_if_newer P policy root now (fo_home s) of
         (r, ks) \<Rightarrow> (and_then (map_err Fo_store r) (\<lambda>_. Inr ()), s \<lparr> fo_home := ks \<rparr>)))"

definition follow_vouch :: "prims \<Rightarrow> node_id \<Rightarrow> fresh \<Rightarrow> i64 \<Rightarrow> following \<Rightarrow> (follow_error + unit) \<times> following" where
  "follow_vouch P root fresh now s = (case store_read P (fo_home s) root of
     Inl e \<Rightarrow> (Inl (Fo_store e), s)
   | Inr None \<Rightarrow> (Inr (), s)
   | Inr (Some h) \<Rightarrow>
       if fr_version fresh \<noteq> held_version h then (Inr (), s)
       else (case fresh_offer P fresh (sp_head (hd_signed h)) now (fo_fresh s, fo_home s) of
         (r, f, ks) \<Rightarrow> (and_then (map_err Fo_store r) (\<lambda>_. Inr ()), s \<lparr> fo_fresh := f, fo_home := ks \<rparr>)))"

text \<open>\<open>take\<close>: what is checked before anything is concluded from the frame, then the versions, then
  the policy and the word.\<close>

definition frame_stands :: "prims \<Rightarrow> node_id \<Rightarrow> node_id \<Rightarrow> fresh \<Rightarrow> signed_policy option \<Rightarrow> follow_error + unit" where
  "frame_stands P root dir fresh policy = (case policy of
     Some policy \<Rightarrow>
       and_then (map_err Fo_head_unverified (head_verify P root (sp_head policy))) (\<lambda>_.
         map_err Fo_word_unverified (fresh_verify P fresh (sp_head policy)))
   | None \<Rightarrow>
       and_then (map_err Fo_beat_unverified (fresh_verify_signature P fresh)) (\<lambda>_.
         if fr_directory fresh \<noteq> dir \<or> fr_fabric fresh \<noteq> root then Inl Fo_foreign_beat else Inr ()))"

fun frame_parts :: "sub_frame \<Rightarrow> follow_error + fresh \<times> signed_policy option" where
  "frame_parts (Sf_Policy policy fresh) = Inr (fresh, Some policy)"
| "frame_parts (Sf_Fresh fresh) = Inr (fresh, None)"
| "frame_parts (Sf_Denied reason) = Inl (Fo_refused reason)"

definition follow_take :: "prims \<Rightarrow> node_id \<Rightarrow> node_id \<Rightarrow> sub_frame \<Rightarrow> i64 \<Rightarrow> following
    \<Rightarrow> (follow_error + unit) \<times> following" where
  "follow_take P root dir frame now s =
     (case and_then (frame_parts frame) (\<lambda>(fresh, policy).
             and_then (frame_stands P root dir fresh policy) (\<lambda>_. Inr (fresh, policy))) of
        Inl e \<Rightarrow> (Inl e, s)
      | Inr (fresh, policy) \<Rightarrow>
          let held = follow_version P root (fo_home s) in
          if fr_version fresh < held then (Inl (Fo_behind (fr_version fresh) held), s)
          else (case (case policy of None \<Rightarrow> (Inr (), s) | Some p \<Rightarrow> follow_adopt P root p now s) of
              (Inl e, s) \<Rightarrow> (Inl e, s)
            | (Inr _, s) \<Rightarrow> follow_vouch P root fresh now s))"

section \<open>One subscription\<close>

text \<open>How long each frame takes to come, the clock when it is taken, and what other tasks did meanwhile.\<close>

record follow_env =
  fe_gap :: "nat \<Rightarrow> nat"
  fe_clock :: "nat \<Rightarrow> i64"
  fe_others :: "nat \<Rightarrow> following \<Rightarrow> following"

datatype follow_ended = Fl_closed | Fl_passed follow_error

datatype unfollowed = Un_unreachable | Un_frame error | Un_closed | Un_wire wire_error | Un_silent

function follow_stream :: "prims \<Rightarrow> node_id \<Rightarrow> node_id \<Rightarrow> follow_env \<Rightarrow> nat \<Rightarrow> bool \<Rightarrow> bytes \<Rightarrow> following
    \<Rightarrow> (unfollowed + follow_ended) \<times> following" where
  "follow_stream P root dir E n answered r s =
     (let over = (\<lambda>why s. (if answered then Inr Fl_closed else Inl why, s)) in
      if fe_gap E n > follow_silence P root (fo_home s) then over Un_silent s
      else let s = fe_others E n s in
      case read_sub_frame P r of
        (Inl e, _) \<Rightarrow> over (Un_wire e) s
      | (Inr None, _) \<Rightarrow> over Un_closed s
      | (Inr (Some frame), rest) \<Rightarrow>
          let s = follow_count P frame s in
          (case frame of
             Sf_Denied reason \<Rightarrow> (Inr (Fl_passed (Fo_refused reason)), s)
           | _ \<Rightarrow> (case follow_take P root dir frame (fe_clock E n) s of
                (Inl e, s) \<Rightarrow>
                  (Inr (Fl_passed e), case e of
                     Fo_behind _ _ \<Rightarrow> s \<lparr> fo_stats := (fo_stats s) \<lparr> fs_behind := fs_behind (fo_stats s) + 1 \<rparr> \<rparr>
                   | _ \<Rightarrow> s)
              | (Inr _, s) \<Rightarrow>
                  if (case store_read P (fo_home s) root of
                        Inr (Some h) \<Rightarrow> dir \<in> set (held_directories h) | _ \<Rightarrow> False)
                  then follow_stream P root dir E (Suc n) True rest s
                  else (Inr Fl_closed, s))))"
  by pat_completeness auto
termination
  by (relation "measure (\<lambda>(P, root, dir, E, n, a, r, s). length r)")
    (auto simp: read_sub_frame_def dest!: read_capped_shrinks[OF sym])

declare follow_stream.simps [simp del]

text \<open>\<open>subscribe_once\<close>: the directory hears the two requests and streams; \<open>None\<close>, it cannot be dialed.\<close>

definition follow_subscribe :: "prims \<Rightarrow> node_id \<Rightarrow> node_id \<Rightarrow> follow_env \<Rightarrow> dialed option \<Rightarrow> following
    \<Rightarrow> (unfollowed + follow_ended) \<times> following" where
  "follow_subscribe P root dir E peer s = (case peer of
     None \<Rightarrow> (Inl Un_unreachable, s)
   | Some peer \<Rightarrow> (case and_then (sub_request_encode P (Sq_Hello None)) (\<lambda>h.
            and_then (sub_request_encode P (Sq_Subscribe (follow_version P root (fo_home s)))) (\<lambda>b. Inr (h @ b))) of
       Inl e \<Rightarrow> (Inl (Un_frame e), s)
     | Inr asked \<Rightarrow> follow_stream P root dir E 0 False (peer asked) s))"

section \<open>Round after round\<close>

definition max_backoff_secs :: nat where "max_backoff_secs = 30"

definition next_after :: "node_id list \<Rightarrow> node_id \<Rightarrow> node_id option" where
  "next_after order dir = (case position (\<lambda>d. d = dir) order of
     None \<Rightarrow> None
   | Some i \<Rightarrow> let j = (i + 1) mod length order in if j < length order then Some (order ! j) else None)"

text \<open>The directories in turn; \<open>k\<close> counts the subscriptions tried.\<close>

fun follow_dirs :: "prims \<Rightarrow> node_id \<Rightarrow> (nat \<Rightarrow> follow_env) \<Rightarrow> (nat \<Rightarrow> node_id \<Rightarrow> dialed option) \<Rightarrow> node_id list
    \<Rightarrow> nat \<Rightarrow> node_id option \<Rightarrow> node_id list \<Rightarrow> following \<Rightarrow> bool \<times> node_id option \<times> following" where
  "follow_dirs P root E peers order k was [] s = (False, was, s)"
| "follow_dirs P root E peers order k was (dir # dirs) s =
     (case follow_subscribe P root dir (E k) (peers k dir) s of
        (Inr Fl_closed, s) \<Rightarrow> (True, Some dir, s)
      | (Inr (Fl_passed _), s) \<Rightarrow> follow_dirs P root E peers order (Suc k) (next_after order dir) dirs s
      | (Inl _, s) \<Rightarrow> follow_dirs P root E peers order (Suc k) was dirs s)"

definition follow_order :: "node_id list \<Rightarrow> node_id option \<Rightarrow> node_id list" where
  "follow_order dirs was = (case Option.bind was (\<lambda>l. position (\<lambda>d. d = l) dirs) of
     None \<Rightarrow> dirs | Some i \<Rightarrow> drop i dirs @ take i dirs)"

text \<open>One round: whom the next one starts with, the pause after this one and the next pause.\<close>

record follow_round =
  fr_last :: "node_id option"
  fr_pause :: nat
  fr_backoff :: nat

definition follow_run :: "prims \<Rightarrow> node_id \<Rightarrow> node_id \<Rightarrow> key_files \<Rightarrow> (nat \<Rightarrow> follow_env) \<Rightarrow> (nat \<Rightarrow> node_id \<Rightarrow> dialed option)
    \<Rightarrow> node_id option \<Rightarrow> nat \<Rightarrow> following \<Rightarrow> follow_round \<times> following" where
  "follow_run P root me k E peers was backoff s =
     (let dirs = (case directories_of P k (fo_home s) me of Inr ds \<Rightarrow> ds | Inl _ \<Rightarrow> []);
          order = follow_order dirs was
      in case follow_dirs P root E peers order 0 was order s of
        (answered, was, s) \<Rightarrow>
          let pause = (if answered then 1 else backoff)
          in (\<lparr> fr_last = was, fr_pause = pause,
                fr_backoff = min (2 * pause) (min (follow_beat_secs P root (fo_home s)) max_backoff_secs) \<rparr>, s))"

section \<open>A host that is also a directory\<close>

definition vouch_from_local :: "prims \<Rightarrow> node_id \<Rightarrow> fresh option \<Rightarrow> i64 \<Rightarrow> following \<Rightarrow> following" where
  "vouch_from_local P root word now s = (case (word, store_read P (fo_home s) root) of
     (Some fresh, Inr (Some h)) \<Rightarrow>
       if held_version h = fr_version fresh
       then (case fresh_offer P fresh (sp_head (hd_signed h)) now (fo_fresh s, fo_home s) of
          (_, f, ks) \<Rightarrow> s \<lparr> fo_fresh := f, fo_home := ks \<rparr>)
       else s
   | _ \<Rightarrow> s)"

end
