(* ===== verification/Directory_Service.thy ===== *)
theory Directory_Service
  imports Directory_Claims
begin

text \<open>
  What a directory does for the network: an admin's publish from the client's bytes to the policy
  served, the proof it opens with against the caller's check, and what a subscriber is owed.
\<close>

section \<open>A publish\<close>

text \<open>The bytes a client reads of what a directory answered; \<open>deny\<close> prints a denial.\<close>

definition answer_stream :: "prims \<Rightarrow> (dir_denied \<Rightarrow> string) \<Rightarrow> dir_answered list \<Rightarrow> bytes" where
  "answer_stream P deny as = concat (map (\<lambda>a.
     case answer_encode P (case a of Inl why \<Rightarrow> An_Denied (deny why) | Inr x \<Rightarrow> x) of
       Inl _ \<Rightarrow> [] | Inr b \<Rightarrow> b) as)"

lemma read_answer_encoded:
  assumes "json_law P" "hex_law P" "answer_ok f" "answer_encode P f = Inr b"
  shows "read_answer P (b @ rest) = (Inr f, rest)"
proof -
  have e: "capped_encode P (j_answer P) (\<lambda>_. Inr ()) max_directory_frame Bad_frame f = Inr b"
    using assms(4) by (simp add: answer_encode_def encode_frame_capped)
  have l: "length b = 4 + length (canonical_bytes P (j_answer P f))"
    "length (canonical_bytes P (j_answer P f)) \<le> max_directory_frame"
    using answers.capped_length[OF e] by auto
  have "answers.small P f" unfolding answers.small_def using assms l by simp
  from answers.frames.roundtrip[OF this e] have d: "answer_decode P b = Inr (Some (f, length b))"
    by (simp add: answer_decode_def decode_frame_capped)
  have "\<exists>body. b = be32 (length body) @ body \<and> length body < 2 ^ 32"
    using e by (auto simp: capped_encode_def Let_def length_prefixed_Inr split: if_splits)
  then obtain body where b: "b = be32 (length body) @ body" "length body < 2 ^ 32" by blast
  then have "length b = 4 + length body" by (metis l(1) length_append length_be32)
  show ?thesis
    unfolding read_answer_def
    by (rule read_one_encoded[where decode = "answer_decode P" and body = body])
      (use d b l \<open>length b = 4 + length body\<close> in auto)
qed

lemma encode_fits:
  "length (canonical_bytes P (j f)) \<le> max_directory_frame \<Longrightarrow>
     \<exists>b. encode_frame P j f = Inr b \<and> length b = 4 + length (canonical_bytes P (j f))"
  by (simp add: encode_frame_def Let_def length_prefixed_def max_directory_frame_def be32_def)

text \<open>Every frame of the exchange is within its cap.\<close>

definition publish_fits :: "prims \<Rightarrow> signed_policy \<Rightarrow> bool" where
  "publish_fits P s \<longleftrightarrow>
     list_all (\<lambda>x. length (canonical_bytes P (j_request P x)) \<le> max_small_directory_frame)
       [Rq_Hello None, Rq_Publish (sp_head s)]
     \<and> length (canonical_bytes P (j_request P (Rq_Items (sp_items s)))) \<le> max_directory_frame
     \<and> length (canonical_bytes P (j_answer P (An_Published (sp_version s) (head_hash P (sp_head s)))))
         \<le> max_directory_frame"

lemma publish_fits_encodes:
  assumes "publish_fits P s"
  shows "\<exists>hb. request_encode P (Rq_Hello None) = Inr hb \<and> length hb \<le> 4 + max_small_directory_frame"
    "\<exists>pb. request_encode P (Rq_Publish (sp_head s)) = Inr pb \<and> length pb \<le> 4 + max_small_directory_frame"
    "\<exists>ib. request_encode P (Rq_Items (sp_items s)) = Inr ib"
    "\<exists>ab. answer_encode P (An_Published (sp_version s) (head_hash P (sp_head s))) = Inr ab"
proof -
  have small: "\<exists>b. request_encode P x = Inr b \<and> length b \<le> 4 + max_small_directory_frame"
    if "length (canonical_bytes P (j_request P x)) \<le> max_small_directory_frame" for x
    using encode_fits[of P "j_request P" x] that
    by (auto simp: request_encode_def max_small_directory_frame_def max_directory_frame_def)
  show "\<exists>hb. request_encode P (Rq_Hello None) = Inr hb \<and> length hb \<le> 4 + max_small_directory_frame"
    "\<exists>pb. request_encode P (Rq_Publish (sp_head s)) = Inr pb \<and> length pb \<le> 4 + max_small_directory_frame"
    using assms by (auto simp: publish_fits_def intro!: small simp del: j_request.simps)
  show "\<exists>ib. request_encode P (Rq_Items (sp_items s)) = Inr ib"
    using assms encode_fits[of P "j_request P" "Rq_Items (sp_items s)"]
    unfolding publish_fits_def request_encode_def by blast
  show "\<exists>ab. answer_encode P (An_Published (sp_version s) (head_hash P (sp_head s))) = Inr ab"
    using assms encode_fits[of P "j_answer P" "An_Published (sp_version s) (head_hash P (sp_head s))"]
    unfolding publish_fits_def answer_encode_def by blast
qed

text \<open>Nothing newer stands in the way.\<close>

definition wants :: "prims \<Rightarrow> signed_policy \<Rightarrow> directory \<Rightarrow> bool" where
  "wants P s d \<longleftrightarrow> dir_version d < sp_version s \<and> ho_writable (dr_home d)
     \<and> (store_read P (dr_home d) (dr_root d) = Inr None
        \<or> (\<exists>h. store_read P (dr_home d) (dr_root d) = Inr (Some h) \<and> held_version h < sp_version s))"

lemma dir_signs:
  assumes "held_verify P s root = Inr h" "head_check_fresh (sp_head s) now = Inr ()"
    and "node_id P (dr_key d) \<in> set (h_directories (sh_head (sp_head s)))" "in_i64 now"
  shows "\<exists>f. dir_sign_fresh P d h now = Some f \<and> fr_until f \<ge> now"
proof -
  have h: "hd_signed h = s" "sp_verify P s root = Inr ()" "to_policy s = Inr (hd_policy h)"
    using assms(1) by (auto simp: held_verify_Inr)
  then have "st_fresh_secs (po_settings (hd_policy h)) = h_fresh_secs (sh_head (sp_head s))"
    by (auto simp: sp_verify_Inr)
  moreover let ?t = "sat_add now (uint (h_fresh_secs (sh_head (sp_head s))))"
  have "now \<le> ?t" "?t - now \<le> uint (h_fresh_secs (sh_head (sp_head s)))"
    using secs_lt[of "h_fresh_secs (sh_head (sp_head s))"] assms(4)
    unfolding sat_add_def clamp_i64_def in_i64_def by linarith+
  then obtain f where "fresh_sign P (dr_key d) (sp_head s) now ?t = Inr f"
    using fresh_sign_ok_iff[of P "dr_key d" "sp_head s" now ?t] assms(3) by (auto simp: is_ok_iff)
  moreover have "held_check_fresh h now = Inr ()" using assms(2) h by (simp add: held_check_fresh_def)
  ultimately show ?thesis
    using h \<open>now \<le> ?t\<close> fresh_sign_Inr by (fastforce simp: dir_sign_fresh_def)
qed

lemma dir_accept_wanted:
  assumes "dir_laws P" "sp_typed s" "sp_verify P s (dr_root d) = Inr ()" "wants P s d"
    and "head_check_fresh (sp_head s) now = Inr ()"
  shows "\<exists>ks h. hd_signed h = s \<and> held_verify P s (dr_root d) = Inr h
    \<and> dir_accept P s now d = (Inr True, d \<lparr> dr_home := ks, dr_accepts := dr_accepts d + 1,
        dr_current := Some (current_new h (dir_sign_fresh P (d \<lparr> dr_home := ks \<rparr>) h now)) \<rparr>)"
proof -
  obtain h where h: "held_verify P s (dr_root d) = Inr h" "hd_signed h = s"
    using sp_verify_to_policy[OF assms(3)] assms(3) by (auto simp: held_verify_def)
  obtain r ks where a: "adopt_if_newer P s (dr_root d) now (dr_home d) = (r, ks)" by fastforce
  have laws: "json_law P" "hex_law P" "compact_law P" using assms(1) by (simp_all add: dir_laws_def)
  have f: "h_fabric (sh_head (sp_head h')) = dr_root d" if "store_read P (dr_home d) (dr_root d) = Inr (Some \<lparr> hd_signed = h', hd_policy = p' \<rparr>)" for h' p'
    using store_read_verified[OF that] by (auto simp: held_verify_Inr sp_verify_Inr head_verify_Inr)
  have f: "h_fabric (sh_head (sp_head s)) = dr_root d"
    "store_read P (dr_home d) (dr_root d) = Inr (Some h') \<Longrightarrow> h_fabric (sh_head (sp_head (hd_signed h'))) = dr_root d" for h'
    using assms(3) f[of "hd_signed h'" "hd_policy h'"] by (auto simp: sp_verify_Inr head_verify_Inr)
  have "r = Inr True"
    using f adopt_yes[OF from_str_text(2)[OF laws assms(2)], of "dr_root d" now "dr_home d"] assms a
    by (auto simp: wants_def sp_is_newer_than_def head_is_newer_than_def held_version_def sp_version_def)
  with adopt_effect[OF laws assms(2) a] obtain p where
    p: "store_read P ks (dr_root d) = Inr (Some \<lparr> hd_signed = s, hd_policy = p \<rparr>)" by auto
  then have "\<lparr> hd_signed = s, hd_policy = p \<rparr> = h"
    using store_read_verified[OF p] h by simp
  moreover have "dir_version d < held_version h" using assms(4) h by (simp add: wants_def held_version_def)
  moreover have "held_check_fresh h now = Inr ()" using assms(5) h by (simp add: held_check_fresh_def)
  ultimately show ?thesis
    using h a p \<open>r = Inr True\<close> by (auto simp: dir_accept_def Let_def dir_version_def)
qed

lemma dir_check_wanted:
  assumes "sp_verify P s (dr_root d) = Inr ()" "wants P s d" "head_check_fresh (sp_head s) now = Inr ()"
  shows "dir_check_head P (sp_head s) now d = Wanted"
  using assms by (auto simp: dir_check_head_def sp_verify_Inr wants_def dir_version_def sp_version_def
      held_version_def not_le split: option.splits)

definition serves_word :: "prims \<Rightarrow> signed_policy \<Rightarrow> i64 \<Rightarrow> directory \<Rightarrow> bool" where
  "serves_word P s now d \<longleftrightarrow> (\<exists>c f. dr_current d = Some c \<and> hd_signed (cu_held c) = s \<and> cu_fresh c = Some f
     \<and> fresh_verify P f (sp_head s) = Inr () \<and> fresh_is_current f now)"

lemma take_items_published:
  assumes "dir_laws P" "sp_typed s" "sp_verify P s (dr_root d) = Inr ()" "wants P s d"
    and "head_check_fresh (sp_head s) now = Inr ()" "node_id P (dr_key d) \<in> set (h_directories (sh_head (sp_head s)))"
    and "in_i64 now" "publish_fits P s" "request_encode P (Rq_Items (sp_items s)) = Inr b"
  shows "\<exists>d'. take_items P \<lparr> tu_clock = (\<lambda>_. now), tu_others = (\<lambda>_ d. d) \<rparr> (sp_head s) b d
      = ([Inr (An_Published (sp_version s) (head_hash P (sp_head s)))], d') \<and> serves_word P s now d'"
proof -
  obtain ks h where h: "hd_signed h = s" "held_verify P s (dr_root d) = Inr h"
    "dir_accept P s now d = (Inr True, d \<lparr> dr_home := ks, dr_accepts := dr_accepts d + 1,
        dr_current := Some (current_new h (dir_sign_fresh P (d \<lparr> dr_home := ks \<rparr>) h now)) \<rparr>)"
    using dir_accept_wanted[OF assms(1-5)] by blast
  obtain f where f: "dir_sign_fresh P (d \<lparr> dr_home := ks \<rparr>) h now = Some f" "now \<le> fr_until f"
    using dir_signs[OF h(2) assms(5), of "d \<lparr> dr_home := ks \<rparr>"] assms(6,7) by auto
  have laws: "json_law P" "hex_law P" "ed25519_law P" using assms(1) by (simp_all add: dir_laws_def)
  note w = dir_sign_fresh_Some[OF laws(3) f(1)]
  have "fresh_is_current f now"
    using f(2) w(3) assms(7) by (simp add: fresh_is_current_def sat_sub_def clamp_i64_def clock_skew_secs_def in_i64_def)
  moreover have "is_ok (answer_encode P (An_Published (sp_version s) (head_hash P (sp_head s))))"
    using publish_fits_encodes(4)[OF assms(8)] by (auto simp: is_ok_iff)
  moreover have "fst (read_items P b) = Inr (sp_items s)"
    using read_items_encoded[OF laws(1,2) _ assms(9), of "[]"] assms(2) by (simp add: sp_typed_def)
  moreover have "dir_accept P \<lparr> sp_head = sp_head s, sp_items = sp_items s \<rparr> now d = dir_accept P s now d"
    by (cases s) simp
  ultimately show ?thesis
    using h f w by (simp add: take_items_def dir_publish_def current_new_def write_answer_def held_version_def
        serves_word_def slot_drop_def)
qed

text \<open>
  C18: a publish that succeeds is served. Take any directory with a free slot that holds nothing at
  or above the policy's version, and a policy that verifies under its root, has not expired and
  lists it, whose frames fit: whoever sends it (no credential is asked), the client hears that the
  directory holds exactly this version and head, and from that moment the directory serves this very
  policy with a word of its own that verifies for its head and is current.
\<close>

theorem publish_is_served:
  assumes "json_law P" "hex_law P" "compact_law P" "ed25519_law P"
    and "sp_typed s" "sp_verify P s (dr_root d) = Inr ()" "wants P s d"
    and "head_check_fresh (sp_head s) now = Inr ()" "node_id P (dr_key d) \<in> set (h_directories (sh_head (sp_head s)))"
    and "in_i64 now" "publish_fits P s" "dr_undecided d < 16" "dr_admitted d < 64"
  shows "\<exists>b d'. (\<forall>peer. wire_publish P peer s = fst (read_answer P (peer b)))
    \<and> dir_connection P R W \<lparr> tu_clock = (\<lambda>_. now), tu_others = (\<lambda>_ d. d) \<rparr> caller (Some b) d
        = ([Inr (An_Published (sp_version s) (head_hash P (sp_head s)))], d')
    \<and> wire_publish P (\<lambda>b. answer_stream P deny (fst (dir_connection P R W
          \<lparr> tu_clock = (\<lambda>_. now), tu_others = (\<lambda>_ d. d) \<rparr> caller (Some b) d))) s
        = Inr (An_Published (sp_version s) (head_hash P (sp_head s)))
    \<and> serves_word P s now d'"
proof -
  let ?tu = "\<lparr> tu_clock = (\<lambda>_ :: nat. now), tu_others = (\<lambda>(_ :: nat) (d :: directory). d) \<rparr>"
  let ?a = "An_Published (sp_version s) (head_hash P (sp_head s))"
  have laws: "dir_laws P" using assms(1-4) by (simp add: dir_laws_def)
  obtain hb pb ib where e: "request_encode P (Rq_Hello None) = Inr hb" "length hb \<le> 4 + max_small_directory_frame"
    "request_encode P (Rq_Publish (sp_head s)) = Inr pb" "length pb \<le> 4 + max_small_directory_frame"
    "request_encode P (Rq_Items (sp_items s)) = Inr ib"
    using publish_fits_encodes(1-3)[OF assms(11)] by blast
  let ?b = "hb @ pb @ ib"
  have r: "read_hello P (hb @ rest) = (Inr (Rq_Hello None), rest)"
    "read_request P (pb @ rest) = (Inr (Rq_Publish (sp_head s)), rest)" for rest
    using read_request_encoded[OF assms(1,2) _ e(1,2)] read_request_encoded[OF assms(1,2) _ e(3,4)] assms(5)
    by (simp_all add: read_hello_def read_request_def[symmetric] sp_typed_def)
  have items: "\<exists>d'. take_items P ?tu (sp_head s) ib d0 = ([Inr ?a], d') \<and> serves_word P s now d'"
    if "dr_root d0 = dr_root d" "dr_key d0 = dr_key d" "dr_home d0 = dr_home d" "dr_current d0 = dr_current d" for d0
    using take_items_published[OF laws assms(5) _ _ assms(8) _ assms(10,11) e(5), of d0] assms(6,7,9) that
    by (simp add: wants_def dir_version_def)
  have adm: "dir_admit P R W caller None now d0
      = (\<lparr> pe_node = caller, pe_named = dir_holds_whole d0 caller, pe_principal = None \<rparr>, d0)" for d0
    by (simp add: dir_admit_def Let_def split: option.split)
  have chk: "dir_check_head P (sp_head s) now d0 = Wanted" if "dr_root d0 = dr_root d" "dr_home d0 = dr_home d"
      "dr_current d0 = dr_current d" for d0
    using dir_check_wanted[of P s d0 now] assms(6-8) that by (simp add: wants_def dir_version_def)
  let ?d1 = "d \<lparr> dr_undecided := Suc (dr_undecided d) \<rparr>" and ?d2 = "d \<lparr> dr_admitted := dr_admitted d + 1 \<rparr>"
  have t: "undecided_take d = Some ?d1" "slot_trade ?d1 = (True, ?d2)"
    using assms(12,13) by (simp_all add: undecided_take_def slot_trade_def slot_drop_def max_undecided_def max_admitted_def)
  have "dir_connection P R W ?tu caller (Some ?b) d = take_items P ?tu (sp_head s) ib ?d2"
    by (simp add: dir_connection_def t one_request_def r take_hello_def adm peer_admitted_def take_request_def
        take_publish_def chk Let_def)
  with items[of ?d2] obtain d' where
    c: "dir_connection P R W ?tu caller (Some ?b) d = ([Inr ?a], d')" "serves_word P s now d'" by auto
  have "wire_publish P peer s = fst (read_answer P (peer ?b))" for peer
    using e by (simp add: wire_publish_def exchange_def)
  moreover obtain ab where ab: "answer_encode P ?a = Inr ab"
    using publish_fits_encodes(4)[OF assms(11)] by blast
  then have "fst (read_answer P (answer_stream P deny [Inr ?a])) = Inr ?a"
    using read_answer_encoded[OF assms(1,2) _ ab, of "[]"] by (simp add: answer_stream_def)
  ultimately show ?thesis using c by (intro exI[of _ ?b] exI[of _ d']) simp
qed

theorem publish_is_served_witness:
  "\<exists>P s d'. sp_version s = 1 \<and> serves_word P s 500 d'
    \<and> wire_publish P (\<lambda>b. answer_stream P (\<lambda>_. []) (fst (dir_connection P demo_ring demo_web
          \<lparr> tu_clock = (\<lambda>_. 500), tu_others = (\<lambda>_ d. d) \<rparr> 3 (Some b) (demo_directory demo_home)))) s
        = Inr (An_Published 1 (head_hash P (sp_head s)))"
proof -
  obtain s where s: "sign_with (table_prims []) demo_policy 1 None = Inr s" "sp_typed s" "sp_version s = 1"
    "sp_verify (table_prims []) s 1 = Inr ()" "head_check_fresh (sp_head s) 500 = Inr ()"
    "h_directories (sh_head (sp_head s)) = [9]"
    using demo_directory_takes[of "table_prims []"] by auto
  define P where "P = table_prims [j_request demo_idp (Rq_Hello None), j_request demo_idp (Rq_Publish (sp_head s)),
     j_request demo_idp (Rq_Items (sp_items s)), j_answer demo_idp (An_Published 1 0)]"
  have "sign_with P demo_policy 1 None = Inr s" using s(1) unfolding P_def table_sign_with[of "_ # _"] .
  with sign_with_verifies[OF _ _ this] have ver: "sp_verify P s 1 = Inr ()" by (simp add: P_def)
  have len: "length (canonical_bytes P v) = 1"
    if "v \<in> {j_request demo_idp (Rq_Hello None), j_request demo_idp (Rq_Publish (sp_head s)),
     j_request demo_idp (Rq_Items (sp_items s)), j_answer demo_idp (An_Published 1 0)}" for v
    unfolding P_def canonical_bytes_def by (rule table_encode) (use that in auto)
  have j: "j_request P = j_request demo_idp" "j_answer P = j_answer demo_idp" by (simp_all add: P_def fun_eq_iff)
  have hash: "head_hash P (sp_head s) = 0" by (simp add: P_def table_hash)
  have fits: "publish_fits P s"
    using len hash by (simp add: publish_fits_def j s(3) max_small_directory_frame_def max_directory_frame_def
        del: j_request.simps j_answer.simps)
  have "wants P s (demo_directory demo_home)"
    by (simp add: wants_def demo_directory_def dir_version_def s(3) demo_home_def store_read_def)
  then show ?thesis
    using publish_is_served[of P s "demo_directory demo_home" 500 demo_ring demo_web 3 "\<lambda>_. []"] s ver fits
    by (fastforce simp: P_def demo_directory_def in_i64_def i64_min_def i64_max_def)
qed

section \<open>A subscription\<close>

text \<open>What the loop finds is what some directory of this network holds.\<close>

definition wakes_ok :: "prims \<Rightarrow> node_id \<Rightarrow> wake list \<Rightarrow> bool" where
  "wakes_ok P root ws \<longleftrightarrow> (\<forall>w \<in> set ws. \<forall>c. wk_snapshot w = Some c \<longrightarrow>
     (\<exists>d. dr_root d = root \<and> current_ok P d c))"

definition sent_to :: "state_version \<Rightarrow> sub_said list \<Rightarrow> state_version" where
  "sent_to v xs = fold (\<lambda>x v. case x of Sub_sent _ _ to \<Rightarrow> to | Sub_denied _ \<Rightarrow> v) xs v"

lemma sent_to_simps [simp]:
  "sent_to v [] = v" "sent_to v (Sub_sent c b to # xs) = sent_to to xs" "sent_to v (Sub_denied r # xs) = sent_to v xs"
  by (simp_all add: sent_to_def)

lemma next_frame_Some:
  assumes "next_frame P c sent = Inr (Some (b, to))" "frames_ok P c"
  shows "\<exists>f. cu_fresh c = Some f
    \<and> (if sent < held_version (cu_held c)
       then sub_frame_encode P (Sf_Policy (hd_signed (cu_held c)) f) = Inr b \<and> to = held_version (cu_held c)
       else sub_frame_encode P (Sf_Fresh f) = Inr b \<and> to = sent)"
  using assms by (auto simp: next_frame_def current_frame_def frames_ok_def Let_def and_then_Inr_iff
      split: option.splits sum.splits if_splits prod.splits)

text \<open>The frame of one wake of the loop.\<close>

definition sub_frame_of :: "prims \<Rightarrow> node_id \<Rightarrow> node_id \<Rightarrow> state_version \<Rightarrow> wake \<Rightarrow> current \<Rightarrow> bytes \<Rightarrow> state_version \<Rightarrow> bool" where
  "sub_frame_of P root caller before w c b to \<longleftrightarrow> wk_snapshot w = Some c
     \<and> dir_holds_whole (wk_dir w) caller \<and> \<not> bans_node (hd_policy (cu_held c)) caller
     \<and> sp_verify P (hd_signed (cu_held c)) root = Inr ()
     \<and> (\<exists>f. fresh_verify P f (sp_head (hd_signed (cu_held c))) = Inr ()
         \<and> (if before < held_version (cu_held c)
            then sub_frame_encode P (Sf_Policy (hd_signed (cu_held c)) f) = Inr b \<and> to = held_version (cu_held c)
            else sub_frame_encode P (Sf_Fresh f) = Inr b \<and> to = before))"

lemma sub_serve_frames:
  assumes "wakes_ok P root ws" "sub_serve P caller v ws = xs @ Sub_sent c b to # ys"
  shows "\<exists>w \<in> set ws. sub_frame_of P root caller (sent_to v xs) w c b to"
  using assms
proof (induction ws arbitrary: v xs)
  case (Cons w ws)
  have ok: "wakes_ok P root ws" using Cons.prems(1) by (simp add: wakes_ok_def)
  show ?case
  proof (cases "\<exists>c' b' to'. wk_snapshot w = Some c' \<and> next_frame P c' v = Inr (Some (b', to'))
      \<and> sub_serve P caller v (w # ws) = Sub_sent c' b' to' # sub_serve P caller to' ws")
    case True
    then obtain c' b' to' where s: "wk_snapshot w = Some c'" "next_frame P c' v = Inr (Some (b', to'))"
      "sub_serve P caller v (w # ws) = Sub_sent c' b' to' # sub_serve P caller to' ws" by blast
    show ?thesis
    proof (cases xs)
      case Nil
      then have e: "c' = c" "b' = b" "to' = to" using s(3) Cons.prems(2) by simp_all
      obtain d where d: "dr_root d = root" "current_ok P d c" using Cons.prems(1) s(1) e by (auto simp: wakes_ok_def)
      then have k: "frames_ok P c" "sp_verify P (hd_signed (cu_held c)) root = Inr ()"
        "\<And>f. cu_fresh c = Some f \<Longrightarrow> fresh_verify P f (sp_head (hd_signed (cu_held c))) = Inr ()"
        by (auto simp: current_ok_def held_verify_Inr)
      have "dir_holds_whole (wk_dir w) caller" "\<not> bans_node (hd_policy (cu_held c)) caller"
        using s e by (auto split: if_splits)
      then have "sub_frame_of P root caller v w c b to"
        using next_frame_Some[OF s(2)[unfolded e] k(1)] s(1) e k(2,3) unfolding sub_frame_of_def by blast
      then show ?thesis using Nil by simp
    next
      case (Cons y zs)
      then have "sub_serve P caller to' ws = zs @ Sub_sent c b to # ys" "sent_to v xs = sent_to to' zs"
        using s(3) Cons.prems(2) by auto
      then show ?thesis using Cons.IH[OF ok] by auto
    qed
  next
    case False
    then have "sub_serve P caller v ws = xs @ Sub_sent c b to # ys"
      using Cons.prems(2) by (auto split: option.splits sum.splits if_splits prod.splits simp: Cons_eq_append_conv)
    then show ?thesis using Cons.IH[OF ok] by auto
  qed
qed simp

text \<open>A wake that finds the subscriber still named and frames that encode.\<close>

definition wake_serves :: "prims \<Rightarrow> node_id \<Rightarrow> wake \<Rightarrow> bool" where
  "wake_serves P caller w \<longleftrightarrow> (\<forall>c. wk_snapshot w = Some c \<longrightarrow> (\<exists>f. cu_fresh c = Some f
     \<and> \<not> bans_node (hd_policy (cu_held c)) caller \<and> dir_holds_whole (wk_dir w) caller
     \<and> is_ok (sub_frame_encode P (Sf_Policy (hd_signed (cu_held c)) f)) \<and> is_ok (sub_frame_encode P (Sf_Fresh f))))"

fun newest :: "state_version \<Rightarrow> wake list \<Rightarrow> state_version" where
  "newest v [] = v"
| "newest v (w # ws) = newest (case wk_snapshot w of None \<Rightarrow> v | Some c \<Rightarrow> max v (held_version (cu_held c))) ws"

lemma sub_serve_newest:
  assumes "wakes_ok P root ws" "\<forall>w \<in> set ws. wake_serves P caller w"
  shows "sent_to v (sub_serve P caller v ws) = newest v ws"
  using assms
proof (induction ws arbitrary: v)
  case (Cons w ws)
  have ok: "wakes_ok P root ws" "\<forall>w \<in> set ws. wake_serves P caller w" using Cons.prems by (simp_all add: wakes_ok_def)
  show ?case
  proof (cases "wk_snapshot w")
    case None
    then show ?thesis using Cons.IH[OF ok] by simp
  next
    case (Some c)
    obtain d where "current_ok P d c" using Cons.prems(1) Some by (auto simp: wakes_ok_def)
    then have k: "frames_ok P c" by (simp add: current_ok_def)
    obtain f where f: "cu_fresh c = Some f" "\<not> bans_node (hd_policy (cu_held c)) caller" "dir_holds_whole (wk_dir w) caller"
      "is_ok (sub_frame_encode P (Sf_Policy (hd_signed (cu_held c)) f))" "is_ok (sub_frame_encode P (Sf_Fresh f))"
      using Cons.prems(2) Some by (auto simp: wake_serves_def)
    then obtain b to where n: "next_frame P c v = Inr (Some (b, to))"
      by (cases "cu_policy_frame c"; cases "cu_fresh_frame c"; cases "v < held_version (cu_held c)")
        (auto simp: next_frame_def current_frame_def Let_def is_ok_iff)
    then have "to = max v (held_version (cu_held c))"
      using next_frame_Some[OF n k] by (auto simp: max_def split: if_splits)
    then show ?thesis using Some f n Cons.IH[OF ok] by simp
  qed
qed simp

text \<open>
  C24: a subscription brings a host every policy and nothing else. Each frame goes out while the
  policy the directory holds names the host and does not ban it, and is exactly one of two: the
  whole root-verified policy when it is newer than what was sent before, with the directory's word
  for it, or, when it is not, the word alone; so versions only grow and no policy is sent twice. And
  while the host stays named it is never left behind: after any wakes it has been sent the newest
  version any of them found.
\<close>

theorem subscriber_kept_current:
  assumes "wakes_ok P root ws"
  shows "(\<forall>xs c b to ys. sub_serve P caller v ws = xs @ Sub_sent c b to # ys \<longrightarrow>
      (\<exists>w \<in> set ws. wk_snapshot w = Some c
         \<and> dir_holds_whole (wk_dir w) caller \<and> \<not> bans_node (hd_policy (cu_held c)) caller
         \<and> sp_verify P (hd_signed (cu_held c)) root = Inr ()
         \<and> (\<exists>f. fresh_verify P f (sp_head (hd_signed (cu_held c))) = Inr ()
             \<and> (if sent_to v xs < held_version (cu_held c)
                then sub_frame_encode P (Sf_Policy (hd_signed (cu_held c)) f) = Inr b \<and> to = held_version (cu_held c)
                else sub_frame_encode P (Sf_Fresh f) = Inr b \<and> to = sent_to v xs))))
    \<and> ((\<forall>w \<in> set ws. wake_serves P caller w) \<longrightarrow> sent_to v (sub_serve P caller v ws) = newest v ws)"
  using sub_serve_frames[OF assms] sub_serve_newest[OF assms] unfolding sub_frame_of_def by blast

theorem subscriber_kept_current_witness:
  "\<exists>P d c b. sub_serve P 9 0 [\<lparr> wk_snapshot = Some c, wk_dir = d \<rparr>] = [Sub_sent c b 1]
     \<and> dir_holds_whole d 9 \<and> sp_verify P (hd_signed (cu_held c)) 1 = Inr ()"
proof -
  obtain s f where s: "sign_with (table_prims []) demo_policy 1 None = Inr s" "sp_version s = 1"
    "fresh_sign (table_prims []) 9 (sp_head s) 500 1400 = Inr f"
    using demo_directory_takes[of "table_prims []"] by auto
  define P where "P = table_prims [j_sub_frame demo_idp (Sf_Policy s f)]"
  have P: "sign_with P demo_policy 1 None = Inr s" "fresh_sign P 9 (sp_head s) 500 1400 = Inr f"
    using s unfolding P_def table_sign_with[of "_ # _"] table_fresh[of "_ # _"] by simp_all
  have laws: "json_law P" "hex_law P" "compact_law P" "ed25519_law P" "node_id P 1 = 1" "node_id P 9 = 9"
    by (simp_all add: P_def)
  obtain ks where t: "sp_typed s"
    "dir_accept P s 500 (demo_directory demo_home) = (Inr True, (demo_directory ks) \<lparr> dr_accepts := 1,
         dr_current := Some (current_new \<lparr> hd_signed = s, hd_policy = demo_policy \<rparr> (Some f)) \<rparr>)"
    "h_directories (sh_head (sp_head s)) = [9]"
    using demo_directory_takes[OF laws] P by auto
  let ?c = "current_new \<lparr> hd_signed = s, hd_policy = demo_policy \<rparr> (Some f)"
  define d where "d = (demo_directory ks) \<lparr> dr_accepts := 1, dr_current := Some ?c \<rparr>"
  let ?w = "\<lparr> wk_snapshot = Some ?c, wk_dir = d \<rparr>"
  have "dir_ok P d"
    using dir_accept_moves[OF laws(1-4) t(1), of "demo_directory demo_home" 500] t(2) by (simp add: dir_moves_def d_def)
  then have cok: "current_ok P d ?c" by (simp add: dir_ok_def d_def)
  then have ok: "wakes_ok P 1 [?w]" by (auto simp: wakes_ok_def d_def demo_directory_def intro!: exI[of _ d])
  have hw: "dir_holds_whole d 9"
    by (simp add: dir_holds_whole_def d_def current_new_def held_directories_def t(3) bans_node_def)
      (simp add: demo_policy_def policy_new_def)
  have nb: "\<not> bans_node demo_policy 9" by (simp add: bans_node_def demo_policy_def policy_new_def)
  have "length (print_json P (j_sub_frame demo_idp (Sf_Policy s f))) = 1"
    unfolding P_def by (rule table_encode) simp
  moreover have "j_sub_frame P (Sf_Policy s f) = j_sub_frame demo_idp (Sf_Policy s f)"
    by (simp add: P_def j_signed_policy_def)
  ultimately obtain b where b: "sub_frame_encode P (Sf_Policy s f) = Inr b"
    using encode_fits[of P "j_sub_frame P" "Sf_Policy s f"]
    by (auto simp: sub_frame_encode_def canonical_bytes_def max_directory_frame_def simp del: j_sub_frame.simps)
  then have run: "sub_serve P 9 0 [?w] = [Sub_sent ?c b 1]"
    using hw nb s(2) by (simp add: current_new_def next_frame_def current_frame_def held_version_def Let_def)
  from subscriber_kept_current[OF ok, of 9 0] run
  have "dir_holds_whole d 9" "sp_verify P (hd_signed (cu_held ?c)) 1 = Inr ()"
    by (auto dest!: spec[of _ "[]"])
  then show ?thesis using run by blast
qed

end
