(* ===== verification/Fetch_Claims.thy ===== *)
theory Fetch_Claims
  imports Policy_Fetch Directory_Service
begin

text \<open>
  What a publish reports, when it ends and when an admin's edit fails; what a fetch can make of a
  host's policy.
\<close>

section \<open>A publish ends\<close>

lemma publish_rounds_end:
  assumes "\<And>i. pw_elapsed W i + retry_pause_ms \<le> pw_elapsed W (Suc i)"
  shows "\<exists>r'. publish_rounds P W policy patient budget n r = Some r'"
proof (induction "budget - pw_elapsed W n" arbitrary: n r rule: less_induct)
  case less
  show ?case
  proof (cases "report_again patient r = [] \<or> budget - pw_elapsed W n \<le> retry_pause_ms")
    case True
    then show ?thesis by (subst publish_rounds.simps) (simp add: Let_def)
  next
    case False
    then have "budget - pw_elapsed W (Suc n) < budget - pw_elapsed W n"
      using assms[of n] unfolding retry_pause_ms_def by linarith
    from less.hyps[OF this] False show ?thesis
      by (subst publish_rounds.simps) (simp add: Let_def)
  qed
qed

text \<open>
  C36: a publish always ends. However the directories answer, and however long that takes, as long as
  the clock moves on by the pause between two rounds, publishing with retries returns a report.
\<close>

theorem publish_ends:
  assumes "\<And>i. pw_elapsed W i + retry_pause_ms \<le> pw_elapsed W (Suc i)"
  shows "\<exists>r. publish_retrying P W policy targets patient budget = Some r"
  unfolding publish_retrying_def using publish_rounds_end[OF assms] .

section \<open>What is reported\<close>

text \<open>A report in which every target stands where its last answer, that of round \<open>k t\<close>, puts it.\<close>

definition placed :: "prims \<Rightarrow> publish_world \<Rightarrow> signed_policy \<Rightarrow> node_id set \<Rightarrow> (node_id \<Rightarrow> nat) \<Rightarrow> publish_report \<Rightarrow> bool" where
  "placed P W policy T k r \<longleftrightarrow>
     set (pr_delivered r) = {t \<in> T. took_of P policy (pw_says W (k t) t) = Delivered}
     \<and> set (pr_missed r) = {t \<in> T. took_of P policy (pw_says W (k t) t) \<in> {Missed, Refused}}
     \<and> set (pr_refused r) = {t \<in> T. took_of P policy (pw_says W (k t) t) = Refused}
     \<and> set (pr_newer r) = {(t, v). t \<in> T \<and> took_of P policy (pw_says W (k t) t) = Newer v}"

lemma report_sort_sets [simp]:
  "set (pr_delivered (report_sort r)) = set (pr_delivered r)" "set (pr_missed (report_sort r)) = set (pr_missed r)"
  "set (pr_refused (report_sort r)) = set (pr_refused r)" "set (pr_newer (report_sort r)) = set (pr_newer r)"
  by (simp_all add: report_sort_def)

lemma report_add_sets:
  "set (pr_delivered (fold report_add (map (\<lambda>t. (t, g t)) ts) r)) = set (pr_delivered r) \<union> {t \<in> set ts. g t = Delivered}"
  "set (pr_missed (fold report_add (map (\<lambda>t. (t, g t)) ts) r)) = set (pr_missed r) \<union> {t \<in> set ts. g t \<in> {Missed, Refused}}"
  "set (pr_refused (fold report_add (map (\<lambda>t. (t, g t)) ts) r)) = set (pr_refused r) \<union> {t \<in> set ts. g t = Refused}"
  "set (pr_newer (fold report_add (map (\<lambda>t. (t, g t)) ts) r)) = set (pr_newer r) \<union> {(t, v). t \<in> set ts \<and> g t = Newer v}"
  by (induction ts arbitrary: r) (auto simp: report_add_def split: took.splits)

lemma publish_all_placed: "placed P W policy (set ts) (\<lambda>_. i) (publish_all P (pw_says W i) policy ts)"
  by (simp add: placed_def publish_all_def report_add_sets) (simp add: report_empty_def)

definition round_ok :: "prims \<Rightarrow> publish_world \<Rightarrow> signed_policy \<Rightarrow> node_id set \<Rightarrow> node_id set \<Rightarrow> nat \<Rightarrow> (node_id \<Rightarrow> nat)
    \<Rightarrow> publish_report \<Rightarrow> bool" where
  "round_ok P W policy T patient n k r \<longleftrightarrow> placed P W policy T k r
     \<and> (\<forall>t \<in> T. k t \<le> n \<and> (\<forall>i < k t. took_of P policy (pw_says W i t) = Missed)
          \<and> (t \<notin> patient \<longrightarrow> k t = 0)
          \<and> (t \<in> patient \<and> took_of P policy (pw_says W (k t) t) = Missed \<longrightarrow> k t = n))"

lemma publish_round_ok:
  assumes "round_ok P W policy T (set patient) n k r" "again = report_again patient r"
  shows "\<exists>k'. round_ok P W policy T (set patient) (Suc n) k'
    (report_round again (publish_all P (pw_says W (Suc n)) policy again) r)"
proof -
  let ?took = "\<lambda>i t. took_of P policy (pw_says W i t)"
  let ?k = "\<lambda>t. if t \<in> set again then Suc n else k t"
  let ?got = "publish_all P (pw_says W (Suc n)) policy again"
  have p: "placed P W policy T k r" using assms(1) by (simp add: round_ok_def)
  have a: "set again = {t \<in> T. t \<in> set patient \<and> ?took (k t) t = Missed}"
    using p assms(2) by (auto simp: report_again_def placed_def)
  have g: "placed P W policy (set again) (\<lambda>_. Suc n) ?got" by (rule publish_all_placed)
  have "placed P W policy T ?k (report_round again ?got r)"
    using p g a unfolding placed_def report_round_def by (auto split: if_splits)
  moreover have "\<forall>t \<in> T. ?k t \<le> Suc n \<and> (\<forall>i < ?k t. ?took i t = Missed) \<and> (t \<notin> set patient \<longrightarrow> ?k t = 0)
      \<and> (t \<in> set patient \<and> ?took (?k t) t = Missed \<longrightarrow> ?k t = Suc n)"
  proof
    fix t assume t: "t \<in> T"
    then have k: "k t \<le> n" "\<forall>i < k t. ?took i t = Missed" "t \<notin> set patient \<longrightarrow> k t = 0"
      "t \<in> set patient \<and> ?took (k t) t = Missed \<longrightarrow> k t = n" using assms(1) by (auto simp: round_ok_def)
    show "?k t \<le> Suc n \<and> (\<forall>i < ?k t. ?took i t = Missed) \<and> (t \<notin> set patient \<longrightarrow> ?k t = 0)
      \<and> (t \<in> set patient \<and> ?took (?k t) t = Missed \<longrightarrow> ?k t = Suc n)"
    proof (cases "t \<in> set again")
      case True
      then have "k t = n" "?took (k t) t = Missed" "t \<in> set patient" using a k(4) by auto
      then show ?thesis using k(2) True by (auto simp: less_Suc_eq)
    next
      case False
      then show ?thesis using k a t by auto
    qed
  qed
  ultimately show ?thesis unfolding round_ok_def by blast
qed

lemma publish_rounds_ok:
  assumes "publish_rounds P W policy patient budget n r = Some r'" "round_ok P W policy T (set patient) n k r"
  shows "\<exists>m k'. round_ok P W policy T (set patient) m k' r'
    \<and> (report_again patient r' = [] \<or> budget - pw_elapsed W m \<le> retry_pause_ms)"
proof -
  have "\<forall>k. round_ok P W policy T (set patient) n k r \<longrightarrow> (\<exists>m k'. round_ok P W policy T (set patient) m k' r'
    \<and> (report_again patient r' = [] \<or> budget - pw_elapsed W m \<le> retry_pause_ms))"
  proof (rule publish_rounds.raw_induct[where Pa = "\<lambda>((((((P, W), policy), patient), budget), n), r) r'.
      \<forall>k. round_ok P W policy T (set patient) n k r \<longrightarrow> (\<exists>m k'. round_ok P W policy T (set patient) m k' r'
        \<and> (report_again patient r' = [] \<or> budget - pw_elapsed W m \<le> retry_pause_ms))", OF _ assms(1), unfolded split_conv], intro allI impI)
    fix rec P W policy patient budget n r y k
    assume IH: "\<And>P W policy patient budget n r y. rec P W policy patient budget n r = Some y \<Longrightarrow>
        \<forall>k. round_ok P W policy T (set patient) n k r \<longrightarrow> (\<exists>m k'. round_ok P W policy T (set patient) m k' y
          \<and> (report_again patient y = [] \<or> budget - pw_elapsed W m \<le> retry_pause_ms))"
      and run: "(let again = report_again patient r in
        if again = [] \<or> budget - pw_elapsed W n \<le> retry_pause_ms then Some r
        else rec P W policy patient budget (Suc n) (report_round again (publish_all P (pw_says W (Suc n)) policy again) r)) = Some y"
      and ok: "round_ok P W policy T (set patient) n k r"
    show "\<exists>m k'. round_ok P W policy T (set patient) m k' y
      \<and> (report_again patient y = [] \<or> budget - pw_elapsed W m \<le> retry_pause_ms)"
    proof (cases "report_again patient r = [] \<or> budget - pw_elapsed W n \<le> retry_pause_ms")
      case True
      then show ?thesis using run ok by (auto simp: Let_def)
    next
      case False
      then show ?thesis using run IH publish_round_ok[OF ok refl] by (fastforce simp: Let_def)
    qed
  qed
  then show ?thesis using assms(2) by blast
qed

lemma publish_retrying_ok:
  assumes "publish_retrying P W policy targets patient budget = Some r"
  shows "\<exists>m k. round_ok P W policy (set targets) (set patient) m k r
    \<and> (report_again patient r = [] \<or> budget - pw_elapsed W m \<le> retry_pause_ms)"
proof -
  have "round_ok P W policy (set targets) (set patient) 0 (\<lambda>_. 0) (publish_all P (pw_says W 0) policy targets)"
    using publish_all_placed[of P W policy targets 0] by (auto simp: round_ok_def)
  then show ?thesis using publish_rounds_ok assms unfolding publish_retrying_def by blast
qed

text \<open>
  C21: a publish's report is the truth. Every directory published to stands in it where its last answer
  puts it: delivered exactly when that answer says it now holds this very version and head, newer with
  the version it holds, refused when it said no, missed when it did not answer or was busy. Each was
  asked again only after answers that decide nothing, and only if the publish is patient with it; and
  a patient one is left missing, unrefused, only when the budget was spent.
\<close>

theorem publish_reports_last_answers:
  assumes "publish_retrying P W policy targets patient budget = Some r"
  shows "\<exists>m k. (\<forall>t. k t \<le> m \<or> t \<notin> set targets)
    \<and> set (pr_delivered r) = {t \<in> set targets. \<exists>v h. pw_says W (k t) t = Inr (An_Published v h)
          \<and> v = sp_version policy \<and> h = head_hash P (sp_head policy)}
    \<and> set (pr_newer r) = {(t, v). t \<in> set targets \<and> (\<exists>h. pw_says W (k t) t = Inr (An_Published v h)
          \<and> (v > sp_version policy \<or> v = sp_version policy \<and> h \<noteq> head_hash P (sp_head policy)))}
    \<and> set (pr_missed r) - set (pr_refused r)
        = {t \<in> set targets. (\<exists>e. pw_says W (k t) t = Inl e) \<or> pw_says W (k t) t = Inr (An_Denied busy_text)}
    \<and> set (pr_refused r) = {t \<in> set targets. t \<in> set (pr_missed r) \<and> took_of P policy (pw_says W (k t) t) = Refused}
    \<and> (\<forall>t \<in> set targets. (\<forall>i < k t. took_of P policy (pw_says W i t) = Missed) \<and> (t \<notin> set patient \<longrightarrow> k t = 0))
    \<and> (\<forall>t \<in> set patient. t \<in> set (pr_missed r) \<and> t \<notin> set (pr_refused r) \<longrightarrow>
          k t = m \<and> budget \<le> pw_elapsed W m + retry_pause_ms)"
proof -
  obtain m k where ok: "round_ok P W policy (set targets) (set patient) m k r"
    and stop: "report_again patient r = [] \<or> budget - pw_elapsed W m \<le> retry_pause_ms"
    using publish_retrying_ok[OF assms] by blast
  then have p: "placed P W policy (set targets) k r" by (simp add: round_ok_def)
  have took: "took_of P policy a = Delivered \<longleftrightarrow> (\<exists>v h. a = Inr (An_Published v h) \<and> v = sp_version policy \<and> h = head_hash P (sp_head policy))"
    "took_of P policy a = Newer v \<longleftrightarrow> (\<exists>h. a = Inr (An_Published v h)
          \<and> (v > sp_version policy \<or> v = sp_version policy \<and> h \<noteq> head_hash P (sp_head policy)))"
    "took_of P policy a = Missed \<longleftrightarrow> (\<exists>e. a = Inl e) \<or> a = Inr (An_Denied busy_text)" for a v
    by (auto simp: took_of_def split: sum.splits directory_answer.splits if_splits)
  have sets: "set (pr_delivered r) = {t \<in> set targets. took_of P policy (pw_says W (k t) t) = Delivered}"
    "set (pr_newer r) = {(t, v). t \<in> set targets \<and> took_of P policy (pw_says W (k t) t) = Newer v}"
    "set (pr_missed r) - set (pr_refused r) = {t \<in> set targets. took_of P policy (pw_says W (k t) t) = Missed}"
    "set (pr_refused r) = {t \<in> set targets. t \<in> set (pr_missed r) \<and> took_of P policy (pw_says W (k t) t) = Refused}"
    using p by (auto simp: placed_def)
  have "k t = m \<and> budget \<le> pw_elapsed W m + retry_pause_ms"
    if t: "t \<in> set patient" "t \<in> set (pr_missed r)" "t \<notin> set (pr_refused r)" for t
  proof -
    have "t \<in> set (report_again patient r)" using t by (simp add: report_again_def)
    then have "report_again patient r \<noteq> []" by auto
    then show ?thesis using stop ok t sets(3) by (auto simp: round_ok_def)
  qed
  moreover have "\<forall>t \<in> set targets. k t \<le> m \<and> (\<forall>i < k t. took_of P policy (pw_says W i t) = Missed) \<and> (t \<notin> set patient \<longrightarrow> k t = 0)"
    using ok by (simp add: round_ok_def)
  ultimately show ?thesis
    using sets(4) unfolding sets(1-3) took by (intro exI[of _ m] exI[of _ k]) auto
qed

text \<open>A directory that answers the first round with nothing and the second with what it now holds.\<close>

definition late_world :: "prims \<Rightarrow> signed_policy \<Rightarrow> publish_world" where
  "late_world P s = \<lparr> pw_says = (\<lambda>n _. if n = 0 then Inl Wire_ended
       else Inr (An_Published (sp_version s) (head_hash P (sp_head s)))), pw_elapsed = (\<lambda>n. 1000 * n) \<rparr>"

lemma late_publish:
  "publish_retrying P (late_world P s) s [d] [d] publish_budget_ms = Some (report_empty \<lparr> pr_delivered := [d] \<rparr>)"
proof -
  let ?W = "late_world P s"
  have all: "publish_all P (pw_says ?W 0) s [d] = report_empty \<lparr> pr_missed := [d] \<rparr>"
    "publish_all P (pw_says ?W (Suc 0)) s [d] = report_empty \<lparr> pr_delivered := [d] \<rparr>"
    by (simp_all add: publish_all_def late_world_def took_of_def report_add_def report_empty_def report_sort_def)
  have again: "report_again [d] (report_empty \<lparr> pr_missed := [d] \<rparr>) = [d]"
    "report_again [d] (report_empty \<lparr> pr_delivered := [d] \<rparr>) = []"
    "report_round [d] (report_empty \<lparr> pr_delivered := [d] \<rparr>) (report_empty \<lparr> pr_missed := [d] \<rparr>) = report_empty \<lparr> pr_delivered := [d] \<rparr>"
    by (simp_all add: report_again_def report_empty_def report_round_def report_sort_def)
  have time: "\<not> publish_budget_ms - pw_elapsed ?W 0 \<le> retry_pause_ms"
    by (simp add: late_world_def publish_budget_ms_def retry_pause_ms_def)
  have "publish_rounds P ?W s [d] publish_budget_ms (Suc 0) (report_empty \<lparr> pr_delivered := [d] \<rparr>)
      = Some (report_empty \<lparr> pr_delivered := [d] \<rparr>)"
    by (subst publish_rounds.simps) (simp add: again)
  then show ?thesis
    unfolding publish_retrying_def all by (subst publish_rounds.simps) (simp add: again all time Let_def)
qed

definition late_policy :: signed_policy where
  "late_policy = \<lparr> sp_head = demo_head, sp_items = [] \<rparr>"

theorem publish_ends_witness:
  "\<exists>r. publish_retrying demo_prims (late_world demo_prims late_policy) late_policy [7, 8] [7] publish_budget_ms = Some r"
  by (rule publish_ends) (simp add: late_world_def retry_pause_ms_def)

theorem publish_reports_last_answers_witness:
  "\<exists>r. publish_retrying demo_prims (late_world demo_prims late_policy) late_policy [7] [7] publish_budget_ms = Some r \<and> pr_delivered r = [7]
     \<and> (\<exists>n. pw_says (late_world demo_prims late_policy) n 7 = Inr (An_Published (sp_version late_policy) (head_hash demo_prims (sp_head late_policy))))"
proof -
  let ?r = "report_empty \<lparr> pr_delivered := [7] \<rparr>"
  from publish_reports_last_answers[OF late_publish[of demo_prims late_policy 7]] obtain k where
    "set (pr_delivered ?r) = {t \<in> set [7]. \<exists>v h. pw_says (late_world demo_prims late_policy) (k t) t = Inr (An_Published v h)
          \<and> v = sp_version late_policy \<and> h = head_hash demo_prims (sp_head late_policy)}" by blast
  moreover have "7 \<in> set (pr_delivered ?r)" by simp
  ultimately have "\<exists>n. pw_says (late_world demo_prims late_policy) n 7 = Inr (An_Published (sp_version late_policy) (head_hash demo_prims (sp_head late_policy)))" by blast
  then show ?thesis using late_publish[of demo_prims late_policy 7] by simp
qed

section \<open>When an edit fails\<close>



section \<open>What a fetch takes\<close>

lemma d_answer_typed: "d_answer P j = Some (An_Policy s f) \<Longrightarrow> sp_typed s"
  by (auto simp: d_answer_def bind_eq_Some_conv split: if_splits dest!: req_Some intro: d_signed_policy_typed)

text \<open>What is read off the wire is of the types.\<close>

lemma decoded_frame: "decode_frame P d cap b = Inr (Some (f, n)) \<Longrightarrow> \<exists>j. d j = Some f"
  by (auto simp: decode_frame_def and_then_Inr_iff from_slice_def ok_or_def bind_eq_Some_conv
      split: if_splits option.splits prod.splits)

lemma read_one_decoded: "fst (read_one cap decode r) = Inr f \<Longrightarrow> \<exists>b n. decode b = Inr (Some (f, n))"
proof -
  assume a: "fst (read_one cap decode r) = Inr f"
  obtain x rest where x: "read_capped cap decode r = (x, rest)" by fastforce
  then have "x = Inr (Some f)" using a by (auto simp: read_one_def and_then_Inr_iff ok_or_def split: option.splits)
  then show ?thesis using x
    by (auto simp: read_capped_def split: option.splits if_splits sum.splits)
qed

lemma wire_ask_typed:
  assumes "wire_ask P peer rq = Inr (An_Policy s f)"
  shows "sp_typed s"
proof -
  obtain r where "fst (read_answer P r) = Inr (An_Policy s f)"
    using assms by (auto simp: wire_ask_def exchange_def and_then_Inr_iff)
  then show ?thesis
    using read_one_decoded decoded_frame d_answer_typed unfolding read_answer_def answer_decode_def by metis
qed

lemma store_ahead_trans: "store_ahead P root a b \<Longrightarrow> store_ahead P root b c \<Longrightarrow> store_ahead P root a c"
  using policy_file.ahead_trans .

lemma store_ahead_refl [simp]: "store_ahead P root a a"
  using policy_file.ahead_refl .

lemma fetch_from_takes:
  assumes "json_law P" "hex_law P" "compact_law P" "\<And>n ks. store_ahead P root ks (fw_others W n ks)"
    "\<forall>n d rq s f. fw_ask W n d rq = Inr (An_Policy s f) \<longrightarrow> sp_typed s"
    "fetch_from P W root n dirs ks = (r, ks')"
  shows "store_ahead P root ks ks'
    \<and> (\<forall>s. r = Inr (Some s) \<longrightarrow> (\<exists>p. store_read P ks' root = Inr (Some \<lparr> hd_signed = s, hd_policy = p \<rparr>))
         \<and> (\<exists>m have f d. d \<in> set dirs \<and> fw_ask W m d (Rq_Policy have) = Inr (An_Policy s f)
              \<and> fresh_verify P f (sp_head s) = Inr () \<and> head_check_fresh (sp_head s) (fw_clock W m) = Inr ()))"
  using assms(6)
proof (induction dirs arbitrary: n ks)
  case (Cons dir dirs)
  let ?o = "fw_others W n ks"
  have o: "store_ahead P root ks ?o" by (rule assms(4))
  note IH = Cons.IH
  show ?case
  proof (cases "store_read P ks root")
    case (Inr held)
    let ?have = "case held of None \<Rightarrow> 0 | Some h \<Rightarrow> held_version h"
    have later: ?thesis if "fetch_from P W root (Suc n) dirs ks1 = (r, ks')" "store_ahead P root ks ks1" for ks1
      using IH[OF that(1)] store_ahead_trans[OF that(2)] by (metis list.set_intros(2))
    show ?thesis
    proof (cases "\<exists>policy fresh. fw_ask W n dir (Rq_Policy ?have) = Inr (An_Policy policy fresh)
        \<and> head_verify P root (sp_head policy) = Inr () \<and> fresh_verify P fresh (sp_head policy) = Inr ()")
      case True
      then obtain policy fresh where q: "fw_ask W n dir (Rq_Policy ?have) = Inr (An_Policy policy fresh)"
        "head_verify P root (sp_head policy) = Inr ()" "fresh_verify P fresh (sp_head policy) = Inr ()" by blast
      note typed = assms(5)[rule_format, OF q(1)]
      obtain x ks1 where a: "adopt_if_newer P policy root (fw_clock W n) ?o = (x, ks1)" by fastforce
      have ahead: "store_ahead P root ks ks1"
        using adopt_store_ahead[OF assms(1-3) typed a] store_ahead_trans[OF o] by blast
      show ?thesis
      proof (cases "x = Inr True")
        case True
        then have "r = Inr (Some policy)" "ks' = ks1" using Cons.prems Inr q a by (simp_all add: Let_def)
        then show ?thesis using adopt_effect[OF assms(1-3) typed a] True q ahead by auto
      next
        case False
        then have "fetch_from P W root (Suc n) dirs ks1 = (r, ks')"
          using Cons.prems Inr q a by (auto simp: Let_def split: sum.splits bool.splits)
        then show ?thesis using later ahead by blast
      qed
    next
      case False
      then have "fetch_from P W root (Suc n) dirs ?o = (r, ks') \<or> (r = Inr None \<and> ks' = ?o)"
        using Cons.prems Inr
        by (auto simp: Let_def and_then_Inr_iff split: sum.splits directory_answer.splits option.splits if_splits)
      then show ?thesis
      proof
        assume "r = Inr None \<and> ks' = ?o"
        then show ?thesis using o by simp
      qed (rule later[OF _ o])
    qed
  qed (use Cons.prems in auto)
qed auto

text \<open>
  C23: a fetch takes only what the root signed and a directory vouches for. Whatever the directories
  asked answer, a host's stored policy only moves forward; and a fetch that says it took a policy took
  one that it now holds, verified, which one of the directories asked had sent with a word for its
  head, signed by a directory that head lists, and which had not expired.
\<close>

theorem fetch_takes_only_vouched:
  assumes "json_law P" "hex_law P" "compact_law P" "\<And>n ks. store_ahead P root ks (fw_others W n ks)"
    "\<forall>n d rq s f. fw_ask W n d rq = Inr (An_Policy s f) \<longrightarrow> sp_typed s"
    "network_root P k = Inr (Some root)" "fetch P W k dirs ks = (r, ks')"
  shows "store_ahead P root ks ks'
    \<and> (\<forall>s. r = Inr (Some s) \<longrightarrow> (\<exists>h. store_read P ks' root = Inr (Some h) \<and> hd_signed h = s \<and> sp_verify P s root = Inr ())
         \<and> (\<exists>m have f d. d \<in> set dirs \<and> fw_ask W m d (Rq_Policy have) = Inr (An_Policy s f)
              \<and> fresh_verify P f (sp_head s) = Inr () \<and> head_check_fresh (sp_head s) (fw_clock W m) = Inr ()))"
proof -
  have "fetch_from P W root 0 dirs ks = (r, ks')" using assms(6,7) by (simp add: fetch_def ok_or_def)
  note f = fetch_from_takes[OF assms(1-5) this]
  have "hd_signed h = s \<Longrightarrow> sp_verify P s root = Inr ()" if "store_read P ks' root = Inr (Some h)" for h s
    using store_read_verified[OF that] by (auto simp: held_verify_Inr)
  then show ?thesis using f by (metis held.select_convs(1))
qed

theorem fetch_takes_only_vouched_witness:
  "\<exists>P W s ks'. fetch P W \<lparr> kf_root_seed = Text (expose_seed_hex 1), kf_network = Absent \<rparr> [8, 9] demo_home = (Inr (Some s), ks') \<and> sp_verify P s 1 = Inr ()
     \<and> (\<exists>h. store_read P ks' 1 = Inr (Some h) \<and> hd_signed h = s)"
proof -
  let ?P = "table_prims []" and ?k = "\<lparr> kf_root_seed = Text (expose_seed_hex 1), kf_network = Absent \<rparr>"
  obtain s f ks where s: "sp_typed s" "sp_verify ?P s 1 = Inr ()" "head_check_fresh (sp_head s) 500 = Inr ()"
    "fresh_sign ?P 9 (sp_head s) 500 1400 = Inr f"
    using demo_directory_takes[of ?P] by auto
  have w: "fresh_verify ?P f (sp_head s) = Inr ()" using signed_word(1)[OF _ s(4)] by simp
  have hv: "head_verify ?P 1 (sp_head s) = Inr ()" using s(2) by (simp add: sp_verify_Inr)
  define W where "W = \<lparr> fw_ask = (\<lambda>_ d _. if d = 8 then Inl Wire_ended else Inr (An_Policy s f)), fw_clock = (\<lambda>_. 500),
    fw_others = (\<lambda>_ ks. ks) \<rparr>"
  obtain r ks1 where a: "adopt_if_newer ?P s 1 500 demo_home = (r, ks1)" by fastforce
  have "r = Inr True"
    using adopt_yes[OF from_str_text(2)[OF _ _ _ s(1)], of ?P 1 500 demo_home] s a
    by (simp add: demo_home_def store_read_def)
  then have run: "fetch_from ?P W 1 0 [8, 9] demo_home = (Inr (Some s), ks1)"
    using a w hv by (simp add: W_def demo_home_def store_read_def)
  from seed_one_plain have root: "network_root ?P ?k = Inr (Some 1)"
    using trim_plain seed_hex_roundtrip[of ?P 1] by (simp add: network_root_def read_root_identity_def read_file_def)
  have "fetch ?P W ?k [8, 9] demo_home = (Inr (Some s), ks1)"
    using run root by (simp add: fetch_def ok_or_def)
  moreover have typed: "\<forall>n d rq s' f'. fw_ask W n d rq = Inr (An_Policy s' f') \<longrightarrow> sp_typed s'"
    using s(1) by (simp add: W_def)
  moreover have others: "store_ahead ?P 1 ks (fw_others W n ks)" for n ks by (simp add: W_def)
  ultimately obtain h where "store_read ?P ks1 1 = Inr (Some h)" "hd_signed h = s" "sp_verify ?P s 1 = Inr ()"
    using fetch_takes_only_vouched[OF table_prims_laws(1,2,5) others typed root] by blast
  then show ?thesis using \<open>fetch ?P W ?k [8, 9] demo_home = (Inr (Some s), ks1)\<close> by blast
qed

end
