(* ===== verification/Follow_Rules.thy ===== *)
theory Follow_Rules
  imports Host_Follow Fetch_Claims
begin

text \<open>
  Laws of the follower: each piece of it, whatever the directory streams, leaves the stored policy no
  older and every word a verified one.
\<close>

section \<open>What is read is typed\<close>

lemma d_sub_frame_typed: "d_sub_frame P j = Some (Sf_Policy s f) \<Longrightarrow> sp_typed s"
  by (auto simp: d_sub_frame_def bind_eq_Some_conv split: if_splits dest!: req_Some intro: d_signed_policy_typed)

lemma read_sub_frame_typed:
  assumes "read_sub_frame P r = (Inr (Some (Sf_Policy s f)), rest)"
  shows "sp_typed s"
proof -
  have "fst (read_one max_directory_frame (sub_frame_decode P) r) = Inr (Sf_Policy s f)"
    using assms by (simp add: read_sub_frame_def read_one_def ok_or_def)
  from read_one_decoded[OF this] show ?thesis
    using decoded_frame d_sub_frame_typed unfolding sub_frame_decode_def by metis
qed

section \<open>Moving on\<close>

text \<open>A word that some head of this network, signed by its root, stands behind.\<close>

definition word_of_root :: "prims \<Rightarrow> node_id \<Rightarrow> fresh \<Rightarrow> bool" where
  "word_of_root P root f \<longleftrightarrow> (\<exists>head. head_verify P root head = Inr () \<and> fresh_verify P f head = Inr ())"

definition follow_ok :: "prims \<Rightarrow> node_id \<Rightarrow> following \<Rightarrow> bool" where
  "follow_ok P root s \<longleftrightarrow> (\<forall>f \<in> set (fo_fresh s). word_of_root P root f)
     \<and> (case fo_directory s of None \<Rightarrow> True | Some d \<Rightarrow> dr_root d = root)"

definition follow_moves :: "prims \<Rightarrow> node_id \<Rightarrow> following \<Rightarrow> following \<Rightarrow> bool" where
  "follow_moves P root s s' \<longleftrightarrow>
     (follow_ok P root s \<longrightarrow> follow_ok P root s' \<and> store_ahead P root (fo_home s) (fo_home s'))"

lemma follow_moves_refl [simp]: "follow_moves P root s s"
  by (simp add: follow_moves_def)

lemma follow_moves_trans [trans]: "follow_moves P root a b \<Longrightarrow> follow_moves P root b c \<Longrightarrow> follow_moves P root a c"
  unfolding follow_moves_def using store_ahead_trans by blast

lemma follow_moves_stats [simp]: "follow_moves P root s (s \<lparr> fo_stats := st \<rparr>)"
  by (simp add: follow_moves_def follow_ok_def)

lemma follow_count_moves [simp]: "follow_moves P root s (follow_count P frame s)"
  by (simp add: follow_count_def Let_def)

text \<open>Only \<open>policy.json\<close> is the stored policy.\<close>

lemma store_ahead_same: "ho_policy ks' = ho_policy ks \<Longrightarrow> store_ahead P root ks ks'"
  by (simp add: store_ahead_def store_read_def)

lemma fresh_offer_effect:
  assumes "fresh_offer P f head now (held, ks) = (r, held', ks')"
  shows "set held' \<subseteq> insert f (set held)" "ho_policy ks' = ho_policy ks" "ho_writable ks' = ho_writable ks"
    "held' \<noteq> held \<Longrightarrow> fresh_verify P f head = Inr ()"
proof -
  have "held' = held \<or> held' = snd (fs_insert f now held) \<and> fresh_verify P f head = Inr ()"
    using assms by (auto simp: fresh_offer_def fresh_verified_Inr split: sum.splits prod.splits bool.splits if_splits)
  then show "set held' \<subseteq> insert f (set held)" "held' \<noteq> held \<Longrightarrow> fresh_verify P f head = Inr ()"
    using fs_insert_set[of f now held] by auto
  show "ho_policy ks' = ho_policy ks" "ho_writable ks' = ho_writable ks"
    using assms by (auto simp: fresh_offer_def split: sum.splits prod.splits bool.splits if_splits)
qed

lemma offer_moves:
  assumes "store_read P (fo_home s) root = Inr (Some h)"
    "fresh_offer P f (sp_head (hd_signed h)) now (fo_fresh s, fo_home s) = (r, held', ks')"
  shows "follow_moves P root s (s \<lparr> fo_fresh := held', fo_home := ks' \<rparr>)"
proof -
  note e = fresh_offer_effect[OF assms(2)]
  have "head_verify P root (sp_head (hd_signed h)) = Inr ()"
    using store_read_verified[OF assms(1)] by (simp add: held_verify_Inr sp_verify_Inr)
  then have "word_of_root P root f" if "held' \<noteq> fo_fresh s" using e(4)[OF that] unfolding word_of_root_def by blast
  then show ?thesis
    using e(1) store_ahead_same[OF e(2)] by (cases "held' = fo_fresh s") (auto simp: follow_moves_def follow_ok_def)
qed

lemma follow_vouch_moves: "follow_moves P root s (snd (follow_vouch P root f now s))"
proof (cases "store_read P (fo_home s) root")
  case (Inr held)
  show ?thesis
  proof (cases held)
    case (Some h)
    obtain r held' ks' where o: "fresh_offer P f (sp_head (hd_signed h)) now (fo_fresh s, fo_home s) = (r, held', ks')"
      by (metis surj_pair)
    then show ?thesis using offer_moves[OF _ o] Inr Some by (simp add: follow_vouch_def)
  qed (simp add: follow_vouch_def Inr)
qed (simp add: follow_vouch_def)

lemma vouch_from_local_moves: "follow_moves P root s (vouch_from_local P root word now s)"
proof -
  have "vouch_from_local P root word now s = s \<or> (\<exists>f h r held' ks'. store_read P (fo_home s) root = Inr (Some h)
      \<and> fresh_offer P f (sp_head (hd_signed h)) now (fo_fresh s, fo_home s) = (r, held', ks')
      \<and> vouch_from_local P root word now s = s \<lparr> fo_fresh := held', fo_home := ks' \<rparr>)"
    by (auto simp: vouch_from_local_def split: option.splits sum.splits prod.splits)
  then show ?thesis using offer_moves by fastforce
qed

lemma dir_accept_ahead:
  assumes "json_law P" "hex_law P" "compact_law P" "sp_typed c" "dir_accept P c now d = (r, d')"
  shows "store_ahead P (dr_root d) (dr_home d) (dr_home d') \<and> dr_root d' = dr_root d"
proof -
  obtain q ks where a: "adopt_if_newer P c (dr_root d) now (dr_home d) = (q, ks)" by fastforce
  have "dr_root d' = dr_root d \<and> (dr_home d' = dr_home d \<or> dr_home d' = ks)"
    using assms(5) a by (auto simp: dir_accept_def Let_def split: sum.splits option.splits if_splits)
  then show ?thesis using adopt_store_ahead[OF assms(1-4) a] by auto
qed

lemma follow_adopt_moves:
  assumes "json_law P" "hex_law P" "compact_law P" "sp_typed c"
  shows "follow_moves P root s (snd (follow_adopt P root c now s))"
proof (cases "fo_directory s")
  case None
  obtain r ks where a: "adopt_if_newer P c root now (fo_home s) = (r, ks)" by fastforce
  show ?thesis using adopt_store_ahead[OF assms a] None a by (simp add: follow_adopt_def follow_moves_def follow_ok_def)
next
  case (Some d)
  obtain r d' where a: "dir_accept P c now (d \<lparr> dr_home := fo_home s \<rparr>) = (r, d')" by fastforce
  show ?thesis
    using dir_accept_ahead[OF assms a] Some a by (auto simp: follow_adopt_def follow_moves_def follow_ok_def)
qed

definition frame_typed :: "sub_frame \<Rightarrow> bool" where
  "frame_typed frame \<longleftrightarrow> (case frame of Sf_Policy p _ \<Rightarrow> sp_typed p | _ \<Rightarrow> True)"

lemma follow_take_moves:
  assumes "json_law P" "hex_law P" "compact_law P" "frame_typed frame"
  shows "follow_moves P root s (snd (follow_take P root dir frame now s))"
proof (cases "frame_parts frame")
  case (Inr fp)
  obtain f p where fp: "fp = (f, p)" by fastforce
  then have typed: "\<And>c. p = Some c \<Longrightarrow> sp_typed c" using assms(4) Inr by (cases frame) (auto simp: frame_typed_def)
  obtain r s1 where a: "(case p of None \<Rightarrow> (Inr (), s) | Some p \<Rightarrow> follow_adopt P root p now s) = (r, s1)" by fastforce
  have m: "follow_moves P root s s1"
  proof (cases p)
    case (Some c)
    then show ?thesis using a follow_adopt_moves[OF assms(1-3) typed[OF Some], of root s now] by simp
  qed (use a in simp)
  have "snd (follow_take P root dir frame now s) \<in> {s, s1, snd (follow_vouch P root f now s1)}"
    using Inr fp a by (cases "frame_stands P root dir f p"; cases r) (auto simp: follow_take_def Let_def)
  then show ?thesis using m follow_moves_trans[OF m follow_vouch_moves] by auto
qed (simp add: follow_take_def)

section \<open>Runs\<close>

definition others_follow :: "prims \<Rightarrow> node_id \<Rightarrow> follow_env \<Rightarrow> bool" where
  "others_follow P root E \<longleftrightarrow> (\<forall>n s. follow_moves P root s (fe_others E n s))"

lemma follow_stream_moves:
  assumes "json_law P" "hex_law P" "compact_law P" "others_follow P root E"
  shows "follow_stream P root dir E n answered r s = (x, s') \<Longrightarrow> follow_moves P root s s'"
proof (induction "length r" arbitrary: n answered r s rule: less_induct)
  case less
  let ?s = "fe_others E n s"
  have o: "follow_moves P root s ?s" using assms(4) by (simp add: others_follow_def)
  note run = less.prems[unfolded follow_stream.simps[of P root dir E n answered r s] Let_def]
  show ?case
  proof (cases "fe_gap E n > follow_silence P root (fo_home s)")
    case False
    show ?thesis
    proof (cases "\<exists>frame. fst (read_sub_frame P r) = Inr (Some frame) \<and> (\<forall>why. frame \<noteq> Sf_Denied why)")
      case True
      then obtain frame rest where f: "read_sub_frame P r = (Inr (Some frame), rest)" "\<forall>why. frame \<noteq> Sf_Denied why"
        by (metis prod.collapse)
      let ?c = "follow_count P frame ?s"
      obtain y s1 where t: "follow_take P root dir frame (fe_clock E n) ?c = (y, s1)" by fastforce
      have "frame_typed frame" using f(1) read_sub_frame_typed by (auto simp: frame_typed_def split: sub_frame.split)
      note step = follow_moves_trans[OF follow_moves_trans[OF o follow_count_moves] follow_take_moves[OF assms(1-3) this, of root ?c dir "fe_clock E n", unfolded t snd_conv]]
      have short: "length rest < length r"
        using read_capped_shrinks[OF f(1)[unfolded read_sub_frame_def]] by simp
      have "s' = s1 \<or> (\<exists>st. s' = s1 \<lparr> fo_stats := st \<rparr>) \<or> follow_stream P root dir E (Suc n) True rest s1 = (x, s')"
        using run False f t by (auto split: sub_frame.splits sum.splits if_splits follow_error.splits option.splits)
      then show ?thesis
        using step follow_moves_trans[OF step] less.hyps[OF short] follow_moves_stats by blast
    next
      case no: False
      then have "s' = ?s \<or> (\<exists>frame. s' = follow_count P frame ?s)"
        using run False by (auto split: sub_frame.splits sum.splits if_splits option.splits prod.splits)
      then show ?thesis using o follow_moves_trans[OF o follow_count_moves] by blast
    qed
  qed (use run in auto)
qed

lemma follow_subscribe_moves:
  assumes "json_law P" "hex_law P" "compact_law P" "others_follow P root E" "follow_subscribe P root dir E peer s = (x, s')"
  shows "follow_moves P root s s'"
  using assms(5) follow_stream_moves[OF assms(1-4)]
  by (auto simp: follow_subscribe_def split: option.splits sum.splits)

lemma follow_dirs_moves:
  assumes "json_law P" "hex_law P" "compact_law P" "\<And>k. others_follow P root (E k)"
  shows "follow_dirs P root E peers order k was dirs s = (a, was', s') \<Longrightarrow> follow_moves P root s s'"
proof (induction dirs arbitrary: k was s)
  case (Cons dir dirs)
  obtain x s1 where x: "follow_subscribe P root dir (E k) (peers k dir) s = (x, s1)" by fastforce
  note m = follow_subscribe_moves[OF assms(1-4) x]
  have "s' = s1 \<or> (\<exists>l. follow_dirs P root E peers order (Suc k) l dirs s1 = (a, was', s'))"
    using Cons.prems x by (auto split: sum.splits follow_ended.splits)
  then show ?case using m Cons.IH follow_moves_trans by blast
qed simp

end
