(* ===== verification/Follow_Claims.thy ===== *)
theory Follow_Claims
  imports Follow_Rules
begin

text \<open>
  What a follower can become, and that a directory's subscription brings it to the newest policy.
\<close>

section \<open>Whatever is streamed\<close>

text \<open>
  C20: a follower is never led astray. After a round over the directories, whatever each of them
  streams and whatever the node's other tasks do within the same rule, the host's stored policy is the
  one it held or a newer one that the root signed, and every word it shows callers is one that a
  directory signed for a head the root signed and that lists that directory.
\<close>

theorem follower_never_led_astray:
  assumes "json_law P" "hex_law P" "compact_law P" "\<And>i. others_follow P root (E i)"
    "follow_run P root me k E peers was backoff s = (next, s')" "follow_ok P root s"
  shows "store_ahead P root (fo_home s) (fo_home s')
    \<and> (\<forall>h. store_read P (fo_home s') root = Inr (Some h) \<longrightarrow> sp_verify P (hd_signed h) root = Inr ())
    \<and> (\<forall>f \<in> set (fo_fresh s'). \<exists>head. head_verify P root head = Inr () \<and> fresh_verify P f head = Inr ()
         \<and> fr_directory f \<in> set (h_directories (sh_head head)))"
proof -
  obtain a w where d: "follow_dirs P root E peers (follow_order (case directories_of P k (fo_home s) me of Inr ds \<Rightarrow> ds | Inl _ \<Rightarrow> []) was)
      0 was (follow_order (case directories_of P k (fo_home s) me of Inr ds \<Rightarrow> ds | Inl _ \<Rightarrow> []) was) s = (a, w, s')"
    using assms(5) by (auto simp: follow_run_def Let_def split: prod.splits)
  have m: "follow_ok P root s'" "store_ahead P root (fo_home s) (fo_home s')"
    using follow_dirs_moves[OF assms(1-4) d] assms(6) by (simp_all add: follow_moves_def)
  moreover have "sp_verify P (hd_signed h) root = Inr ()" if "store_read P (fo_home s') root = Inr (Some h)" for h
    using store_read_verified[OF that] by (simp add: held_verify_Inr)
  moreover have "fr_directory f \<in> set (h_directories (sh_head head))" if "fresh_verify P f head = Inr ()" for f head
    using that by (simp add: fresh_verify_Inr)
  ultimately show ?thesis unfolding follow_ok_def word_of_root_def by blast
qed

text \<open>A round of the demonstration's host over its one directory, which streams an overlong frame.\<close>

definition demo_env :: follow_env where
  "demo_env = \<lparr> fe_gap = (\<lambda>_. 0), fe_clock = (\<lambda>_. 500), fe_others = (\<lambda>_ s. s) \<rparr>"

definition demo_following :: "home \<Rightarrow> fresh_set \<Rightarrow> following" where
  "demo_following ks ws = \<lparr> fo_home = ks, fo_fresh = ws, fo_directory = None,
     fo_stats = \<lparr> fs_frames = 0, fs_bytes = 0, fs_wholes = 0, fs_beats = 0, fs_denials = 0, fs_behind = 0 \<rparr> \<rparr>"

theorem follower_never_led_astray_witness:
  "\<exists>P k ks f s h. snd (follow_run P 1 2 k (\<lambda>_. demo_env) (\<lambda>_ _. Some (\<lambda>_. be32 4294967295 @ [1, 2])) None 1 (demo_following ks [f])) = s
     \<and> directories_of P k ks 2 = Inr [9] \<and> fo_fresh s = [f] \<and> store_read P (fo_home s) 1 = Inr (Some h)
     \<and> sp_verify P (hd_signed h) 1 = Inr ()
     \<and> (\<exists>head. head_verify P 1 head = Inr () \<and> fresh_verify P f head = Inr ())"
proof -
  let ?P = "table_prims []" and ?k = "\<lparr> kf_root_seed = Text (expose_seed_hex 1), kf_network = Absent \<rparr>"
  obtain s f ks where s: "sp_verify ?P s 1 = Inr ()" "h_directories (sh_head (sp_head s)) = [9]"
    "fresh_sign ?P 9 (sp_head s) 500 1400 = Inr f" "store_read ?P ks 1 = Inr (Some \<lparr> hd_signed = s, hd_policy = demo_policy \<rparr>)"
    using demo_directory_takes[of ?P] by auto
  from seed_one_plain have "network_root ?P ?k = Inr (Some 1)"
    using trim_plain seed_hex_roundtrip[of ?P 1] by (simp add: network_root_def read_root_identity_def read_file_def)
  then have dirs: "directories_of ?P ?k ks 2 = Inr [9]"
    using s(2,4) by (simp add: directories_of_def held_directories_def)
  have w: "fresh_verify ?P f (sp_head s) = Inr ()" using signed_word(1)[OF _ s(3)] by simp
  have "head_verify ?P 1 (sp_head s) = Inr ()" using s(1) by (simp add: sp_verify_Inr)
  with w have ok: "follow_ok ?P 1 (demo_following ks [f])"
    by (auto simp: follow_ok_def demo_following_def word_of_root_def)
  have others: "others_follow ?P 1 demo_env" by (simp add: others_follow_def demo_env_def)
  obtain nx s' where run: "follow_run ?P 1 2 ?k (\<lambda>_. demo_env) (\<lambda>_ _. Some (\<lambda>_. be32 4294967295 @ [1, 2])) None 1 (demo_following ks [f]) = (nx, s')"
    by fastforce
  note claim = follower_never_led_astray[OF table_prims_laws(1,2,5) others run ok]
  let ?s = "demo_following ks [f]"
  have "prefix_len (be32 4294967295 @ [1, 2]) = Some 4294967295" by (rule prefix_len_be32) simp
  then have rd: "read_sub_frame ?P (be32 4294967295 @ [1, 2]) = (Inl (Frame_too_long 4294967295), drop 4 (be32 4294967295 @ [1, 2]))"
    by (simp add: read_sub_frame_def read_capped_def max_directory_frame_def)
  have "follow_stream ?P 1 9 demo_env 0 False (be32 4294967295 @ [1, 2]) ?s = (Inl (Un_wire (Frame_too_long 4294967295)), ?s)"
    by (subst follow_stream.simps) (simp add: rd demo_env_def Let_def)
  then have "\<exists>e. follow_subscribe ?P 1 9 demo_env (Some (\<lambda>_. be32 4294967295 @ [1, 2])) ?s = (Inl e, ?s)"
    by (auto simp: follow_subscribe_def split: sum.split)
  then have "s' = ?s"
    using run dirs by (auto simp: follow_run_def follow_order_def demo_following_def Let_def)
  then show ?thesis using claim run dirs s(4) by (auto simp: demo_following_def intro!: exI[of _ ?P] exI[of _ ?k] exI[of _ ks] exI[of _ f])
qed

section \<open>A subscription that is served\<close>

text \<open>One directory's snapshots, in the order it held them, after what the host holds.\<close>

fun grows :: "held option \<Rightarrow> wake list \<Rightarrow> bool" where
  "grows h [] \<longleftrightarrow> True"
| "grows h (w # ws) \<longleftrightarrow> (case wk_snapshot w of
     None \<Rightarrow> grows h ws
   | Some c \<Rightarrow> (case h of
         None \<Rightarrow> 0 < held_version (cu_held c)
       | Some h \<Rightarrow> held_version h \<le> held_version (cu_held c) \<and> (held_version h = held_version (cu_held c) \<longrightarrow> h = cu_held c))
       \<and> grows (Some (cu_held c)) ws)"

fun last_held :: "held option \<Rightarrow> wake list \<Rightarrow> held option" where
  "last_held h [] = h"
| "last_held h (w # ws) = last_held (case wk_snapshot w of None \<Rightarrow> h | Some c \<Rightarrow> Some (cu_held c)) ws"

text \<open>What each wake finds is what the directory \<open>dir\<close> held, within date when it is taken.\<close>

definition wake_of :: "prims \<Rightarrow> node_id \<Rightarrow> node_id \<Rightarrow> node_id \<Rightarrow> follow_env \<Rightarrow> wake \<Rightarrow> bool" where
  "wake_of P root dir me E w \<longleftrightarrow> wake_serves P me w \<and> (\<forall>c. wk_snapshot w = Some c \<longrightarrow>
     (\<exists>d. dr_root d = root \<and> node_id P (dr_key d) = dir \<and> current_ok P d c)
     \<and> sp_typed (hd_signed (cu_held c)) \<and> (\<forall>f. cu_fresh c = Some f \<longrightarrow> fresh_ok f)
     \<and> (\<forall>n. held_check_fresh (cu_held c) (fe_clock E n) = Inr ()))"

definition quiet_env :: "follow_env \<Rightarrow> bool" where
  "quiet_env E \<longleftrightarrow> (\<forall>n. fe_gap E n \<le> 10) \<and> (\<forall>n s. fe_others E n s = s)"

definition said_stream :: "sub_said list \<Rightarrow> bytes" where
  "said_stream xs = concat (map (\<lambda>x. case x of Sub_sent _ b _ \<Rightarrow> b | Sub_denied _ \<Rightarrow> []) xs)"

text \<open>The words kept: none, or this directory's, for the policy held.\<close>

definition words_for :: "prims \<Rightarrow> node_id \<Rightarrow> held option \<Rightarrow> fresh_set \<Rightarrow> bool" where
  "words_for P dir h ws \<longleftrightarrow> ws = [] \<or> (\<exists>f h'. ws = [f] \<and> h = Some h' \<and> fr_directory f = dir
     \<and> fresh_verify P f (sp_head (hd_signed h')) = Inr ())"

lemma read_sub_frame_encoded:
  assumes "json_law P" "hex_law P" "sub_frame_ok f" "sub_frame_encode P f = Inr b"
  shows "read_sub_frame P (b @ rest) = (Inr (Some f), rest)"
proof -
  have e: "capped_encode P (j_sub_frame P) (\<lambda>_. Inr ()) max_directory_frame Bad_frame f = Inr b"
    using assms(4) by (simp add: sub_frame_encode_def encode_frame_capped)
  have l: "length b = 4 + length (canonical_bytes P (j_sub_frame P f))"
    "length (canonical_bytes P (j_sub_frame P f)) \<le> max_directory_frame"
    using sub_frames.capped_length[OF e] by auto
  have "sub_frames.small P f" unfolding sub_frames.small_def using assms l by simp
  from sub_frames.frames.roundtrip[OF this e] have d: "sub_frame_decode P b = Inr (Some (f, length b))"
    by (simp add: sub_frame_decode_def decode_frame_capped)
  have "\<exists>body. b = be32 (length body) @ body \<and> length body < 2 ^ 32"
    using e by (auto simp: capped_encode_def Let_def length_prefixed_Inr split: if_splits)
  then obtain body where b: "b = be32 (length body) @ body" "length body < 2 ^ 32" by blast
  then have "length b = 4 + length body" by (metis l(1) length_append length_be32)
  show ?thesis
    unfolding read_sub_frame_def
    by (rule read_capped_encoded[where decode = "sub_frame_decode P" and body = body])
      (use d b l \<open>length b = 4 + length body\<close> in auto)
qed

lemma fresh_verify_parts:
  assumes "fresh_verify P f head = Inr ()"
  shows "fresh_verify_signature P f = Inr ()" "fr_fabric f = h_fabric (sh_head head)" "fr_version f = h_version (sh_head head)"
    "fr_directory f \<in> set (h_directories (sh_head head))"
  using assms alg_only[of "fr_alg f"] by (auto simp: fresh_verify_Inr fresh_verify_signature_def verify_sig_Inr)

text \<open>The word of a snapshot taken by a host that holds its policy.\<close>

lemma vouch_keeps:
  assumes "store_read P (fo_home s) root = Inr (Some h)" "fresh_verify P f (sp_head (hd_signed h)) = Inr ()"
    "ho_writable (fo_home s)" "fo_fresh s = [] \<or> (\<exists>g. fo_fresh s = [g] \<and> fr_directory g = fr_directory f
       \<and> (fr_version g < held_version h \<or> fresh_verify P g (sp_head (hd_signed h)) = Inr ()))"
  shows "\<exists>s'. follow_vouch P root f now s = (Inr (), s') \<and> store_read P (fo_home s') root = Inr (Some h)
    \<and> ho_writable (fo_home s') \<and> fo_directory s' = fo_directory s \<and> words_for P (fr_directory f) (Some h) (fo_fresh s') \<and> fo_fresh s' \<noteq> []"
proof -
  have v: "fr_version f = held_version h" using fresh_verify_parts(3)[OF assms(2)] by (simp add: held_version_def sp_version_def)
  obtain b held' where i: "fs_insert f now (fo_fresh s) = (b, held')" by fastforce
  have "held' = [f] \<or> (held' = fo_fresh s \<and> (\<exists>g. fo_fresh s = [g] \<and> fr_directory g = fr_directory f \<and> fresh_rank now f \<le> fresh_rank now g))"
    using assms(4) i by (auto simp: fs_insert_def Let_def max_fresh_set_def split: if_splits)
  moreover have "\<not> fr_version g < held_version h" if "fresh_rank now f \<le> fresh_rank now g" for g
    using that v by (auto simp: fresh_rank_def)
  ultimately have w: "words_for P (fr_directory f) (Some h) held'" "held' \<noteq> []"
    using assms(2,4) by (auto simp: words_for_def)
  obtain r ks' where o: "fresh_offer P f (sp_head (hd_signed h)) now (fo_fresh s, fo_home s) = (r, held', ks')" "is_ok r"
    using i assms(2,3) by (cases b) (auto simp: fresh_offer_def fresh_verified_def)
  note e = fresh_offer_effect[OF o(1)]
  have "store_read P ks' root = Inr (Some h)" using assms(1) e(2) by (simp add: store_read_def)
  then show ?thesis
    using assms(1,3) v w o e by (auto simp: follow_vouch_def is_ok_iff and_then_def map_err_def)
qed

text \<open>What a host that follows \<open>dir\<close> and has no directory of its own has after a frame.\<close>

definition follows :: "prims \<Rightarrow> node_id \<Rightarrow> node_id \<Rightarrow> held option \<Rightarrow> following \<Rightarrow> bool" where
  "follows P root dir h s \<longleftrightarrow> store_read P (fo_home s) root = Inr h \<and> ho_writable (fo_home s)
     \<and> fo_directory s = None \<and> words_for P dir h (fo_fresh s)"

lemma follows_count [simp]: "follows P root dir h (follow_count P fr s) = follows P root dir h s"
  by (simp add: follows_def follow_count_def Let_def)

lemma follows_version: "follows P root dir h s \<Longrightarrow>
    follow_version P root (fo_home s) = (case h of None \<Rightarrow> 0 | Some h \<Rightarrow> held_version h)"
  by (auto simp: follows_def follow_version_def split: option.split)

lemma words_for_older:
  assumes "words_for P dir h ws" "case h of None \<Rightarrow> True | Some h \<Rightarrow> held_version h < held_version h'"
  shows "ws = [] \<or> (\<exists>g. ws = [g] \<and> fr_directory g = dir \<and> fr_version g < held_version h')"
  using assms fresh_verify_parts(3) by (fastforce simp: words_for_def held_version_def sp_version_def)

lemma take_policy:
  assumes laws: "json_law P" "hex_law P" "compact_law P" and typed: "sp_typed (hd_signed c)"
    and f: "follows P root dir h s" "case h of None \<Rightarrow> True | Some h \<Rightarrow> held_version h < held_version c"
    and c: "held_verify P (hd_signed c) root = Inr c" "held_check_fresh c now = Inr ()"
    and w: "fresh_verify P f (sp_head (hd_signed c)) = Inr ()" "fr_directory f = dir"
  shows "\<exists>s'. follow_take P root dir (Sf_Policy (hd_signed c) f) now s = (Inr (), s')
    \<and> follows P root dir (Some c) s' \<and> fo_fresh s' \<noteq> []"
proof -
  let ?p = "hd_signed c"
  have v: "sp_verify P ?p root = Inr ()" using c(1) by (simp add: held_verify_Inr)
  then have hv: "head_verify P root (sp_head ?p) = Inr ()" by (simp add: sp_verify_Inr)
  have ver: "fr_version f = held_version c" using fresh_verify_parts(3)[OF w(1)] by (simp add: held_version_def sp_version_def)
  obtain r ks where a: "adopt_if_newer P ?p root now (fo_home s) = (r, ks)" by fastforce
  have newer: "sp_is_newer_than ?p (hd_signed h')" if h': "store_read P (fo_home s) root = Inr (Some h')" for h'
  proof -
    have "h = Some h'" using h' f(1) by (simp add: follows_def)
    moreover have "head_verify P root (sp_head (hd_signed h')) = Inr ()"
      using store_read_verified[OF h'] by (simp add: held_verify_Inr sp_verify_Inr)
    ultimately show ?thesis using f(2) hv
      by (simp add: sp_is_newer_than_def head_is_newer_than_def head_verify_Inr held_version_def sp_version_def)
  qed
  have st: "store_read P (fo_home s) root = Inr None \<or> (\<exists>h'. store_read P (fo_home s) root = Inr (Some h') \<and> sp_is_newer_than ?p (hd_signed h'))"
    using f(1) newer by (cases h) (auto simp: follows_def)
  have yes: "r = Inr True"
    using adopt_yes[OF from_str_text(2)[OF laws typed], of root now "fo_home s"] v c(2) f(1) st a
    by (simp add: held_check_fresh_def follows_def)
  with adopt_effect[OF laws typed a] obtain p where "store_read P ks root = Inr (Some \<lparr> hd_signed = ?p, hd_policy = p \<rparr>)" by auto
  moreover from store_read_verified[OF this] c(1) have "\<lparr> hd_signed = ?p, hd_policy = p \<rparr> = c"
    by (cases c) (simp add: held_verify_Inr)
  ultimately have rd: "store_read P ks root = Inr (Some c)" by simp
  have wr: "ho_writable ks" using a f(1)
    by (auto simp: adopt_if_newer_def follows_def Let_def split: sum.splits if_splits)
  let ?s = "s \<lparr> fo_home := ks \<rparr>"
  have "fo_fresh ?s = [] \<or> (\<exists>g. fo_fresh ?s = [g] \<and> fr_directory g = fr_directory f
       \<and> (fr_version g < held_version c \<or> fresh_verify P g (sp_head ?p) = Inr ()))"
    using words_for_older[OF _ f(2), of P dir "fo_fresh s"] f(1) w(2) by (auto simp: follows_def)
  from vouch_keeps[of P ?s root c f now, OF _ w(1) _ this] rd wr f(1) obtain s' where s':
    "follow_vouch P root f now ?s = (Inr (), s')" "follows P root dir (Some c) s'" "fo_fresh s' \<noteq> []"
    using w(2) by (auto simp: follows_def)
  have "\<not> fr_version f < follow_version P root (fo_home s)"
    using follows_version[OF f(1)] f(2) ver by (auto split: option.splits)
  then show ?thesis
    using hv w(1) f(1) a yes s' by (auto simp: follow_take_def frame_stands_def follow_adopt_def follows_def Let_def)
qed

lemma take_beat:
  assumes f: "follows P root dir (Some c) s" and c: "held_verify P (hd_signed c) root = Inr c"
    and w: "fresh_verify P f (sp_head (hd_signed c)) = Inr ()" "fr_directory f = dir"
  shows "\<exists>s'. follow_take P root dir (Sf_Fresh f) now s = (Inr (), s') \<and> follows P root dir (Some c) s' \<and> fo_fresh s' \<noteq> []"
proof -
  note parts = fresh_verify_parts[OF w(1)]
  have "fr_fabric f = root" using c parts(2) by (simp add: held_verify_Inr sp_verify_Inr head_verify_Inr)
  moreover have "fr_version f = held_version c" using parts(3) by (simp add: held_version_def sp_version_def)
  moreover have "fo_fresh s = [] \<or> (\<exists>g. fo_fresh s = [g] \<and> fr_directory g = fr_directory f
       \<and> (fr_version g < held_version c \<or> fresh_verify P g (sp_head (hd_signed c)) = Inr ()))"
    using f w(2) by (auto simp: follows_def words_for_def)
  then obtain s' where "follow_vouch P root f now s = (Inr (), s')" "follows P root dir (Some c) s'" "fo_fresh s' \<noteq> []"
    using vouch_keeps[of P s root c f now, OF _ w(1)] f w(2) by (auto simp: follows_def)
  ultimately show ?thesis
    using parts(1) w(2) follows_version[OF f] by (auto simp: follow_take_def frame_stands_def Let_def)
qed

lemma stream_step:
  assumes "quiet_env E" "read_sub_frame P r = (Inr (Some frame), rest)" "frame = Sf_Policy p f \<or> frame = Sf_Fresh f"
    "follow_take P root dir frame (fe_clock E n) (follow_count P frame s) = (Inr (), s')"
    "store_read P (fo_home s') root = Inr (Some h)" "dir \<in> set (held_directories h)"
  shows "follow_stream P root dir E n answered r s = follow_stream P root dir E (Suc n) True rest s'"
proof -
  have "\<not> fe_gap E n > follow_silence P root (fo_home s)"
    using assms(1) by (simp add: quiet_env_def follow_silence_def not_less trans_le_add2)
  then show ?thesis
    using assms(1,2,4-) assms(3) by (subst follow_stream.simps) (auto simp: quiet_env_def Let_def)
qed

lemma stream_served:
  assumes laws: "json_law P" "hex_law P" "compact_law P" and E: "quiet_env E"
  shows "\<forall>w \<in> set ws. wake_of P root dir me E w \<Longrightarrow> grows h ws \<Longrightarrow> follows P root dir h s
     \<Longrightarrow> answered \<or> last_held None ws \<noteq> None \<Longrightarrow> v = (case h of None \<Rightarrow> 0 | Some h \<Rightarrow> held_version h)
     \<Longrightarrow> \<exists>s'. follow_stream P root dir E n answered (said_stream (sub_serve P me v ws)) s = (Inr Fl_closed, s')
           \<and> follows P root dir (last_held h ws) s' \<and> (fo_fresh s \<noteq> [] \<or> last_held None ws \<noteq> None \<longrightarrow> fo_fresh s' \<noteq> [])"
proof (induction ws arbitrary: h s n answered v)
  case Nil
  have "\<not> fe_gap E n > follow_silence P root (fo_home s)"
    using E by (simp add: quiet_env_def follow_silence_def not_less trans_le_add2)
  then show ?case
    using Nil E by (subst follow_stream.simps) (simp add: said_stream_def read_sub_frame_def read_capped_def quiet_env_def)
next
  case (Cons w ws)
  have ws: "\<forall>w \<in> set ws. wake_of P root dir me E w" using Cons.prems(1) by simp
  show ?case
  proof (cases "wk_snapshot w")
    case None
    then show ?thesis using Cons.IH[OF ws _ Cons.prems(3)] Cons.prems(2,4,5) by simp
  next
    case (Some c)
    have wo: "wake_of P root dir me E w" using Cons.prems(1) by simp
    then obtain f d where f: "cu_fresh c = Some f" "\<not> bans_node (hd_policy (cu_held c)) me" "dir_holds_whole (wk_dir w) me"
        "is_ok (sub_frame_encode P (Sf_Policy (hd_signed (cu_held c)) f))" "is_ok (sub_frame_encode P (Sf_Fresh f))"
      and d: "dr_root d = root" "node_id P (dr_key d) = dir" "current_ok P d c"
      and t: "sp_typed (hd_signed (cu_held c))" "fresh_ok f" "held_check_fresh (cu_held c) (fe_clock E n) = Inr ()"
      using Some unfolding wake_of_def wake_serves_def by blast
    have k: "held_verify P (hd_signed (cu_held c)) root = Inr (cu_held c)" "fresh_verify P f (sp_head (hd_signed (cu_held c))) = Inr ()"
      "fr_directory f = dir" "frames_ok P c"
      using d f(1) by (auto simp: current_ok_def)
    have g: "grows (Some (cu_held c)) ws" "case h of None \<Rightarrow> 0 < held_version (cu_held c) | Some h \<Rightarrow>
        held_version h \<le> held_version (cu_held c) \<and> (held_version h = held_version (cu_held c) \<longrightarrow> h = cu_held c)"
      using Cons.prems(2) Some by auto
    obtain b to where nx: "next_frame P c v = Inr (Some (b, to))"
      using f by (cases "cu_policy_frame c"; cases "cu_fresh_frame c"; cases "v < held_version (cu_held c)")
        (auto simp: next_frame_def current_frame_def Let_def is_ok_iff)
    note nf = next_frame_Some[OF nx k(4)]
    have run: "sub_serve P me v (w # ws) = Sub_sent c b to # sub_serve P me to ws" using Some f nx by simp
    have to: "to = held_version (cu_held c)"
      using nf g(2) Cons.prems(5) by (auto split: option.splits if_splits)
    let ?rest = "said_stream (sub_serve P me to ws)"
    have "\<exists>frame s'. read_sub_frame P (b @ ?rest) = (Inr (Some frame), ?rest)
        \<and> (frame = Sf_Policy (hd_signed (cu_held c)) f \<or> frame = Sf_Fresh f)
        \<and> follow_take P root dir frame (fe_clock E n) (follow_count P frame s) = (Inr (), s')
        \<and> follows P root dir (Some (cu_held c)) s' \<and> fo_fresh s' \<noteq> []"
    proof (cases "v < held_version (cu_held c)")
      case True
      then have "sub_frame_encode P (Sf_Policy (hd_signed (cu_held c)) f) = Inr b" using nf f(1) by simp
      from read_sub_frame_encoded[OF laws(1,2) _ this] t(1,2)
      have rd: "read_sub_frame P (b @ ?rest) = (Inr (Some (Sf_Policy (hd_signed (cu_held c)) f)), ?rest)" by simp
      have "case h of None \<Rightarrow> True | Some h \<Rightarrow> held_version h < held_version (cu_held c)"
        using True Cons.prems(5) by (auto split: option.splits)
      from take_policy[OF laws t(1) _ this k(1) t(3) k(2,3)] rd Cons.prems(3) show ?thesis by (metis follows_count)
    next
      case False
      then have "sub_frame_encode P (Sf_Fresh f) = Inr b" using nf f(1) by simp
      from read_sub_frame_encoded[OF laws(1,2) _ this] t(2)
      have rd: "read_sub_frame P (b @ ?rest) = (Inr (Some (Sf_Fresh f)), ?rest)" by simp
      have "h = Some (cu_held c)" using False g(2) Cons.prems(5) by (auto split: option.splits)
      with take_beat[OF _ k(1-3)] rd Cons.prems(3) show ?thesis by (metis follows_count)
    qed
    then obtain frame s' where s': "read_sub_frame P (b @ ?rest) = (Inr (Some frame), ?rest)"
      "frame = Sf_Policy (hd_signed (cu_held c)) f \<or> frame = Sf_Fresh f"
      "follow_take P root dir frame (fe_clock E n) (follow_count P frame s) = (Inr (), s')"
      "follows P root dir (Some (cu_held c)) s'" "fo_fresh s' \<noteq> []" by blast
    have "dir \<in> set (held_directories (cu_held c))"
      using fresh_verify_parts(4)[OF k(2)] k(3) by (simp add: held_directories_def)
    from stream_step[OF E s'(1-3) _ this, of answered] s'(4)
    have step: "follow_stream P root dir E n answered (b @ ?rest) s = follow_stream P root dir E (Suc n) True ?rest s'"
      by (simp add: follows_def)
    from Cons.IH[OF ws g(1) s'(4), of True to "Suc n"] to obtain s2 where
      "follow_stream P root dir E (Suc n) True ?rest s' = (Inr Fl_closed, s2)" "follows P root dir (last_held (Some (cu_held c)) ws) s2"
      "fo_fresh s2 \<noteq> []" using s'(5) by auto
    then show ?thesis using run step Some by (simp add: said_stream_def)
  qed
qed



end
