(* ===== verification/Caller_Mailbox.thy ===== *)
theory Caller_Mailbox
  imports Push_Queue
begin

text \<open>
  The caller's mailbox and how it prints a message (\<open>wires/caller/inbox.rs\<close>, \<open>one_line\<close> of
  \<open>wires/caller/mod.rs\<close>). A directory of files named \<open><id>.json\<close> is a map from the id to what the
  file holds; a rename is atomic, and fails when the file is gone. What other processes do between the
  renames of a reader is an input.
\<close>

definition max_unread :: nat where "max_unread = 256"
definition max_seen :: nat where "max_seen = 1024"

section \<open>Files\<close>

type_synonym message_dir = "(push_id, disk_file) btree_map"

record mailbox =
  mb_new :: message_dir
  mb_read :: message_dir
  mb_notes :: "(string, disk_file) btree_map"
  mb_writable :: bool

text \<open>What \<open>store\<close> did: the ids to acknowledge, how many were new, how many were evicted.\<close>

record stored_batch =
  sb_ids :: "push_id list"
  sb_fresh :: nat
  sb_evicted :: nat

datatype mailbox_error = Mailbox_io

definition file_message :: "prims \<Rightarrow> disk_file \<Rightarrow> push_message option" where
  "file_message P f = (case f of
     Text t \<Rightarrow> (case from_str P (d_push_message P) t of Inr m \<Rightarrow> Some m | Inl _ \<Rightarrow> None)
   | _ \<Rightarrow> None)"

definition message_file :: "prims \<Rightarrow> push_message \<Rightarrow> disk_file" where
  "message_file P m = Text (json_text P (j_push_message P m))"

text \<open>Unreadable files are skipped.\<close>

definition load_dir :: "prims \<Rightarrow> message_dir \<Rightarrow> push_message list" where
  "load_dir P d = sort_key (\<lambda>m. (pm_at_ms m, pm_id m)) (List.map_filter (\<lambda>(_, f). file_message P f) d)"

definition mb_holds :: "mailbox \<Rightarrow> push_id \<Rightarrow> bool" where
  "mb_holds mb i \<longleftrightarrow> bm_has (mb_new mb) i \<or> bm_has (mb_read mb) i"

definition has_unread :: "mailbox \<Rightarrow> bool" where
  "has_unread mb \<longleftrightarrow> mb_new mb \<noteq> []"

text \<open>\<open>rename\<close> of a message from \<open>new/\<close> to \<open>read/\<close>.\<close>

definition mark_read :: "push_id \<Rightarrow> mailbox \<Rightarrow> bool \<times> mailbox" where
  "mark_read i mb = (case bm_get (mb_new mb) i of
     Some f \<Rightarrow> if mb_writable mb
       then (True, mb \<lparr> mb_new := bm_del i (mb_new mb), mb_read := bm_put i f (mb_read mb) \<rparr>)
       else (False, mb)
   | None \<Rightarrow> (False, mb))"

section \<open>Storing\<close>

definition evictions :: "(i64 \<times> push_id) list \<Rightarrow> nat \<Rightarrow> push_id list" where
  "evictions unread cap = map snd (take (length unread - cap) (sort unread))"

fun store_each :: "prims \<Rightarrow> push_message list \<Rightarrow> stored_batch \<Rightarrow> mailbox \<Rightarrow> (mailbox_error + stored_batch) \<times> mailbox" where
  "store_each P [] out mb = (Inr out, mb)"
| "store_each P (m # ms) out mb =
     (let out = out \<lparr> sb_ids := sb_ids out @ [pm_id m] \<rparr> in
      if mb_holds mb (pm_id m) then store_each P ms out mb
      else if \<not> mb_writable mb then (Inl Mailbox_io, mb)
      else store_each P ms (out \<lparr> sb_fresh := sb_fresh out + 1 \<rparr>)
             (mb \<lparr> mb_new := bm_put (pm_id m) (message_file P m) (mb_new mb) \<rparr>))"

fun evict_each :: "push_id list \<Rightarrow> nat \<Rightarrow> mailbox \<Rightarrow> nat \<times> mailbox" where
  "evict_each [] n mb = (n, mb)"
| "evict_each (i # is) n mb = (case mark_read i mb of (ok, mb) \<Rightarrow> evict_each is (if ok then n + 1 else n) mb)"

fun dec_digits :: "nat \<Rightarrow> string" where
  "dec_digits n = (if n < 10 then [] else dec_digits (n div 10)) @ [''0123456789'' ! (n mod 10)]"

declare dec_digits.simps [simp del]

definition int_digits :: "int \<Rightarrow> string" where
  "int_digits n = (if n < 0 then ''-'' else '''') @ dec_digits (nat \<bar>n\<bar>)"

definition eviction_note :: "nat \<Rightarrow> string" where
  "eviction_note n = dec_digits n @ '' unread message(s) evicted: the mailbox keeps at most ''
     @ dec_digits max_unread @ '' unread (oldest first)''"

text \<open>\<open>at\<close> is the clock and the random id that name a note's file.\<close>

definition note_name :: "prims \<Rightarrow> i64 \<times> push_id \<Rightarrow> string" where
  "note_name P at = int_digits (fst at) @ ''-'' @ push_id_hex P (snd at) @ ''.txt''"

definition mailbox_store :: "prims \<Rightarrow> i64 \<times> push_id \<Rightarrow> push_message list \<Rightarrow> mailbox
    \<Rightarrow> (mailbox_error + stored_batch) \<times> mailbox" where
  "mailbox_store P at ms mb = (case store_each P ms \<lparr> sb_ids = [], sb_fresh = 0, sb_evicted = 0 \<rparr> mb of
     (Inl e, mb) \<Rightarrow> (Inl e, mb)
   | (Inr out, mb) \<Rightarrow>
       if sb_fresh out = 0 then (Inr out, mb)
       else (case evict_each (evictions (map (\<lambda>m. (pm_at_ms m, pm_id m)) (load_dir P (mb_new mb))) max_unread) 0 mb of
         (n, mb) \<Rightarrow>
           let out = out \<lparr> sb_evicted := n \<rparr> in
           if n = 0 then (Inr out, mb)
           else if \<not> mb_writable mb then (Inl Mailbox_io, mb)
           else (Inr out, mb \<lparr> mb_notes := bm_put (note_name P at) (Text (eviction_note n)) (mb_notes mb) \<rparr>)))"

section \<open>Reading\<close>

fun take_each :: "(nat \<Rightarrow> mailbox \<Rightarrow> mailbox) \<Rightarrow> nat \<Rightarrow> push_message list \<Rightarrow> mailbox \<Rightarrow> push_message list \<times> mailbox" where
  "take_each others n [] mb = ([], others n mb)"
| "take_each others n (m # ms) mb = (case mark_read (pm_id m) (others n mb) of
     (ok, mb) \<Rightarrow> (case take_each others (Suc n) ms mb of
       (taken, mb) \<Rightarrow> (if ok then m # taken else taken, mb)))"

text \<open>\<open>remove_file\<close> is best effort.\<close>

definition forget_read :: "prims \<Rightarrow> mailbox \<Rightarrow> mailbox" where
  "forget_read P mb =
     (let seen = load_dir P (mb_read mb); gone = map pm_id (take (length seen - max_seen) seen) in
      if length seen > max_seen \<and> mb_writable mb then mb \<lparr> mb_read := fold bm_del gone (mb_read mb) \<rparr> else mb)"

definition take_unread :: "prims \<Rightarrow> (nat \<Rightarrow> mailbox \<Rightarrow> mailbox) \<Rightarrow> mailbox \<Rightarrow> push_message list \<times> mailbox" where
  "take_unread P others mb = (case take_each others 0 (load_dir P (mb_new mb)) mb of
     (taken, mb) \<Rightarrow> (taken, forget_read P mb))"

definition take_notes :: "mailbox \<Rightarrow> string list \<times> mailbox" where
  "take_notes mb =
     (if mb_writable mb
      then (List.map_filter (\<lambda>(_, f). case f of Text t \<Rightarrow> Some t | _ \<Rightarrow> None) (mb_notes mb),
            mb \<lparr> mb_notes := bm_retain (\<lambda>_ f. case f of Text _ \<Rightarrow> False | _ \<Rightarrow> True) (mb_notes mb) \<rparr>)
      else ([], mb))"

definition acceptable :: "push_message list \<Rightarrow> node_id \<Rightarrow> node_id \<Rightarrow> i64 \<Rightarrow> push_message list" where
  "acceptable ms peer me now_ms = filter (\<lambda>m. pm_from m = peer \<and> pm_to m = me \<and> \<not> is_expired m now_ms) ms"

section \<open>Printing\<close>

text \<open>\<open>char::escape_default\<close> of a control character, given its code point.\<close>

definition escape_control :: "nat \<Rightarrow> string" where
  "escape_control n =
     (if n = 9 then [CHR 0x5C, CHR ''t''] else if n = 10 then [CHR 0x5C, CHR ''n'']
      else if n = 13 then [CHR 0x5C, CHR ''r'']
      else [CHR 0x5C, CHR ''u'', CHR ''{''] @ (if n < 16 then [] else [''0123456789abcdef'' ! (n div 16)])
           @ [''0123456789abcdef'' ! (n mod 16), CHR ''}''])"

definition ascii_control :: "char \<Rightarrow> bool" where
  "ascii_control c \<longleftrightarrow> char_between 0 31 c \<or> of_char c = (127 :: nat)"

text \<open>U+0080 to U+009F are the two bytes 194 and their code point.\<close>

fun one_line :: "string \<Rightarrow> string" where
  "one_line [] = []"
| "one_line [c] = (if ascii_control c then escape_control (of_char c) else [c])"
| "one_line (c # d # s) =
     (if ascii_control c then escape_control (of_char c) @ one_line (d # s)
      else if of_char c = (194 :: nat) \<and> char_between 128 159 d then escape_control (of_char d) @ one_line s
      else c # one_line (d # s))"

definition civil :: "int \<Rightarrow> int \<times> int \<times> int" where
  "civil days =
     (let z = days + 719468; era = z div 146097; doe = z mod 146097;
          yoe = (doe - doe div 1460 + doe div 36524 - doe div 146096) div 365;
          y = yoe + era * 400; doy = doe - (365 * yoe + yoe div 4 - yoe div 100);
          mp = (5 * doy + 2) div 153; d = doy - (153 * mp + 2) div 5 + 1;
          m = (if mp < 10 then mp + 3 else mp - 9)
      in (if m \<le> 2 then y + 1 else y, m, d))"

text \<open>\<open>{:0w}\<close>: the sign counts.\<close>

definition padded :: "nat \<Rightarrow> int \<Rightarrow> string" where
  "padded w n = (let s = (if n < 0 then ''-'' else ''''); ds = dec_digits (nat \<bar>n\<bar>)
     in s @ replicate (w - length s - length ds) (CHR ''0'') @ ds)"

definition utc :: "i64 \<Rightarrow> string" where
  "utc ms =
     (let secs = ms div 1000; days = secs div 86400; rem = secs mod 86400 in
      case civil days of (y, m, d) \<Rightarrow>
        padded 4 y @ ''-'' @ padded 2 m @ ''-'' @ padded 2 d @ '' '' @ padded 2 (rem div 3600) @ '':''
        @ padded 2 (rem mod 3600 div 60) @ '':'' @ padded 2 (rem mod 60) @ ''Z'')"

definition trim_end :: "string \<Rightarrow> string" where
  "trim_end s = rev (trim_front (map rev white_space) (rev s))"

definition inbox_line :: "prims \<Rightarrow> push_message \<Rightarrow> string" where
  "inbox_line P m = trim_end (utc (pm_at_ms m) @ ''  from host '' @ id_short P (pm_from m) @ '' (verified)  ''
     @ one_line (pm_subject m) @ ''  '' @ one_line (pm_body m))"

definition json_line :: "prims \<Rightarrow> push_message \<Rightarrow> json" where
  "json_line P m = obj [
     (''id'', Some (j_push_id P (pm_id m))), (''from'', Some (j_id P (pm_from m))),
     (''from_verified'', Some (JBool True)), (''subject'', Some (JStr (pm_subject m))),
     (''body'', Some (JStr (pm_body m))), (''at_ms'', Some (JInt (pm_at_ms m)))]"

end
