(* ===== verification/Caller_Inbox.thy ===== *)
theory Caller_Inbox
  imports Caller_Mailbox Caller_Calls
begin

text \<open>
  \<open>wires inbox\<close> (\<open>wires/caller/inbox.rs\<close>): the receiver of a waiting caller, the fetch from a host,
  which is told nothing before it is vouched for, and the loop around them. What a connection brings is
  a host's answer to the bytes it was sent; a read that times out finds nothing there. The tasks of a
  round are taken one after another, in the order they finish.
\<close>

definition exit_timeout :: "32 word" where "exit_timeout = 124"
definition long_poll :: nat where "long_poll = 25000"

definition read_inbox_within :: "prims \<Rightarrow> nat \<Rightarrow> bytes \<Rightarrow> (wire_error + inbox_frame option) \<times> bytes" where
  "read_inbox_within P cap r = (case prefix_len r of
     None \<Rightarrow> (Inr None, [])
   | Some n \<Rightarrow> if n > max_inbox_frame then (Inl (Frame_bad (Invalid_push Inbox_frame_large)), drop 4 r)
       else read_capped cap (inbox_decode P) r)"

definition read_inbox :: "prims \<Rightarrow> bytes \<Rightarrow> (wire_error + inbox_frame option) \<times> bytes" where
  "read_inbox P = read_inbox_within P max_inbox_frame"

section \<open>The receiver\<close>

record inbox_receiver =
  ir_me :: node_id
  ir_root :: node_id

datatype not_a_host = No_readable_view view_error | Holds_no_view | Not_a_host state_version

definition inbox_admit :: "prims \<Rightarrow> inbox_receiver \<Rightarrow> caller_home \<Rightarrow> node_id \<Rightarrow> not_a_host + unit" where
  "inbox_admit P rc ks peer =
     and_then (map_err No_readable_view (view_read P (ir_root rc) ks)) (\<lambda>held.
     and_then (ok_or Holds_no_view held) (\<lambda>held.
       if list_ex (\<lambda>e. peer \<in> set (sv_hosts (se_service e))) (vw_entries (hv_view held)) then Inr ()
       else Inl (Not_a_host (hv_version held))))"

datatype receive_error = Spoke_out_of_turn | Receive_wire wire_error | Receive_store mailbox_error

text \<open>One delivery: what the peer is told, and the mailbox after it. Nothing is said to a stream that
  does not parse.\<close>

definition inbox_serve :: "prims \<Rightarrow> inbox_receiver \<Rightarrow> caller_home \<Rightarrow> node_id \<Rightarrow> bytes \<Rightarrow> i64 \<Rightarrow> i64 \<times> push_id \<Rightarrow> mailbox
    \<Rightarrow> (receive_error + unit) \<times> inbox_frame list \<times> mailbox" where
  "inbox_serve P rc ks peer r now_ms at mb =
     (let deny = (\<lambda>reason. [In_Denied (truncate_reason reason)]) in
      case read_inbox_within P max_inbox_hello r of
        (Inl e, _) \<Rightarrow> (Inl (Receive_wire e), [], mb)
      | (Inr (Some (In_Hello _)), r) \<Rightarrow> (case inbox_admit P rc ks peer of
            Inl _ \<Rightarrow> (Inr (), deny not_admitted_text, mb)
          | Inr _ \<Rightarrow> (case read_inbox P r of
              (Inl e, _) \<Rightarrow> (Inl (Receive_wire e), [], mb)
            | (Inr (Some (In_Deliver ms)), _) \<Rightarrow> (case mailbox_store P at (acceptable ms peer (ir_me rc) now_ms) mb of
                (Inl e, mb) \<Rightarrow> (Inl (Receive_store e), [], mb)
              | (Inr out, mb) \<Rightarrow> (Inr (), [In_Ack (sb_ids out)], mb))
            | (Inr _, _) \<Rightarrow> (Inl Spoke_out_of_turn, deny ''expected deliver'', mb)))
      | (Inr _, _) \<Rightarrow> (Inl Spoke_out_of_turn, deny ''expected hello'', mb))"

section \<open>One fetch\<close>

definition inbox_bytes :: "prims \<Rightarrow> inbox_frame list \<Rightarrow> bytes" where
  "inbox_bytes P fs = concat (map (\<lambda>f. case inbox_encode P f of Inr b \<Rightarrow> b | Inl _ \<Rightarrow> []) fs)"

text \<open>\<open>write_frame\<close>s in turn, up to the first that fails; \<open>i\<close> counts the writes of the connection.\<close>

fun inbox_send :: "prims \<Rightarrow> host_link \<Rightarrow> nat \<Rightarrow> inbox_frame list \<Rightarrow> inbox_frame list \<times> bool" where
  "inbox_send P l i [] = ([], True)"
| "inbox_send P l i (f # fs) = (if hl_up l i \<and> is_ok (inbox_encode P f)
     then (case inbox_send P l (Suc i) fs of (sent, ok) \<Rightarrow> (f # sent, ok)) else ([], False))"

datatype fetched = Fetched_messages nat | Fetched_refused string | Fetched_unvouched unvouched_why

datatype inbox_fetch_error =
    Ft_timed_out
  | Ft_no_answer
  | Ft_unsent
  | Ft_no_proof "wire_error option"
  | Ft_check check_failure
  | Ft_out_of_turn
  | Ft_wire wire_error
  | Ft_store mailbox_error

text \<open>Up to the host's answer: what was sent, the unread rest of what the host said, and whether to go on.\<close>

definition fetch_speak :: "prims \<Rightarrow> node_id \<Rightarrow> inbox_frame \<Rightarrow> nat \<Rightarrow> host_link \<Rightarrow> vouching \<times> caller_state
    \<Rightarrow> ((inbox_fetch_error + fetched) + nat) \<times> inbox_frame list \<times> vouching \<times> caller_state" where
  "fetch_speak P host hello wait l = (\<lambda>(v, st).
     let asks = [hello, In_Fetch (word_of_nat wait)]; at_once = vouch_ready P v host (hl_clock l 0) in
     case inbox_send P l 0 (if at_once then asks else [In_Open]) of
       (sent, False) \<Rightarrow> (Inl (Inl Ft_unsent), sent, v, st)
     | (sent, True) \<Rightarrow>
         let heard = hl_says l (inbox_bytes P sent) False;
             failed = (\<lambda>e. if at_once then Inl (Ft_no_proof e) else Inr (Fetched_unvouched (Uv_no_proof e)))
         in case read_inbox_within P max_inbox_hello heard of
           (Inr (Some (In_Proof pf)), rest) \<Rightarrow>
             let read = length heard - length rest in
             (case vouch_check P host pf (hl_clock l 1) (\<not> at_once) (v, st) of
                (Inl (Host_unvouched why), v, st) \<Rightarrow> (Inl (Inr (Fetched_unvouched why)), sent, v, st)
              | (Inl e, v, st) \<Rightarrow> (Inl (Inl (Ft_check e)), sent, v, st)
              | (Inr _, v, st) \<Rightarrow>
                  if at_once then (Inr read, sent, v, st)
                  else (case inbox_send P l 1 asks of
                      (sent', ok) \<Rightarrow> (if ok then Inr read else Inl (Inl Ft_unsent), sent @ sent', v, st)))
         | (Inr (Some (In_Denied reason)), rest) \<Rightarrow> (Inl (Inr (Fetched_unvouched (Uv_refused reason))), sent, v, st)
         | (Inr _, rest) \<Rightarrow> (Inl (failed None), sent, v, st)
         | (Inl e, rest) \<Rightarrow> (Inl (failed (Some e)), sent, v, st))"

text \<open>What one connection leaves: the answer or that there is more (\<open>Inr\<close>), and all it was sent.\<close>

definition fetch_once :: "prims \<Rightarrow> node_id \<Rightarrow> node_id \<Rightarrow> inbox_frame \<Rightarrow> nat \<Rightarrow> i64 \<Rightarrow> i64 \<times> push_id \<Rightarrow> nat \<Rightarrow> host_link
    \<Rightarrow> (vouching \<times> caller_state) \<times> mailbox
    \<Rightarrow> ((inbox_fetch_error + fetched) + nat) \<times> inbox_frame list \<times> (vouching \<times> caller_state) \<times> mailbox" where
  "fetch_once P me host hello wait now_ms at sofar l = (\<lambda>(vs, mb). case fetch_speak P host hello wait l vs of
     (Inl x, sent, v, st) \<Rightarrow> (Inl x, sent, (v, st), mb)
   | (Inr read, sent, v, st) \<Rightarrow> (case read_inbox P (drop read (hl_says l (inbox_bytes P sent) False)) of
       (Inl e, _) \<Rightarrow> (Inl (Inl (Ft_wire e)), sent, (v, st), mb)
     | (Inr (Some (In_Deliver ms)), _) \<Rightarrow> (case mailbox_store P at (acceptable ms host me now_ms) mb of
         (Inl e, mb) \<Rightarrow> (Inl (Inl (Ft_store e)), sent, (v, st), mb)
       | (Inr out, mb) \<Rightarrow>
           if \<not> snd (inbox_send P l 3 [In_Ack (sb_ids out)]) then (Inl (Inl Ft_unsent), sent, (v, st), mb)
           else (if length ms < max_batch then Inl (Inr (Fetched_messages (sofar + sb_fresh out)))
                 else Inr (sofar + sb_fresh out),
                 sent @ [In_Ack (sb_ids out)], (v, st), mb))
     | (Inr (Some (In_Denied reason)), _) \<Rightarrow> (Inl (Inr (Fetched_refused reason)), sent, (v, st), mb)
     | (Inr _, _) \<Rightarrow> (Inl (Inl Ft_out_of_turn), sent, (v, st), mb)))"

text \<open>The connections a fetch has time for, one for each batch; \<open>None\<close> did not answer the dial.\<close>

record fetch_conn =
  fk_link :: "host_link option"
  fk_now_ms :: i64
  fk_note :: "i64 \<times> push_id"

fun inbox_fetch_from :: "prims \<Rightarrow> node_id \<Rightarrow> node_id \<Rightarrow> inbox_frame \<Rightarrow> nat \<Rightarrow> nat \<Rightarrow> fetch_conn list
    \<Rightarrow> (vouching \<times> caller_state) \<times> mailbox
    \<Rightarrow> (inbox_fetch_error + fetched) \<times> inbox_frame list list \<times> (vouching \<times> caller_state) \<times> mailbox" where
  "inbox_fetch_from P me host hello wait sofar [] s = (Inl Ft_timed_out, [], s)"
| "inbox_fetch_from P me host hello wait sofar (c # cs) s = (case fk_link c of
     None \<Rightarrow> (Inl Ft_no_answer, [], s)
   | Some l \<Rightarrow> (case fetch_once P me host hello wait (fk_now_ms c) (fk_note c) sofar l s of
       (Inl x, sent, s) \<Rightarrow> (x, [sent], s)
     | (Inr sofar, sent, s) \<Rightarrow> (case inbox_fetch_from P me host hello 0 sofar cs s of
         (x, told, s) \<Rightarrow> (x, sent # told, s))))"

section \<open>Every host\<close>

text \<open>Each task has a vouching of its own; a failure to reach a host is left out.\<close>

fun fetch_all :: "prims \<Rightarrow> node_id \<Rightarrow> inbox_frame \<Rightarrow> nat \<Rightarrow> (node_id \<Rightarrow> fetch_conn list) \<Rightarrow> vouching \<Rightarrow> node_id list
    \<Rightarrow> caller_state \<times> mailbox
    \<Rightarrow> (node_id \<times> fetched) list \<times> (node_id \<times> inbox_frame list) list \<times> caller_state \<times> mailbox" where
  "fetch_all P me hello wait conns v [] (st, mb) = ([], [], st, mb)"
| "fetch_all P me hello wait conns v (h # hs) (st, mb) =
     (case inbox_fetch_from P me h hello wait 0 (conns h) ((v, st), mb) of
       (x, told, (_, st), mb) \<Rightarrow> (case fetch_all P me hello wait conns v hs (st, mb) of
         (xs, tolds, st, mb) \<Rightarrow>
           ((case x of Inr f \<Rightarrow> [(h, f)] | Inl _ \<Rightarrow> []) @ xs, map (Pair h) told @ tolds, st, mb)))"

record inbox_fetcher =
  if_me :: node_id
  if_root :: node_id
  if_token :: id_token

definition inbox_hello :: "id_token \<Rightarrow> inbox_frame" where
  "inbox_hello tok = In_Hello (Some tok)"

definition inbox_targets :: "prims \<Rightarrow> inbox_fetcher \<Rightarrow> i64 \<Rightarrow> refresher \<Rightarrow> caller_state \<Rightarrow> (node_id list \<times> vouching) option" where
  "inbox_targets P fe now refresh st = (case view_read P (if_root fe) (cs_home st) of
     Inr (Some held) \<Rightarrow>
       if is_ok (head_check_fresh (vw_head (hv_view held)) now)
       then Some (filter (\<lambda>h. h \<noteq> if_me fe) (hosts_of (hv_view held) (map se_name (vw_entries (hv_view held)))),
              vouch_keeping_in P Sink_keystore now st (vouch_refreshing refresh
                (vouch_knowing (joined_directories (cs_home st)) (vouching_new (if_root fe) held Any_service))))
       else None
   | _ \<Rightarrow> None)"

section \<open>The loop\<close>

record inbox_args =
  ia_wait :: bool
  ia_json :: bool

text \<open>A round: the time left before the deadline as it begins, the clock, how a view is refreshed, the
  order the hosts finish in, the connections they take, what a concurrent reader does between this
  one's renames, what other tasks do before the reading, and whether the deadline has passed after it.\<close>

record inbox_round =
  io_left :: "nat option"
  io_now :: i64
  io_refresher :: refresher
  io_order :: "node_id list \<Rightarrow> node_id list"
  io_conns :: "node_id \<Rightarrow> fetch_conn list"
  io_others :: "caller_state \<times> mailbox \<Rightarrow> caller_state \<times> mailbox"
  io_readers :: "nat \<Rightarrow> mailbox \<Rightarrow> mailbox"
  io_over :: bool

datatype inbox_said =
    Said_refused node_id string
  | Said_all_unvouched "(node_id \<times> unvouched_why) list"
  | Said_note string
  | Said_nothing_arrived

definition inbox_wait :: "inbox_args \<Rightarrow> inbox_round \<Rightarrow> mailbox \<Rightarrow> nat" where
  "inbox_wait a r mb = (if ia_wait a \<and> \<not> has_unread mb
     then (case io_left r of None \<Rightarrow> long_poll | Some d \<Rightarrow> min d long_poll) else 0)"

text \<open>What a round makes of the answers: what is said, and the refusal when every host refused.\<close>

definition round_answers :: "node_id list \<Rightarrow> (node_id \<times> fetched) list \<Rightarrow> inbox_said list \<times> string option" where
  "round_answers targets xs =
     (let refusals = List.map_filter (\<lambda>(h, x). case x of Fetched_refused r \<Rightarrow> Some (h, r) | _ \<Rightarrow> None) xs;
          lapsed = List.map_filter (\<lambda>(h, x). case x of
            Fetched_unvouched w \<Rightarrow> if uv_lapsed w then Some (h, w) else None | _ \<Rightarrow> None) xs
      in (map (\<lambda>(h, r). Said_refused h r) refusals
            @ (if targets \<noteq> [] \<and> length lapsed = length targets then [Said_all_unvouched lapsed] else []),
          if targets \<noteq> [] \<and> length refusals = length targets
          then (case refusals of [] \<Rightarrow> None | (_, r) # _ \<Rightarrow> Some r) else None))"

definition inbox_fetch_round :: "prims \<Rightarrow> inbox_args \<Rightarrow> inbox_fetcher \<Rightarrow> inbox_round \<Rightarrow> caller_state \<times> mailbox
    \<Rightarrow> (inbox_said list \<times> string option) \<times> (node_id \<times> inbox_frame list) list \<times> caller_state \<times> mailbox" where
  "inbox_fetch_round P a fe r = (\<lambda>(st, mb). case inbox_targets P fe (io_now r) (io_refresher r) st of
     None \<Rightarrow> (([], None), [], st, mb)
   | Some (targets, v) \<Rightarrow>
       (case fetch_all P (if_me fe) (inbox_hello (if_token fe)) (inbox_wait a r mb) (io_conns r) v
               (io_order r targets) (st, mb) of
          (xs, told, st, mb) \<Rightarrow> (round_answers targets xs, told, st, mb)))"

definition message_text :: "prims \<Rightarrow> inbox_args \<Rightarrow> push_message \<Rightarrow> string" where
  "message_text P a m = (if ia_json a then json_text P (json_line P m) else inbox_line P m) @ newline"

text \<open>What the rounds print and say, and how they end: \<open>None\<close> while it still waits. A refusal ends the
  process with 77.\<close>

record inbox_run =
  ib_end :: "(string + 32 word) option"
  ib_printed :: "push_message list"
  ib_said :: "inbox_said list"
  ib_told :: "(node_id \<times> inbox_frame list) list"
  ib_state :: "caller_state \<times> mailbox"

fun inbox_read_loop :: "prims \<Rightarrow> inbox_args \<Rightarrow> inbox_fetcher \<Rightarrow> inbox_round list \<Rightarrow> caller_state \<times> mailbox \<Rightarrow> inbox_run" where
  "inbox_read_loop P a fe [] s = \<lparr> ib_end = None, ib_printed = [], ib_said = [], ib_told = [], ib_state = s \<rparr>"
| "inbox_read_loop P a fe (r # rs) s =
     (case inbox_fetch_round P a fe r s of ((said, refused), told, s) \<Rightarrow>
      case io_others r s of (st, mb) \<Rightarrow>
      case take_notes mb of (notes, mb) \<Rightarrow>
      case take_unread P (io_readers r) mb of (ms, mb) \<Rightarrow>
      let said = said @ map Said_note notes;
          done = (\<lambda>x more. \<lparr> ib_end = Some x, ib_printed = ms, ib_said = said @ more, ib_told = told, ib_state = (st, mb) \<rparr>)
      in case (if ms = [] then refused else None) of
        Some reason \<Rightarrow> done (Inl reason) []
      | None \<Rightarrow>
          if ms \<noteq> [] \<or> \<not> ia_wait a then done (Inr 0) []
          else if io_over r then done (Inr exit_timeout) [Said_nothing_arrived]
          else let more = inbox_read_loop P a fe rs (st, mb) in
            more \<lparr> ib_said := said @ ib_said more, ib_told := told @ ib_told more \<rparr>)"

definition inbox_stdout :: "prims \<Rightarrow> inbox_args \<Rightarrow> inbox_run \<Rightarrow> string" where
  "inbox_stdout P a x = concat (map (message_text P a) (ib_printed x))"

definition inbox_exit :: "inbox_run \<Rightarrow> 32 word option" where
  "inbox_exit x = map_option (\<lambda>e. case e of Inl _ \<Rightarrow> exit_denied | Inr c \<Rightarrow> c) (ib_end x)"

text \<open>The command, up to the loop: a refused caller with no view has nobody to ask.\<close>

datatype inbox_result =
    Inbox_not_signed_in
  | Inbox_not_admitted
  | Inbox_ran inbox_run

definition inbox_cmd :: "prims \<Rightarrow> inbox_args \<Rightarrow> node_id \<Rightarrow> node_id \<Rightarrow> id_token option \<Rightarrow> i64
    \<Rightarrow> (caller_home \<Rightarrow> (refresh_error + held_view) \<times> caller_home) \<Rightarrow> inbox_round list
    \<Rightarrow> caller_state \<times> mailbox \<Rightarrow> inbox_result" where
  "inbox_cmd P a me root tok now refresh rounds = (\<lambda>(st, mb). case tok of
     None \<Rightarrow> Inbox_not_signed_in
   | Some tok \<Rightarrow> (case usable_with P root now refresh (cs_home st) of (x, ks) \<Rightarrow>
       if x = Inl Usable_not_admitted
          \<and> \<not> (case view_read P root ks of Inr (Some _) \<Rightarrow> True | _ \<Rightarrow> False)
       then Inbox_not_admitted
       else Inbox_ran (inbox_read_loop P a \<lparr> if_me = me, if_root = root, if_token = tok \<rparr> rounds
              (st \<lparr> cs_home := ks \<rparr>, mb))))"

end
