(* ===== verification/Inbox_Rules.thy ===== *)
theory Inbox_Rules
  imports Caller_Inbox Caller_Rules Decoded_Types
begin

text \<open>
  Laws of the mailbox: what its files hold, which atomic acts its operations and every concurrent reader
  are made of, and what those acts conserve.
\<close>

section \<open>Files\<close>

definition files_ok :: "prims \<Rightarrow> message_dir \<Rightarrow> bool" where
  "files_ok P d \<longleftrightarrow> bm_ok d \<and> (\<forall>(i, f) \<in> set d. map_option pm_id (file_message P f) = Some i)"

definition mailbox_ok :: "prims \<Rightarrow> mailbox \<Rightarrow> bool" where
  "mailbox_ok P mb \<longleftrightarrow> files_ok P (mb_new mb) \<and> files_ok P (mb_read mb)
     \<and> fst ` set (mb_new mb) \<inter> fst ` set (mb_read mb) = {}"

lemma file_message_file:
  assumes "json_law P" "hex_law P" "compact_law P" "push_message_ok m"
  shows "file_message P (message_file P m) = Some m"
  using assms push_message_json.encode_canonical[of P m] push_message_json.from_slice_canonical[of P P m]
  by (simp add: file_message_def message_file_def from_str_def json_text_def compact_law_def canonical_bytes_def)

definition dir_messages :: "prims \<Rightarrow> message_dir \<Rightarrow> push_message list" where
  "dir_messages P d = List.map_filter (\<lambda>(_, f). file_message P f) d"

lemma dir_messages_simps [simp]:
  "dir_messages P [] = []"
  "dir_messages P ((i, f) # d) = (case file_message P f of None \<Rightarrow> [] | Some m \<Rightarrow> [m]) @ dir_messages P d"
  by (simp_all add: dir_messages_def map_filter_simps split: option.split)

lemma load_dir_eq: "load_dir P d = sort_key (\<lambda>m. (pm_at_ms m, pm_id m)) (dir_messages P d)"
  by (simp add: load_dir_def dir_messages_def)

lemma set_load_dir: "set (load_dir P d) = set (dir_messages P d)"
  by (simp add: load_dir_eq)

lemma dir_messages_mem: "m \<in> set (dir_messages P d) \<longleftrightarrow> (\<exists>i f. (i, f) \<in> set d \<and> file_message P f = Some m)"
proof (induction d)
  case (Cons x d)
  then show ?case by (cases x; cases "file_message P (snd x)") force+
qed simp

lemma files_okD:
  assumes "files_ok P d"
  shows "bm_ok d" "map pm_id (dir_messages P d) = map fst d" "length (load_dir P d) = length d"
    "distinct (map pm_id (load_dir P d))"
proof -
  show ok: "bm_ok d" using assms by (simp add: files_ok_def)
  have "\<forall>(i, f) \<in> set d. map_option pm_id (file_message P f) = Some i" using assms by (simp add: files_ok_def)
  then show ids: "map pm_id (dir_messages P d) = map fst d"
    by (induction d) auto
  then have "length (dir_messages P d) = length d" by (metis length_map)
  then show "length (load_dir P d) = length d" by (simp add: load_dir_eq)
  have "distinct (map pm_id (dir_messages P d))" using ids bm_ok_distinct[OF ok] by simp
  moreover have "mset (load_dir P d) = mset (dir_messages P d)" by (simp add: load_dir_eq)
  ultimately show "distinct (map pm_id (load_dir P d))" by (metis mset_eq_imp_distinct_iff mset_map)
qed

lemma set_bm_put: "bm_ok d \<Longrightarrow> set (bm_put i f d) = insert (i, f) {x \<in> set d. fst x \<noteq> i}"
proof (intro set_eqI)
  fix x
  assume ok: "bm_ok d"
  then have "x \<in> set (bm_put i f d) \<longleftrightarrow> bm_get (bm_put i f d) (fst x) = Some (snd x)"
    using bm_get_iff[of "bm_put i f d" "fst x" "snd x"] by simp
  then show "x \<in> set (bm_put i f d) \<longleftrightarrow> x \<in> insert (i, f) {x \<in> set d. fst x \<noteq> i}"
    using ok bm_get_iff[OF ok, of "fst x" "snd x"] by (cases x) auto
qed

lemma files_ok_put:
  "files_ok P d \<Longrightarrow> map_option pm_id (file_message P f) = Some i \<Longrightarrow> files_ok P (bm_put i f d)"
  by (auto simp: files_ok_def set_bm_put)

lemma files_ok_del: "files_ok P d \<Longrightarrow> files_ok P (bm_del i d)"
  by (auto simp: files_ok_def)

lemma files_ok_get: "files_ok P d \<Longrightarrow> bm_get d i = Some f \<Longrightarrow> \<exists>m. file_message P f = Some m \<and> pm_id m = i"
  unfolding files_ok_def using bm_get_iff[of d i f] by fastforce

lemma dir_messages_del: "set (dir_messages P (bm_del i d)) \<subseteq> set (dir_messages P d)"
  unfolding subset_iff dir_messages_mem set_bm_del by blast

lemma dir_messages_put:
  "bm_ok d \<Longrightarrow> file_message P f = Some m \<Longrightarrow> set (dir_messages P (bm_put i f d)) \<subseteq> insert m (set (dir_messages P d))"
  by (auto simp: dir_messages_mem set_bm_put)

lemma bm_has_mem: "bm_has d i \<longleftrightarrow> i \<in> fst ` set d"
  by (simp add: bm_has_def)

section \<open>The acts\<close>

datatype mailbox_act = Wrote push_message | Took push_message | Evicted push_id | Forgot push_id
  | Noted "(string, disk_file) btree_map"

fun do_act :: "prims \<Rightarrow> mailbox_act \<Rightarrow> mailbox \<Rightarrow> mailbox option" where
  "do_act P (Wrote m) mb = (if mb_holds mb (pm_id m) then None
     else Some (mb \<lparr> mb_new := bm_put (pm_id m) (message_file P m) (mb_new mb) \<rparr>))"
| "do_act P (Took m) mb = (case mark_read (pm_id m) mb of (ok, mb) \<Rightarrow> if ok then Some mb else None)"
| "do_act P (Evicted i) mb = (case mark_read i mb of (ok, mb) \<Rightarrow> if ok then Some mb else None)"
| "do_act P (Forgot i) mb = (if bm_has (mb_read mb) i then Some (mb \<lparr> mb_read := bm_del i (mb_read mb) \<rparr>) else None)"
| "do_act P (Noted ns) mb = Some (mb \<lparr> mb_notes := ns \<rparr>)"

fun do_acts :: "prims \<Rightarrow> mailbox_act list \<Rightarrow> mailbox \<Rightarrow> mailbox option" where
  "do_acts P [] mb = Some mb"
| "do_acts P (x # xs) mb = Option.bind (do_act P x mb) (do_acts P xs)"

lemma do_acts_append:
  "do_acts P (xs @ ys) mb = Option.bind (do_acts P xs mb) (do_acts P ys)"
proof (induction xs arbitrary: mb)
  case (Cons x xs)
  then show ?case by (cases "do_act P x mb") simp_all
qed simp

fun filed_by :: "mailbox_act list \<Rightarrow> push_message list" where
  "filed_by [] = []" | "filed_by (Wrote m # xs) = m # filed_by xs" | "filed_by (_ # xs) = filed_by xs"
fun takes :: "mailbox_act list \<Rightarrow> push_message list" where
  "takes [] = []" | "takes (Took m # xs) = m # takes xs" | "takes (_ # xs) = takes xs"
fun evicts :: "mailbox_act list \<Rightarrow> push_id list" where
  "evicts [] = []" | "evicts (Evicted i # xs) = i # evicts xs" | "evicts (_ # xs) = evicts xs"
fun forgets :: "mailbox_act list \<Rightarrow> push_id list" where
  "forgets [] = []" | "forgets (Forgot i # xs) = i # forgets xs" | "forgets (_ # xs) = forgets xs"

lemma acts_append [simp]:
  "filed_by (xs @ ys) = filed_by xs @ filed_by ys" "takes (xs @ ys) = takes xs @ takes ys"
  "evicts (xs @ ys) = evicts xs @ evicts ys" "forgets (xs @ ys) = forgets xs @ forgets ys"
proof -
  have "filed_by (xs @ ys) = filed_by xs @ filed_by ys \<and> takes (xs @ ys) = takes xs @ takes ys
    \<and> evicts (xs @ ys) = evicts xs @ evicts ys \<and> forgets (xs @ ys) = forgets xs @ forgets ys"
  proof (induction xs)
    case (Cons x xs)
    then show ?case by (cases x) simp_all
  qed simp
  then show "filed_by (xs @ ys) = filed_by xs @ filed_by ys" "takes (xs @ ys) = takes xs @ takes ys"
    "evicts (xs @ ys) = evicts xs @ evicts ys" "forgets (xs @ ys) = forgets xs @ forgets ys" by blast+
qed

abbreviation unread_in :: "mailbox \<Rightarrow> push_id \<Rightarrow> nat" where
  "unread_in mb i \<equiv> of_bool (bm_has (mb_new mb) i)"
abbreviation held_in :: "mailbox \<Rightarrow> push_id \<Rightarrow> nat" where
  "held_in mb i \<equiv> of_bool (mb_holds mb i)"

text \<open>Every file in the mailbox keeps a property of its message.\<close>

definition mailbox_all :: "prims \<Rightarrow> (push_message \<Rightarrow> bool) \<Rightarrow> mailbox \<Rightarrow> bool" where
  "mailbox_all P Q mb \<longleftrightarrow> (\<forall>m \<in> set (dir_messages P (mb_new mb)). Q m)"

lemma mark_read_True:
  assumes "mark_read i mb = (True, mb')" "mailbox_ok P mb"
  shows "mailbox_ok P mb'" "fst ` set (mb_new mb') = fst ` set (mb_new mb) - {i}"
    "fst ` set (mb_read mb') = insert i (fst ` set (mb_read mb))" "i \<in> fst ` set (mb_new mb)"
    "mb_new mb' = bm_del i (mb_new mb)" "mb_writable mb' = mb_writable mb"
proof -
  obtain f where f: "bm_get (mb_new mb) i = Some f"
    "mb' = mb \<lparr> mb_new := bm_del i (mb_new mb), mb_read := bm_put i f (mb_read mb) \<rparr>"
    using assms(1) by (auto simp: mark_read_def split: option.splits if_splits)
  show keys: "fst ` set (mb_new mb') = fst ` set (mb_new mb) - {i}" using f(2) by force
  show "fst ` set (mb_read mb') = insert i (fst ` set (mb_read mb))" using f(2) by simp
  show "i \<in> fst ` set (mb_new mb)" using f(1) by (force dest: map_of_SomeD)
  show "mb_new mb' = bm_del i (mb_new mb)" "mb_writable mb' = mb_writable mb" using f(2) by simp_all
  have "map_option pm_id (file_message P f) = Some i"
    using files_ok_get[OF _ f(1)] assms(2) by (auto simp: mailbox_ok_def)
  then have "files_ok P (mb_new mb')" "files_ok P (mb_read mb')"
    using assms(2) f(2) files_ok_put[of P "mb_read mb" f i] files_ok_del[of P "mb_new mb" i] by (simp_all add: mailbox_ok_def)
  moreover have "fst ` set (mb_new mb') \<inter> fst ` set (mb_read mb') = {}"
    using assms(2) keys f(2) by (auto simp: mailbox_ok_def)
  ultimately show "mailbox_ok P mb'" by (simp add: mailbox_ok_def)
qed

lemma mark_read_False: "mark_read i mb = (False, mb') \<Longrightarrow> mb' = mb"
  by (auto simp: mark_read_def split: option.splits if_splits)

lemma marked_read:
  assumes "mark_read j mb = (True, mb')" "mailbox_ok P mb"
  shows "count_list [j] i + unread_in mb' i = unread_in mb i" "held_in mb' i = held_in mb i"
    "mailbox_all P Q mb \<Longrightarrow> mailbox_all P Q mb'"
proof -
  note r = mark_read_True[OF assms]
  have n: "bm_has (mb_new mb') i \<longleftrightarrow> bm_has (mb_new mb) i \<and> i \<noteq> j" using r(2) by (simp add: bm_has_mem)
  moreover have "bm_has (mb_new mb) j" using r(4) by (simp add: bm_has_mem)
  ultimately show "count_list [j] i + unread_in mb' i = unread_in mb i" by auto
  have "bm_has (mb_read mb') i \<longleftrightarrow> bm_has (mb_read mb) i \<or> i = j" using r(3) by (auto simp: bm_has_mem)
  then have "mb_holds mb' i \<longleftrightarrow> mb_holds mb i"
    unfolding mb_holds_def using n \<open>bm_has (mb_new mb) j\<close> by blast
  then show "held_in mb' i = held_in mb i" by simp
  show "mailbox_all P Q mb'" if "mailbox_all P Q mb"
    using that r(5) dir_messages_del[of P j "mb_new mb"] by (auto simp: mailbox_all_def)
qed

lemma forgot_laws:
  assumes "bm_has (mb_read mb) j" "mb' = mb \<lparr> mb_read := bm_del j (mb_read mb) \<rparr>" "mailbox_ok P mb"
  shows "mailbox_ok P mb'" and "unread_in mb' i = unread_in mb i"
    and "held_in mb i = count_list [j] i + held_in mb' i"
    and "mailbox_all P Q mb \<Longrightarrow> mailbox_all P Q mb'"
proof -
  have keys: "fst ` set (mb_read mb') = fst ` set (mb_read mb) - {j}" using assms(2) by force
  have same: "mb_new mb' = mb_new mb" "mb_notes mb' = mb_notes mb" using assms(2) by simp_all
  have apart: "fst ` set (mb_new mb) \<inter> fst ` set (mb_read mb) = {}" using assms(3) by (simp add: mailbox_ok_def)
  have "files_ok P (mb_read mb')" using assms(2,3) files_ok_del by (simp add: mailbox_ok_def)
  then show "mailbox_ok P mb'" using assms(3) same keys apart by (simp add: mailbox_ok_def) blast
  show "unread_in mb' i = unread_in mb i" by (simp add: same)
  have "bm_has (mb_read mb') i \<longleftrightarrow> bm_has (mb_read mb) i \<and> i \<noteq> j" using keys by (auto simp: bm_has_mem)
  moreover have "\<not> bm_has (mb_new mb) j" using apart assms(1) by (auto simp: bm_has_mem)
  ultimately show "held_in mb i = count_list [j] i + held_in mb' i"
    using assms(1) by (cases "i = j") (simp_all add: mb_holds_def same)
  show "mailbox_all P Q mb \<Longrightarrow> mailbox_all P Q mb'" by (simp add: mailbox_all_def same)
qed

lemma do_act_laws:
  assumes "do_act P x mb = Some mb'" "mailbox_ok P mb"
    and "\<And>m. x = Wrote m \<Longrightarrow> file_message P (message_file P m) = Some m"
  shows "mailbox_ok P mb'"
    and "count_list (map pm_id (takes [x])) i + count_list (evicts [x]) i + unread_in mb' i
      = unread_in mb i + count_list (map pm_id (filed_by [x])) i"
    and "count_list (map pm_id (filed_by [x])) i + held_in mb i = count_list (forgets [x]) i + held_in mb' i"
    and "mailbox_all P Q mb \<Longrightarrow> (\<And>m. x = Wrote m \<Longrightarrow> Q m) \<Longrightarrow> mailbox_all P Q mb'"
proof -
  have "mailbox_ok P mb' \<and> count_list (map pm_id (takes [x])) i + count_list (evicts [x]) i + unread_in mb' i
      = unread_in mb i + count_list (map pm_id (filed_by [x])) i
    \<and> count_list (map pm_id (filed_by [x])) i + held_in mb i = count_list (forgets [x]) i + held_in mb' i
    \<and> (mailbox_all P Q mb \<longrightarrow> (\<forall>m. x = Wrote m \<longrightarrow> Q m) \<longrightarrow> mailbox_all P Q mb')"
  proof (cases x)
    case (Wrote m)
    then have f: "\<not> mb_holds mb (pm_id m)" "mb' = mb \<lparr> mb_new := bm_put (pm_id m) (message_file P m) (mb_new mb) \<rparr>"
      using assms(1) by (auto split: if_splits)
    have n: "bm_ok (mb_new mb)" using assms(2) by (simp add: mailbox_ok_def files_ok_def)
    have "mailbox_ok P mb'"
      using f assms(2) assms(3)[OF Wrote] files_ok_put by (simp add: mailbox_ok_def mb_holds_def bm_has_mem)
    moreover have "mailbox_all P Q mb \<longrightarrow> Q m \<longrightarrow> mailbox_all P Q mb'"
      using f(2) assms(3)[OF Wrote]
        dir_messages_put[OF n, of P "message_file P m" m "pm_id m"] by (auto simp: mailbox_all_def)
    ultimately show ?thesis using f Wrote by (auto simp: mb_holds_def bm_has_mem)
  next
    case (Took m)
    then have r: "mark_read (pm_id m) mb = (True, mb')" using assms(1) by (auto split: prod.splits if_splits)
    show ?thesis using marked_read(1,2)[OF r assms(2), of i] marked_read(3)[OF r assms(2), of Q] Took mark_read_True(1)[OF r assms(2)]
      by (simp only: takes.simps evicts.simps filed_by.simps forgets.simps list.map count_list.simps(1) add_0 add_0_right) blast
  next
    case (Evicted j)
    then have r: "mark_read j mb = (True, mb')" using assms(1) by (auto split: prod.splits if_splits)
    show ?thesis using marked_read(1,2)[OF r assms(2), of i] marked_read(3)[OF r assms(2), of Q] Evicted mark_read_True(1)[OF r assms(2)]
      by (simp only: takes.simps evicts.simps filed_by.simps forgets.simps list.map count_list.simps(1) add_0 add_0_right) blast
  next
    case (Forgot j)
    then have f: "bm_has (mb_read mb) j" "mb' = mb \<lparr> mb_read := bm_del j (mb_read mb) \<rparr>"
      using assms(1) by (auto split: if_splits)
    show ?thesis using forgot_laws(1)[OF f assms(2)] forgot_laws(2)[OF f assms(2), of i] forgot_laws(3)[OF f assms(2), of i] forgot_laws(4)[OF f assms(2), of Q] Forgot
      by (simp only: takes.simps evicts.simps filed_by.simps forgets.simps list.map count_list.simps(1) add_0 add_0_right) blast
  next
    case (Noted ns)
    then have "mb' = mb \<lparr> mb_notes := ns \<rparr>" using assms(1) by simp
    then show ?thesis using assms(2) Noted by (simp add: mb_holds_def mailbox_ok_def mailbox_all_def)
  qed
  then show "mailbox_ok P mb'"
    "count_list (map pm_id (takes [x])) i + count_list (evicts [x]) i + unread_in mb' i
      = unread_in mb i + count_list (map pm_id (filed_by [x])) i"
    "count_list (map pm_id (filed_by [x])) i + held_in mb i = count_list (forgets [x]) i + held_in mb' i"
    "mailbox_all P Q mb \<Longrightarrow> (\<And>m. x = Wrote m \<Longrightarrow> Q m) \<Longrightarrow> mailbox_all P Q mb'" by blast+
qed

lemma do_acts_laws:
  assumes "do_acts P xs mb = Some mb'" "mailbox_ok P mb"
    and "\<And>m. m \<in> set (filed_by xs) \<Longrightarrow> file_message P (message_file P m) = Some m"
  shows "mailbox_ok P mb'"
    and "count_list (map pm_id (takes xs)) i + count_list (evicts xs) i + unread_in mb' i
      = unread_in mb i + count_list (map pm_id (filed_by xs)) i"
    and "count_list (map pm_id (filed_by xs)) i + held_in mb i = count_list (forgets xs) i + held_in mb' i"
    and "mailbox_all P Q mb \<Longrightarrow> (\<And>m. m \<in> set (filed_by xs) \<Longrightarrow> Q m) \<Longrightarrow> mailbox_all P Q mb'"
proof -
  have "mailbox_ok P mb' \<and> count_list (map pm_id (takes xs)) i + count_list (evicts xs) i + unread_in mb' i
      = unread_in mb i + count_list (map pm_id (filed_by xs)) i
    \<and> count_list (map pm_id (filed_by xs)) i + held_in mb i = count_list (forgets xs) i + held_in mb' i
    \<and> (mailbox_all P Q mb \<longrightarrow> (\<forall>m \<in> set (filed_by xs). Q m) \<longrightarrow> mailbox_all P Q mb')"
    using assms
  proof (induction xs arbitrary: mb)
    case (Cons x xs)
    obtain mb1 where a: "do_act P x mb = Some mb1" "do_acts P xs mb1 = Some mb'"
      using Cons.prems(1) by (auto simp: bind_eq_Some_conv)
    have w: "filed_by (x # xs) = filed_by [x] @ filed_by xs" "takes (x # xs) = takes [x] @ takes xs"
      "evicts (x # xs) = evicts [x] @ evicts xs" "forgets (x # xs) = forgets [x] @ forgets xs"
      by (simp_all flip: acts_append)
    have f: "file_message P (message_file P m) = Some m" if "x = Wrote m" for m
      using Cons.prems(3)[of m] that by simp
    note l = do_act_laws(1)[OF a(1) Cons.prems(2) f] do_act_laws(2,3)[OF a(1) Cons.prems(2) f, of i]
    note r = Cons.IH[OF a(2) l(1)] Cons.prems(3)
    have q: "mailbox_all P Q mb1" if "mailbox_all P Q mb" "\<forall>m \<in> set (filed_by [x]). Q m"
      using do_act_laws(4)[OF a(1) Cons.prems(2) f that(1)] that(2) by (cases x) auto
    have "mailbox_ok P mb' \<and> count_list (map pm_id (takes xs)) i + count_list (evicts xs) i + unread_in mb' i
      = unread_in mb1 i + count_list (map pm_id (filed_by xs)) i
    \<and> count_list (map pm_id (filed_by xs)) i + held_in mb1 i = count_list (forgets xs) i + held_in mb' i
    \<and> (mailbox_all P Q mb1 \<longrightarrow> (\<forall>m \<in> set (filed_by xs). Q m) \<longrightarrow> mailbox_all P Q mb')"
      using r w by simp
    then show ?case using l(2,3) q unfolding w count_list_append map_append set_append ball_Un by linarith
  qed simp
  then show "mailbox_ok P mb'"
    "count_list (map pm_id (takes xs)) i + count_list (evicts xs) i + unread_in mb' i
      = unread_in mb i + count_list (map pm_id (filed_by xs)) i"
    "count_list (map pm_id (filed_by xs)) i + held_in mb i = count_list (forgets xs) i + held_in mb' i"
    "mailbox_all P Q mb \<Longrightarrow> (\<And>m. m \<in> set (filed_by xs) \<Longrightarrow> Q m) \<Longrightarrow> mailbox_all P Q mb'" by blast+
qed

section \<open>The operations are such acts\<close>

lemma store_each_acts:
  assumes "store_each P ms out mb = (r, mb')"
  shows "\<exists>xs. do_acts P xs mb = Some mb' \<and> set (filed_by xs) \<subseteq> set ms \<and> takes xs = [] \<and> evicts xs = [] \<and> forgets xs = []
    \<and> (\<forall>o'. r = Inr o' \<longrightarrow> sb_ids o' = sb_ids out @ map pm_id ms \<and> sb_fresh o' = sb_fresh out + length (filed_by xs)
         \<and> sb_evicted o' = sb_evicted out)"
  using assms
proof (induction ms arbitrary: out mb)
  case Nil
  then show ?case by (intro exI[of _ "[]"]) auto
next
  case (Cons m ms)
  let ?out = "out \<lparr> sb_ids := sb_ids out @ [pm_id m] \<rparr>"
  consider "mb_holds mb (pm_id m)" | "\<not> mb_holds mb (pm_id m)" "\<not> mb_writable mb" | "\<not> mb_holds mb (pm_id m)" "mb_writable mb"
    by blast
  then show ?case
  proof cases
    case 1
    then have "store_each P ms ?out mb = (r, mb')" using Cons.prems by simp
    from Cons.IH[OF this] show ?thesis by (auto intro: exI)
  next
    case 2
    then show ?thesis using Cons.prems by (intro exI[of _ "[]"]) auto
  next
    case 3
    let ?mb = "mb \<lparr> mb_new := bm_put (pm_id m) (message_file P m) (mb_new mb) \<rparr>"
    have "store_each P ms (?out \<lparr> sb_fresh := sb_fresh out + 1 \<rparr>) ?mb = (r, mb')" using 3 Cons.prems by simp
    from Cons.IH[OF this] obtain xs where xs: "do_acts P xs ?mb = Some mb'" "set (filed_by xs) \<subseteq> set ms" "takes xs = []"
      "evicts xs = []" "forgets xs = []" "\<forall>o'. r = Inr o' \<longrightarrow> sb_ids o' = sb_ids out @ map pm_id (m # ms)
        \<and> sb_fresh o' = sb_fresh out + 1 + length (filed_by xs) \<and> sb_evicted o' = sb_evicted out" by auto
    have a: "do_acts P (Wrote m # xs) mb = Some mb'" using 3(1) xs(1) by simp
    have w: "set (filed_by (Wrote m # xs)) \<subseteq> set (m # ms)" using xs(2) by auto
    have f: "length (filed_by (Wrote m # xs)) = 1 + length (filed_by xs)" by simp
    have e: "takes (Wrote m # xs) = []" "evicts (Wrote m # xs) = []" "forgets (Wrote m # xs) = []" using xs(3-5) by simp_all
    have "sb_ids o' = sb_ids out @ map pm_id (m # ms) \<and> sb_fresh o' = sb_fresh out + length (filed_by (Wrote m # xs))
        \<and> sb_evicted o' = sb_evicted out" if "r = Inr o'" for o'
      using xs(6)[rule_format, OF that] f by linarith
    then show ?thesis using a w e by blast
  qed
qed

lemma mark_read_act:
  "mark_read i mb = (ok, mb') \<Longrightarrow> do_acts P (if ok then [Evicted i] else []) mb = Some mb'"
  "mark_read (pm_id m) mb = (ok, mb') \<Longrightarrow> do_acts P (if ok then [Took m] else []) mb = Some mb'"
  using mark_read_False by (cases ok; force)+

lemma evict_each_acts:
  assumes "evict_each is n mb = (k, mb')"
  shows "\<exists>xs. do_acts P xs mb = Some mb' \<and> filed_by xs = [] \<and> takes xs = [] \<and> forgets xs = [] \<and> set (evicts xs) \<subseteq> set is
    \<and> k = n + length (evicts xs)"
  using assms
proof (induction "is" arbitrary: n mb)
  case Nil
  then show ?case by (intro exI[of _ "[]"]) auto
next
  case (Cons i "is")
  obtain ok mb1 where m: "mark_read i mb = (ok, mb1)" by fastforce
  have "evict_each is (if ok then n + 1 else n) mb1 = (k, mb')" using Cons.prems m by simp
  from Cons.IH[OF this] obtain xs where "do_acts P xs mb1 = Some mb'" "filed_by xs = []" "takes xs = []" "forgets xs = []"
    "set (evicts xs) \<subseteq> set is" "k = (if ok then n + 1 else n) + length (evicts xs)" by blast
  then show ?case using mark_read_act(1)[OF m, of P]
    by (intro exI[of _ "(if ok then [Evicted i] else []) @ xs"]) (cases ok; auto simp: do_acts_append m)
qed

lemma mailbox_store_acts:
  assumes "mailbox_store P at ms mb = (r, mb')"
  shows "\<exists>xs. do_acts P xs mb = Some mb' \<and> set (filed_by xs) \<subseteq> set ms \<and> takes xs = [] \<and> forgets xs = []
    \<and> (\<forall>o'. r = Inr o' \<longrightarrow> sb_ids o' = map pm_id ms \<and> sb_fresh o' = length (filed_by xs) \<and> sb_evicted o' = length (evicts xs))"
proof -
  obtain r1 mb1 where s: "store_each P ms \<lparr> sb_ids = [], sb_fresh = 0, sb_evicted = 0 \<rparr> mb = (r1, mb1)" by fastforce
  from store_each_acts[OF s] obtain xs where xs: "do_acts P xs mb = Some mb1" "set (filed_by xs) \<subseteq> set ms" "takes xs = []"
    "evicts xs = []" "forgets xs = []" "\<forall>o'. r1 = Inr o' \<longrightarrow> sb_ids o' = map pm_id ms \<and> sb_fresh o' = length (filed_by xs) \<and> sb_evicted o' = 0"
    by auto
  show ?thesis
  proof (cases r1)
    case (Inl e)
    then show ?thesis using assms s xs by (intro exI[of _ xs]) (auto simp: mailbox_store_def)
  next
    case (Inr out)
    obtain n mb2 where e: "evict_each (evictions (map (\<lambda>m. (pm_at_ms m, pm_id m)) (load_dir P (mb_new mb1))) max_unread) 0 mb1
        = (n, mb2)" by fastforce
    from evict_each_acts[OF e, of P] obtain ys where ys: "do_acts P ys mb1 = Some mb2" "filed_by ys = []" "takes ys = []"
      "forgets ys = []" "n = length (evicts ys)" by auto
    let ?ns = "bm_put (note_name P at) (Text (eviction_note n)) (mb_notes mb2)"
    consider "sb_fresh out = 0" "r = Inr out" "mb' = mb1"
      | "n = 0" "r = Inr (out \<lparr> sb_evicted := n \<rparr>)" "mb' = mb2" | "r = Inl Mailbox_io" "mb' = mb2"
      | "r = Inr (out \<lparr> sb_evicted := n \<rparr>)" "mb' = mb2 \<lparr> mb_notes := ?ns \<rparr>"
      using assms s Inr e by (auto simp: mailbox_store_def Let_def split: if_splits)
    then show ?thesis
    proof cases
      case 1
      then show ?thesis using xs Inr by (intro exI[of _ xs]) auto
    next
      case 4
      then show ?thesis using xs ys Inr by (intro exI[of _ "xs @ ys @ [Noted ?ns]"]) (auto simp: do_acts_append)
    qed (use xs ys Inr in \<open>intro exI[of _ "xs @ ys"]; auto simp: do_acts_append\<close>)+
  qed
qed

text \<open>What a concurrent process may do to the mailbox: acts that write only what \<open>W\<close> allows.\<close>

definition acts_on :: "prims \<Rightarrow> (push_message \<Rightarrow> bool) \<Rightarrow> (mailbox \<Rightarrow> mailbox) \<Rightarrow> bool" where
  "acts_on P W f \<longleftrightarrow> (\<forall>mb. \<exists>xs. do_acts P xs mb = Some (f mb) \<and> (\<forall>m \<in> set (filed_by xs). W m))"

lemma take_each_acts:
  assumes "take_each others n ms mb = (taken, mb')" "\<And>n. acts_on P W (others n)"
  shows "\<exists>xs. do_acts P xs mb = Some mb' \<and> (\<forall>m \<in> set (filed_by xs). W m) \<and> subseq taken (takes xs)"
  using assms(1)
proof (induction ms arbitrary: n mb taken)
  case Nil
  obtain ys where "do_acts P ys mb = Some (others n mb)" "\<forall>m \<in> set (filed_by ys). W m"
    using assms(2)[of n] unfolding acts_on_def by blast
  then show ?case using Nil by (intro exI[of _ ys]) auto
next
  case (Cons m ms)
  obtain ys where ys: "do_acts P ys mb = Some (others n mb)" "\<forall>m \<in> set (filed_by ys). W m"
    using assms(2)[of n] unfolding acts_on_def by blast
  obtain ok mb1 where m: "mark_read (pm_id m) (others n mb) = (ok, mb1)" by fastforce
  obtain t where t: "take_each others (Suc n) ms mb1 = (t, mb')" "taken = (if ok then m # t else t)"
    using Cons.prems m by (auto split: prod.splits)
  from Cons.IH[OF t(1)] obtain xs where xs: "do_acts P xs mb1 = Some mb'" "\<forall>m \<in> set (filed_by xs). W m" "subseq t (takes xs)"
    by blast
  let ?zs = "ys @ (if ok then [Took m] else []) @ xs"
  have "do_acts P ?zs mb = Some mb'" using ys(1) mark_read_act(2)[OF m, of P] xs(1) by (simp add: do_acts_append)
  moreover have "subseq taken (takes ?zs)"
    using t(2) xs(3) by (auto intro!: list_emb_append2)
  ultimately show ?case using ys(2) xs(2) by (intro exI[of _ ?zs]) auto
qed

lemma forget_acts:
  "\<exists>xs. do_acts P xs mb = Some (forget_read P mb) \<and> filed_by xs = [] \<and> takes xs = [] \<and> evicts xs = []"
proof -
  have f: "\<exists>xs. do_acts P xs (mb \<lparr> mb_read := d \<rparr>) = Some (mb \<lparr> mb_read := fold bm_del gone d \<rparr>)
      \<and> filed_by xs = [] \<and> takes xs = [] \<and> evicts xs = []" for gone d
  proof (induction gone arbitrary: d)
    case Nil
    show ?case by (intro exI[of _ "[]"]) simp
  next
    case (Cons i gone)
    from Cons.IH[of "bm_del i d"] obtain xs where xs: "do_acts P xs (mb \<lparr> mb_read := bm_del i d \<rparr>)
        = Some (mb \<lparr> mb_read := fold bm_del gone (bm_del i d) \<rparr>)" "filed_by xs = [] \<and> takes xs = [] \<and> evicts xs = []" by blast
    show ?case
    proof (cases "bm_has d i")
      case True
      then show ?thesis using xs by (intro exI[of _ "Forgot i # xs"]) simp
    next
      case False
      then have "bm_del i d = d" unfolding bm_del_def bm_has_def by (intro filter_True) force
      then show ?thesis using xs by (intro exI[of _ xs]) simp
    qed
  qed
  have "\<exists>xs. do_acts P xs mb = Some mb \<and> filed_by xs = [] \<and> takes xs = [] \<and> evicts xs = []"
    by (intro exI[of _ "[]"]) simp
  then show ?thesis using f[of "mb_read mb"] by (simp add: forget_read_def Let_def)
qed

lemma take_unread_acts:
  assumes "take_unread P others mb = (taken, mb')" "\<And>n. acts_on P W (others n)"
  shows "\<exists>xs. do_acts P xs mb = Some mb' \<and> (\<forall>m \<in> set (filed_by xs). W m) \<and> subseq taken (takes xs)"
proof -
  obtain mb1 where t: "take_each others 0 (load_dir P (mb_new mb)) mb = (taken, mb1)" "mb' = forget_read P mb1"
    using assms(1) by (auto simp: take_unread_def split: prod.splits)
  obtain xs where xs: "do_acts P xs mb = Some mb1" "\<forall>m \<in> set (filed_by xs). W m" "subseq taken (takes xs)"
    using take_each_acts[OF t(1) assms(2)] by blast
  obtain ys where "do_acts P ys mb1 = Some mb'" "filed_by ys = []" "takes ys = []" using forget_acts[of P mb1] t(2) by blast
  then show ?thesis using xs by (intro exI[of _ "xs @ ys"]) (auto simp: do_acts_append)
qed

lemma take_notes_acts: "take_notes mb = (notes, mb') \<Longrightarrow> \<exists>ns. do_acts P [Noted ns] mb = Some mb'"
  by (cases mb) (auto simp: take_notes_def split: if_splits)

end
