(* ===== verification/Inbox_Loop.thy ===== *)
theory Inbox_Loop
  imports Inbox_Rules
begin

text \<open>
  Laws of the fetches and the loop of \<open>wires inbox\<close>: what each host is told, and what is written to
  the mailbox.
\<close>

section \<open>What arrives\<close>

lemma d_push_message_ok: "d_push_message P j = Some m \<Longrightarrow> push_message_ok m"
  by (auto simp: d_push_message_def req_def d_subject_def d_push_body_def res_ok_Some_iff push_message_ok_def is_ok_iff
      subject_new_Inr push_body_new_Inr bind_eq_Some_conv dest!: d_i64_ok split: option.splits)

lemma read_inbox_deliver:
  assumes "read_inbox_within P cap r = (Inr (Some (In_Deliver ms)), rest)" "m \<in> set ms"
  shows "push_message_ok m"
proof -
  obtain n b e where "inbox_decode P (take (4 + n) b) = Inr (Some (In_Deliver ms, e))"
    using assms(1) by (auto simp: read_inbox_within_def read_capped_def split: option.splits if_splits sum.splits)
  then obtain j where "d_inbox P j = Some (In_Deliver ms)"
    by (auto simp: inbox_decode_def and_then_Inr_iff from_slice_def ok_or_Inr_iff bind_eq_Some_conv split: option.splits)
  then show ?thesis using d_inbox_deliver[of P j ms m] assms(2) d_push_message_ok by blast
qed

definition arrives :: "node_id \<Rightarrow> node_id \<Rightarrow> push_message \<Rightarrow> bool" where
  "arrives me host m \<longleftrightarrow> pm_from m = host \<and> pm_to m = me \<and> push_message_ok m"

lemma acceptable_arrives:
  "read_inbox_within P cap r = (Inr (Some (In_Deliver ms)), rest) \<Longrightarrow> m \<in> set (acceptable ms host me now) \<Longrightarrow> arrives me host m"
  using read_inbox_deliver by (auto simp: acceptable_def arrives_def)

section \<open>One fetch\<close>

lemma inbox_send_sent: "inbox_send P l i fs = (sent, ok) \<Longrightarrow> set sent \<subseteq> set fs"
  by (induction fs arbitrary: i sent ok) (fastforce split: if_splits prod.splits)+

lemma fetch_speak_told:
  assumes "fetch_speak P host hello wait l (v, st) = (r, sent, v', st')" "vouch_ok P v"
  shows "same_vouching v v'" "vouch_ok P v'"
    "f \<in> set sent \<Longrightarrow> f \<noteq> In_Open \<Longrightarrow> told_rightly P v host"
    "r = Inr n \<Longrightarrow> told_rightly P v host"
proof -
  have refl: "same_vouching v v" by (simp add: same_vouching_def)
  let ?ready = "vouch_ready P v host (hl_clock l 0)"
  obtain fs ok where s: "inbox_send P l 0 (if ?ready then [hello, In_Fetch (word_of_nat wait)] else [In_Open]) = (fs, ok)"
    by fastforce
  show "same_vouching v v'" "vouch_ok P v'"
    using assms refl unfolding fetch_speak_def Let_def s
    by (auto split: bool.splits if_splits sum.splits option.splits inbox_frame.splits prod.splits check_failure.splits
        dest: vouch_check_same simp del: inbox_send.simps)
  have "told_rightly P v host" if spoke: "(\<exists>f \<in> set sent. f \<noteq> In_Open) \<or> (\<exists>n. r = Inr n)"
  proof (cases ?ready)
    case True
    then show ?thesis using vouch_ready_vouched assms(2) refl by (force simp: told_rightly_def)
  next
    case False
    have s0: "inbox_send P l 0 [In_Open] = (fs, ok)" using s False by simp
    have open': "\<forall>f \<in> set fs. f = In_Open" using inbox_send_sent[OF s] False by auto
    have "(\<forall>f \<in> set sent. f = In_Open) \<and> \<not> (\<exists>n. r = Inr n)
      \<or> (\<exists>pf. vouch_check P host pf (hl_clock l 1) True (v, st) = (Inr (), v', st'))"
      using assms(1) open' unfolding fetch_speak_def Let_def
      by (auto simp: False s0 simp del: inbox_send.simps split: bool.splits sum.splits option.splits inbox_frame.splits
          prod.splits check_failure.splits)
    then obtain pf where chk: "vouch_check P host pf (hl_clock l 1) True (v, st) = (Inr (), v', st')"
      using spoke by blast
    obtain w where "host_vouched P v' (hp_head pf) w host (hl_clock l 1)" using vouch_check_vouched[OF chk] by blast
    then show ?thesis using vouch_check_same[OF chk] assms(2) unfolding told_rightly_def by blast
  qed
  then show "f \<in> set sent \<Longrightarrow> f \<noteq> In_Open \<Longrightarrow> told_rightly P v host" "r = Inr n \<Longrightarrow> told_rightly P v host" by blast+
qed

text \<open>What a fetch may leave: every frame but \<open>Open\<close>, and every message written, only from a host told rightly.\<close>

definition fetch_leaves :: "prims \<Rightarrow> node_id \<Rightarrow> vouching \<Rightarrow> node_id \<Rightarrow> inbox_frame list \<Rightarrow> mailbox \<Rightarrow> mailbox \<Rightarrow> bool" where
  "fetch_leaves P me v host sent mb mb' \<longleftrightarrow> (\<forall>f \<in> set sent. f \<noteq> In_Open \<longrightarrow> told_rightly P v host)
     \<and> (\<exists>xs. do_acts P xs mb = Some mb' \<and> takes xs = [] \<and> forgets xs = []
          \<and> (\<forall>m \<in> set (filed_by xs). arrives me host m \<and> told_rightly P v host))"

lemma fetch_leaves_none: "(\<And>f. f \<in> set sent \<Longrightarrow> f \<noteq> In_Open \<Longrightarrow> told_rightly P v host) \<Longrightarrow> fetch_leaves P me v host sent mb mb"
  unfolding fetch_leaves_def by (auto intro!: exI[of _ "[]"])

lemma fetch_leaves_trans:
  assumes "fetch_leaves P me v host s1 mb mb1" "fetch_leaves P me v host s2 mb1 mb2"
  shows "fetch_leaves P me v host (s1 @ s2) mb mb2"
proof -
  obtain xs ys where "do_acts P xs mb = Some mb1" "takes xs = []" "forgets xs = []"
      "\<forall>m \<in> set (filed_by xs). arrives me host m \<and> told_rightly P v host"
    and "do_acts P ys mb1 = Some mb2" "takes ys = []" "forgets ys = []"
      "\<forall>m \<in> set (filed_by ys). arrives me host m \<and> told_rightly P v host"
    using assms unfolding fetch_leaves_def by blast
  then have "do_acts P (xs @ ys) mb = Some mb2 \<and> takes (xs @ ys) = [] \<and> forgets (xs @ ys) = []
      \<and> (\<forall>m \<in> set (filed_by (xs @ ys)). arrives me host m \<and> told_rightly P v host)"
    by (auto simp: do_acts_append)
  then show ?thesis using assms unfolding fetch_leaves_def by auto
qed

lemma fetch_leaves_same:
  assumes "fetch_leaves P me u host s mb mb'" "same_vouching v u"
  shows "fetch_leaves P me v host s mb mb'"
  using assms told_rightly_same[OF assms(2)] unfolding fetch_leaves_def by blast

lemma fetch_once_leaves:
  assumes "fetch_once P me host hello wait now at sofar l ((v, st), mb) = (x, sent, (v', st'), mb')" "vouch_ok P v"
  shows "same_vouching v v' \<and> vouch_ok P v' \<and> fetch_leaves P me v host sent mb mb'"
proof -
  obtain r fs v1 st1 where s: "fetch_speak P host hello wait l (v, st) = (r, fs, v1, st1)" by (metis surj_pair)
  note t = fetch_speak_told[OF s assms(2)]
  have none: "fetch_leaves P me v host fs mb mb" using t(3) by (rule fetch_leaves_none)
  have v: "v' = v1" using assms(1) s
    by (auto simp: fetch_once_def split: sum.splits option.splits inbox_frame.splits if_splits prod.splits)
  show ?thesis
  proof (cases "\<exists>n ms rest. r = Inr n \<and> read_inbox P (drop n (hl_says l (inbox_bytes P fs) False)) = (Inr (Some (In_Deliver ms)), rest)")
    case False
    then have "sent = fs \<and> mb' = mb"
      using assms(1) s by (auto simp: fetch_once_def split: sum.splits option.splits inbox_frame.splits prod.splits)
    then show ?thesis using t(1,2) v none by simp
  next
    case True
    then obtain n ms rest where r: "r = Inr n"
      "read_inbox P (drop n (hl_says l (inbox_bytes P fs) False)) = (Inr (Some (In_Deliver ms)), rest)" by blast
    obtain q mb1 where m: "mailbox_store P at (acceptable ms host me now) mb = (q, mb1)" by fastforce
    obtain xs where xs: "do_acts P xs mb = Some mb1" "set (filed_by xs) \<subseteq> set (acceptable ms host me now)" "takes xs = []" "forgets xs = []"
      using mailbox_store_acts[OF m] by blast
    have told: "told_rightly P v host" using t(4) r(1) by blast
    have "mb' = mb1" using assms(1) s r m by (auto simp: fetch_once_def split: sum.splits if_splits)
    moreover have "\<forall>m \<in> set (filed_by xs). arrives me host m"
      using xs(2) acceptable_arrives[OF r(2)[unfolded read_inbox_def]] by blast
    ultimately show ?thesis using t(1,2) v told xs unfolding fetch_leaves_def by blast
  qed
qed

lemma fetch_from_leaves:
  assumes "inbox_fetch_from P me host hello wait sofar cs ((v, st), mb) = (x, told, (v', st'), mb')" "vouch_ok P v"
  shows "same_vouching v v' \<and> vouch_ok P v' \<and> fetch_leaves P me v host (concat told) mb mb'"
  using assms
proof (induction cs arbitrary: wait sofar v st mb x told)
  case Nil
  then show ?case using fetch_leaves_none[of "[]"] by (auto simp: same_vouching_def)
next
  case (Cons c cs)
  show ?case
  proof (cases "fk_link c")
    case None
    then show ?thesis using Cons.prems fetch_leaves_none[of "[]"] by (auto simp: same_vouching_def)
  next
    case (Some l)
    obtain y sent v1 st1 mb1 where o: "fetch_once P me host hello wait (fk_now_ms c) (fk_note c) sofar l ((v, st), mb)
        = (y, sent, (v1, st1), mb1)" by (metis surj_pair)
    note f = fetch_once_leaves[OF o Cons.prems(2)]
    show ?thesis
    proof (cases y)
      case (Inl z)
      then show ?thesis using Cons.prems(1) Some o f by auto
    next
      case (Inr more)
      obtain told1 where r: "inbox_fetch_from P me host hello 0 more cs ((v1, st1), mb1) = (x, told1, (v', st'), mb')"
        "told = sent # told1" using Cons.prems(1) Some o Inr by (auto split: prod.splits)
      have g: "same_vouching v1 v' \<and> vouch_ok P v' \<and> fetch_leaves P me v1 host (concat told1) mb1 mb'"
        using Cons.IH[OF r(1)] f by blast
      have "fetch_leaves P me v host (concat told) mb mb'"
        using fetch_leaves_trans[of P me v host sent mb mb1 "concat told1" mb']
          fetch_leaves_same[of P me v1 host "concat told1" mb1 mb' v] g f r(2) by simp
      then show ?thesis using g f same_vouching_trans by blast
    qed
  qed
qed

section \<open>Every host\<close>

lemma fetch_all_leaves:
  assumes "fetch_all P me hello wait conns v hs (st, mb) = (ys, told, st', mb')" "vouch_ok P v"
  shows "(\<forall>(h, sent) \<in> set told. h \<in> set hs \<and> (\<forall>f \<in> set sent. f \<noteq> In_Open \<longrightarrow> told_rightly P v h))
    \<and> (\<exists>xs. do_acts P xs mb = Some mb' \<and> takes xs = [] \<and> forgets xs = []
         \<and> (\<forall>m \<in> set (filed_by xs). pm_to m = me \<and> push_message_ok m \<and> told_rightly P v (pm_from m)))
    \<and> set (map fst ys) \<subseteq> set hs"
  using assms(1)
proof (induction hs arbitrary: st mb ys told)
  case Nil
  then show ?case by (auto intro!: exI[of _ "[]"])
next
  case (Cons h hs)
  obtain x t1 v1 st1 mb1 where f: "inbox_fetch_from P me h hello wait 0 (conns h) ((v, st), mb) = (x, t1, (v1, st1), mb1)"
    by (metis surj_pair)
  obtain ys2 t2 where r: "fetch_all P me hello wait conns v hs (st1, mb1) = (ys2, t2, st', mb')"
    "ys = (case x of Inr z \<Rightarrow> [(h, z)] | Inl _ \<Rightarrow> []) @ ys2" "told = map (Pair h) t1 @ t2"
    using Cons.prems f by (auto split: prod.splits)
  have l: "fetch_leaves P me v h (concat t1) mb mb1" using fetch_from_leaves[OF f assms(2)] by blast
  then obtain xs1 where xs1: "do_acts P xs1 mb = Some mb1" "takes xs1 = []" "forgets xs1 = []"
    "\<forall>m \<in> set (filed_by xs1). arrives me h m \<and> told_rightly P v h" unfolding fetch_leaves_def by blast
  obtain xs2 where xs2: "do_acts P xs2 mb1 = Some mb'" "takes xs2 = []" "forgets xs2 = []"
    "\<forall>m \<in> set (filed_by xs2). pm_to m = me \<and> push_message_ok m \<and> told_rightly P v (pm_from m)"
    using Cons.IH[OF r(1)] by blast
  have "do_acts P (xs1 @ xs2) mb = Some mb' \<and> takes (xs1 @ xs2) = [] \<and> forgets (xs1 @ xs2) = []
     \<and> (\<forall>m \<in> set (filed_by (xs1 @ xs2)). pm_to m = me \<and> push_message_ok m \<and> told_rightly P v (pm_from m))"
    using xs1 xs2 by (auto simp: do_acts_append arrives_def)
  moreover have "\<forall>(k, sent) \<in> set told. k \<in> set (h # hs) \<and> (\<forall>f \<in> set sent. f \<noteq> In_Open \<longrightarrow> told_rightly P v k)"
    using l Cons.IH[OF r(1)] r(3) unfolding fetch_leaves_def by fastforce
  moreover have "set (map fst ys) \<subseteq> set (h # hs)"
    using Cons.IH[OF r(1)] r(2) by (auto split: sum.splits)
  ultimately show ?case by blast
qed

section \<open>The targets\<close>

lemma told_rightly_listed:
  assumes "told_rightly P vo host"
  shows "\<exists>v e head w now. view_verify P v (vo_root vo) = Inr () \<and> e \<in> set (vw_entries v) \<and> entry_verify P (vo_root vo) e = Inr ()
    \<and> host \<in> set (sv_hosts (se_service e)) \<and> h_version (sh_head head) = h_version (sh_head (vw_head v))
    \<and> head_hash P head = head_hash P (vw_head v) \<and> fresh_verify P w head = Inr () \<and> fresh_is_current w now
    \<and> (fr_directory w \<noteq> host \<or> h_directories (sh_head head) = [host] \<and> (\<forall>d \<in> set (vo_known vo). d = host))"
proof -
  obtain u head w now where u: "same_vouching vo u" "vouch_ok P u" "host_vouched P u head w host now"
    using assms by (auto simp: told_rightly_def)
  obtain e where e: "e \<in> set (vw_entries (hv_view (vo_held u)))" "host \<in> set (sv_hosts (se_service e))"
    using vouch_serves_entry u(3) by (auto simp: host_vouched_def)
  have v: "view_verify P (hv_view (vo_held u)) (vo_root vo) = Inr ()" using u(1,2) by (simp add: vouch_ok_def same_vouching_def)
  then have "entry_verify P (vo_root vo) e = Inr ()" using e(1) by (simp add: view_verify_Inr)
  moreover have "h_version (sh_head head) = h_version (sh_head (vw_head (hv_view (vo_held u))))"
    "head_hash P head = head_hash P (vw_head (hv_view (vo_held u)))"
    "fresh_verify P w head = Inr ()" "fresh_is_current w now"
    "fr_directory w \<noteq> host \<or> h_directories (sh_head head) = [host] \<and> (\<forall>d \<in> set (vo_known vo). d = host)"
    using u(1,3)
    by (auto simp: host_vouched_def vouch_version_def hv_version_def fresh_vouches_Inr vouch_takes_def list_all_iff same_vouching_def)
  ultimately show ?thesis using v e by blast
qed

lemma view_read_verified: "view_read P root ks = Inr (Some h) \<Longrightarrow> view_verify P (hv_view h) root = Inr ()"
  by (auto simp: view_read_def and_then_Inr_iff map_err_Inr_iff split: disk_file.splits)

lemma inbox_targets_ok:
  assumes "inbox_targets P fe now rf st = Some (ts, v)" "refresher_ok P (if_root fe) rf"
  shows "vouch_ok P v" "vo_root v = if_root fe" "if_me fe \<notin> set ts"
proof -
  obtain held where h: "view_read P (if_root fe) (cs_home st) = Inr (Some held)"
    "ts = filter (\<lambda>h. h \<noteq> if_me fe) (hosts_of (hv_view held) (map se_name (vw_entries (hv_view held))))"
    "v = vouch_keeping_in P Sink_keystore now st (vouch_refreshing rf
                (vouch_knowing (joined_directories (cs_home st)) (vouching_new (if_root fe) held Any_service)))"
    using assms(1) by (auto simp: inbox_targets_def split: sum.splits option.splits if_splits)
  then show "vouch_ok P v" "vo_root v = if_root fe" "if_me fe \<notin> set ts"
    using view_read_verified[OF h(1)] assms(2)
    by (auto simp: vouch_ok_def vouch_keeping_in_def vouch_refreshing_def vouch_knowing_def vouching_new_def)
qed

section \<open>A round\<close>

text \<open>A host that some entry signed by the root lists.\<close>

definition listed_host :: "prims \<Rightarrow> node_id \<Rightarrow> node_id \<Rightarrow> bool" where
  "listed_host P root host \<longleftrightarrow> (\<exists>v e. view_verify P v root = Inr () \<and> e \<in> set (vw_entries v)
     \<and> entry_verify P root e = Inr () \<and> host \<in> set (sv_hosts (se_service e)))"

lemma told_rightly_host: "told_rightly P v host \<Longrightarrow> listed_host P (vo_root v) host"
  using told_rightly_listed[of P v host] unfolding listed_host_def by blast

definition from_listed :: "prims \<Rightarrow> node_id \<Rightarrow> node_id \<Rightarrow> push_message \<Rightarrow> bool" where
  "from_listed P root me m \<longleftrightarrow> pm_to m = me \<and> push_message_ok m \<and> listed_host P root (pm_from m)"

text \<open>What the rest of the machine does in a round: other tasks and readers only make acts of the mailbox,
  and write only messages from listed hosts; a refresh gives a view the root signed.\<close>

definition round_ok :: "prims \<Rightarrow> node_id \<Rightarrow> node_id \<Rightarrow> inbox_round \<Rightarrow> bool" where
  "round_ok P root me r \<longleftrightarrow> refresher_ok P root (io_refresher r)
     \<and> (\<forall>st. acts_on P (from_listed P root me) (\<lambda>mb. snd (io_others r (st, mb))))
     \<and> (\<forall>n. acts_on P (from_listed P root me) (io_readers r n))"

lemma fetch_round_leaves:
  assumes "inbox_fetch_round P a fe r (st, mb) = (ans, told, st', mb')" "refresher_ok P (if_root fe) (io_refresher r)"
  shows "(\<forall>(h, sent) \<in> set told. \<forall>f \<in> set sent. f \<noteq> In_Open \<longrightarrow> (\<exists>v. vo_root v = if_root fe \<and> told_rightly P v h))
    \<and> (\<exists>xs. do_acts P xs mb = Some mb' \<and> takes xs = [] \<and> forgets xs = []
         \<and> (\<forall>m \<in> set (filed_by xs). from_listed P (if_root fe) (if_me fe) m))"
proof (cases "inbox_targets P fe (io_now r) (io_refresher r) st")
  case None
  then show ?thesis using assms(1) by (auto simp: inbox_fetch_round_def intro!: exI[of _ "[]"])
next
  case (Some tv)
  obtain ts v where tv: "tv = (ts, v)" by (cases tv)
  note ok = inbox_targets_ok[OF Some[unfolded tv] assms(2)]
  obtain ys where f: "fetch_all P (if_me fe) (inbox_hello (if_token fe)) (inbox_wait a r mb) (io_conns r) v
      (io_order r ts) (st, mb) = (ys, told, st', mb')"
    using assms(1) Some tv by (auto simp: inbox_fetch_round_def split: prod.splits)
  note l = fetch_all_leaves[OF f ok(1)]
  then obtain xs where xs: "do_acts P xs mb = Some mb'" "takes xs = []" "forgets xs = []"
    "\<forall>m \<in> set (filed_by xs). pm_to m = if_me fe \<and> push_message_ok m \<and> told_rightly P v (pm_from m)" by blast
  have "\<forall>m \<in> set (filed_by xs). from_listed P (if_root fe) (if_me fe) m"
    using xs(4) told_rightly_host[of P v] ok(2) by (auto simp: from_listed_def)
  then show ?thesis using xs(1-3) l ok(2) by fastforce
qed

section \<open>The loop\<close>

text \<open>What one run of the loop comes to: acts of the mailbox, the taking of what is printed among them.\<close>

definition loop_leaves :: "prims \<Rightarrow> inbox_fetcher \<Rightarrow> mailbox \<Rightarrow> inbox_run \<Rightarrow> bool" where
  "loop_leaves P fe mb x \<longleftrightarrow>
     (\<forall>(h, sent) \<in> set (ib_told x). \<forall>f \<in> set sent. f \<noteq> In_Open \<longrightarrow> (\<exists>v. vo_root v = if_root fe \<and> told_rightly P v h))
   \<and> (\<exists>xs. do_acts P xs mb = Some (snd (ib_state x)) \<and> subseq (ib_printed x) (takes xs)
        \<and> (\<forall>m \<in> set (filed_by xs). from_listed P (if_root fe) (if_me fe) m))"

lemma take_each_subset: "take_each others n ms mb = (taken, mb') \<Longrightarrow> set taken \<subseteq> set ms"
proof (induction ms arbitrary: n mb taken)
  case (Cons m ms)
  obtain ok mb1 where "mark_read (pm_id m) (others n mb) = (ok, mb1)" by fastforce
  then show ?case using Cons.prems Cons.IH[of "Suc n" mb1] by (fastforce split: prod.splits if_splits)
qed simp

lemma take_unread_subset: "take_unread P others mb = (taken, mb') \<Longrightarrow> set taken \<subseteq> set (dir_messages P (mb_new mb))"
  using take_each_subset by (fastforce simp: take_unread_def set_load_dir split: prod.splits)

lemma round_ends:
  assumes "inbox_fetch_round P a fe r (st, mb) = (ans, told, st1, mb1)" "io_others r (st1, mb1) = (st2, mb2)"
    "take_notes mb2 = (notes, mb3)" "take_unread P (io_readers r) mb3 = (ms, mb4)"
    "round_ok P (if_root fe) (if_me fe) r"
  shows "\<exists>xs ys. do_acts P xs mb = Some mb3 \<and> do_acts P ys mb3 = Some mb4 \<and> subseq ms (takes ys)
    \<and> (\<forall>m \<in> set (filed_by xs) \<union> set (filed_by ys). from_listed P (if_root fe) (if_me fe) m)"
proof -
  let ?W = "from_listed P (if_root fe) (if_me fe)"
  have ok: "refresher_ok P (if_root fe) (io_refresher r)" "acts_on P ?W (\<lambda>mb. snd (io_others r (st1, mb)))"
    "acts_on P ?W (io_readers r n)" for n
    using assms(5) by (auto simp: round_ok_def)
  obtain xs where xs: "do_acts P xs mb = Some mb1" "\<forall>m \<in> set (filed_by xs). ?W m"
    using fetch_round_leaves[OF assms(1) ok(1)] by blast
  obtain ys where ys: "do_acts P ys mb1 = Some mb2" "\<forall>m \<in> set (filed_by ys). ?W m"
    using ok(2) assms(2) unfolding acts_on_def by (metis snd_conv)
  obtain ns where ns: "do_acts P [Noted ns] mb2 = Some mb3" using take_notes_acts[OF assms(3)] by blast
  obtain zs where zs: "do_acts P zs mb3 = Some mb4" "\<forall>m \<in> set (filed_by zs). ?W m" "subseq ms (takes zs)"
    using take_unread_acts[OF assms(4) ok(3)] by blast
  have "do_acts P (xs @ ys @ [Noted ns]) mb = Some mb3" using xs(1) ys(1) ns by (simp add: do_acts_append)
  moreover have "\<forall>m \<in> set (filed_by (xs @ ys @ [Noted ns])) \<union> set (filed_by zs). ?W m" using xs(2) ys(2) zs(2) by auto
  ultimately show ?thesis using zs(1,3) by blast
qed

lemma from_listed_file:
  "json_law P \<Longrightarrow> hex_law P \<Longrightarrow> compact_law P \<Longrightarrow> from_listed P root me m \<Longrightarrow> file_message P (message_file P m) = Some m"
  by (simp add: from_listed_def file_message_file)

lemma loop_laws:
  assumes "json_law P" "hex_law P" "compact_law P" "\<forall>r \<in> set rs. round_ok P (if_root fe) (if_me fe) r"
    "mailbox_ok P mb" "\<And>m. from_listed P (if_root fe) (if_me fe) m \<Longrightarrow> Q m"
  shows "loop_leaves P fe mb (inbox_read_loop P a fe rs (st, mb))
    \<and> (mailbox_all P Q mb \<longrightarrow> (\<forall>m \<in> set (ib_printed (inbox_read_loop P a fe rs (st, mb))). Q m))"
  using assms(4,5)
proof (induction rs arbitrary: st mb)
  case Nil
  then show ?case by (auto simp: loop_leaves_def intro!: exI[of _ "[]"])
next
  case (Cons r rs)
  let ?W = "from_listed P (if_root fe) (if_me fe)" and ?x = "inbox_read_loop P a fe (r # rs) (st, mb)"
  obtain said refused told st1 mb1 where f: "inbox_fetch_round P a fe r (st, mb) = ((said, refused), told, st1, mb1)"
    by (metis surj_pair)
  obtain st2 mb2 where o': "io_others r (st1, mb1) = (st2, mb2)" by fastforce
  obtain told_notes mb3 where n: "take_notes mb2 = (told_notes, mb3)" by fastforce
  obtain ms mb4 where t: "take_unread P (io_readers r) mb3 = (ms, mb4)" by fastforce
  have rok: "round_ok P (if_root fe) (if_me fe) r" using Cons.prems(1) by simp
  obtain xs ys where acts: "do_acts P xs mb = Some mb3" "do_acts P ys mb3 = Some mb4" "subseq ms (takes ys)"
    "\<forall>m \<in> set (filed_by xs) \<union> set (filed_by ys). ?W m" using round_ends[OF f o' n t rok] by blast
  note filed = from_listed_file[OF assms(1-3)]
  have ok3: "mailbox_ok P mb3" "mailbox_all P Q mb \<Longrightarrow> mailbox_all P Q mb3"
    using do_acts_laws(1)[OF acts(1) Cons.prems(2)] do_acts_laws(4)[OF acts(1) Cons.prems(2), of Q] filed acts(4) assms(6) by blast+
  have ok4: "mailbox_ok P mb4" "mailbox_all P Q mb3 \<Longrightarrow> mailbox_all P Q mb4"
    using do_acts_laws(1)[OF acts(2) ok3(1)] do_acts_laws(4)[OF acts(2) ok3(1), of Q] filed acts(4) assms(6) by blast+
  have ms: "mailbox_all P Q mb \<Longrightarrow> \<forall>m \<in> set ms. Q m"
    using take_unread_subset[OF t] ok3(2) by (auto simp: mailbox_all_def)
  have told: "\<forall>(h, sent) \<in> set told. \<forall>f \<in> set sent. f \<noteq> In_Open \<longrightarrow> (\<exists>v. vo_root v = if_root fe \<and> told_rightly P v h)"
    using fetch_round_leaves[OF f] rok unfolding round_ok_def by blast
  have all: "do_acts P (xs @ ys) mb = Some mb4" "\<forall>m \<in> set (filed_by (xs @ ys)). ?W m" "subseq ms (takes (xs @ ys))"
    using acts by (auto simp: do_acts_append intro: list_emb_append2)
  consider (ended) "ib_printed ?x = ms" "ib_told ?x = told" "ib_state ?x = (st2, mb4)"
    | (more) "ms = []" "ib_printed ?x = ib_printed (inbox_read_loop P a fe rs (st2, mb4))"
        "ib_told ?x = told @ ib_told (inbox_read_loop P a fe rs (st2, mb4))"
        "ib_state ?x = ib_state (inbox_read_loop P a fe rs (st2, mb4))"
    by (cases "if ms = [] then refused else None"; cases "ms \<noteq> [] \<or> \<not> ia_wait a"; cases "io_over r")
      (auto simp: f o' n t Let_def split: if_splits)
  then show ?case
  proof cases
    case ended
    then have "loop_leaves P fe mb ?x" using all told unfolding loop_leaves_def by (auto intro!: exI[of _ "xs @ ys"])
    then show ?thesis using ended(1) ms by simp
  next
    case more
    let ?y = "inbox_read_loop P a fe rs (st2, mb4)"
    note ih = Cons.IH[OF _ ok4(1), of st2] Cons.prems(1)
    then obtain zs where zs: "do_acts P zs mb4 = Some (snd (ib_state ?y))" "subseq (ib_printed ?y) (takes zs)"
      "\<forall>m \<in> set (filed_by zs). ?W m" unfolding loop_leaves_def by auto
    have told': "\<forall>(h, sent) \<in> set (ib_told ?y). \<forall>f \<in> set sent. f \<noteq> In_Open \<longrightarrow> (\<exists>v. vo_root v = if_root fe \<and> told_rightly P v h)"
      using ih unfolding loop_leaves_def by auto
    have "do_acts P ((xs @ ys) @ zs) mb = Some (snd (ib_state ?x))"
      unfolding more(4) using all(1) zs(1) by (subst do_acts_append) simp
    moreover have "subseq (ib_printed ?x) (takes ((xs @ ys) @ zs))"
      unfolding more(2) using zs(2) by (subst acts_append(2)) (rule list_emb_append2)
    moreover have "\<forall>m \<in> set (filed_by ((xs @ ys) @ zs)). ?W m" using all(2) zs(3) by auto
    moreover have "\<forall>(h, sent) \<in> set (ib_told ?x). \<forall>f \<in> set sent. f \<noteq> In_Open \<longrightarrow> (\<exists>v. vo_root v = if_root fe \<and> told_rightly P v h)"
      unfolding more(3) using told told' by auto
    ultimately have "loop_leaves P fe mb ?x" unfolding loop_leaves_def by blast
    moreover have "mailbox_all P Q mb \<longrightarrow> (\<forall>m \<in> set (ib_printed ?x). Q m)"
      using ih ok3(2) ok4(2) more(2) by auto
    ultimately show ?thesis by blast
  qed
qed

end
