(* ===== verification/Inbox_Claims.thy ===== *)
theory Inbox_Claims
  imports Inbox_Loop Push_Host
begin

text \<open>
  What \<open>wires inbox\<close> promises: whom it takes messages from, what it prints and how often, what it keeps,
  what a host may forget, and its exit code.
\<close>

section \<open>Whom it trusts\<close>

lemma told_rightly_shown:
  assumes "told_rightly P vo host" "vo_root vo = root"
  shows "\<exists>v e head w now. view_verify P v root = Inr () \<and> e \<in> set (vw_entries v)
          \<and> entry_verify P root e = Inr () \<and> host \<in> set (sv_hosts (se_service e))
          \<and> h_version (sh_head head) = h_version (sh_head (vw_head v)) \<and> head_hash P head = head_hash P (vw_head v)
          \<and> fresh_verify P w head = Inr () \<and> fresh_is_current w now
          \<and> (fr_directory w \<noteq> host \<or> h_directories (sh_head head) = [host])"
proof -
  obtain v e head w now where t: "view_verify P v root = Inr ()" "e \<in> set (vw_entries v)" "entry_verify P root e = Inr ()"
    "host \<in> set (sv_hosts (se_service e))" "h_version (sh_head head) = h_version (sh_head (vw_head v))"
    "head_hash P head = head_hash P (vw_head v)" "fresh_verify P w head = Inr ()" "fresh_is_current w now"
    "fr_directory w \<noteq> host \<or> h_directories (sh_head head) = [host]"
    using told_rightly_listed[OF assms(1)] assms(2) by fast
  show ?thesis by (rule exI[of _ v], rule exI[of _ e], rule exI[of _ head], rule exI[of _ w], rule exI[of _ now]) (intro conjI t)
qed


section \<open>Printed once\<close>


section \<open>What it keeps\<close>

text \<open>The messages of a batch that are new, each id once.\<close>

fun fresh_of :: "push_id set \<Rightarrow> push_message list \<Rightarrow> push_message list" where
  "fresh_of held [] = []"
| "fresh_of held (m # ms) = (if pm_id m \<in> held then fresh_of held ms else m # fresh_of (insert (pm_id m) held) ms)"

abbreviation held_ids :: "mailbox \<Rightarrow> push_id set" where
  "held_ids mb \<equiv> fst ` set (mb_new mb) \<union> fst ` set (mb_read mb)"

abbreviation by_time :: "push_message list \<Rightarrow> push_message list" where
  "by_time \<equiv> sort_key (\<lambda>m. (pm_at_ms m, pm_id m))"

lemma mset_dir_messages_put:
  "bm_ok d \<Longrightarrow> i \<notin> fst ` set d \<Longrightarrow> file_message P f = Some m \<Longrightarrow>
    mset (dir_messages P (bm_put i f d)) = add_mset m (mset (dir_messages P d))"
proof (induction i f d rule: bm_put.induct)
  case (2 k v k' v' d)
  then show ?case by (auto split: option.splits)
qed simp

lemma store_each_stores:
  assumes "json_law P" "hex_law P" "compact_law P"
    and "mailbox_ok P mb" "mb_writable mb" "\<forall>m \<in> set ms. push_message_ok m"
  shows "\<exists>out' mb'. store_each P ms out mb = (Inr out', mb') \<and> mailbox_ok P mb' \<and> mb_writable mb'
    \<and> mb_read mb' = mb_read mb \<and> mb_notes mb' = mb_notes mb
    \<and> mset (dir_messages P (mb_new mb')) = mset (dir_messages P (mb_new mb)) + mset (fresh_of (held_ids mb) ms)
    \<and> sb_ids out' = sb_ids out @ map pm_id ms \<and> sb_fresh out' = sb_fresh out + length (fresh_of (held_ids mb) ms)
    \<and> sb_evicted out' = sb_evicted out"
  using assms(4-6)
proof (induction ms arbitrary: out mb)
  case (Cons m ms)
  let ?out = "out \<lparr> sb_ids := sb_ids out @ [pm_id m] \<rparr>"
  have holds: "mb_holds mb (pm_id m) \<longleftrightarrow> pm_id m \<in> held_ids mb" by (simp add: mb_holds_def bm_has_mem)
  show ?case
  proof (cases "mb_holds mb (pm_id m)")
    case True
    then have "store_each P (m # ms) out mb = store_each P ms ?out mb" by simp
    moreover have "fresh_of (held_ids mb) (m # ms) = fresh_of (held_ids mb) ms" using True holds by simp
    ultimately show ?thesis using Cons.IH[OF Cons.prems(1,2), of ?out] Cons.prems(3) by simp
  next
    case False
    let ?mb = "mb \<lparr> mb_new := bm_put (pm_id m) (message_file P m) (mb_new mb) \<rparr>"
    let ?out2 = "?out \<lparr> sb_fresh := sb_fresh out + 1 \<rparr>"
    have f: "file_message P (message_file P m) = Some m" using file_message_file[OF assms(1-3)] Cons.prems(3) by simp
    have "do_act P (Wrote m) mb = Some ?mb" using False by simp
    from do_act_laws(1)[OF this Cons.prems(1)] f have ok: "mailbox_ok P ?mb" by blast
    have n: "bm_ok (mb_new mb)" "pm_id m \<notin> fst ` set (mb_new mb)"
      using Cons.prems(1) False by (auto simp: mailbox_ok_def files_ok_def holds)
    have "held_ids ?mb = insert (pm_id m) (held_ids mb)" by auto
    moreover have "store_each P (m # ms) out mb = store_each P ms ?out2 ?mb" using False Cons.prems(2) by simp
    moreover have "fresh_of (held_ids mb) (m # ms) = m # fresh_of (insert (pm_id m) (held_ids mb)) ms"
      using False holds by simp
    ultimately show ?thesis
      using Cons.IH[OF ok, of ?out2] Cons.prems(2,3) mset_dir_messages_put[OF n f] by simp
  qed
qed simp

lemma dir_messages_delete:
  "files_ok P d \<Longrightarrow> dir_messages P (bm_del i d) = filter (\<lambda>m. pm_id m \<noteq> i) (dir_messages P d)"
proof -
  assume "files_ok P d"
  then have "\<forall>(i, f) \<in> set d. map_option pm_id (file_message P f) = Some i" by (simp add: files_ok_def)
  then show ?thesis by (induction d) (auto simp: bm_del_def)
qed

lemma load_dir_delete: "files_ok P d \<Longrightarrow> load_dir P (bm_del i d) = filter (\<lambda>m. pm_id m \<noteq> i) (load_dir P d)"
  by (simp add: load_dir_eq dir_messages_delete filter_sort)

lemma evict_each_all:
  assumes "mailbox_ok P mb" "mb_writable mb" "set is \<subseteq> fst ` set (mb_new mb)" "distinct is"
  shows "\<exists>mb'. evict_each is n mb = (n + length is, mb') \<and> mailbox_ok P mb' \<and> mb_writable mb' \<and> mb_notes mb' = mb_notes mb
    \<and> load_dir P (mb_new mb') = filter (\<lambda>m. pm_id m \<notin> set is) (load_dir P (mb_new mb))
    \<and> fst ` set (mb_read mb') = set is \<union> fst ` set (mb_read mb)"
  using assms
proof (induction "is" arbitrary: n mb)
  case (Cons i "is")
  obtain f where f: "bm_get (mb_new mb) i = Some f" using Cons.prems(3) by (metis bm_has_iff bm_has_mem insert_subset list.set(2) option.exhaust_sel)
  let ?mb = "mb \<lparr> mb_new := bm_del i (mb_new mb), mb_read := bm_put i f (mb_read mb) \<rparr>"
  have m: "mark_read i mb = (True, ?mb)" using f Cons.prems(2) by (simp add: mark_read_def)
  note r = mark_read_True[OF m Cons.prems(1)]
  have "set is \<subseteq> fst ` set (mb_new ?mb)" "distinct is" using r(2) Cons.prems(3,4) by auto
  from Cons.IH[OF r(1) _ this, of "n + 1"] Cons.prems(2) obtain mb' where mb': "evict_each is (n + 1) ?mb = (n + 1 + length is, mb')"
    "mailbox_ok P mb'" "mb_writable mb'" "mb_notes mb' = mb_notes mb"
    "load_dir P (mb_new mb') = filter (\<lambda>m. pm_id m \<notin> set is) (load_dir P (mb_new ?mb))"
    "fst ` set (mb_read mb') = set is \<union> fst ` set (mb_read ?mb)" by auto
  have "files_ok P (mb_new mb)" using Cons.prems(1) by (simp add: mailbox_ok_def)
  then have "load_dir P (mb_new ?mb) = filter (\<lambda>m. pm_id m \<noteq> i) (load_dir P (mb_new mb))" by (simp add: load_dir_delete)
  then show ?case using mb' m r(3) by (auto intro!: exI[of _ mb'] filter_cong)
qed simp

lemma evictions_oldest: "evictions (map (\<lambda>m. (pm_at_ms m, pm_id m)) (by_time ms)) n = map pm_id (take (length ms - n) (by_time ms))"
proof -
  have "sort (map (\<lambda>m. (pm_at_ms m, pm_id m)) (by_time ms)) = map (\<lambda>m. (pm_at_ms m, pm_id m)) (by_time ms)"
    by (rule sorted_sort_id) simp
  then show ?thesis by (simp add: evictions_def take_map)
qed

lemma filter_drop_distinct:
  "distinct (map g xs) \<Longrightarrow> filter (\<lambda>x. g x \<notin> set (map g (take k xs))) xs = drop k xs"
proof (induction xs arbitrary: k)
  case (Cons x xs)
  show ?case
  proof (cases k)
    case (Suc j)
    have "filter (\<lambda>y. g y \<notin> set (map g (take k (x # xs)))) xs = filter (\<lambda>y. g y \<notin> set (map g (take j xs))) xs"
      using Cons.prems Suc by (intro filter_cong) (auto simp: image_iff)
    then show ?thesis using Cons Suc by simp
  qed simp
qed simp

lemma fresh_of_covers: "m \<in> set ms \<Longrightarrow> pm_id m \<in> held \<union> pm_id ` set (fresh_of held ms)"
  by (induction held ms rule: fresh_of.induct) auto

text \<open>
  C13: the mailbox keeps the newest 256. Storing a batch acknowledges every id of it; a message already
  held, unread or read, is not stored again; and of the unread ones with the new ones, in the order of
  the time their host gave them, exactly the newest 256 are unread afterwards. The older ones are not
  lost from memory: they count as read, and a note says that some were evicted.
\<close>

theorem mailbox_keeps_newest:
  assumes "json_law P" "hex_law P" "compact_law P" "mailbox_ok P mb" "mb_writable mb"
    and "\<forall>m \<in> set ms. push_message_ok m" "length (mb_new mb) \<le> 256"
    and "unread = by_time (load_dir P (mb_new mb) @ fresh_of (held_ids mb) ms)"
  shows "\<exists>out mb'. mailbox_store P at ms mb = (Inr out, mb') \<and> sb_ids out = map pm_id ms
    \<and> mailbox_ok P mb' \<and> length (mb_new mb') \<le> 256
    \<and> load_dir P (mb_new mb') = drop (length unread - 256) unread
    \<and> (\<forall>m \<in> set (take (length unread - 256) unread). pm_id m \<in> fst ` set (mb_read mb'))
    \<and> (\<forall>m \<in> set ms. mb_holds mb' (pm_id m))
    \<and> mb_notes mb' = (if length unread \<le> 256 then mb_notes mb
         else bm_put (note_name P at) (Text (eviction_note (length unread - 256))) (mb_notes mb))"
proof -
  let ?fresh = "fresh_of (held_ids mb) ms" and ?k = "length unread - 256"
  obtain out1 mb1 where s: "store_each P ms \<lparr> sb_ids = [], sb_fresh = 0, sb_evicted = 0 \<rparr> mb = (Inr out1, mb1)"
    "mailbox_ok P mb1" "mb_writable mb1" "mb_read mb1 = mb_read mb" "mb_notes mb1 = mb_notes mb"
    "mset (dir_messages P (mb_new mb1)) = mset (dir_messages P (mb_new mb)) + mset ?fresh"
    "sb_ids out1 = map pm_id ms" "sb_fresh out1 = length ?fresh" "sb_evicted out1 = 0"
    using store_each_stores[OF assms(1-6), of "\<lparr> sb_ids = [], sb_fresh = 0, sb_evicted = 0 \<rparr>"] by auto
  have files: "files_ok P (mb_new mb1)" "files_ok P (mb_new mb)" using s(2) assms(4) by (simp_all add: mailbox_ok_def)
  have ids: "distinct (map pm_id (load_dir P (mb_new mb1)))" by (rule files_okD(4)[OF files(1)])
  have load: "load_dir P (mb_new mb1) = unread"
  proof -
    have "mset (load_dir P (mb_new mb1)) = mset (load_dir P (mb_new mb) @ ?fresh)" using s(6) by (simp add: load_dir_eq)
    moreover have "inj_on (\<lambda>m. (pm_at_ms m, pm_id m)) (set (load_dir P (mb_new mb1)))"
      using ids by (auto simp: distinct_map inj_on_def)
    moreover have "set (load_dir P (mb_new mb1)) = set (load_dir P (mb_new mb) @ ?fresh)" using calculation(1) by (rule mset_eq_setD)
    ultimately have "by_time (load_dir P (mb_new mb) @ ?fresh) = load_dir P (mb_new mb1)"
      by (intro sort_key_inj_key_eq) (simp_all only: load_dir_eq sorted_sort_key)
    then show ?thesis using assms(8) by simp
  qed
  have len: "length (mb_new mb1) = length unread" using files_okD(3)[OF files(1)] load by simp
  have ev: "evictions (map (\<lambda>m. (pm_at_ms m, pm_id m)) (load_dir P (mb_new mb1))) max_unread = map pm_id (take ?k unread)"
    using evictions_oldest[of "load_dir P (mb_new mb) @ ?fresh" max_unread] load assms(8) by (simp add: max_unread_def)
  have keys: "set (map pm_id unread) = fst ` set (mb_new mb1)"
    using files_okD(2)[OF files(1)] load set_load_dir[of P "mb_new mb1"] by (metis list.set_map)
  have sub: "set (map pm_id (take ?k unread)) \<subseteq> fst ` set (mb_new mb1)" "distinct (map pm_id (take ?k unread))"
  proof -
    show "set (map pm_id (take ?k unread)) \<subseteq> fst ` set (mb_new mb1)"
      using image_mono[OF set_take_subset, of pm_id ?k unread] keys by simp
    show "distinct (map pm_id (take ?k unread))" using ids load by (simp add: take_map[symmetric])
  qed
  obtain mb2 where e: "evict_each (map pm_id (take ?k unread)) 0 mb1 = (?k, mb2)" "mailbox_ok P mb2" "mb_writable mb2"
    "mb_notes mb2 = mb_notes mb1" "load_dir P (mb_new mb2) = drop ?k unread"
    "fst ` set (mb_read mb2) = pm_id ` set (take ?k unread) \<union> fst ` set (mb_read mb1)"
    using evict_each_all[OF s(2,3) sub, of 0] filter_drop_distinct[of pm_id unread ?k] ids load by auto
  have keys2: "fst ` set (mb_new mb2) = pm_id ` set (drop ?k unread)"
    using files_okD(2)[of P "mb_new mb2"] e(2,5) set_load_dir[of P "mb_new mb2"]
    by (metis list.set_map mailbox_ok_def)
  have all: "held_ids mb1 = held_ids mb \<union> pm_id ` set ?fresh" "held_ids mb2 = held_ids mb1"
  proof -
    have "pm_id ` set unread = fst ` set (mb_new mb) \<union> pm_id ` set ?fresh"
      using files_okD(2)[OF files(2)] assms(8) set_load_dir[of P "mb_new mb"] by (simp add: image_Un) (metis list.set_map)
    then show "held_ids mb1 = held_ids mb \<union> pm_id ` set ?fresh" using keys s(4) by auto
    have "set unread = set (take ?k unread) \<union> set (drop ?k unread)" by (metis append_take_drop_id set_append)
    then show "held_ids mb2 = held_ids mb1" using keys keys2 e(6) by auto
  qed
  have covered: "pm_id m \<in> held_ids mb1" if "m \<in> set ms" for m
    using fresh_of_covers[OF that, of "held_ids mb"] all(1) by blast
  have covered2: "mb_holds mb2 (pm_id m)" if "m \<in> set ms" for m
    using covered[OF that] all(2) unfolding mb_holds_def bm_has_mem by blast
  have short: "length (mb_new mb2) \<le> 256"
    using files_okD(3)[of P "mb_new mb2"] e(2,5) by (simp add: mailbox_ok_def)
  show ?thesis
  proof (cases "?fresh = []")
    case True
    then have "length unread \<le> 256" using assms(7,8) files_okD(3)[OF files(2)] by simp
    moreover have "mailbox_store P at ms mb = (Inr out1, mb1)" using True s by (simp add: mailbox_store_def)
    ultimately show ?thesis using s(2,5,7) load len covered by (auto simp: mb_holds_def bm_has_mem)
  next
    case False
    have st: "mailbox_store P at ms mb = (Inr (out1 \<lparr> sb_evicted := ?k \<rparr>),
        if ?k = 0 then mb2 else mb2 \<lparr> mb_notes := bm_put (note_name P at) (Text (eviction_note ?k)) (mb_notes mb) \<rparr>)"
      using s e ev False by (simp add: mailbox_store_def Let_def)
    show ?thesis
      by (rule exI[of _ "out1 \<lparr> sb_evicted := ?k \<rparr>"], rule exI, rule conjI[OF st])
        (use s(5,7) e(2,4,5,6) short covered2 in \<open>auto simp: mb_holds_def mailbox_ok_def\<close>)
  qed
qed

section \<open>What a host may forget\<close>

lemma acts_keep_held:
  assumes "do_acts P xs mb = Some mb'" "mailbox_ok P mb" "forgets xs = []"
    "\<And>m. m \<in> set (filed_by xs) \<Longrightarrow> file_message P (message_file P m) = Some m" "mb_holds mb i"
  shows "mb_holds mb' i"
  using do_acts_laws(3)[OF assms(1,2,4), of i] assms(3,5) by (cases "mb_holds mb' i") simp_all

lemma store_each_holds:
  assumes "store_each P ms out mb = (Inr out', mb')" "mailbox_ok P mb"
    "\<And>m. m \<in> set ms \<Longrightarrow> file_message P (message_file P m) = Some m"
  shows "\<forall>m \<in> set ms. mb_holds mb' (pm_id m)"
  using assms
proof (induction ms arbitrary: out mb)
  case (Cons m ms)
  let ?mb = "mb \<lparr> mb_new := bm_put (pm_id m) (message_file P m) (mb_new mb) \<rparr>"
  define mb1 where "mb1 = (if mb_holds mb (pm_id m) then mb else ?mb)"
  have "\<exists>out1. store_each P ms out1 mb1 = (Inr out', mb')"
    using Cons.prems(1) by (auto simp: mb1_def Let_def split: if_splits)
  then obtain out1 where s: "store_each P ms out1 mb1 = (Inr out', mb')" by blast
  have ok: "mailbox_ok P mb1"
  proof (cases "mb_holds mb (pm_id m)")
    case False
    then have "do_act P (Wrote m) mb = Some mb1" by (simp add: mb1_def)
    from do_act_laws(1)[OF this Cons.prems(2)] Cons.prems(3) show ?thesis by simp
  qed (use Cons.prems(2) in \<open>simp add: mb1_def\<close>)
  obtain xs where xs: "do_acts P xs mb1 = Some mb'" "set (filed_by xs) \<subseteq> set ms" "forgets xs = []"
    using store_each_acts[OF s] by blast
  have "mb_holds mb1 (pm_id m)" by (simp add: mb1_def mb_holds_def bm_has_mem)
  then have "mb_holds mb' (pm_id m)" using acts_keep_held[OF xs(1) ok xs(3)] xs(2) Cons.prems(3) by auto
  then show ?case using Cons.IH[OF s ok] Cons.prems(3) by simp
qed simp

lemma mailbox_store_holds:
  assumes "mailbox_store P at ms mb = (Inr out, mb')" "mailbox_ok P mb"
    "\<And>m. m \<in> set ms \<Longrightarrow> file_message P (message_file P m) = Some m"
  shows "\<forall>m \<in> set ms. mb_holds mb' (pm_id m)"
proof -
  obtain out1 mb1 where s: "store_each P ms \<lparr> sb_ids = [], sb_fresh = 0, sb_evicted = 0 \<rparr> mb = (Inr out1, mb1)"
    using assms(1) by (auto simp: mailbox_store_def split: prod.splits sum.splits)
  obtain n mb2 where e: "evict_each (evictions (map (\<lambda>m. (pm_at_ms m, pm_id m)) (load_dir P (mb_new mb1))) max_unread) 0 mb1 = (n, mb2)"
    by fastforce
  obtain xs where xs: "do_acts P xs mb = Some mb1" "set (filed_by xs) \<subseteq> set ms" using store_each_acts[OF s] by blast
  have ok: "mailbox_ok P mb1" using do_acts_laws(1)[OF xs(1) assms(2)] xs(2) assms(3) by blast
  obtain ys where ys: "do_acts P ys mb1 = Some mb2" "filed_by ys = []" "forgets ys = []" using evict_each_acts[OF e, of P] by blast
  have held: "\<forall>m \<in> set ms. mb_holds mb1 (pm_id m)" by (rule store_each_holds[OF s assms(2,3)])
  then have "\<forall>m \<in> set ms. mb_holds mb2 (pm_id m)" using acts_keep_held[OF ys(1) ok ys(3)] ys(2) by simp
  moreover have "mb' = mb1 \<or> mb_new mb' = mb_new mb2 \<and> mb_read mb' = mb_read mb2"
    using assms(1) s e by (auto simp: mailbox_store_def Let_def split: if_splits)
  ultimately show ?thesis using held by (auto simp: mb_holds_def)
qed

lemma fetch_poll_undisturbed:
  assumes "fetch_poll caller until looks st = (batch, st')" "\<forall>l \<in> set looks. \<forall>s. ph_queue (pl_others l s) = ph_queue s"
  shows "ph_queue st' = ph_queue st \<and> set batch \<subseteq> qe_message ` set (queue_of (ph_queue st) caller)"
  using assms
proof (induction looks arbitrary: st)
  case (Cons l looks)
  have same: "ph_queue (pl_others l st) = ph_queue st" using Cons.prems(2) by simp
  have "set (queue_pending (ph_queue st) caller (pl_now_ms l) max_batch) \<subseteq> qe_message ` set (queue_of (ph_queue st) caller)"
    by (auto simp: queue_pending_def dest: in_set_takeD)
  then show ?case using Cons.prems Cons.IH[of "pl_others l st"] same by (auto simp: Let_def split: if_splits)
qed simp


section \<open>Witnesses\<close>

definition demo_message :: push_message where
  "demo_message = \<lparr> pm_id = 5, pm_from = 2, pm_to = 7, pm_subject = ''s'', pm_body = [CHR ''a'', CHR 0x0A, CHR ''b''],
     pm_at_ms = 0, pm_expires_ms = 1000 \<rparr>"

definition demo_newer :: push_message where
  "demo_newer = demo_message \<lparr> pm_id := 3, pm_at_ms := 9 \<rparr>"

definition demo_mailbox :: mailbox where
  "demo_mailbox = \<lparr> mb_new = [(5, message_file demo_prims demo_message)], mb_read = [], mb_notes = [], mb_writable = True \<rparr>"

lemma demo_messages_ok: "push_message_ok demo_message" "push_message_ok demo_newer"
proof -
  have "subject_new ''s'' = Inr ''s''" by (simp add: subject_new_def max_subject_def trim_plain char_between_def)
  then show "push_message_ok demo_message" "push_message_ok demo_newer"
    by (simp_all add: push_message_ok_def demo_message_def demo_newer_def push_body_new_def max_push_body_def in_i64_def
        i64_min_def i64_max_def)
qed

lemma demo_filed: "file_message demo_prims (message_file demo_prims demo_message) = Some demo_message"
  by (rule file_message_file) (simp_all add: demo_messages_ok)

lemma demo_mailbox_ok: "mailbox_ok demo_prims demo_mailbox"
  by (simp add: mailbox_ok_def demo_mailbox_def files_ok_def demo_filed) (simp add: demo_message_def)

lemma demo_load: "load_dir demo_prims (mb_new demo_mailbox) = [demo_message]"
  by (simp add: load_dir_eq demo_mailbox_def demo_filed)

theorem mailbox_keeps_newest_witness:
  "\<exists>out mb'. mailbox_store demo_prims (0, 0) [demo_newer, demo_message] demo_mailbox = (Inr out, mb')
     \<and> sb_ids out = [3, 5] \<and> load_dir demo_prims (mb_new mb') = [demo_message, demo_newer]"
proof -
  let ?u = "by_time (load_dir demo_prims (mb_new demo_mailbox) @ fresh_of (held_ids demo_mailbox) [demo_newer, demo_message])"
  have "fresh_of (held_ids demo_mailbox) [demo_newer, demo_message] = [demo_newer]"
    by (simp add: demo_mailbox_def demo_newer_def demo_message_def)
  then have u: "?u = [demo_message, demo_newer]"
    by (simp add: demo_load) (simp add: demo_newer_def demo_message_def)
  have l: "length (mb_new demo_mailbox) \<le> 256" and w: "mb_writable demo_mailbox" by (simp_all add: demo_mailbox_def)
  have ok: "\<forall>m \<in> set [demo_newer, demo_message]. push_message_ok m" by (simp add: demo_messages_ok)
  from mailbox_keeps_newest[OF demo_prims_laws(1,3) demo_compact demo_mailbox_ok w ok l refl, of "(0, 0)"] u show ?thesis
    by (fastforce simp: demo_newer_def demo_message_def)
qed

definition demo_caller_state :: caller_state where
  "demo_caller_state = \<lparr> cs_home = \<lparr> ch_home = demo_home, ch_view = Absent, ch_network = None, ch_writable = True \<rparr>, cs_shared = [] \<rparr>"

definition demo_round :: inbox_round where
  "demo_round = \<lparr> io_left = None, io_now = 500, io_refresher = (\<lambda>st. (Inl No_directory, st)), io_order = (\<lambda>hs. hs),
     io_conns = (\<lambda>_. []), io_others = (\<lambda>s. s), io_readers = (\<lambda>_ mb. mb), io_over = True \<rparr>"

definition demo_fetcher :: inbox_fetcher where
  "demo_fetcher = \<lparr> if_me = 7, if_root = 1, if_token = ''01.02.09'' \<rparr>"

lemma demo_round_ok: "\<forall>r \<in> set [demo_round]. round_ok demo_prims (if_root demo_fetcher) (if_me demo_fetcher) r"
  by (auto simp: round_ok_def demo_round_def refresher_ok_def acts_on_def intro!: exI[of _ "[]"])

abbreviation demo_run' :: inbox_run where
  "demo_run' \<equiv> inbox_read_loop demo_prims \<lparr> ia_wait = True, ia_json = False \<rparr> demo_fetcher [demo_round] (demo_caller_state, demo_mailbox)"

lemma demo_inbox_printed: "ib_printed demo_run' = [demo_message] \<and> ib_end demo_run' = Some (Inr 0)"
proof -
  have m: "mark_read (pm_id demo_message) demo_mailbox
      = (True, \<lparr> mb_new = [], mb_read = [(5, message_file demo_prims demo_message)], mb_notes = [], mb_writable = True \<rparr>)"
    by (simp add: mark_read_def demo_mailbox_def demo_message_def bm_del_def)
  have n: "take_notes demo_mailbox = ([], demo_mailbox)"
    by (simp add: take_notes_def demo_mailbox_def map_filter_simps bm_retain_def)
  have "\<exists>mb. take_unread demo_prims (\<lambda>_ mb. mb) demo_mailbox = ([demo_message], mb)"
    by (simp add: take_unread_def demo_load m)
  then obtain mb where t: "take_unread demo_prims (\<lambda>_ mb. mb) demo_mailbox = ([demo_message], mb)" by blast
  have "inbox_targets demo_prims demo_fetcher 500 rf demo_caller_state = None" for rf
    by (simp add: inbox_targets_def demo_caller_state_def view_read_def)
  then show ?thesis using n t by (simp add: inbox_fetch_round_def demo_round_def)
qed



lemma store_one:
  "mb_writable mb \<Longrightarrow> \<exists>out' mb'. store_each P [m] out mb = (Inr out', mb') \<and> mb_writable mb'"
  by (cases "mb_holds mb (pm_id m)") (simp_all add: Let_def)

lemma evict_each_writable: "evict_each is n mb = (k, mb') \<Longrightarrow> mb_writable mb' = mb_writable mb"
proof (induction "is" arbitrary: n mb)
  case (Cons i "is")
  obtain ok mb1 where m: "mark_read i mb = (ok, mb1)" by fastforce
  then have "mb_writable mb1 = mb_writable mb" by (auto simp: mark_read_def split: option.splits if_splits)
  then show ?case using Cons m by auto
qed simp

lemma mailbox_store_writes:
  assumes "mb_writable mb"
  shows "\<exists>out mb'. mailbox_store P at [m] mb = (Inr out, mb')"
proof -
  obtain out1 mb1 where s: "store_each P [m] \<lparr> sb_ids = [], sb_fresh = 0, sb_evicted = 0 \<rparr> mb = (Inr out1, mb1)" "mb_writable mb1"
    using store_one[OF assms] by blast
  obtain n mb2 where e: "evict_each (evictions (map (\<lambda>m. (pm_at_ms m, pm_id m)) (load_dir P (mb_new mb1))) max_unread) 0 mb1 = (n, mb2)"
    by fastforce
  have "mb_writable mb2" using evict_each_writable[OF e] s(2) by simp
  then show ?thesis using s(1) e by (simp add: mailbox_store_def Let_def)
qed

lemma demo_stored:
  "\<exists>out mb'. mailbox_store demo_prims (0, 0) [qe_message demo_entry] (demo_mailbox \<lparr> mb_new := [] \<rparr>) = (Inr out, mb')"
proof -
  have "mb_writable (demo_mailbox \<lparr> mb_new := [] \<rparr>)" by (simp add: demo_mailbox_def)
  note w = mailbox_store_writes[OF this]
  show ?thesis by (rule w)
qed


end
