(* ===== verification/Inbox_Output.thy ===== *)
theory Inbox_Output
  imports Inbox_Claims
begin

text \<open>
  How \<open>wires inbox\<close> ends and what a line of its output can hold, with the witnesses of the mailbox.
\<close>

section \<open>Exit codes\<close>

lemma fetch_all_hosts: "fetch_all P me hello wait conns v hs s = (ys, r) \<Longrightarrow> subseq (map fst ys) hs"
proof (induction hs arbitrary: s ys r)
  case (Cons h hs)
  obtain st mb where s: "s = (st, mb)" by (cases s)
  obtain x t v1 st1 mb1 where f: "inbox_fetch_from P me h hello wait 0 (conns h) ((v, st), mb) = (x, t, (v1, st1), mb1)"
    by (metis surj_pair)
  obtain ys2 r2 where a: "fetch_all P me hello wait conns v hs (st1, mb1) = (ys2, r2)" by (metis surj_pair)
  have "ys = (case x of Inr z \<Rightarrow> [(h, z)] | Inl _ \<Rightarrow> []) @ ys2" using Cons.prems s f a by (auto split: prod.splits)
  then show ?case using Cons.IH[OF a] by (cases x) auto
qed (cases s, auto)

lemma all_refused:
  assumes "snd (round_answers targets ys) = Some reason" "subseq (map fst ys) hs" "mset hs = mset targets" "distinct targets"
  shows "targets \<noteq> [] \<and> (\<forall>h \<in> set targets. \<exists>why. (h, Fetched_refused why) \<in> set ys)"
proof -
  let ?rs = "List.map_filter (\<lambda>(h, x). case x of Fetched_refused r \<Rightarrow> Some (h, r) | _ \<Rightarrow> None) ys"
  have t: "targets \<noteq> []" "length ?rs = length targets"
    using assms(1) by (auto simp: round_answers_def Let_def split: if_splits)
  have sub: "subseq (map fst ?rs) (map fst ys)"
    by (induction ys) (auto simp: map_filter_simps split: fetched.splits)
  then have "subseq (map fst ?rs) hs" using assms(2) by (rule subseq_order.order_trans)
  moreover have "length (map fst ?rs) = length hs" using t(2) mset_eq_length[OF assms(3)] by simp
  ultimately have "map fst ?rs = hs" by (rule subseq_same_length)
  then have "set (map fst ?rs) = set targets" using mset_eq_setD[OF assms(3)] by simp
  moreover have "\<exists>why. (h, Fetched_refused why) \<in> set ys" if "h \<in> set (map fst ?rs)" for h
    using that by (auto simp: map_filter_def split: fetched.splits)
  ultimately show ?thesis using t(1) by blast
qed

lemma distinct_add_missing: "distinct ds \<Longrightarrow> distinct (add_missing es ds)"
  unfolding add_missing_def by (induction es arbitrary: ds) auto

lemma distinct_hosts_of: "distinct (hosts_of v names)"
proof -
  have "distinct out \<Longrightarrow> distinct (fold (\<lambda>name. add_missing (g name)) names out)" for out g
    by (induction names arbitrary: out) (auto simp: distinct_add_missing)
  then show ?thesis by (simp add: hosts_of_def)
qed


section \<open>A line\<close>

definition second_byte :: "char \<Rightarrow> bool" where
  "second_byte c \<longleftrightarrow> char_between 128 159 c"

lemma has_control_append:
  assumes "\<not> has_control xs" "\<not> has_control ys"
    and "xs = [] \<or> ys = [] \<or> of_char (List.last xs) \<noteq> (194 :: nat) \<or> \<not> second_byte (hd ys)"
  shows "\<not> has_control (xs @ ys)"
  using assms
proof (induction xs)
  case (Cons c xs)
  then show ?case by (cases xs; cases ys) (auto simp: second_byte_def)
qed simp

lemma has_control_prefix: "\<not> has_control (xs @ ys) \<Longrightarrow> \<not> has_control xs"
proof (induction xs)
  case (Cons c xs)
  then show ?case by (cases xs) auto
qed simp

text \<open>Printable ASCII: no control character, and nothing that could begin or end one.\<close>

definition plain :: "string \<Rightarrow> bool" where
  "plain s \<longleftrightarrow> list_all (char_between 32 126) s"

lemma plain_simps [simp]: "plain []" "plain (c # s) \<longleftrightarrow> char_between 32 126 c \<and> plain s" "plain (s @ t) \<longleftrightarrow> plain s \<and> plain t"
  by (auto simp: plain_def)

lemma plain_no_control: "plain s \<Longrightarrow> \<not> has_control s"
  by (induction s) (auto simp: char_between_def)

lemma plain_before: "plain xs \<Longrightarrow> \<not> has_control ys \<Longrightarrow> \<not> has_control (xs @ ys)"
proof (rule has_control_append)
  assume p: "plain xs"
  then show "xs = [] \<or> ys = [] \<or> of_char (List.last xs) \<noteq> (194 :: nat) \<or> \<not> second_byte (hd ys)"
    by (cases xs rule: rev_cases) (auto simp: char_between_def)
qed (use plain_no_control in auto)

lemma plain_after: "\<not> has_control xs \<Longrightarrow> plain ys \<Longrightarrow> \<not> has_control (xs @ ys)"
  by (rule has_control_append) (auto simp: plain_no_control second_byte_def char_between_def neq_Nil_conv)

lemma hex_digit_plain: "n < 16 \<Longrightarrow> char_between 32 126 (''0123456789abcdef'' ! n)"
proof -
  have "list_all (char_between 32 126) ''0123456789abcdef''" by code_simp
  then show "n < 16 \<Longrightarrow> ?thesis" by (simp add: list_all_length)
qed

lemma dec_digit_plain: "n < 10 \<Longrightarrow> char_between 32 126 (''0123456789'' ! n)"
proof -
  have "list_all (char_between 32 126) ''0123456789''" by code_simp
  then show "n < 10 \<Longrightarrow> ?thesis" by (simp add: list_all_length)
qed

lemma plain_dec_digits: "plain (dec_digits n)"
proof (induction n rule: dec_digits.induct)
  case (1 n)
  then show ?case using dec_digit_plain[of "n mod 10"] by (subst dec_digits.simps) simp
qed

lemma plain_chars: "char_between 32 126 (CHR ''-'')" "char_between 32 126 (CHR ''0'')" "char_between 32 126 (CHR '' '')"
  "char_between 32 126 (CHR '':'')" "char_between 32 126 (CHR ''Z'')"
  by code_simp+

lemma plain_utc: "plain (utc ms)"
proof -
  have "plain (padded w n)" for w n
    using plain_dec_digits plain_chars by (auto simp: padded_def Let_def plain_def list_all_iff)
  then show ?thesis using plain_chars by (simp add: utc_def Let_def split: prod.split)
qed

lemma plain_escape: "n < 160 \<Longrightarrow> plain (escape_control n)"
proof -
  have c: "list_all (char_between 32 126) [CHR 0x5C, CHR ''t'', CHR ''n'', CHR ''r'', CHR ''u'', CHR ''{'', CHR ''}'']" by code_simp
  assume "n < 160"
  then have "n div 16 < 16" "n mod 16 < 16" by auto
  then have "char_between 32 126 (''0123456789abcdef'' ! (n div 16))" "char_between 32 126 (''0123456789abcdef'' ! (n mod 16))"
    using hex_digit_plain by blast+
  moreover define h where "h = ''0123456789abcdef''"
  ultimately show ?thesis using c unfolding escape_control_def h_def[symmetric] by simp
qed

lemma escape_head: "\<exists>t. escape_control n = CHR 0x5C # t"
  by (auto simp: escape_control_def)

lemma one_line_head: "one_line (d # s) = [] \<or> hd (one_line (d # s)) = d \<or> hd (one_line (d # s)) = CHR 0x5C"
proof (cases s)
  case Nil
  then show ?thesis using escape_head[of "of_char d"] by auto
next
  case (Cons e t)
  then show ?thesis using escape_head[of "of_char d"] escape_head[of "of_char e"] by auto
qed

lemma one_line_plain: "\<not> has_control (one_line s)"
proof (induction s rule: one_line.induct)
  case (2 c)
  have "ascii_control c \<Longrightarrow> of_char c < (160 :: nat)" by (auto simp: ascii_control_def char_between_def)
  then show ?case using plain_no_control[OF plain_escape] by (auto simp: ascii_control_def)
next
  case (3 c d s)
  have bs: "\<not> second_byte (CHR 0x5C)" by code_simp
  consider "ascii_control c" | "\<not> ascii_control c" "of_char c = (194 :: nat) \<and> char_between 128 159 d"
    | "\<not> ascii_control c" "\<not> (of_char c = (194 :: nat) \<and> char_between 128 159 d)" by blast
  then show ?case
  proof cases
    case 1
    then have "of_char c < (160 :: nat)" by (auto simp: ascii_control_def char_between_def)
    then show ?thesis using 1 3(1) plain_before[OF plain_escape] by simp
  next
    case 2
    then have "of_char d < (160 :: nat)" by (auto simp: char_between_def)
    then show ?thesis using 2 3(2) plain_before[OF plain_escape] by simp
  next
    case not: 3
    have "of_char c \<noteq> (194 :: nat) \<or> one_line (d # s) = [] \<or> \<not> second_byte (hd (one_line (d # s)))"
      using not(2) one_line_head[of d s] bs by (auto simp: second_byte_def)
    moreover have "\<not> has_control [c]" using not(1) by (simp add: ascii_control_def)
    ultimately have "\<not> has_control ([c] @ one_line (d # s))" using 3(3) not by (intro has_control_append) auto
    moreover have "one_line (c # d # s) = [c] @ one_line (d # s)"
      by (simp only: one_line.simps not if_False append.simps)
    ultimately show ?thesis by simp
  qed
qed simp

lemma trim_front_keeps:
  "\<forall>w \<in> set ws. c \<notin> set w \<Longrightarrow> \<exists>zs. trim_front ws (xs @ c # ys) = zs @ c # ys"
proof (induction ws "xs @ c # ys" arbitrary: xs rule: trim_front.induct)
  case (1 ws)
  show ?case
  proof (cases "List.find (\<lambda>w. w \<noteq> [] \<and> prefix w (xs @ c # ys)) ws")
    case None
    then show ?thesis by (subst trim_front.simps) auto
  next
    case (Some w)
    then have w: "w \<in> set ws" "prefix w (xs @ c # ys)" by (auto simp: find_Some_iff)
    then have "prefix w xs" using 1(2) by (auto simp: prefix_append prefix_Cons)
    then obtain vs where "xs = w @ vs" by (auto simp: prefix_def)
    then have "drop (length w) (xs @ c # ys) = vs @ c # ys" by simp
    then show ?thesis using 1(1)[OF Some, of vs] 1(2) Some by (subst trim_front.simps) simp
  qed
qed

lemma trim_front_suffix: "\<exists>zs. s = zs @ trim_front ws s"
proof (induction ws s rule: trim_front.induct)
  case (1 ws s)
  show ?case
  proof (cases "List.find (\<lambda>w. w \<noteq> [] \<and> prefix w s) ws")
    case None
    then show ?thesis by (subst trim_front.simps) auto
  next
    case (Some w)
    then have "s = w @ drop (length w) s" by (auto simp: find_Some_iff prefix_def)
    moreover obtain zs where "drop (length w) s = zs @ trim_front ws (drop (length w) s)" using 1[OF Some] by blast
    ultimately have "s = (w @ zs) @ trim_front ws (drop (length w) s)" by simp
    moreover have "trim_front ws s = trim_front ws (drop (length w) s)" using Some by (subst trim_front.simps) simp
    ultimately show ?thesis by metis
  qed
qed

lemma trim_end_prefix: "\<exists>zs. s = trim_end s @ zs"
proof -
  obtain zs where "rev s = zs @ trim_front (map rev white_space) (rev s)" using trim_front_suffix by blast
  then have "s = rev (zs @ trim_front (map rev white_space) (rev s))" by (metis rev_rev_ident)
  then show ?thesis by (auto simp: trim_end_def)
qed

lemma trim_end_keeps: "c \<notin> set (concat white_space) \<Longrightarrow> prefix (xs @ [c]) (trim_end (xs @ [c] @ ys))"
proof -
  assume c: "c \<notin> set (concat white_space)"
  obtain zs where "trim_front (map rev white_space) (rev ys @ c # rev xs) = zs @ c # rev xs"
    using trim_front_keeps[of "map rev white_space" c "rev ys" "rev xs"] c by auto
  then show ?thesis by (simp add: trim_end_def)
qed

lemma hex_alphabet_plain: "c \<in> set hex_alphabet \<Longrightarrow> char_between 32 126 c"
proof -
  have "list_all (char_between 32 126) hex_alphabet" by code_simp
  then show "c \<in> set hex_alphabet \<Longrightarrow> ?thesis" by (simp add: list_all_iff)
qed

lemma has_control_spaces:
  "\<not> has_control s \<Longrightarrow> \<not> has_control t \<Longrightarrow> \<not> has_control (''  '' @ s @ ''  '' @ t)"
proof -
  assume a: "\<not> has_control s" "\<not> has_control t"
  have p: "plain ''  ''" by code_simp
  have "\<not> has_control (s @ ''  '' @ t)"
    using a plain_before[OF p a(2)] by (intro has_control_append) (auto simp: second_byte_def char_between_def)
  then show ?thesis using plain_before[OF p] by blast
qed

text \<open>
  C15: what a host pushes cannot forge a line. Whatever subject and body a message has, the line printed
  for it is one line without a control character, so no newline, carriage return or escape sequence
  reaches the terminal, and it begins with the time and the short id of the key that the connection
  verified, in that form.
\<close>

theorem inbox_line_plain:
  assumes "hex_law P"
  shows "\<not> has_control (inbox_line P m)
    \<and> prefix (utc (pm_at_ms m) @ ''  from host '' @ id_short P (pm_from m) @ '' (verified)'') (inbox_line P m)"
proof
  let ?body = "''  '' @ one_line (pm_subject m) @ ''  '' @ one_line (pm_body m)"
  let ?start = "utc (pm_at_ms m) @ ''  from host '' @ id_short P (pm_from m) @ '' (verified''"
  have line: "inbox_line P m = trim_end (?start @ [CHR '')''] @ ?body)" by (simp add: inbox_line_def)
  have "plain (id_short P (pm_from m))"
    using assms set_lower_hex hex_alphabet_plain by (fastforce simp: id_short_def hex_law_def plain_def list_all_iff)
  moreover have fixed: "plain ''  from host ''" "plain '' (verified''" "plain [CHR '')'']" "plain ''  ''" by (simp_all add: plain_def, code_simp+)
  ultimately have "plain (?start @ [CHR '')''])" using plain_utc by (simp only: plain_simps(3) simp_thms)
  then have "\<not> has_control ((?start @ [CHR '')'']) @ ?body)"
    using has_control_spaces[OF one_line_plain one_line_plain] by (rule plain_before)
  then show "\<not> has_control (inbox_line P m)"
    using trim_end_prefix[of "?start @ [CHR '')''] @ ?body"] has_control_prefix unfolding line by (metis append.assoc)
  have "list_all (\<lambda>w. list_all (\<lambda>c. of_char c \<noteq> (41 :: nat)) w) white_space" by (simp add: white_space_def)
  moreover have "of_char (CHR '')'') = (41 :: nat)" by simp
  ultimately have "CHR '')'' \<notin> set (concat white_space)" by (force simp: list_all_iff)
  then show "prefix (utc (pm_at_ms m) @ ''  from host '' @ id_short P (pm_from m) @ '' (verified)'') (inbox_line P m)"
    using trim_end_keeps[of "CHR '')''" ?start ?body] unfolding line by simp
qed


theorem inbox_line_plain_witness:
  "CHR 0x0A \<in> set (pm_body demo_message) \<and> \<not> has_control (inbox_line demo_prims demo_message)"
  using inbox_line_plain[OF demo_prims_laws(3), of demo_message] by (simp add: demo_message_def)

end
