(* ===== verification/Spec2Isabelle.thy ===== *)
theory Spec2Isabelle
  imports Inbox_Frames Push_Capability Caller_Directories Call_Claims Follow_Claims Inbox_Claims Inbox_Output
begin

text \<open>
  \<^bold>\<open>wires\<close>: services on private machines, called by people who sign in at an identity provider. There is
  no server in the middle. An admin's root key signs one policy (who is removed, which roles exist and
  which identities they match, which services run on which hosts, which nodes are directories); hosts and
  directories keep it, directories hand a caller the part that concerns it and say, with short-lived
  signed words, which version is current; a caller sends a host its ID token only under such a word, and
  the host decides alone from its copy of the policy. This development models the Rust sources under
  \<open>src/library\<close> (the types, their encodings, the rules) and \<open>src/wires\<close> (directory, host, caller, admin).

  \<^bold>\<open>How the theories follow the code.\<close>
  \<^item> Foundations. \<open>Wires_Prelude\<close>: results, Rust strings and integers. \<open>Ordered_Maps\<close>, \<open>Json_Value\<close>:
    \<open>BTreeMap\<close>/\<open>BTreeSet\<close> as sorted lists, \<open>serde_json\<close> values and the shape of derived decoders; the locale
    \<open>json_type\<close> is the contract of a type with a codec, interpreted once for each type.
    \<open>Wires_Codec\<close>: \<open>codec.rs\<close>, \<open>error.rs\<close> and the record \<open>prims\<close> of the crates used.
  \<^item> \<open>library/network\<close>, \<open>library/services\<close>: \<open>Node_Identity\<close>, \<open>Role_Match\<close>, \<open>Service_Registry\<close>,
    \<open>Policy_Keys\<close>, \<open>Policy_Item\<close>, \<open>Policy_Head\<close>, \<open>Signed_Policy\<close>, \<open>Policy_Signing\<close>, \<open>Access_Rules\<close>
    (admission, \<open>authorize\<close>, views), \<open>Freshness_Words\<close>, \<open>Network_String\<close>.
  \<^item> \<open>library/calls\<close>, \<open>library/directory\<close>: \<open>Idp_Claim\<close> (ID tokens), \<open>Host_Proof\<close>, \<open>Session_Frames\<close>,
    \<open>Inbox_Frames\<close>, \<open>Directory_Frames\<close>; \<open>Framed_Json\<close> is the locale of a stream of length-prefixed frames,
    and \<open>Decoded_Types\<close> shows that what a decoder returns satisfies its Rust type.
  \<^item> \<open>wires/policy\<close>: \<open>Policy_Store\<close> (\<open>policy.json\<close>; the locale \<open>ratchet\<close> is state that only moves forward),
    \<open>Policy_Fetch\<close> and \<open>Fetch_Claims\<close> (fetching from the directories, publishing to them with retries, what
    an edit reports: \<open>admin/propagate.rs\<close>).
  \<^item> \<open>wires/directory\<close>: \<open>Directory_Wire\<close>, \<open>Directory_Node\<close>, \<open>Directory_Serve\<close>, with \<open>Directory_Rules\<close>,
    \<open>Directory_Claims\<close>, \<open>Directory_Service\<close>.
  \<^item> \<open>wires/host\<close>: \<open>Host_Config\<close>, \<open>Key_Fetcher\<close> (\<open>caller/jwks.rs\<close>), \<open>Host_Gate\<close> and \<open>Host_Decisions\<close> (every
    decision about a caller), \<open>Session_Wire\<close>, \<open>Host_Session\<close>, \<open>Session_Rules\<close>, \<open>Session_Demo\<close>,
    \<open>Session_Claims\<close> (\<open>transport.rs\<close>), \<open>Push_Queue\<close>, \<open>Push_Host\<close>, \<open>Push_Capability\<close> (\<open>push.rs\<close>,
    \<open>capability.rs\<close>, \<open>control.rs\<close>), \<open>Host_Follow\<close>, \<open>Follow_Rules\<close>, \<open>Follow_Claims\<close> (\<open>follow.rs\<close>).
  \<^item> \<open>wires/caller\<close>: \<open>Caller_View\<close>, \<open>Caller_Vouch\<close>, \<open>Caller_Session\<close>, \<open>Caller_Rules\<close>, \<open>Caller_Claims\<close>,
    \<open>Caller_Directories\<close> (\<open>view.rs\<close>, \<open>vouch.rs\<close>, \<open>pick.rs\<close>, \<open>call.rs\<close>), \<open>Session_Calls\<close> (a caller's call
    against a host's session), \<open>Caller_Shape\<close>, \<open>Caller_Calls\<close>, \<open>Call_Claims\<close> (\<open>wires call\<close> as a whole),
    \<open>Caller_Mailbox\<close>, \<open>Caller_Inbox\<close>, \<open>Inbox_Rules\<close>, \<open>Inbox_Loop\<close>, \<open>Inbox_Claims\<close>, \<open>Inbox_Output\<close>
    (\<open>wires inbox\<close>).
  \<open>Demo_Primitives\<close> and \<open>Session_Demo\<close> hold the concrete network the witnesses run on.

  \<^bold>\<open>State and operations.\<close> A struct is a record, an enum a datatype, a method a function that returns the
  new state beside its result; an error is \<open>Inl\<close>. Files of the keystore are fields (\<open>home\<close>, \<open>caller_home\<close>,
  \<open>key_files\<close>, \<open>mailbox\<close>) and a home may not take writes. Ids, versions, signatures and counters that are
  machine words are words; \<open>i64\<close> times are integers clamped where the code saturates. A text is the list of
  its UTF-8 bytes. Where other tasks or processes run between two steps of an operation, what they do is
  an argument, and the theorems quantify over it.

  \<^bold>\<open>What the groups of lemmas show.\<close>
  \<^item> Authenticity: a policy, an entry, a view or a word that verifies is one the root (a directory) signed;
    signing a valid policy verifies and reads back.
  \<^item> Access: the gate admits exactly whom the policy allows; a view shows exactly what \<open>authorize\<close> grants;
    a call runs only for such a caller, with the environment and the log line that say so.
  \<^item> Forward only: no store, view, directory, host or follower takes an older policy than it had.
  \<^item> Telling: a caller's token goes only to vouched directories and hosts; what a call returns is what the
    service did; 77 means that the host, or every host, refused.
  \<^item> Delivery: an edit is reported in force only when it is; a follower reaches the newest policy; a push is
    neither lost nor doubled between the host's queue and the caller's mailbox, and is shown once.
  \<^item> Codecs, bounds and texts: streams read back frame by frame; caches, queues and outputs keep their
    limits; a pushed text cannot forge a line.

  \<^bold>\<open>Parameters and laws.\<close> \<open>prims\<close> holds Ed25519, BLAKE3, hex, base64 and the JSON printer and parser of the
  crates; \<open>ring\<close>'s signature checks, the HTTP client, the jq interpreter, the service a host runs and what
  peers answer are arguments too. Laws are named hypotheses: \<open>json_law\<close>, \<open>hex_law\<close>, \<open>b64_law\<close>,
  \<open>compact_law\<close> (round trips and compact output of the printers), \<open>ed25519_law\<close> (what one signs verifies),
  and, where a property needs it, \<open>unforgeable\<close> and \<open>second_preimage_hard\<close> relative to what was signed or
  hashed. Every property with a hypothesis has a witness at a concrete instance.

  \<^bold>\<open>Loops and bounds.\<close> Loops over input are structural or have a measure. A loop that may run on takes the
  list of the rounds, beats or connections it lives to see, and its result says that it still runs when
  they end; the publish's retry loop is a partial function, proved to end within its budget. No fuel is
  hidden: where a list of rounds is too short the theorem says what is then known.

  \<^bold>\<open>Not modelled.\<close> QUIC and HTTP transport, sockets, timers and file permissions (I/O); argument parsing, help
  and log texts; browser sign-in (\<open>login.rs\<close>), the MCP server (\<open>mcp.rs\<close>) and the web gateway, which are
  JSON or HTTP in front of the operations modelled here; address hints of \<open>pick.rs\<close>; the host's start-up;
  bindings, tests and examples. The admin's edits are modelled from the signed policy on (signing,
  publishing), not the commands that change it. Concurrency is modelled where the code has shared state, at the
  granularity of its locks and atomic renames, not of its executor.
\<close>

end
